(* ===== verification/Prelude.thy ===== *)
theory Prelude
  imports Main "HOL-Library.Word" "HOL-Library.Monad_Syntax"
begin

text \<open>
  Shared vocabulary of the development: the machine types of the C++ sources, the
  collections of rewrite rules the component proofs draw on, and the generic facts on
  words, lists, options and maps that more than one component needs.

  \<^item> \<open>uint8_t\<close>, \<open>uint16_t\<close>, \<open>uint32_t\<close>, \<open>uint64_t\<close> and
    \<open>size_t\<close> are words of their width where the code can wrap around;
  \<^item> \<open>std::string\<close> is \<^typ>\<open>string\<close>, a raw byte buffer is a list of
    \<open>u8\<close>;
  \<^item> \<open>model_defs\<close> collects the definitions of the executable model that a proof
    unfolds, \<open>invariants\<close> the preservation lemmas.
\<close>

unbundle bit_operations_syntax

named_theorems model_defs \<open>definitions of the executable model, for unfolding\<close>
named_theorems invariants \<open>invariant preservation, one lemma per operation\<close>

type_synonym u8 = "8 word"
type_synonym u16 = "16 word"
type_synonym u32 = "32 word"
type_synonym u64 = "64 word"
type_synonym size_t = "64 word"
type_synonym Timestamp = "64 word"
type_synonym TimeDuration = "64 word"

section \<open>How a C++ operation can go wrong\<close>

text \<open>
  An operation that the C++ standard gives no meaning to, that trips an \<open>assert\<close> or that
  throws is a value of the model: \<open>Inl\<close> of one of these faults. \<open>OutOfFuel\<close> is a
  loop that was given too little fuel by the model.
\<close>

datatype cpp_fault = UndefinedBehaviour | AssertFailed | ThrowsException | OutOfFuel

text \<open>Sequencing: go on with the value, stop at the first fault.\<close>

fun bindE :: "'e + 'a \<Rightarrow> ('a \<Rightarrow> 'e + 'b) \<Rightarrow> 'e + 'b" where
  "bindE (Inl e) f = Inl e"
| "bindE (Inr x) f = f x"

lemma bindE_Inr_iff: "bindE m f = Inr y \<longleftrightarrow> (\<exists>x. m = Inr x \<and> f x = Inr y)"
  by (cases m) auto

lemma bindE_assoc: "bindE (bindE m f) g = bindE m (\<lambda>x. bindE (f x) g)"
  by (cases m) auto

text \<open>\<open>assert(b)\<close> before going on.\<close>

definition assertE :: "bool \<Rightarrow> (cpp_fault + 'a) \<Rightarrow> cpp_fault + 'a" where
  "assertE b m = (if b then m else Inl AssertFailed)"

lemma assertE_simps [simp]:
  "assertE True m = m" "assertE False m = Inl AssertFailed"
  by (simp_all add: assertE_def)

section \<open>Words\<close>

lemma bit_less_exp:
  fixes x :: "'a::len word"
  assumes "x < 2 ^ k" and "bit x n"
  shows "n < k"
proof -
  have "take_bit k x = x"
    using assms(1) by (simp add: take_bit_eq_mask less_mask_eq)
  with assms(2) have "bit (take_bit k x) n" by simp
  then show ?thesis by (simp add: bit_take_bit_iff)
qed

section \<open>Lists and maps\<close>

lemma map_of_None_iff [simp]: "map_of xs k = None \<longleftrightarrow> k \<notin> fst ` set xs"
  by (simp add: map_of_eq_None_iff)

lemma distinct_map_same:
  "distinct (map f xs) \<Longrightarrow> x \<in> set xs \<Longrightarrow> y \<in> set xs \<Longrightarrow> f x = f y \<Longrightarrow> x = y"
  by (auto simp: distinct_map dest: inj_onD)

lemma nth_list_update_if:
  "i < length xs \<Longrightarrow> (xs[j := v]) ! i = (if i = j then v else xs ! i)"
  by (simp add: nth_list_update)

lemma take_list_update_append:
  "i + length ys \<le> length xs \<Longrightarrow>
   length (take i xs @ ys @ drop (i + length ys) xs) = length xs"
  by simp

lemma erase_nth_set:
  assumes "distinct xs" "i < length xs"
  shows "set (take i xs @ drop (Suc i) xs) = set xs - {xs ! i}" "distinct (take i xs @ drop (Suc i) xs)"
proof -
  have xs: "xs = take i xs @ xs ! i # drop (Suc i) xs" using assms(2) by (rule id_take_nth_drop)
  then have d: "distinct (take i xs @ xs ! i # drop (Suc i) xs)" using assms(1) by metis
  then show "distinct (take i xs @ drop (Suc i) xs)" by simp
  have "set xs = set (take i xs @ xs ! i # drop (Suc i) xs)" using xs by metis
  then show "set (take i xs @ drop (Suc i) xs) = set xs - {xs ! i}" using d by auto
qed

end
