(* ===== verification/Containers.thy ===== *)
theory Containers
  imports Prelude
begin

text \<open>
  The third-party containers the sources build on: \<open>tbb::concurrent_hash_map\<close> and
  \<open>tbb::concurrent_bounded_queue\<close> of oneTBB and \<open>absl::flat_hash_map\<close> of Abseil.
  None of them is part of the repository, so each is a record of operations that the
  model takes as an argument, and a locale states what their documentation promises. The
  locales are interpreted on association lists and on lists with a bound, which also
  shows that the promises can be kept and gives the concrete containers the examples run
  on.
\<close>

section \<open>Key-value containers\<close>

text \<open>What both hash maps share: lookup, iteration over the keys, the number of entries.\<close>

locale kv_container =
  fixes kv_new :: "'h"
    and kv_find :: "'h \<Rightarrow> 'k \<Rightarrow> 'v option"
    and kv_keys :: "'h \<Rightarrow> 'k list"
    and kv_size :: "'h \<Rightarrow> nat"
  assumes find_new [simp]: "kv_find kv_new k = None"
    and keys_find: "set (kv_keys h) = {k. kv_find h k \<noteq> None}"
    and keys_distinct: "distinct (kv_keys h)"
    and size_keys: "kv_size h = length (kv_keys h)"
begin

lemma finite_find: "finite {k. kv_find h k \<noteq> None}"
  using keys_find [of h] by (metis finite_set)

lemma keys_member: "k \<in> set (kv_keys h) \<longleftrightarrow> (\<exists>v. kv_find h k = Some v)"
  using keys_find [of h] by auto

lemma size_card: "kv_size h = card {k. kv_find h k \<noteq> None}"
  by (metis distinct_card keys_distinct keys_find size_keys)

lemma size_new: "kv_size kv_new = 0"
  by (simp add: size_card)

lemma size_upd_new:
  assumes "kv_find h k = None" and "kv_find h' = (kv_find h)(k \<mapsto> v)"
  shows "kv_size h' = Suc (kv_size h)"
proof -
  have "{k. kv_find h' k \<noteq> None} = insert k {k. kv_find h k \<noteq> None}"
    using assms(2) by auto
  then show ?thesis
    using assms(1) finite_find [of h] by (simp add: size_card)
qed

lemma size_upd_old:
  assumes "kv_find h k \<noteq> None" and "kv_find h' = (kv_find h)(k \<mapsto> v)"
  shows "kv_size h' = kv_size h"
proof -
  have "{k. kv_find h' k \<noteq> None} = {k. kv_find h k \<noteq> None}"
    using assms by auto
  then show ?thesis by (simp add: size_card)
qed

lemma size_del:
  assumes "kv_find h k \<noteq> None" and "kv_find h' = (kv_find h)(k := None)"
  shows "Suc (kv_size h') = kv_size h"
proof -
  have "{k. kv_find h' k \<noteq> None} = {k. kv_find h k \<noteq> None} - {k}"
    using assms(2) by auto
  then show ?thesis
    using assms(1) finite_find [of h]
    by (metis (mono_tags, lifting) card_Suc_Diff1 mem_Collect_eq size_card)
qed

lemma size_eq_length:
  assumes "distinct xs" and "set xs = {k. kv_find h k \<noteq> None}"
  shows "kv_size h = length xs"
  using assms distinct_card [of xs] by (simp add: size_card)

end

section \<open>oneTBB: the concurrent hash map\<close>

text \<open>
  \<open>insert(accessor, kv)\<close> is true if it added the pair; either way the accessor then
  points at the element with that key. \<open>erase(key)\<close> is true if it removed one.
\<close>

record ('h, 'k, 'v) tbb_hash_map =
  tbb_new :: 'h
  tbb_insert :: "'h \<Rightarrow> 'k \<Rightarrow> 'v \<Rightarrow> bool \<times> 'h"
  tbb_find :: "'h \<Rightarrow> 'k \<Rightarrow> 'v option"
  tbb_erase :: "'h \<Rightarrow> 'k \<Rightarrow> bool \<times> 'h"
  tbb_keys :: "'h \<Rightarrow> 'k list"
  tbb_size :: "'h \<Rightarrow> nat"

locale concurrent_hash_map =
  kv_container "tbb_new M" "tbb_find M" "tbb_keys M" "tbb_size M"
  for M :: "('h, 'k, 'v) tbb_hash_map" +
  assumes insert_true: "fst (tbb_insert M h k v) \<longleftrightarrow> tbb_find M h k = None"
    and find_insert: "tbb_find M (snd (tbb_insert M h k v)) =
          (if tbb_find M h k = None then (tbb_find M h)(k \<mapsto> v) else tbb_find M h)"
    and erase_true: "fst (tbb_erase M h k) \<longleftrightarrow> tbb_find M h k \<noteq> None"
    and find_erase: "tbb_find M (snd (tbb_erase M h k)) = (tbb_find M h)(k := None)"

section \<open>Abseil: the flat hash map\<close>

record ('h, 'k, 'v) flat_map =
  fm_new :: 'h
  fm_find :: "'h \<Rightarrow> 'k \<Rightarrow> 'v option"
  fm_put :: "'h \<Rightarrow> 'k \<Rightarrow> 'v \<Rightarrow> 'h"
  fm_erase :: "'h \<Rightarrow> 'k \<Rightarrow> 'h"
  fm_keys :: "'h \<Rightarrow> 'k list"
  fm_size :: "'h \<Rightarrow> nat"

locale flat_hash_map =
  kv_container "fm_new F" "fm_find F" "fm_keys F" "fm_size F"
  for F :: "('h, 'k, 'v) flat_map" +
  assumes find_put [simp]: "fm_find F (fm_put F h k v) = (fm_find F h)(k \<mapsto> v)"
    and find_fm_erase [simp]: "fm_find F (fm_erase F h k) = (fm_find F h)(k := None)"

text \<open>
  \<open>m[k]\<close> of a map: the entry of \<open>k\<close>, which is first created with a
  value-initialised \<open>d\<close> if there is none.
\<close>

definition fm_index :: "('h, 'k, 'v) flat_map \<Rightarrow> 'v \<Rightarrow> 'h \<Rightarrow> 'k \<Rightarrow> 'h \<times> 'v" where
  "fm_index F d h k =
     (case fm_find F h k of None \<Rightarrow> (fm_put F h k d, d) | Some v \<Rightarrow> (h, v))"

definition fm_contains :: "('h, 'k, 'v) flat_map \<Rightarrow> 'h \<Rightarrow> 'k \<Rightarrow> bool" where
  "fm_contains F h k \<longleftrightarrow> fm_find F h k \<noteq> None"

section \<open>oneTBB: the bounded queue\<close>

text \<open>
  \<open>try_push\<close> fails when the queue holds \<open>capacity\<close> elements, \<open>try_pop\<close> when it
  is empty; neither blocks.
\<close>

record ('q, 'a) tbb_bounded_queue =
  bq_new :: "nat \<Rightarrow> 'q"
  bq_try_push :: "'q \<Rightarrow> 'a \<Rightarrow> bool \<times> 'q"
  bq_try_pop :: "'q \<Rightarrow> 'a option \<times> 'q"
  bq_size :: "'q \<Rightarrow> nat"

locale bounded_queue =
  fixes B :: "('q, 'a) tbb_bounded_queue"
    and contents :: "'q \<Rightarrow> 'a list"
    and bq_capacity :: "'q \<Rightarrow> nat"
  assumes contents_new [simp]: "contents (bq_new B n) = []"
    and capacity_new [simp]: "bq_capacity (bq_new B n) = n"
    and push_true: "fst (bq_try_push B q x) \<longleftrightarrow> length (contents q) < bq_capacity q"
    and contents_push: "contents (snd (bq_try_push B q x)) =
          (if length (contents q) < bq_capacity q then contents q @ [x] else contents q)"
    and capacity_push: "bq_capacity (snd (bq_try_push B q x)) = bq_capacity q"
    and pop_result: "fst (bq_try_pop B q) = (case contents q of [] \<Rightarrow> None | x # _ \<Rightarrow> Some x)"
    and contents_pop: "contents (snd (bq_try_pop B q)) = tl (contents q)"
    and capacity_pop: "bq_capacity (snd (bq_try_pop B q)) = bq_capacity q"
    and size_contents [simp]: "bq_size B q = length (contents q)"

section \<open>Concrete containers\<close>

text \<open>An association list in which the first entry of a key counts.\<close>

definition al_keys :: "('k \<times> 'v) list \<Rightarrow> 'k list" where
  "al_keys h = remdups (map fst h)"

definition al_erase :: "('k \<times> 'v) list \<Rightarrow> 'k \<Rightarrow> ('k \<times> 'v) list" where
  "al_erase h k = filter (\<lambda>(k', _). k' \<noteq> k) h"

definition al_tbb :: "(('k \<times> 'v) list, 'k, 'v) tbb_hash_map" where
  "al_tbb =
     \<lparr>tbb_new = [],
      tbb_insert = (\<lambda>h k v. if map_of h k = None then (True, (k, v) # h) else (False, h)),
      tbb_find = map_of,
      tbb_erase = (\<lambda>h k. (map_of h k \<noteq> None, al_erase h k)),
      tbb_keys = al_keys,
      tbb_size = (\<lambda>h. length (al_keys h))\<rparr>"

definition al_flat :: "(('k \<times> 'v) list, 'k, 'v) flat_map" where
  "al_flat =
     \<lparr>fm_new = [],
      fm_find = map_of,
      fm_put = (\<lambda>h k v. (k, v) # h),
      fm_erase = al_erase,
      fm_keys = al_keys,
      fm_size = (\<lambda>h. length (al_keys h))\<rparr>"

lemma map_of_al_erase: "map_of (al_erase h k) = (map_of h)(k := None)"
  by (induction h) (auto simp: al_erase_def fun_eq_iff)

lemma set_al_keys: "set (al_keys h) = {k. map_of h k \<noteq> None}"
  by (auto simp: al_keys_def map_of_eq_None_iff)

interpretation al_tbb: concurrent_hash_map "al_tbb :: (('k \<times> 'v) list, 'k, 'v) tbb_hash_map"
proof unfold_locales
  show "set (tbb_keys al_tbb h) = {k. tbb_find al_tbb h k \<noteq> None}" for h :: "('k \<times> 'v) list"
    by (simp only: al_tbb_def tbb_hash_map.simps set_al_keys)
  show "distinct (tbb_keys al_tbb h)" for h :: "('k \<times> 'v) list"
    by (simp add: al_tbb_def al_keys_def)
qed (auto simp: al_tbb_def map_of_al_erase)

interpretation al_flat: flat_hash_map "al_flat :: (('k \<times> 'v) list, 'k, 'v) flat_map"
proof unfold_locales
  show "set (fm_keys al_flat h) = {k. fm_find al_flat h k \<noteq> None}" for h :: "('k \<times> 'v) list"
    by (simp only: al_flat_def flat_map.simps set_al_keys)
  show "distinct (fm_keys al_flat h)" for h :: "('k \<times> 'v) list"
    by (simp add: al_flat_def al_keys_def)
qed (auto simp: al_flat_def map_of_al_erase fun_eq_iff)

text \<open>A list with the bound it was created with.\<close>

definition list_bq :: "(nat \<times> 'a list, 'a) tbb_bounded_queue" where
  "list_bq =
     \<lparr>bq_new = (\<lambda>n. (n, [])),
      bq_try_push = (\<lambda>(n, xs) x. if length xs < n then (True, n, xs @ [x]) else (False, n, xs)),
      bq_try_pop = (\<lambda>(n, xs). (case xs of [] \<Rightarrow> None | x # _ \<Rightarrow> Some x, n, tl xs)),
      bq_size = (\<lambda>(n, xs). length xs)\<rparr>"

interpretation list_bq: bounded_queue "list_bq :: (nat \<times> 'a list, 'a) tbb_bounded_queue" snd fst
  by unfold_locales (auto simp: list_bq_def split: list.splits if_splits)

end
