(* ===== verification/Lru_Cache.thy ===== *)
theory Lru_Cache
  imports Containers
begin

text \<open>
  The least-recently-used cache of cc/core/common/lru_cache/src/lru_cache.h: a hash map
  from keys to a list iterator and a value, and the list of keys, freshest first. A list
  node has an identity, so that an iterator is the identity of its node; a
  value-initialised iterator is singular, \<open>None\<close>. The abstract cache is the list of
  pairs, freshest first, cut at the capacity.
\<close>

section \<open>State and operations\<close>

record ('h, 'k) lru_cache =
  lru_capacity :: nat
  lru_data :: 'h
  freshness_list :: "(nat \<times> 'k) list"
  lru_next_node :: nat

definition LruCache ::
  "('h, 'k, nat option \<times> 'v) flat_map \<Rightarrow> nat \<Rightarrow> ('h, 'k) lru_cache" where
  "LruCache F capacity =
     \<lparr>lru_capacity = capacity, lru_data = fm_new F, freshness_list = [], lru_next_node = 0\<rparr>"

text \<open>\<open>list::erase(it)\<close> has no meaning unless \<open>it\<close> is an iterator of the list.\<close>

definition list_erase :: "(nat \<times> 'k) list \<Rightarrow> nat option \<Rightarrow> cpp_fault + (nat \<times> 'k) list" where
  "list_erase xs it =
     (case it of
        None \<Rightarrow> Inl UndefinedBehaviour
      | Some n \<Rightarrow> if n \<in> fst ` set xs then Inr (filter (\<lambda>p. fst p \<noteq> n) xs)
                  else Inl UndefinedBehaviour)"

text \<open>\<open>--end()\<close>, the dereference and \<open>pop_back\<close> have no meaning on an empty list.\<close>

definition LruCache_Evict ::
  "('h, 'k, nat option \<times> 'v) flat_map \<Rightarrow> ('h, 'k) lru_cache \<Rightarrow> cpp_fault + ('h, 'k) lru_cache"
  where
  "LruCache_Evict F c =
     (if freshness_list c = [] then Inl UndefinedBehaviour
      else Inr (c\<lparr>lru_data := fm_erase F (lru_data c) (snd (last (freshness_list c))),
                  freshness_list := butlast (freshness_list c)\<rparr>))"

definition LruCache_Unlink ::
  "('h, 'k, nat option \<times> 'v) flat_map \<Rightarrow> 'v \<Rightarrow> ('h, 'k) lru_cache \<Rightarrow> 'k \<Rightarrow>
   cpp_fault + ('h, 'k) lru_cache" where
  "LruCache_Unlink F dv c key =
     (let (d, existing_element) = fm_index F (None, dv) (lru_data c) key
      in bindE (list_erase (freshness_list c) (fst existing_element))
           (\<lambda>fl. Inr (c\<lparr>lru_data := d, freshness_list := fl\<rparr>)))"

definition LruCache_PushFront ::
  "('h, 'k, nat option \<times> 'v) flat_map \<Rightarrow> ('h, 'k) lru_cache \<Rightarrow> 'k \<Rightarrow> 'v \<Rightarrow> ('h, 'k) lru_cache" where
  "LruCache_PushFront F c key value =
     c\<lparr>freshness_list := (lru_next_node c, key) # freshness_list c,
       lru_data := fm_put F (lru_data c) key (Some (lru_next_node c), value),
       lru_next_node := Suc (lru_next_node c)\<rparr>"

definition LruCache_InternalSet ::
  "('h, 'k, nat option \<times> 'v) flat_map \<Rightarrow> 'v \<Rightarrow> ('h, 'k) lru_cache \<Rightarrow> 'k \<Rightarrow> 'v \<Rightarrow>
   cpp_fault + ('h, 'k) lru_cache" where
  "LruCache_InternalSet F dv c key value =
     bindE (if \<not> fm_contains F (lru_data c) key \<and> fm_size F (lru_data c) = lru_capacity c
            then LruCache_Evict F c else Inr c)
       (\<lambda>c1. bindE (if fm_contains F (lru_data c1) key then LruCache_Unlink F dv c1 key else Inr c1)
          (\<lambda>c2. Inr (LruCache_PushFront F c2 key value)))"

definition LruCache_Set ::
  "('h, 'k, nat option \<times> 'v) flat_map \<Rightarrow> 'v \<Rightarrow> ('h, 'k) lru_cache \<Rightarrow> 'k \<Rightarrow> 'v \<Rightarrow>
   cpp_fault + ('h, 'k) lru_cache" where
  "LruCache_Set F dv c key value = LruCache_InternalSet F dv c key value"

definition LruCache_Get ::
  "('h, 'k, nat option \<times> 'v) flat_map \<Rightarrow> 'v \<Rightarrow> ('h, 'k) lru_cache \<Rightarrow> 'k \<Rightarrow>
   cpp_fault + 'v \<times> ('h, 'k) lru_cache" where
  "LruCache_Get F dv c key =
     (let (d, existing_element) = fm_index F (None, dv) (lru_data c) key;
          value = snd existing_element
      in bindE (LruCache_InternalSet F dv (c\<lparr>lru_data := d\<rparr>) key value)
           (\<lambda>c1. let (d1, e1) = fm_index F (None, dv) (lru_data c1) key
                 in Inr (snd e1, c1\<lparr>lru_data := d1\<rparr>)))"

definition LruCache_Size ::
  "('h, 'k, nat option \<times> 'v) flat_map \<Rightarrow> ('h, 'k) lru_cache \<Rightarrow> nat" where
  "LruCache_Size F c = fm_size F (lru_data c)"

definition LruCache_Capacity :: "('h, 'k) lru_cache \<Rightarrow> nat" where
  "LruCache_Capacity c = lru_capacity c"

definition LruCache_Contains ::
  "('h, 'k, nat option \<times> 'v) flat_map \<Rightarrow> ('h, 'k) lru_cache \<Rightarrow> 'k \<Rightarrow> bool" where
  "LruCache_Contains F c key \<longleftrightarrow> fm_contains F (lru_data c) key"

definition LruCache_Clear ::
  "('h, 'k, nat option \<times> 'v) flat_map \<Rightarrow> ('h, 'k) lru_cache \<Rightarrow> ('h, 'k) lru_cache" where
  "LruCache_Clear F c = c\<lparr>lru_data := fm_new F, freshness_list := []\<rparr>"

text \<open>The copy \<open>GetAll\<close> makes, a loop over the entries of the hash map.\<close>

definition LruCache_GetAll ::
  "('h, 'k, nat option \<times> 'v) flat_map \<Rightarrow> ('h, 'k) lru_cache \<Rightarrow> ('k \<rightharpoonup> 'v)" where
  "LruCache_GetAll F c =
     fold (\<lambda>k r. case fm_find F (lru_data c) k of None \<Rightarrow> r | Some (_, v) \<Rightarrow> r(k \<mapsto> v))
       (fm_keys F (lru_data c)) Map.empty"

section \<open>The abstract cache\<close>

definition lru_spec_set :: "nat \<Rightarrow> 'k \<Rightarrow> 'v \<Rightarrow> ('k \<times> 'v) list \<Rightarrow> ('k \<times> 'v) list" where
  "lru_spec_set cap k v xs = take cap ((k, v) # filter (\<lambda>p. fst p \<noteq> k) xs)"

text \<open>
  What the code keeps true between its two containers: the entry of a listed key points
  back at its node, and no other key has an entry.
\<close>

definition lru_linked ::
  "('h, 'k, nat option \<times> 'v) flat_map \<Rightarrow> 'h \<Rightarrow> nat \<times> 'k \<Rightarrow> bool" where
  "lru_linked F h p \<longleftrightarrow> map_option fst (fm_find F h (snd p)) = Some (Some (fst p))"

definition lru_inv ::
  "('h, 'k, nat option \<times> 'v) flat_map \<Rightarrow> ('h, 'k) lru_cache \<Rightarrow> bool" where
  "lru_inv F c \<longleftrightarrow>
     0 < lru_capacity c \<and>
     length (freshness_list c) \<le> lru_capacity c \<and>
     distinct (map fst (freshness_list c)) \<and>
     distinct (map snd (freshness_list c)) \<and>
     (\<forall>p \<in> set (freshness_list c). fst p < lru_next_node c \<and> lru_linked F (lru_data c) p) \<and>
     (\<forall>k. k \<notin> snd ` set (freshness_list c) \<longrightarrow> fm_find F (lru_data c) k = None)"

definition lru_value ::
  "('h, 'k, nat option \<times> 'v) flat_map \<Rightarrow> 'v \<Rightarrow> 'h \<Rightarrow> 'k \<Rightarrow> 'v" where
  "lru_value F dv h k = (case fm_find F h k of None \<Rightarrow> dv | Some (_, v) \<Rightarrow> v)"

definition lru_abs ::
  "('h, 'k, nat option \<times> 'v) flat_map \<Rightarrow> 'v \<Rightarrow> ('h, 'k) lru_cache \<Rightarrow> ('k \<times> 'v) list" where
  "lru_abs F dv c = map (\<lambda>p. (snd p, lru_value F dv (lru_data c) (snd p))) (freshness_list c)"

lemma length_lru_abs [simp]: "length (lru_abs F dv c) = length (freshness_list c)"
  by (simp add: lru_abs_def)

section \<open>Runs\<close>

text \<open>
  A client sets a pair, or looks a key up the way the callers of the cache do: \<open>Get\<close>
  only after \<open>Contains\<close>.
\<close>

datatype ('k, 'v) lru_op = OpSet 'k 'v | OpLookup 'k

fun lru_step ::
  "('h, 'k, nat option \<times> 'v) flat_map \<Rightarrow> 'v \<Rightarrow> ('h, 'k) lru_cache \<Rightarrow> ('k, 'v) lru_op \<Rightarrow>
   cpp_fault + 'v option \<times> ('h, 'k) lru_cache" where
  "lru_step F dv c (OpSet k v) = bindE (LruCache_Set F dv c k v) (\<lambda>c'. Inr (None, c'))"
| "lru_step F dv c (OpLookup k) =
     (if LruCache_Contains F c k
      then bindE (LruCache_Get F dv c k) (\<lambda>(v, c'). Inr (Some v, c'))
      else Inr (None, c))"

fun lru_run ::
  "('h, 'k, nat option \<times> 'v) flat_map \<Rightarrow> 'v \<Rightarrow> ('h, 'k) lru_cache \<Rightarrow> ('k, 'v) lru_op list \<Rightarrow>
   cpp_fault + 'v option list \<times> ('h, 'k) lru_cache" where
  "lru_run F dv c [] = Inr ([], c)"
| "lru_run F dv c (x # xs) =
     bindE (lru_step F dv c x)
       (\<lambda>(r, c'). bindE (lru_run F dv c' xs) (\<lambda>(rs, c''). Inr (r # rs, c'')))"

fun lru_spec_step ::
  "nat \<Rightarrow> ('k \<times> 'v) list \<Rightarrow> ('k, 'v) lru_op \<Rightarrow> 'v option \<times> ('k \<times> 'v) list" where
  "lru_spec_step cap xs (OpSet k v) = (None, lru_spec_set cap k v xs)"
| "lru_spec_step cap xs (OpLookup k) =
     (case map_of xs k of
        None \<Rightarrow> (None, xs)
      | Some v \<Rightarrow> (Some v, lru_spec_set cap k v xs))"

fun lru_spec_run ::
  "nat \<Rightarrow> ('k \<times> 'v) list \<Rightarrow> ('k, 'v) lru_op list \<Rightarrow> 'v option list \<times> ('k \<times> 'v) list" where
  "lru_spec_run cap s [] = ([], s)"
| "lru_spec_run cap s (x # xs) =
     (let (r, s1) = lru_spec_step cap s x; (rs, s2) = lru_spec_run cap s1 xs in (r # rs, s2))"

section \<open>Correctness\<close>

text \<open>The state in which the key is about to be put at the front.\<close>

definition lru_ready ::
  "('h, 'k, nat option \<times> 'v) flat_map \<Rightarrow> ('h, 'k) lru_cache \<Rightarrow> 'k \<Rightarrow> bool" where
  "lru_ready F c key \<longleftrightarrow>
     length (freshness_list c) < lru_capacity c \<and>
     distinct (map fst (freshness_list c)) \<and>
     distinct (map snd (freshness_list c)) \<and>
     key \<notin> snd ` set (freshness_list c) \<and>
     (\<forall>p \<in> set (freshness_list c). fst p < lru_next_node c \<and> lru_linked F (lru_data c) p) \<and>
     (\<forall>k. k \<noteq> key \<and> k \<notin> snd ` set (freshness_list c) \<longrightarrow> fm_find F (lru_data c) k = None)"

locale lru_map = flat_hash_map F
  for F :: "('h, 'k, nat option \<times> 'v) flat_map"
begin

lemma lru_inv_contains:
  "lru_inv F c \<Longrightarrow> fm_contains F (lru_data c) k \<longleftrightarrow> k \<in> snd ` set (freshness_list c)"
  by (auto simp: lru_inv_def lru_linked_def fm_contains_def)

lemma lru_inv_size: "lru_inv F c \<Longrightarrow> fm_size F (lru_data c) = length (freshness_list c)"
proof -
  assume inv: "lru_inv F c"
  have "set (map snd (freshness_list c)) = {k. fm_find F (lru_data c) k \<noteq> None}"
    using lru_inv_contains [OF inv] by (auto simp: fm_contains_def)
  moreover have "distinct (map snd (freshness_list c))"
    using inv by (simp add: lru_inv_def)
  ultimately show ?thesis
    using size_eq_length [of "map snd (freshness_list c)"] by simp
qed

lemma ready_push_front:
  assumes "lru_ready F c key"
  shows "lru_inv F (LruCache_PushFront F c key value)"
    and "lru_abs F dv (LruCache_PushFront F c key value) = (key, value) # lru_abs F dv c"
proof -
  show "lru_inv F (LruCache_PushFront F c key value)"
    using assms
    by (auto simp: lru_inv_def lru_ready_def LruCache_PushFront_def lru_linked_def)
  have "snd p \<noteq> key" if "p \<in> set (freshness_list c)" for p
    using assms that by (auto simp: lru_ready_def)
  then show "lru_abs F dv (LruCache_PushFront F c key value) = (key, value) # lru_abs F dv c"
    by (simp add: lru_abs_def LruCache_PushFront_def lru_value_def)
qed

lemma evict:
  assumes inv: "lru_inv F c" and new: "\<not> fm_contains F (lru_data c) key"
    and full: "fm_size F (lru_data c) = lru_capacity c"
  obtains c' where "LruCache_Evict F c = Inr c'" "lru_ready F c' key"
    "lru_capacity c' = lru_capacity c" "lru_abs F dv c' = butlast (lru_abs F dv c)"
    "fm_find F (lru_data c') key = None"
proof -
  obtain ys n k where fl: "freshness_list c = ys @ [(n, k)]"
    using inv full lru_inv_size [OF inv]
    by (cases "freshness_list c" rule: rev_cases) (auto simp: lru_inv_def)
  let ?c = "c\<lparr>lru_data := fm_erase F (lru_data c) k, freshness_list := ys\<rparr>"
  have other: "snd p \<noteq> k" if "p \<in> set ys" for p
    using inv that fl by (auto simp: lru_inv_def)
  have key: "key \<notin> snd ` set (ys @ [(n, k)])" "fm_find F (lru_data c) key = None"
    using new inv lru_inv_contains [OF inv, of key] fl by (auto simp: fm_contains_def)
  show ?thesis
  proof
    show "LruCache_Evict F c = Inr ?c" by (simp add: LruCache_Evict_def fl)
    show "lru_ready F ?c key"
      using inv fl other key by (auto simp: lru_inv_def lru_ready_def lru_linked_def)
    show "lru_abs F dv ?c = butlast (lru_abs F dv c)"
      using other by (simp add: lru_abs_def fl butlast_append lru_value_def)
  qed (use key in simp_all)
qed

lemma unlink:
  assumes inv: "lru_inv F c" and old: "fm_contains F (lru_data c) key"
  obtains c' where "LruCache_Unlink F dv c key = Inr c'" "lru_ready F c' key"
    "lru_capacity c' = lru_capacity c"
    "lru_abs F dv c' = filter (\<lambda>p. fst p \<noteq> key) (lru_abs F dv c)"
proof -
  obtain n where mem: "(n, key) \<in> set (freshness_list c)"
    using old lru_inv_contains [OF inv] by auto
  then obtain v where find: "fm_find F (lru_data c) key = Some (Some n, v)"
    using inv by (auto simp: lru_inv_def lru_linked_def)
  let ?fl = "filter (\<lambda>p. snd p \<noteq> key) (freshness_list c)"
  let ?c = "c\<lparr>freshness_list := ?fl\<rparr>"
  have same: "fst p = n \<longleftrightarrow> snd p = key" if "p \<in> set (freshness_list c)" for p
    using inv that mem distinct_map_same [of fst "freshness_list c" p "(n, key)"]
      distinct_map_same [of snd "freshness_list c" p "(n, key)"]
    by (cases p) (auto simp: lru_inv_def)
  then have eq: "filter (\<lambda>p. fst p \<noteq> n) (freshness_list c) = ?fl"
    by (intro filter_cong) auto
  have len: "length ?fl < length (freshness_list c)"
    by (rule length_filter_less [OF mem]) simp
  show ?thesis
  proof
    have "n \<in> fst ` set (freshness_list c)" using mem by force
    then show "LruCache_Unlink F dv c key = Inr ?c"
      by (simp add: LruCache_Unlink_def fm_index_def find list_erase_def eq)
    have "snd ` set ?fl = snd ` set (freshness_list c) - {key}" by auto
    then show "lru_ready F ?c key"
      using inv len by (simp add: lru_inv_def lru_ready_def distinct_map_filter del: set_filter) auto
    show "lru_abs F dv ?c = filter (\<lambda>p. fst p \<noteq> key) (lru_abs F dv c)"
      by (simp add: lru_abs_def filter_map comp_def)
  qed simp
qed

lemma inv_ready:
  assumes "lru_inv F c" "\<not> fm_contains F (lru_data c) key"
    and "fm_size F (lru_data c) \<noteq> lru_capacity c"
  shows "lru_ready F c key"
  using assms lru_inv_size [of c] lru_inv_contains [of c key]
  by (auto simp: lru_inv_def lru_ready_def)

lemma abs_facts:
  assumes "lru_inv F c"
  shows "length (lru_abs F dv c) = fm_size F (lru_data c)"
    and "length (lru_abs F dv c) \<le> lru_capacity c"
    and "fst ` set (lru_abs F dv c) = {k. fm_contains F (lru_data c) k}"
  using assms lru_inv_size [OF assms] lru_inv_contains [OF assms]
  by (simp_all add: lru_abs_def lru_inv_def image_image)

lemma internal_set:
  assumes inv: "lru_inv F c"
  obtains c' where "LruCache_InternalSet F dv c key value = Inr c'" "lru_inv F c'"
    "lru_capacity c' = lru_capacity c"
    "lru_abs F dv c' = lru_spec_set (lru_capacity c) key value (lru_abs F dv c)"
proof (cases "fm_contains F (lru_data c) key")
  case True
  obtain c2 where c2: "LruCache_Unlink F dv c key = Inr c2" "lru_ready F c2 key"
    "lru_capacity c2 = lru_capacity c"
    "lru_abs F dv c2 = filter (\<lambda>p. fst p \<noteq> key) (lru_abs F dv c)"
    using unlink [OF inv True] by metis
  have "length (lru_abs F dv c2) < lru_capacity c"
    using c2(2,3) by (simp add: lru_ready_def)
  then have "lru_spec_set (lru_capacity c) key value (lru_abs F dv c) = (key, value) # lru_abs F dv c2"
    using c2(4) by (simp add: lru_spec_set_def take_Cons')
  moreover have "LruCache_InternalSet F dv c key value = Inr (LruCache_PushFront F c2 key value)"
    using True c2(1) by (simp add: LruCache_InternalSet_def)
  ultimately show ?thesis
    using that c2(3) ready_push_front [OF c2(2)] by (simp add: LruCache_PushFront_def)
next
  case new: False
  then have keep: "filter (\<lambda>p. fst p \<noteq> key) (lru_abs F dv c) = lru_abs F dv c"
    using abs_facts(3) [OF inv] by (intro filter_True) auto
  show ?thesis
  proof (cases "fm_size F (lru_data c) = lru_capacity c")
    case True
    obtain c1 where c1: "LruCache_Evict F c = Inr c1" "lru_ready F c1 key"
      "lru_capacity c1 = lru_capacity c" "lru_abs F dv c1 = butlast (lru_abs F dv c)"
      "fm_find F (lru_data c1) key = None"
      using evict [OF inv new True] by metis
    have "butlast (lru_abs F dv c) = take (lru_capacity c - 1) (lru_abs F dv c)"
      using abs_facts(1) [OF inv] True by (simp add: butlast_conv_take)
    moreover have "0 < lru_capacity c" using inv by (simp add: lru_inv_def)
    ultimately have "lru_spec_set (lru_capacity c) key value (lru_abs F dv c)
        = (key, value) # lru_abs F dv c1"
      using c1(4) keep by (simp add: lru_spec_set_def take_Cons')
    moreover have "LruCache_InternalSet F dv c key value = Inr (LruCache_PushFront F c1 key value)"
      using new True c1(1,5) by (simp add: LruCache_InternalSet_def fm_contains_def)
    ultimately show ?thesis
      using that c1(3) ready_push_front [OF c1(2)] by (simp add: LruCache_PushFront_def)
  next
    case False
    note ready = inv_ready [OF inv new False]
    have "length (lru_abs F dv c) < lru_capacity c"
      using ready by (simp add: lru_ready_def)
    then have "lru_spec_set (lru_capacity c) key value (lru_abs F dv c)
        = (key, value) # lru_abs F dv c"
      using keep by (simp add: lru_spec_set_def take_Cons')
    moreover have "LruCache_InternalSet F dv c key value = Inr (LruCache_PushFront F c key value)"
      using new False by (simp add: LruCache_InternalSet_def)
    ultimately show ?thesis
      using that ready_push_front [OF ready] by (simp add: LruCache_PushFront_def)
  qed
qed

lemma get_hit:
  assumes inv: "lru_inv F c" and hit: "fm_contains F (lru_data c) key"
  obtains c' where
    "LruCache_Get F dv c key = Inr (lru_value F dv (lru_data c) key, c')" "lru_inv F c'"
    "lru_capacity c' = lru_capacity c"
    "lru_abs F dv c' =
       lru_spec_set (lru_capacity c) key (lru_value F dv (lru_data c) key) (lru_abs F dv c)"
proof -
  obtain it v where find: "fm_find F (lru_data c) key = Some (it, v)"
    using hit by (auto simp: fm_contains_def)
  obtain c' where c': "LruCache_InternalSet F dv c key v = Inr c'" "lru_inv F c'"
    "lru_capacity c' = lru_capacity c"
    "lru_abs F dv c' = lru_spec_set (lru_capacity c) key v (lru_abs F dv c)"
    using internal_set [OF inv] by metis
  have "0 < lru_capacity c" using inv by (simp add: lru_inv_def)
  then have "(key, v) \<in> set (lru_abs F dv c')"
    using c'(4) by (cases "lru_capacity c") (simp_all add: lru_spec_set_def)
  then have "key \<in> snd ` set (freshness_list c')" "lru_value F dv (lru_data c') key = v"
    by (auto simp: lru_abs_def)
  then obtain it' where "fm_find F (lru_data c') key = Some (it', v)"
    using lru_inv_contains [OF c'(2), of key]
    by (auto simp: fm_contains_def lru_value_def)
  then have "LruCache_Get F dv c key = Inr (v, c')"
    using find c'(1) by (simp add: LruCache_Get_def fm_index_def)
  then show ?thesis
    using that c' find by (simp add: lru_value_def)
qed

lemma abs_lookup:
  assumes inv: "lru_inv F c"
  shows "map_of (lru_abs F dv c) k = map_option snd (fm_find F (lru_data c) k)"
proof (cases "fm_contains F (lru_data c) k")
  case True
  then have "(k, lru_value F dv (lru_data c) k) \<in> set (lru_abs F dv c)"
    using lru_inv_contains [OF inv] by (auto simp: lru_abs_def)
  moreover have "distinct (map fst (lru_abs F dv c))"
    using inv by (simp add: lru_inv_def lru_abs_def comp_def)
  ultimately show ?thesis
    using True by (auto simp: lru_value_def fm_contains_def)
next
  case False
  then have "fm_find F (lru_data c) k = None" "k \<notin> fst ` set (lru_abs F dv c)"
    using abs_facts(3) [OF inv, of dv] by (auto simp: fm_contains_def simp del: not_None_eq)
  then show ?thesis by (simp add: map_of_eq_None_iff)
qed

lemma new_inv:
  "0 < cap \<Longrightarrow> lru_inv F (LruCache F cap)" "lru_abs F dv (LruCache F cap) = []"
  "lru_capacity (LruCache F cap) = cap"
  by (simp_all add: lru_inv_def LruCache_def lru_abs_def)

lemma clear_inv:
  "lru_inv F c \<Longrightarrow> lru_inv F (LruCache_Clear F c)" "lru_abs F dv (LruCache_Clear F c) = []"
  by (simp_all add: lru_inv_def LruCache_Clear_def lru_abs_def)

lemma step_refines:
  assumes inv: "lru_inv F c"
  obtains r c' where "lru_step F dv c x = Inr (r, c')" "lru_inv F c'"
    "lru_capacity c' = lru_capacity c"
    "lru_spec_step (lru_capacity c) (lru_abs F dv c) x = (r, lru_abs F dv c')"
proof (cases x)
  case (OpSet k v)
  obtain c' where "LruCache_InternalSet F dv c k v = Inr c'" "lru_inv F c'"
    "lru_capacity c' = lru_capacity c"
    "lru_abs F dv c' = lru_spec_set (lru_capacity c) k v (lru_abs F dv c)"
    using internal_set [OF inv] by metis
  then show ?thesis
    using that OpSet by (simp add: LruCache_Set_def)
next
  case (OpLookup k)
  show ?thesis
  proof (cases "fm_contains F (lru_data c) k")
    case True
    then have "map_of (lru_abs F dv c) k = Some (lru_value F dv (lru_data c) k)"
      using abs_lookup [OF inv, of dv k] by (auto simp: fm_contains_def lru_value_def)
    moreover obtain c' where "lru_inv F c'" "lru_capacity c' = lru_capacity c"
      "LruCache_Get F dv c k = Inr (lru_value F dv (lru_data c) k, c')"
      "lru_abs F dv c' =
         lru_spec_set (lru_capacity c) k (lru_value F dv (lru_data c) k) (lru_abs F dv c)"
      using get_hit [OF inv True] by metis
    ultimately show ?thesis
      using that True OpLookup by (simp add: LruCache_Contains_def)
  next
    case False
    then show ?thesis
      using that OpLookup inv abs_lookup [OF inv, of dv k]
      by (simp add: LruCache_Contains_def fm_contains_def del: not_None_eq)
  qed
qed

lemma run_refines:
  assumes "lru_inv F c"
  shows "\<exists>rs c'. lru_run F dv c xs = Inr (rs, c') \<and> lru_inv F c' \<and>
           lru_capacity c' = lru_capacity c \<and>
           lru_spec_run (lru_capacity c) (lru_abs F dv c) xs = (rs, lru_abs F dv c')"
  using assms
proof (induction xs arbitrary: c)
  case (Cons x xs)
  obtain r c1 where 1: "lru_step F dv c x = Inr (r, c1)" "lru_inv F c1"
    "lru_capacity c1 = lru_capacity c"
    "lru_spec_step (lru_capacity c) (lru_abs F dv c) x = (r, lru_abs F dv c1)"
    using step_refines [OF Cons.prems] by metis
  then show ?case
    using Cons.IH [OF 1(2)] by auto
qed simp

lemma get_all:
  assumes "lru_inv F c"
  shows "LruCache_GetAll F c = map_of (lru_abs F dv c)"
proof -
  let ?f = "fm_find F (lru_data c)"
  have "fold (\<lambda>k r. case ?f k of None \<Rightarrow> r | Some (_, v) \<Rightarrow> r(k \<mapsto> v)) ks m =
      (\<lambda>k. if k \<in> set ks \<and> ?f k \<noteq> None then map_option snd (?f k) else m k)" for ks m
    by (induction ks arbitrary: m) (auto simp: fun_eq_iff split: option.splits)
  then show ?thesis
    using abs_lookup [OF assms, of dv] keys_find [of "lru_data c"]
    by (auto simp: LruCache_GetAll_def fun_eq_iff simp del: not_None_eq)
qed

lemma get_missing:
  assumes "\<not> fm_contains F (lru_data c) key"
  shows "LruCache_Get F dv c key = Inl UndefinedBehaviour"
  using assms
  by (simp add: LruCache_Get_def LruCache_InternalSet_def LruCache_Unlink_def fm_index_def
      fm_contains_def list_erase_def del: not_None_eq)

end

interpretation al_lru: lru_map "al_flat :: (('k \<times> (nat option \<times> 'v)) list, 'k, nat option \<times> 'v) flat_map"
  by unfold_locales

section \<open>Properties\<close>

abbreviation lru_al :: "((nat \<times> (nat option \<times> nat)) list, nat, nat option \<times> nat) flat_map" where
  "lru_al \<equiv> al_flat"

text \<open>
  C20: Every sequence of \<open>Set\<close> and guarded \<open>Get\<close> calls on a cache of positive capacity
  runs without a fault and returns exactly what the abstract cache returns: the list of
  pairs, freshest first, cut at the capacity. The entry count never exceeds the capacity
  and \<open>GetAll\<close> copies exactly the pairs of the abstract cache.
\<close>

theorem lru_runs_refine:
  assumes "lru_map F" and "0 < cap"
  shows "\<exists>rs c. lru_run F dv (LruCache F cap) ops = Inr (rs, c) \<and>
           lru_spec_run cap [] ops = (rs, lru_abs F dv c) \<and>
           LruCache_Size F c = length (lru_abs F dv c) \<and>
           LruCache_Size F c \<le> LruCache_Capacity c \<and>
           LruCache_GetAll F c = map_of (lru_abs F dv c)"
proof -
  note new = lru_map.new_inv [OF assms(1)]
  obtain rs c where c: "lru_run F dv (LruCache F cap) ops = Inr (rs, c)" "lru_inv F c"
    "lru_capacity c = cap" "lru_spec_run cap [] ops = (rs, lru_abs F dv c)"
    using lru_map.run_refines [OF assms(1) new(1) [OF assms(2)], of dv ops] new(2,3) by metis
  then show ?thesis
    using lru_map.abs_facts [OF assms(1) c(2)] lru_map.get_all [OF assms(1) c(2)]
    by (metis LruCache_Size_def LruCache_Capacity_def)
qed

theorem lru_runs_refine_witness:
  "lru_map lru_al \<and>
   (\<exists>rs c. lru_run lru_al 0 (LruCache lru_al 2)
             [OpSet 1 10, OpSet 2 20, OpLookup 1, OpSet 3 30, OpLookup 2] = Inr (rs, c) \<and>
           rs = [None, None, Some 10, None, None] \<and>
           lru_abs lru_al 0 c = [(3, 30), (1, 10 :: nat)] \<and>
           LruCache_Size lru_al c \<le> LruCache_Capacity (c :: (_, nat) lru_cache))"
  using lru_runs_refine [OF al_lru.lru_map_axioms, of 2 0
      "[OpSet 1 10, OpSet 2 20, OpLookup 1, OpSet 3 30, OpLookup (2 :: nat)]"]
    al_lru.lru_map_axioms
  by (auto simp: lru_spec_set_def)

text \<open>
  \<open>Get\<close> of a key that the cache does not hold is undefined behaviour: \<open>data_[key]\<close>
  creates an entry with a singular iterator, which \<open>InternalSet\<close> then erases from the list.
\<close>

theorem lru_get_missing_faults:
  assumes "lru_map F" and "\<not> LruCache_Contains F c key"
  shows "LruCache_Get F dv c key = Inl UndefinedBehaviour"
  using lru_map.get_missing [OF assms(1)] assms(2) by (simp add: LruCache_Contains_def)

theorem lru_get_missing_faults_witness:
  "\<not> LruCache_Contains lru_al (LruCache lru_al 3) (7 :: nat) \<and>
   LruCache_Get lru_al (0 :: nat) (LruCache lru_al 3) (7 :: nat) = Inl UndefinedBehaviour"
proof -
  have miss: "\<not> LruCache_Contains lru_al (LruCache lru_al 3) (7 :: nat)"
    by code_simp
  show ?thesis
    by (rule conjI [OF miss lru_get_missing_faults [OF al_lru.lru_map_axioms miss]])
qed

end
