(* ===== verification/Proxy_Buffer.thy ===== *)
theory Proxy_Buffer
  imports Prelude
begin

text \<open>
  The scatter-gather buffer of the proxy, cc/aws/proxy/src/buffer.h, and the free list it
  takes its blocks from, cc/aws/proxy/src/freelist.h. The linked list of blocks is the
  list of its blocks with their addresses, in the order of the \<open>next\<close> pointers;
  \<open>head_\<close> is its first address and \<open>nullptr\<close> is \<open>None\<close>. A pointer that is
  dereferenced must be the address of a block of the list, anything else is a fault. The
  operating system's scatter and gather access through the vectors that \<open>Reserve\<close> and
  \<open>Peek\<close> return is modelled too, since the buffer's promise is about these accesses.

  The abstract buffer is two lists of memory cells, the committed data and the spare
  space behind it, with the contents of the cells.
\<close>

section \<open>Blocks and the free list\<close>

type_synonym addr = nat

record block =
  bl_offset :: nat
  bl_len :: nat
  bl_buf :: "u8 list"

type_synonym chain = "(addr \<times> block) list"

text \<open>
  The compile-time block size, whether the n-th allocation succeeds, and the bytes a
  block happens to hold when it is handed out.
\<close>

record buffer_env =
  BlockSize :: nat
  alloc_ok :: "nat \<Rightarrow> bool"
  junk :: "nat \<Rightarrow> nat \<Rightarrow> u8"

text \<open>\<open>sizeof(Block)\<close>: a pointer and two sizes of eight bytes each.\<close>

definition sizeof_Block :: nat where
  "sizeof_Block = 24"

definition Block_capacity :: "buffer_env \<Rightarrow> nat" where
  "Block_capacity env = BlockSize env - sizeof_Block"

definition Block_init :: "buffer_env \<Rightarrow> nat \<Rightarrow> block" where
  "Block_init env n =
     \<lparr>bl_offset = 0, bl_len = 0, bl_buf = map (junk env n) [0..<Block_capacity env]\<rparr>"

definition Block_SpaceLen :: "nat \<Rightarrow> block \<Rightarrow> nat" where
  "Block_SpaceLen cap bl = cap - bl_offset bl - bl_len bl"

definition Block_Commit :: "nat \<Rightarrow> block \<Rightarrow> nat \<Rightarrow> nat \<times> block" where
  "Block_Commit cap bl sz =
     (let space_len = Block_SpaceLen cap bl;
          to_commit = (if sz < space_len then sz else space_len)
      in (sz - to_commit, bl\<lparr>bl_len := bl_len bl + to_commit\<rparr>))"

definition Block_Drain :: "block \<Rightarrow> nat \<Rightarrow> nat \<times> block" where
  "Block_Drain bl sz =
     (let data_len = bl_len bl;
          to_drain = (if data_len < sz then data_len else sz)
      in (sz - to_drain, bl\<lparr>bl_offset := bl_offset bl + to_drain, bl_len := bl_len bl - to_drain\<rparr>))"

text \<open>
  The free list: the chain of free blocks and its atomic counter. \<open>fl_tick\<close> counts the
  calls of \<open>New\<close> and names the next block of the heap.
\<close>

record freelist =
  fl_chain :: "addr list"
  fl_size :: nat
  fl_tick :: nat

definition Freelist :: freelist where
  "Freelist = \<lparr>fl_chain = [], fl_size = 0, fl_tick = 0\<rparr>"

definition Block_Alloc :: "buffer_env \<Rightarrow> freelist \<Rightarrow> (addr \<times> block) option \<times> freelist" where
  "Block_Alloc env fl =
     (let n = fl_tick fl; fl' = fl\<lparr>fl_tick := Suc n\<rparr>
      in if \<not> alloc_ok env n then (None, fl') else (Some (n, Block_init env n), fl'))"

definition Freelist_New :: "buffer_env \<Rightarrow> freelist \<Rightarrow> (addr \<times> block) option \<times> freelist" where
  "Freelist_New env fl =
     (case fl_chain fl of
        [] \<Rightarrow> Block_Alloc env fl
      | old_head # nxt \<Rightarrow>
          (Some (old_head, Block_init env (fl_tick fl)),
           fl\<lparr>fl_chain := nxt, fl_size := fl_size fl - 1, fl_tick := Suc (fl_tick fl)\<rparr>))"

definition Freelist_Delete :: "freelist \<Rightarrow> addr \<Rightarrow> freelist" where
  "Freelist_Delete fl a = fl\<lparr>fl_chain := a # fl_chain fl, fl_size := Suc (fl_size fl)\<rparr>"

definition Freelist_DeleteChain :: "freelist \<Rightarrow> addr list \<Rightarrow> freelist" where
  "Freelist_DeleteChain fl as =
     (if as = [] then fl
      else fl\<lparr>fl_chain := as @ fl_chain fl, fl_size := fl_size fl + length as\<rparr>)"

text \<open>\<open>Clear\<close> empties the list through \<open>New\<close> and frees each block.\<close>

function Freelist_Clear :: "buffer_env \<Rightarrow> freelist \<Rightarrow> freelist" where
  "Freelist_Clear env fl =
     (if fl_chain fl = [] then fl else Freelist_Clear env (snd (Freelist_New env fl)))"
  by auto
termination
  by (relation "measure (\<lambda>(env, fl). length (fl_chain fl))")
    (auto simp: Freelist_New_def split: list.splits)

declare Freelist_Clear.simps [simp del]

text \<open>\<open>FillN\<close> does not check the block it allocates before it writes \<open>next\<close>.\<close>

fun Freelist_FillN :: "buffer_env \<Rightarrow> nat \<Rightarrow> freelist \<Rightarrow> cpp_fault + freelist" where
  "Freelist_FillN env 0 fl = Inr fl"
| "Freelist_FillN env (Suc n) fl =
     (case Block_Alloc env fl of
        (None, _) \<Rightarrow> Inl UndefinedBehaviour
      | (Some (a, _), fl') \<Rightarrow> Freelist_FillN env n (Freelist_Delete fl' a))"

section \<open>The buffer\<close>

record buffer =
  bb_chain :: chain
  bb_end :: "addr option"
  bb_tail :: "addr option"
  bb_freelist :: freelist
  bb_block_cnt :: nat
  bb_data_size :: nat
  bb_reserved :: bool
  bb_peeked :: bool

definition BasicBuffer :: buffer where
  "BasicBuffer =
     \<lparr>bb_chain = [], bb_end = None, bb_tail = None, bb_freelist = Freelist,
      bb_block_cnt = 0, bb_data_size = 0, bb_reserved = False, bb_peeked = False\<rparr>"

text \<open>Where a pointer leads, the block after it, and the list with one block replaced.\<close>

definition deref :: "chain \<Rightarrow> addr option \<Rightarrow> cpp_fault + block" where
  "deref c p =
     (case p of
        None \<Rightarrow> Inl UndefinedBehaviour
      | Some a \<Rightarrow> (case map_of c a of None \<Rightarrow> Inl UndefinedBehaviour | Some bl \<Rightarrow> Inr bl))"

definition first_addr :: "chain \<Rightarrow> addr option" where
  "first_addr c = (case c of [] \<Rightarrow> None | p # _ \<Rightarrow> Some (fst p))"

definition chain_next :: "chain \<Rightarrow> addr \<Rightarrow> addr option" where
  "chain_next c a = first_addr (tl (dropWhile (\<lambda>p. fst p \<noteq> a) c))"

definition chain_set :: "chain \<Rightarrow> addr \<Rightarrow> block \<Rightarrow> chain" where
  "chain_set c a bl = map (\<lambda>p. if fst p = a then (a, bl) else p) c"

definition Buffer_space_size :: "buffer_env \<Rightarrow> buffer \<Rightarrow> nat" where
  "Buffer_space_size env b =
     (case bb_chain b of
        [] \<Rightarrow> 0
      | p # _ \<Rightarrow> bb_block_cnt b * Block_capacity env - bb_data_size b - bl_offset (snd p))"

definition Buffer_data_size :: "buffer \<Rightarrow> nat" where
  "Buffer_data_size b = bb_data_size b"

text \<open>
  \<open>AppendNewBlock\<close> with its default count of one. Without memory the first block trips
  the assertion on \<open>tail_\<close>; a later one leaves \<open>tail_\<close> null. Linking behind a
  \<open>tail_\<close> that is not the last block would cut the list, a fault.
\<close>

definition Buffer_AppendNewBlock :: "buffer_env \<Rightarrow> buffer \<Rightarrow> cpp_fault + buffer" where
  "Buffer_AppendNewBlock env b =
     (let (new, fl) = Freelist_New env (bb_freelist b);
          b' = b\<lparr>bb_freelist := fl, bb_block_cnt := Suc (bb_block_cnt b)\<rparr>
      in if bb_chain b = [] then
           (case new of
              None \<Rightarrow> Inl AssertFailed
            | Some p \<Rightarrow> Inr (b'\<lparr>bb_chain := [p], bb_tail := Some (fst p), bb_end := Some (fst p)\<rparr>))
         else if bb_tail b = None then Inl AssertFailed
         else if bb_tail b \<noteq> Some (fst (last (bb_chain b))) then Inl UndefinedBehaviour
         else
           (case new of
              None \<Rightarrow> Inr (b'\<lparr>bb_tail := None\<rparr>)
            | Some p \<Rightarrow> Inr (b'\<lparr>bb_chain := bb_chain b @ [p], bb_tail := Some (fst p)\<rparr>)))"

text \<open>\<open>SpaceStepper\<close>: its only state is the pointer \<open>block_\<close>.\<close>

definition SpaceStepper :: "buffer_env \<Rightarrow> buffer \<Rightarrow> cpp_fault + addr option" where
  "SpaceStepper env b =
     (case bb_end b of
        None \<Rightarrow> Inr None
      | Some a \<Rightarrow>
          bindE (deref (bb_chain b) (Some a))
            (\<lambda>bl. Inr (if Block_SpaceLen (Block_capacity env) bl = 0
                       then chain_next (bb_chain b) a else Some a)))"

definition SpaceStepper_Next ::
  "buffer_env \<Rightarrow> buffer \<Rightarrow> addr option \<Rightarrow> cpp_fault + addr \<times> addr option \<times> buffer" where
  "SpaceStepper_Next env b blk =
     bindE (if blk = None
            then bindE (Buffer_AppendNewBlock env b) (\<lambda>b'. Inr (bb_tail b', b'))
            else Inr (blk, b))
       (\<lambda>(ret, b'). case ret of
            None \<Rightarrow> Inl UndefinedBehaviour
          | Some a \<Rightarrow> bindE (deref (bb_chain b') ret)
                        (\<lambda>_. Inr (a, chain_next (bb_chain b') a, b')))"

definition SpaceStepper_NumBuffersToReserve :: "buffer_env \<Rightarrow> buffer \<Rightarrow> nat \<Rightarrow> cpp_fault + nat" where
  "SpaceStepper_NumBuffersToReserve env b buffer_size =
     (let cap = Block_capacity env;
          whole = (\<lambda>n. (n + cap - 1) div cap)
      in case bb_end b of
           None \<Rightarrow> Inr (whole buffer_size)
         | Some a \<Rightarrow>
             bindE (deref (bb_chain b) (Some a))
               (\<lambda>bl. let space = Block_SpaceLen cap bl
                     in if space = 0
                        then Inr (1 + whole (buffer_size - (if space < buffer_size then space else buffer_size)))
                        else Inr (whole buffer_size)))"

text \<open>A scatter-gather vector entry: the block, the first index in it, the length.\<close>

type_synonym sysbuf = "addr \<times> nat \<times> nat"

text \<open>
  The loops take fuel. Each round of a loop on a well-formed buffer makes progress by at
  least one byte, so the size given to the operation is enough.
\<close>

fun Buffer_Reserve_loop ::
  "buffer_env \<Rightarrow> nat \<Rightarrow> buffer \<Rightarrow> addr option \<Rightarrow> nat \<Rightarrow> sysbuf list \<Rightarrow> cpp_fault + sysbuf list \<times> buffer"
  where
  "Buffer_Reserve_loop env fuel b blk remaining ret =
     (if remaining = 0 then Inr (ret, b)
      else case fuel of
        0 \<Rightarrow> Inl OutOfFuel
      | Suc fuel' \<Rightarrow>
          bindE (SpaceStepper_Next env b blk) (\<lambda>(a, blk', b').
          bindE (deref (bb_chain b') (Some a)) (\<lambda>bl.
            let space = Block_SpaceLen (Block_capacity env) bl;
                space_len = (if remaining \<ge> space then space else remaining)
            in Buffer_Reserve_loop env fuel' b' blk' (remaining - space_len)
                 (ret @ [(a, bl_offset bl + bl_len bl, space_len)]))))"

definition Buffer_Reserve ::
  "buffer_env \<Rightarrow> buffer \<Rightarrow> nat \<Rightarrow> cpp_fault + sysbuf list \<times> buffer" where
  "Buffer_Reserve env b sz =
     assertE (\<not> bb_reserved b)
       (let b0 = b\<lparr>bb_reserved := True\<rparr>
        in bindE (SpaceStepper env b0) (\<lambda>blk.
           bindE (SpaceStepper_NumBuffersToReserve env b0 sz) (\<lambda>_.
             Buffer_Reserve_loop env sz b0 blk sz [])))"

fun Buffer_ReserveAtLeast_loop ::
  "buffer_env \<Rightarrow> nat \<Rightarrow> buffer \<Rightarrow> addr option \<Rightarrow> nat \<Rightarrow> nat \<Rightarrow> sysbuf list \<Rightarrow>
   cpp_fault + sysbuf list \<times> nat \<times> buffer" where
  "Buffer_ReserveAtLeast_loop env fuel b blk sz reserved_size ret =
     (if \<not> reserved_size < sz then Inr (ret, reserved_size, b)
      else case fuel of
        0 \<Rightarrow> Inl OutOfFuel
      | Suc fuel' \<Rightarrow>
          bindE (SpaceStepper_Next env b blk) (\<lambda>(a, blk', b').
          bindE (deref (bb_chain b') (Some a)) (\<lambda>bl.
            let space_len = Block_SpaceLen (Block_capacity env) bl
            in Buffer_ReserveAtLeast_loop env fuel' b' blk' sz (reserved_size + space_len)
                 (ret @ [(a, bl_offset bl + bl_len bl, space_len)]))))"

definition Buffer_ReserveAtLeast ::
  "buffer_env \<Rightarrow> buffer \<Rightarrow> nat \<Rightarrow> cpp_fault + sysbuf list \<times> nat \<times> buffer" where
  "Buffer_ReserveAtLeast env b sz =
     assertE (\<not> bb_reserved b)
       (let b0 = b\<lparr>bb_reserved := True\<rparr>
        in bindE (SpaceStepper env b0) (\<lambda>blk.
           bindE (SpaceStepper_NumBuffersToReserve env b0 sz) (\<lambda>_.
             Buffer_ReserveAtLeast_loop env sz b0 blk sz 0 [])))"

fun Buffer_Commit_loop ::
  "buffer_env \<Rightarrow> nat \<Rightarrow> buffer \<Rightarrow> addr option \<Rightarrow> nat \<Rightarrow> cpp_fault + buffer" where
  "Buffer_Commit_loop env fuel b blk remaining =
     (if remaining = 0 then Inr b
      else case fuel of
        0 \<Rightarrow> Inl OutOfFuel
      | Suc fuel' \<Rightarrow>
          bindE (SpaceStepper_Next env b blk) (\<lambda>(a, blk', b').
          bindE (deref (bb_chain b') (Some a)) (\<lambda>bl.
            let (remaining', bl') = Block_Commit (Block_capacity env) bl remaining
            in Buffer_Commit_loop env fuel'
                 (b'\<lparr>bb_end := Some a, bb_chain := chain_set (bb_chain b') a bl'\<rparr>) blk' remaining')))"

definition Buffer_Commit :: "buffer_env \<Rightarrow> buffer \<Rightarrow> nat \<Rightarrow> cpp_fault + buffer" where
  "Buffer_Commit env b sz =
     assertE (bb_reserved b)
     (assertE (bb_chain b \<noteq> [])
     (assertE (Buffer_space_size env b \<ge> sz)
       (bindE (SpaceStepper env b) (\<lambda>blk.
        bindE (Buffer_Commit_loop env sz b blk sz) (\<lambda>b'.
          Inr (b'\<lparr>bb_data_size := bb_data_size b' + sz, bb_reserved := False\<rparr>))))))"

definition Buffer_Peek :: "buffer \<Rightarrow> cpp_fault + sysbuf list \<times> buffer" where
  "Buffer_Peek b =
     assertE (\<not> bb_peeked b)
       (Inr (map (\<lambda>(a, bl). (a, bl_offset bl, bl_len bl))
               (takeWhile (\<lambda>p. bl_len (snd p) > 0) (bb_chain b)),
             b\<lparr>bb_peeked := True\<rparr>))"

fun Buffer_Drain_loop :: "buffer_env \<Rightarrow> nat \<Rightarrow> buffer \<Rightarrow> nat \<Rightarrow> cpp_fault + buffer" where
  "Buffer_Drain_loop env fuel b remaining =
     (if remaining = 0 then Inr b
      else case fuel of
        0 \<Rightarrow> Inl OutOfFuel
      | Suc fuel' \<Rightarrow>
          (case bb_chain b of
             [] \<Rightarrow> Inl UndefinedBehaviour
           | (a, bl) # rest \<Rightarrow>
               let (remaining', bl') = Block_Drain bl remaining
               in if bl_len bl' = 0 \<and> Block_SpaceLen (Block_capacity env) bl' = 0
                  then Buffer_Drain_loop env fuel'
                         (b\<lparr>bb_chain := rest,
                            bb_freelist := Freelist_Delete (bb_freelist b) a,
                            bb_block_cnt := bb_block_cnt b - 1\<rparr>) remaining'
                  else Buffer_Drain_loop env fuel' (b\<lparr>bb_chain := (a, bl') # rest\<rparr>) remaining'))"

definition Buffer_Drain :: "buffer_env \<Rightarrow> buffer \<Rightarrow> nat \<Rightarrow> cpp_fault + buffer" where
  "Buffer_Drain env b sz =
     assertE (bb_peeked b)
     (assertE (sz \<le> bb_data_size b)
       (bindE (Buffer_Drain_loop env sz b sz) (\<lambda>b1.
          let b2 = b1\<lparr>bb_data_size := bb_data_size b1 - sz, bb_peeked := False\<rparr>;
              b3 = (if bb_data_size b2 = 0 then b2\<lparr>bb_end := first_addr (bb_chain b2)\<rparr> else b2)
          in if bb_data_size b3 = 0 \<and> bb_chain b3 \<noteq> [] \<and> \<not> bb_reserved b3
             then Inr (b3\<lparr>bb_chain := (let (a, bl) = hd (bb_chain b3)
                                     in (a, bl\<lparr>bl_offset := 0\<rparr>) # tl (bb_chain b3))\<rparr>)
             else Inr b3)))"

declare Buffer_Reserve_loop.simps [simp del] Buffer_ReserveAtLeast_loop.simps [simp del]
  Buffer_Commit_loop.simps [simp del] Buffer_Drain_loop.simps [simp del]

text \<open>Writing bytes through a vector: into its entries in order until they run out.\<close>

definition write_buf :: "chain \<Rightarrow> sysbuf \<Rightarrow> u8 list \<Rightarrow> cpp_fault + chain" where
  "write_buf c v xs =
     (let (a, s, l) = v
      in bindE (deref c (Some a)) (\<lambda>bl.
           if s + length xs \<le> length (bl_buf bl)
           then Inr (chain_set c a (bl\<lparr>bl_buf := take s (bl_buf bl) @ xs @ drop (s + length xs) (bl_buf bl)\<rparr>))
           else Inl UndefinedBehaviour))"

fun scatter :: "chain \<Rightarrow> sysbuf list \<Rightarrow> u8 list \<Rightarrow> cpp_fault + chain" where
  "scatter c [] xs = Inr c"
| "scatter c (v # vs) xs =
     bindE (write_buf c v (take (snd (snd v)) xs)) (\<lambda>c'. scatter c' vs (drop (snd (snd v)) xs))"

definition read_buf :: "chain \<Rightarrow> sysbuf \<Rightarrow> cpp_fault + u8 list" where
  "read_buf c v =
     (let (a, s, l) = v
      in bindE (deref c (Some a)) (\<lambda>bl.
           if s + l \<le> length (bl_buf bl) then Inr (take l (drop s (bl_buf bl)))
           else Inl UndefinedBehaviour))"

fun gather :: "chain \<Rightarrow> sysbuf list \<Rightarrow> cpp_fault + u8 list" where
  "gather c [] = Inr []"
| "gather c (v # vs) = bindE (read_buf c v) (\<lambda>xs. bindE (gather c vs) (\<lambda>ys. Inr (xs @ ys)))"

definition Buffer_scatter :: "buffer \<Rightarrow> sysbuf list \<Rightarrow> u8 list \<Rightarrow> cpp_fault + buffer" where
  "Buffer_scatter b v xs = bindE (scatter (bb_chain b) v xs) (\<lambda>c. Inr (b\<lparr>bb_chain := c\<rparr>))"

definition Buffer_gather :: "buffer \<Rightarrow> sysbuf list \<Rightarrow> cpp_fault + u8 list" where
  "Buffer_gather b v = gather (bb_chain b) v"

definition Buffer_CopyIn :: "buffer_env \<Rightarrow> buffer \<Rightarrow> u8 list \<Rightarrow> cpp_fault + buffer" where
  "Buffer_CopyIn env b from_bytes =
     (let sz = length from_bytes
      in bindE (Buffer_Reserve env b sz) (\<lambda>(buffers, b1).
         bindE (Buffer_scatter b1 buffers from_bytes) (\<lambda>b2.
           Buffer_Commit env b2 sz)))"

text \<open>
  The loop of \<open>CopyOut\<close>: the bytes copied so far. What the caller does with a null
  destination, that is to drop them, is left to the caller of the model.
\<close>

fun Buffer_CopyOut_loop ::
  "chain \<Rightarrow> sysbuf list \<Rightarrow> nat \<Rightarrow> u8 list \<Rightarrow> cpp_fault + u8 list" where
  "Buffer_CopyOut_loop c [] sz copied = Inr copied"
| "Buffer_CopyOut_loop c ((a, s, l) # vs) sz copied =
     (if \<not> sz > 0 then Inr copied
      else
        let remaining = sz - length copied;
            to_copy = (if remaining > l then l else remaining)
        in bindE (read_buf c (a, s, to_copy)) (\<lambda>xs. Buffer_CopyOut_loop c vs sz (copied @ xs)))"

definition Buffer_CopyOut :: "buffer_env \<Rightarrow> buffer \<Rightarrow> nat \<Rightarrow> cpp_fault + u8 list \<times> buffer" where
  "Buffer_CopyOut env b sz =
     bindE (Buffer_Peek b) (\<lambda>(buffers, b1).
     bindE (Buffer_CopyOut_loop (bb_chain b1) buffers sz []) (\<lambda>copied.
     bindE (Buffer_Drain env b1 (length copied)) (\<lambda>b2. Inr (copied, b2))))"

end
