(* ===== verification/Proxy_Buffer_Inv.thy ===== *)
theory Proxy_Buffer_Inv
  imports Proxy_Buffer
begin

text \<open>
  The abstract view and the invariant of the proxy's buffer. The committed data and the
  spare space are lists of memory cells; the data is contiguous, which is to say that the
  blocks before the end block are full and the ones behind it blank.
\<close>

section \<open>Cells\<close>

type_synonym cell = "addr \<times> nat"

definition blk_data :: "addr \<times> block \<Rightarrow> cell list" where
  "blk_data p = map (Pair (fst p)) [bl_offset (snd p)..<bl_offset (snd p) + bl_len (snd p)]"

definition blk_space :: "nat \<Rightarrow> addr \<times> block \<Rightarrow> cell list" where
  "blk_space cap p = map (Pair (fst p)) [bl_offset (snd p) + bl_len (snd p)..<cap]"

definition chain_data :: "chain \<Rightarrow> cell list" where
  "chain_data c = concat (map blk_data c)"

definition chain_space :: "nat \<Rightarrow> chain \<Rightarrow> cell list" where
  "chain_space cap c = concat (map (blk_space cap) c)"

fun cell_content :: "chain \<Rightarrow> cell \<Rightarrow> u8" where
  "cell_content c (a, i) = (case map_of c a of None \<Rightarrow> 0 | Some bl \<Rightarrow> bl_buf bl ! i)"

fun vec_cells :: "sysbuf list \<Rightarrow> cell list" where
  "vec_cells [] = []"
| "vec_cells ((a, s, l) # vs) = map (Pair a) [s..<s + l] @ vec_cells vs"

lemma vec_cells_append [simp]: "vec_cells (us @ vs) = vec_cells us @ vec_cells vs"
  by (induction us rule: vec_cells.induct) auto

lemma chain_cells_simps [simp]:
  "chain_data [] = []" "chain_data (p # c) = blk_data p @ chain_data c"
  "chain_data (c @ d) = chain_data c @ chain_data d"
  "chain_space cap [] = []" "chain_space cap (p # c) = blk_space cap p @ chain_space cap c"
  "chain_space cap (c @ d) = chain_space cap c @ chain_space cap d"
  by (simp_all add: chain_data_def chain_space_def)

lemma length_blk [simp]:
  "length (blk_data p) = bl_len (snd p)"
  "length (blk_space cap p) = Block_SpaceLen cap (snd p)"
  by (simp_all add: blk_data_def blk_space_def Block_SpaceLen_def)

lemma blk_data_Nil [simp]: "blk_data p = [] \<longleftrightarrow> bl_len (snd p) = 0"
  by (auto simp: blk_data_def)

text \<open>The data of the buffer as the bytes a reader gets, and the spare cells behind it.\<close>

definition data_cells :: "buffer \<Rightarrow> cell list" where
  "data_cells b = chain_data (bb_chain b)"

definition spare_cells :: "buffer_env \<Rightarrow> buffer \<Rightarrow> cell list" where
  "spare_cells env b = chain_space (Block_capacity env) (bb_chain b)"

definition buffer_bytes :: "buffer \<Rightarrow> u8 list" where
  "buffer_bytes b = map (cell_content (bb_chain b)) (data_cells b)"

text \<open>The contents depend on the addresses and bytes of the blocks only.\<close>

definition chain_mem :: "chain \<Rightarrow> (addr \<times> u8 list) list" where
  "chain_mem c = map (\<lambda>p. (fst p, bl_buf (snd p))) c"

lemma map_of_chain_mem: "map_of (chain_mem c) a = map_option bl_buf (map_of c a)"
  by (induction c) (auto simp: chain_mem_def)

lemma cell_content_mem:
  assumes "chain_mem c = chain_mem d"
  shows "cell_content c = cell_content d"
proof
  fix x :: cell
  obtain a i where x: "x = (a, i)" by (cases x)
  have "map_option bl_buf (map_of c a) = map_option bl_buf (map_of d a)"
    using assms map_of_chain_mem by metis
  then show "cell_content c x = cell_content d x"
    unfolding x by (cases "map_of c a"; cases "map_of d a") (simp_all del: map_of_None_iff)
qed

section \<open>The invariant\<close>

definition wf_block :: "nat \<Rightarrow> block \<Rightarrow> bool" where
  "wf_block cap bl \<longleftrightarrow> bl_offset bl + bl_len bl \<le> cap \<and> length (bl_buf bl) = cap"

definition full_block :: "nat \<Rightarrow> block \<Rightarrow> bool" where
  "full_block cap bl \<longleftrightarrow> bl_offset bl + bl_len bl = cap \<and> 0 < bl_len bl"

definition blank_block :: "block \<Rightarrow> bool" where
  "blank_block bl \<longleftrightarrow> bl_offset bl = 0 \<and> bl_len bl = 0"

definition shape_at :: "nat \<Rightarrow> chain \<Rightarrow> addr \<times> block \<Rightarrow> chain \<Rightarrow> bool" where
  "shape_at cap pre e post \<longleftrightarrow>
     (\<forall>p \<in> set pre. full_block cap (snd p)) \<and>
     (\<forall>p \<in> set post. blank_block (snd p)) \<and>
     (\<forall>p \<in> set (tl (pre @ [e])). bl_offset (snd p) = 0) \<and>
     bl_offset (snd e) < cap"

definition shape :: "nat \<Rightarrow> addr option \<Rightarrow> chain \<Rightarrow> bool" where
  "shape cap endp c \<longleftrightarrow>
     (if c = [] then endp = None
      else \<exists>pre e post. c = pre @ e # post \<and> endp = Some (fst e) \<and> shape_at cap pre e post)"

definition fl_ok :: "freelist \<Rightarrow> addr list \<Rightarrow> bool" where
  "fl_ok fl used \<longleftrightarrow>
     distinct (fl_chain fl @ used) \<and> (\<forall>a \<in> set (fl_chain fl @ used). a < fl_tick fl) \<and>
     fl_size fl = length (fl_chain fl)"

definition core_inv :: "buffer_env \<Rightarrow> buffer \<Rightarrow> bool" where
  "core_inv env b \<longleftrightarrow>
     fl_ok (bb_freelist b) (map fst (bb_chain b)) \<and>
     (\<forall>p \<in> set (bb_chain b). wf_block (Block_capacity env) (snd p)) \<and>
     shape (Block_capacity env) (bb_end b) (bb_chain b) \<and>
     bb_block_cnt b = length (bb_chain b) \<and>
     (bb_chain b \<noteq> [] \<longrightarrow> bb_tail b = Some (fst (last (bb_chain b))))"

definition buffer_inv :: "buffer_env \<Rightarrow> buffer \<Rightarrow> bool" where
  "buffer_inv env b \<longleftrightarrow> core_inv env b \<and> bb_data_size b = length (data_cells b)"

lemma fl_ok_Delete: "fl_ok fl (a # used) \<Longrightarrow> fl_ok (Freelist_Delete fl a) used"
  by (auto simp: fl_ok_def Freelist_Delete_def)

lemma core_inv_flags [simp]:
  "core_inv env (b\<lparr>bb_reserved := r\<rparr>) = core_inv env b"
  "core_inv env (b\<lparr>bb_peeked := r\<rparr>) = core_inv env b"
  "core_inv env (b\<lparr>bb_data_size := n\<rparr>) = core_inv env b"
  by (simp_all add: core_inv_def)

lemma core_inv_distinct: "core_inv env b \<Longrightarrow> distinct (map fst (bb_chain b))"
  by (simp add: core_inv_def fl_ok_def)

section \<open>Walking the list\<close>

lemma deref_mem: "distinct (map fst c) \<Longrightarrow> p \<in> set c \<Longrightarrow> deref c (Some (fst p)) = Inr (snd p)"
  by (cases p) (simp add: deref_def)

lemma chain_next_append:
  assumes "distinct (map fst (ks @ p # ps))"
  shows "chain_next (ks @ p # ps) (fst p) = first_addr ps"
proof -
  have "dropWhile (\<lambda>q. fst q \<noteq> fst p) (ks @ p # ps) = p # ps"
    using assms by (subst dropWhile_append2) (auto simp: image_iff)
  then show ?thesis by (simp add: chain_next_def)
qed

lemma chain_set_append:
  assumes "distinct (map fst (ks @ p # ps))"
  shows "chain_set (ks @ p # ps) (fst p) bl = ks @ (fst p, bl) # ps"
proof -
  have "map (\<lambda>q. if fst q = fst p then (fst p, bl) else q) xs = xs" if "fst p \<notin> fst ` set xs" for xs
    using that by (induction xs) auto
  then show ?thesis using assms by (simp add: chain_set_def)
qed

lemma first_addr_simps [simp]: "first_addr [] = None" "first_addr (p # ps) = Some (fst p)"
  by (simp_all add: first_addr_def)

lemma blank_cells: "\<forall>p \<in> set c. blank_block (snd p) \<Longrightarrow> chain_data c = []"
  by (induction c) (auto simp: blank_block_def blk_data_def)

lemma full_cells: "\<forall>p \<in> set c. full_block cap (snd p) \<Longrightarrow> chain_space cap c = []"
  by (induction c) (auto simp: full_block_def blk_space_def)

lemma shape_cases:
  assumes "shape cap e c" "c \<noteq> []"
  obtains pre x post where "c = pre @ x # post" "e = Some (fst x)" "shape_at cap pre x post"
proof -
  have "\<exists>pre x post. c = pre @ x # post \<and> e = Some (fst x) \<and> shape_at cap pre x post"
    using assms by (simp add: shape_def)
  then show ?thesis using that by blast
qed

lemma shapeI: "shape_at cap pre x post \<Longrightarrow> shape cap (Some (fst x)) (pre @ x # post)"
  unfolding shape_def by (simp del: split_paired_Ex) blast

lemma shape_append_blank:
  assumes "shape cap e c" "c \<noteq> []" "blank_block bl"
  shows "shape cap e (c @ [(a, bl)])"
proof -
  obtain pre x post where c: "c = pre @ x # post" "e = Some (fst x)" "shape_at cap pre x post"
    by (rule shape_cases [OF assms(1,2)])
  then have "shape_at cap pre x (post @ [(a, bl)])"
    using assms(3) by (auto simp: shape_at_def)
  then show ?thesis using c shapeI by fastforce
qed

text \<open>A buffer that has got blank blocks at its end and is otherwise as it was.\<close>

definition grown :: "buffer_env \<Rightarrow> buffer \<Rightarrow> buffer \<Rightarrow> chain \<Rightarrow> bool" where
  "grown env b b' new \<longleftrightarrow>
     core_inv env b' \<and> bb_chain b' = bb_chain b @ new \<and> (\<forall>p \<in> set new. blank_block (snd p)) \<and>
     bb_data_size b' = bb_data_size b \<and> bb_reserved b' = bb_reserved b \<and> bb_peeked b' = bb_peeked b"

lemma grown_refl: "core_inv env b \<Longrightarrow> grown env b b []"
  by (simp add: grown_def)

lemma grown_trans: "grown env b c xs \<Longrightarrow> grown env c d ys \<Longrightarrow> grown env b d (xs @ ys)"
  by (auto simp: grown_def)

text \<open>A drained buffer: what is left has the same contents; with no data the end is the head.\<close>

definition end_fixed :: "buffer \<Rightarrow> buffer" where
  "end_fixed b = (if data_cells b = [] then b\<lparr>bb_end := first_addr (bb_chain b)\<rparr> else b)"

definition same_content :: "buffer \<Rightarrow> buffer \<Rightarrow> bool" where
  "same_content b b' \<longleftrightarrow>
     (\<forall>x. fst x \<in> fst ` set (bb_chain b') \<longrightarrow>
        fst x \<in> fst ` set (bb_chain b) \<and> cell_content (bb_chain b') x = cell_content (bb_chain b) x)"

definition drained :: "buffer_env \<Rightarrow> buffer \<Rightarrow> buffer \<Rightarrow> nat \<Rightarrow> bool" where
  "drained env b b' n \<longleftrightarrow>
     core_inv env (end_fixed b') \<and> data_cells b' = drop n (data_cells b) \<and>
     spare_cells env b' = spare_cells env b \<and> same_content b b' \<and>
     bb_data_size b' = bb_data_size b \<and> bb_reserved b' = bb_reserved b"

end
