(* ===== verification/Proxy_Vectors.thy ===== *)
theory Proxy_Vectors
  imports Proxy_Buffer_Inv
begin

text \<open>
  Reading and writing the buffer's memory through scatter-gather vectors: which vectors
  are valid, what a gathering read returns and what a scattering write changes.
\<close>

section \<open>Access through vectors\<close>

definition vec_solid :: "sysbuf list \<Rightarrow> bool" where
  "vec_solid vs \<longleftrightarrow> (\<forall>(a, s, l) \<in> set vs. 0 < l)"

definition vec_valid :: "chain \<Rightarrow> sysbuf list \<Rightarrow> bool" where
  "vec_valid c vs \<longleftrightarrow> (\<forall>(a, s, l) \<in> set vs. \<exists>bl. map_of c a = Some bl \<and> s + l \<le> length (bl_buf bl))"

definition cell_valid :: "chain \<Rightarrow> cell \<Rightarrow> bool" where
  "cell_valid c x \<longleftrightarrow> (\<exists>bl. map_of c (fst x) = Some bl \<and> snd x < length (bl_buf bl))"

lemma vec_valid_Cons [simp]:
  "vec_valid c ((a, s, l) # vs) \<longleftrightarrow>
     (\<exists>bl. map_of c a = Some bl \<and> s + l \<le> length (bl_buf bl)) \<and> vec_valid c vs"
  "vec_valid c []"
  by (simp_all add: vec_valid_def)

lemma vec_valid_cells:
  assumes "vec_solid vs" "\<forall>x \<in> set (vec_cells vs). cell_valid c x"
  shows "vec_valid c vs"
  using assms
proof (induction vs rule: vec_cells.induct)
  case (2 a s l vs)
  then have "(a, s + l - 1) \<in> set (vec_cells ((a, s, l) # vs))"
    by (auto simp: vec_solid_def)
  then have "cell_valid c (a, s + l - 1)" using 2 by blast
  then have "\<exists>bl. map_of c a = Some bl \<and> s + l \<le> length (bl_buf bl)"
    by (auto simp: cell_valid_def)
  moreover have "vec_valid c vs" using 2 by (simp add: vec_solid_def)
  ultimately show ?case by simp
qed simp

lemma map_cell_content:
  assumes "map_of c a = Some bl" "s + l \<le> length (bl_buf bl)"
  shows "map (cell_content c) (map (Pair a) [s..<s + l]) = take l (drop s (bl_buf bl))"
  using assms by (auto intro!: nth_equalityI)

lemma gather_valid:
  "vec_valid c vs \<Longrightarrow> gather c vs = Inr (map (cell_content c) (vec_cells vs))"
  by (induction vs rule: vec_cells.induct)
    (auto simp: read_buf_def deref_def map_cell_content simp del: map_map)

lemma CopyOut_loop:
  assumes "vec_valid c vs" "length copied \<le> n"
  shows "Buffer_CopyOut_loop c vs n copied =
           Inr (copied @ take (n - length copied) (map (cell_content c) (vec_cells vs)))"
  using assms
proof (induction vs arbitrary: copied rule: vec_cells.induct)
  case (2 a s l vs)
  define m where "m = (if n - length copied > l then l else n - length copied)"
  obtain bl where bl: "map_of c a = Some bl" "s + l \<le> length (bl_buf bl)" using 2 by auto
  have rd: "read_buf c (a, s, m) = Inr (take m (drop s (bl_buf bl)))"
    using bl by (simp add: read_buf_def deref_def m_def)
  have len: "length (copied @ take m (drop s (bl_buf bl))) = length copied + m"
    "length copied + m \<le> n" using bl 2(3) by (auto simp: m_def)
  have first: "map (cell_content c) (map (Pair a) [s..<s + l]) = take l (drop s (bl_buf bl))"
    by (rule map_cell_content [OF bl])
  show ?case
  proof (cases "n > 0")
    case True
    have "Buffer_CopyOut_loop c ((a, s, l) # vs) n copied
        = Buffer_CopyOut_loop c vs n (copied @ take m (drop s (bl_buf bl)))"
      using True rd by (simp add: m_def Let_def)
    moreover have "Buffer_CopyOut_loop c vs n (copied @ take m (drop s (bl_buf bl))) = Inr ((copied @ take m (drop s (bl_buf bl))) @
        take (n - length copied - m) (map (cell_content c) (vec_cells vs)))"
      using 2(1) [of "copied @ take m (drop s (bl_buf bl))"] 2(2) len
      by (simp add: vec_valid_Cons del: length_append length_take)
    moreover have "take m (drop s (bl_buf bl)) @ take (n - length copied - m) (map (cell_content c) (vec_cells vs))
        = take (n - length copied) (map (cell_content c) (vec_cells ((a, s, l) # vs)))"
      using first bl(2) by (auto simp: m_def simp del: map_map)
    ultimately show ?thesis by simp
  qed (use 2 in simp)
qed simp

lemma chain_set_id: "map_of c a = None \<Longrightarrow> chain_set c a bl = c"
  by (induction c) (auto simp: chain_set_def)

lemma map_of_chain_set:
  "map_of (chain_set c a bl) x = (if x = a then map_option (\<lambda>_. bl) (map_of c a) else map_of c x)"
  by (induction c) (auto simp: chain_set_def)

lemma vec_valid_set:
  assumes "map_of c a = Some bl" "length (bl_buf bl') = length (bl_buf bl)" "vec_valid c vs"
  shows "vec_valid (chain_set c a bl') vs"
  using assms(3)
  by (induction vs rule: vec_cells.induct) (use assms(1,2) in \<open>auto simp: map_of_chain_set\<close>)

lemma write_buf_valid:
  assumes "map_of c a = Some bl" "s + length ys \<le> length (bl_buf bl)"
  obtains bl' where "write_buf c (a, s, l) ys = Inr (chain_set c a bl')"
    "bl_offset bl' = bl_offset bl" "bl_len bl' = bl_len bl" "length (bl_buf bl') = length (bl_buf bl)"
    "\<forall>x. cell_content (chain_set c a bl') x =
       (if x \<in> set (map (Pair a) [s..<s + length ys]) then ys ! (snd x - s) else cell_content c x)"
proof -
  let ?bl = "bl\<lparr>bl_buf := take s (bl_buf bl) @ ys @ drop (s + length ys) (bl_buf bl)\<rparr>"
  have "cell_content (chain_set c a ?bl) x =
       (if x \<in> set (map (Pair a) [s..<s + length ys]) then ys ! (snd x - s) else cell_content c x)" for x
    using assms by (cases x) (auto simp: map_of_chain_set nth_append)
  then show ?thesis
    by (intro that [of ?bl]) (use assms in \<open>simp_all add: write_buf_def deref_def\<close>)
qed

text \<open>The list with other bytes in its blocks: all that the invariant looks at is the same.\<close>

definition chain_hdr :: "chain \<Rightarrow> (addr \<times> nat \<times> nat \<times> nat) list" where
  "chain_hdr c = map (\<lambda>p. (fst p, bl_offset (snd p), bl_len (snd p), length (bl_buf (snd p)))) c"

lemma chain_hdr_set:
  assumes "distinct (map fst c)" "map_of c a = Some bl" "bl_offset bl' = bl_offset bl"
    "bl_len bl' = bl_len bl" "length (bl_buf bl') = length (bl_buf bl)"
  shows "chain_hdr (chain_set c a bl') = chain_hdr c"
proof -
  have "snd p = bl" if "p \<in> set c" "fst p = a" for p
    using assms(1,2) that by (metis map_of_is_SomeI option.inject prod.collapse)
  then show ?thesis
    using assms(3-5) by (auto simp: chain_hdr_def chain_set_def)
qed

lemma chain_hdr_map:
  "chain_hdr c = chain_hdr d \<Longrightarrow> map fst c = map fst d"
  "chain_hdr c = chain_hdr d \<Longrightarrow> chain_data c = chain_data d"
  "chain_hdr c = chain_hdr d \<Longrightarrow> chain_space cap c = chain_space cap d"
  by (induction c d rule: list_induct2')
    (auto simp: chain_hdr_def blk_data_def blk_space_def)

lemma shape_hdr:
  assumes "shape cap e c" "chain_hdr d = chain_hdr c"
  shows "shape cap e d"
proof (cases "c = []")
  case True
  then show ?thesis using assms by (simp add: chain_hdr_def shape_def)
next
  case False
  obtain pre x post where c: "c = pre @ x # post" "e = Some (fst x)" "shape_at cap pre x post"
    by (rule shape_cases [OF assms(1) False])
  obtain pre' x' post' where d: "d = pre' @ x' # post'" and h: "chain_hdr pre' = chain_hdr pre"
    "chain_hdr [x'] = chain_hdr [x]" "chain_hdr post' = chain_hdr post"
    using assms(2) unfolding c(1) chain_hdr_def by (auto simp: map_eq_append_conv map_eq_Cons_conv)
  have all: "(\<forall>p \<in> set u. P (bl_offset (snd p)) (bl_len (snd p))) \<longleftrightarrow>
      (\<forall>p \<in> set v. P (bl_offset (snd p)) (bl_len (snd p)))" if "chain_hdr u = chain_hdr v" for u v P
    using that by (induction u v rule: list_induct2') (auto simp: chain_hdr_def)
  have tl: "chain_hdr (tl (pre' @ [x'])) = chain_hdr (tl (pre @ [x]))"
    using h by (simp add: chain_hdr_def map_tl)
  have "shape_at cap pre' x' post'"
    using c(3) all [OF h(1), of "\<lambda>s l. s + l = cap \<and> 0 < l"] all [OF h(3), of "\<lambda>s l. s = 0 \<and> l = 0"]
      all [OF tl, of "\<lambda>s l. s = 0"] h(2)
    unfolding shape_at_def full_block_def blank_block_def by (simp add: chain_hdr_def)
  then show ?thesis using shapeI [of cap pre' x' post'] c(2) d h(2) by (simp add: chain_hdr_def)
qed

lemma core_inv_hdr:
  assumes "core_inv env b" "chain_hdr c = chain_hdr (bb_chain b)"
  shows "core_inv env (b\<lparr>bb_chain := c\<rparr>)"
proof -
  have len: "length c = length (bb_chain b)"
    using arg_cong [OF assms(2), of length] by (simp add: chain_hdr_def)
  have "\<forall>p \<in> set c. wf_block (Block_capacity env) (snd p)"
  proof
    fix p assume "p \<in> set c"
    then obtain i where "i < length c" "p = c ! i" by (auto simp: in_set_conv_nth)
    then have "chain_hdr c ! i = chain_hdr (bb_chain b) ! i" "wf_block (Block_capacity env) (snd (bb_chain b ! i))"
      using assms len by (simp_all add: core_inv_def)
    then show "wf_block (Block_capacity env) (snd p)"
      using \<open>i < length c\<close> \<open>p = c ! i\<close> len by (simp add: chain_hdr_def wf_block_def)
  qed
  moreover have "shape (Block_capacity env) (bb_end b) c"
    using assms shape_hdr by (auto simp: core_inv_def)
  moreover have "map fst c = map fst (bb_chain b)" by (rule chain_hdr_map(1) [OF assms(2)])
  moreover then have "c \<noteq> [] \<Longrightarrow> fst (last c) = fst (last (bb_chain b))"
    by (metis last_map list.map_disc_iff)
  ultimately show ?thesis
    using assms(1) len by (auto simp: core_inv_def)
qed

lemma scatter_valid:
  assumes "distinct (map fst c)" "vec_valid c vs" "distinct (vec_cells vs)"
    and "length xs \<le> length (vec_cells vs)"
  shows "\<exists>c'. scatter c vs xs = Inr c' \<and> chain_hdr c' = chain_hdr c \<and>
     map (cell_content c') (take (length xs) (vec_cells vs)) = xs \<and>
     (\<forall>x. x \<notin> set (take (length xs) (vec_cells vs)) \<longrightarrow> cell_content c' x = cell_content c x)"
  using assms
proof (induction vs arbitrary: c xs rule: vec_cells.induct)
  case (2 a s l vs)
  let ?ys = "take l xs"
  obtain bl where bl: "map_of c a = Some bl" "s + l \<le> length (bl_buf bl)" using 2(3) by auto
  have room: "s + length ?ys \<le> length (bl_buf bl)" using bl(2) by simp
  obtain bl' where w: "write_buf c (a, s, l) ?ys = Inr (chain_set c a bl')"
    "bl_offset bl' = bl_offset bl" "bl_len bl' = bl_len bl" "length (bl_buf bl') = length (bl_buf bl)"
    "\<forall>x. cell_content (chain_set c a bl') x =
       (if x \<in> set (map (Pair a) [s..<s + length ?ys]) then ?ys ! (snd x - s) else cell_content c x)"
    using write_buf_valid [OF bl(1) room, of l] by blast
  let ?c = "chain_set c a bl'"
  have hdr: "chain_hdr ?c = chain_hdr c"
    by (rule chain_hdr_set [OF 2(2) bl(1) w(2-4)])
  have "vec_valid ?c vs"
    using vec_valid_set [OF bl(1) w(4)] 2(3) by simp
  moreover have "distinct (map fst ?c)" using 2(2) chain_hdr_map(1) [OF hdr] by simp
  moreover have "distinct (vec_cells vs)" "length (drop l xs) \<le> length (vec_cells vs)"
    using 2(4,5) by auto
  ultimately obtain c' where c': "scatter ?c vs (drop l xs) = Inr c'" "chain_hdr c' = chain_hdr ?c"
    "map (cell_content c') (take (length (drop l xs)) (vec_cells vs)) = drop l xs"
    "\<forall>x. x \<notin> set (take (length (drop l xs)) (vec_cells vs)) \<longrightarrow> cell_content c' x = cell_content ?c x"
    using 2(1) [of ?c "drop l xs"] by blast
  have first: "take (length xs) (map (Pair a) [s..<s + l]) = map (Pair a) [s..<s + length ?ys]"
    by (cases "length xs \<le> l") (simp_all add: take_map)
  have split: "take (length xs) (vec_cells ((a, s, l) # vs)) =
      map (Pair a) [s..<s + length ?ys] @ take (length (drop l xs)) (vec_cells vs)"
    using first by simp
  have "x \<notin> set (take (length (drop l xs)) (vec_cells vs))" if "x \<in> set (map (Pair a) [s..<s + length ?ys])" for x
  proof -
    have "x \<in> set (map (Pair a) [s..<s + l])" using that by auto
    then have "x \<notin> set (vec_cells vs)" using 2(4) by (simp only: vec_cells.simps distinct_append) blast
    then show ?thesis by (meson in_set_takeD)
  qed
  then have "map (cell_content c') (map (Pair a) [s..<s + length ?ys])
      = map (cell_content ?c) (map (Pair a) [s..<s + length ?ys])"
    using c'(4) by (auto simp del: cell_content.simps)
  also have "\<dots> = ?ys"
    by (rule nth_equalityI) (simp_all add: w(5) del: cell_content.simps)
  finally have "map (cell_content c') (take (length xs) (vec_cells ((a, s, l) # vs))) = xs"
    unfolding split map_append c'(3) by simp
  moreover have "cell_content c' x = cell_content c x"
    if "x \<notin> set (take (length xs) (vec_cells ((a, s, l) # vs)))" for x
    using that spec [OF c'(4), of x] spec [OF w(5), of x]
    unfolding split by (simp del: cell_content.simps)
  ultimately show ?case
    using w(1) c'(1,2) hdr by auto
qed simp

end
