(* ===== verification/Proxy_Buffer_Correct.thy ===== *)
theory Proxy_Buffer_Correct
  imports Proxy_Vectors
begin

text \<open>
  The loops of the proxy's buffer under the invariant: stepping through the space,
  reserving, committing and draining never fault and act on the two lists of cells, data
  and spare, as the abstract buffer prescribes.
\<close>

section \<open>Operations under the invariant\<close>

locale buffer_world =
  fixes env :: buffer_env
  assumes block_size: "sizeof_Block < BlockSize env"
    and memory: "alloc_ok env n"
begin

abbreviation cap :: nat where
  "cap \<equiv> Block_capacity env"

lemma cap_pos: "0 < cap"
  using block_size by (simp add: Block_capacity_def)

lemma init_block: "wf_block cap (Block_init env n)" "blank_block (Block_init env n)"
  "Block_SpaceLen cap (Block_init env n) = cap"
  by (simp_all add: wf_block_def blank_block_def Block_init_def Block_SpaceLen_def)

lemma new_block:
  assumes "fl_ok fl used"
  obtains a n fl' where "Freelist_New env fl = (Some (a, Block_init env n), fl')"
    "fl_ok fl' (used @ [a])"
proof (cases "fl_chain fl")
  case Nil
  show ?thesis
    by (rule that [of "fl_tick fl" "fl_tick fl" "fl\<lparr>fl_tick := Suc (fl_tick fl)\<rparr>"])
      (use assms Nil memory in \<open>auto simp: Freelist_New_def Block_Alloc_def fl_ok_def Let_def less_Suc_eq\<close>)
next
  case (Cons a as)
  show ?thesis
    by (rule that [of a "fl_tick fl"
          "fl\<lparr>fl_chain := as, fl_size := fl_size fl - 1, fl_tick := Suc (fl_tick fl)\<rparr>"])
      (use assms Cons in \<open>auto simp: Freelist_New_def fl_ok_def less_Suc_eq\<close>)
qed

lemma append_block:
  assumes inv: "core_inv env b"
  obtains a n b' where "Buffer_AppendNewBlock env b = Inr b'" "bb_tail b' = Some a"
    "grown env b b' [(a, Block_init env n)]"
proof -
  obtain a n fl where new: "Freelist_New env (bb_freelist b) = (Some (a, Block_init env n), fl)"
    and ok: "fl_ok fl (map fst (bb_chain b) @ [a])"
    using inv new_block [of "bb_freelist b" "map fst (bb_chain b)"] by (auto simp: core_inv_def)
  let ?e = "if bb_chain b = [] then Some a else bb_end b"
  let ?b = "b\<lparr>bb_freelist := fl, bb_block_cnt := Suc (bb_block_cnt b),
    bb_chain := bb_chain b @ [(a, Block_init env n)], bb_tail := Some a, bb_end := ?e\<rparr>"
  have "shape cap ?e (bb_chain b @ [(a, Block_init env n)])"
  proof (cases "bb_chain b = []")
    case True
    then show ?thesis
      using shapeI [of cap "[]" "(a, Block_init env n)" "[]"] init_block cap_pos
      by (simp add: shape_at_def blank_block_def)
  next
    case False
    then show ?thesis
      using inv init_block by (auto simp: core_inv_def intro!: shape_append_blank)
  qed
  then have "core_inv env ?b"
    using inv ok init_block by (auto simp: core_inv_def)
  moreover have "Buffer_AppendNewBlock env b = Inr ?b"
    using inv by (simp add: Buffer_AppendNewBlock_def new core_inv_def)
  ultimately show ?thesis
    using that init_block by (simp add: grown_def)
qed

lemma stepper:
  assumes inv: "core_inv env b"
  obtains ks todo where "SpaceStepper env b = Inr (first_addr todo)" "bb_chain b = ks @ todo"
    "\<forall>p \<in> set ks. full_block cap (snd p)" "\<forall>p \<in> set todo. 0 < Block_SpaceLen cap (snd p)"
    "\<forall>p \<in> set (tl todo). blank_block (snd p)" "\<forall>p \<in> set (tl (ks @ todo)). bl_offset (snd p) = 0"
proof (cases "bb_chain b = []")
  case True
  then show ?thesis
    using inv that [of "[]" "[]"] by (simp add: core_inv_def shape_def SpaceStepper_def)
next
  case False
  obtain pre e post where c: "bb_chain b = pre @ e # post" "bb_end b = Some (fst e)"
    and sh: "shape_at cap pre e post"
    using inv False by (auto simp: core_inv_def elim: shape_cases)
  note dist = core_inv_distinct [OF inv]
  have wf: "wf_block cap (snd e)" using inv c by (simp add: core_inv_def)
  have de: "deref (bb_chain b) (bb_end b) = Inr (snd e)"
    using dist c deref_mem by (metis in_set_conv_decomp)
  have nx: "chain_next (bb_chain b) (fst e) = first_addr post"
    using dist chain_next_append c by metis
  have post: "0 < Block_SpaceLen cap (snd p)" if "p \<in> set post" for p
    using sh that cap_pos by (simp add: shape_at_def blank_block_def Block_SpaceLen_def)
  have off: "\<forall>p \<in> set (tl (pre @ e # post)). bl_offset (snd p) = 0"
    using sh by (cases pre) (auto simp: shape_at_def blank_block_def)
  show ?thesis
  proof (cases "Block_SpaceLen cap (snd e) = 0")
    case True
    then have "full_block cap (snd e)"
      using wf sh by (simp add: wf_block_def full_block_def shape_at_def Block_SpaceLen_def)
    moreover have "\<forall>p \<in> set (tl post). blank_block (snd p)"
      using sh by (cases post) (auto simp: shape_at_def)
    ultimately show ?thesis
      using that [of post "pre @ [e]"] True c de nx sh post off
      by (auto simp: SpaceStepper_def shape_at_def)
  next
    case False
    then show ?thesis
      using that [of "e # post" pre] c de sh post off by (auto simp: SpaceStepper_def shape_at_def)
  qed
qed

lemma step_next:
  assumes inv: "core_inv env b" and c: "bb_chain b = ks @ todo"
  obtains p ps new b' where
    "SpaceStepper_Next env b (first_addr todo) = Inr (fst p, first_addr ps, b')"
    "deref (bb_chain b') (Some (fst p)) = Inr (snd p)"
    "grown env b b' new" "todo @ new = p # ps" "todo \<noteq> [] \<Longrightarrow> b' = b"
proof (cases todo)
  case Nil
  obtain a n b' where b': "Buffer_AppendNewBlock env b = Inr b'" "bb_tail b' = Some a"
    and g: "grown env b b' [(a, Block_init env n)]"
    by (rule append_block [OF inv])
  have ch: "bb_chain b' = ks @ [(a, Block_init env n)]"
    using g c Nil by (simp add: grown_def)
  then have d: "distinct (map fst (ks @ (a, Block_init env n) # []))"
    using core_inv_distinct [of env b'] g by (simp add: grown_def)
  have "chain_next (bb_chain b') a = None" "deref (bb_chain b') (Some a) = Inr (Block_init env n)"
    using chain_next_append [OF d] deref_mem [OF d, of "(a, Block_init env n)"] ch by simp_all
  then show ?thesis
    using that [of "(a, Block_init env n)" "[]" b' "[(a, Block_init env n)]"] b' g Nil
    by (simp add: SpaceStepper_Next_def)
next
  case (Cons p ps)
  have d: "distinct (map fst (ks @ p # ps))"
    using core_inv_distinct [OF inv] c Cons by simp
  then have "chain_next (bb_chain b) (fst p) = first_addr ps"
    "deref (bb_chain b) (Some (fst p)) = Inr (snd p)"
    using chain_next_append [OF d] deref_mem [OF d, of p] c Cons by simp_all
  then show ?thesis
    using that [of p ps b "[]"] grown_refl [OF inv] Cons by (simp add: SpaceStepper_Next_def)
qed

lemma first_space:
  assumes "n \<le> Block_SpaceLen cap (snd p)"
  shows "map (Pair (fst p)) [bl_offset (snd p) + bl_len (snd p)..<bl_offset (snd p) + bl_len (snd p) + n]
     = take n (blk_space cap p)"
proof (cases "n = 0")
  case False
  then have "bl_offset (snd p) + bl_len (snd p) + n \<le> cap"
    using assms by (simp add: Block_SpaceLen_def)
  then show ?thesis by (simp add: blk_space_def take_map)
qed simp

lemma blank_space: "\<forall>p \<in> set c. blank_block (snd p) \<Longrightarrow> p \<in> set c \<Longrightarrow> 0 < Block_SpaceLen cap (snd p)"
  using cap_pos by (auto simp: blank_block_def Block_SpaceLen_def)

lemma step_space:
  assumes "\<forall>p \<in> set todo. 0 < Block_SpaceLen cap (snd p)" "grown env b b' new"
    and "todo @ new = p # ps"
  shows "0 < Block_SpaceLen cap (snd p)" "\<forall>q \<in> set ps. 0 < Block_SpaceLen cap (snd q)"
proof -
  have "\<forall>q \<in> set (todo @ new). 0 < Block_SpaceLen cap (snd q)"
    using assms(1,2) blank_space [of new] by (auto simp: grown_def)
  then show "0 < Block_SpaceLen cap (snd p)" "\<forall>q \<in> set ps. 0 < Block_SpaceLen cap (snd q)"
    unfolding assms(3) by simp_all
qed

lemma reserve_loop:
  assumes "core_inv env b" "bb_chain b = ks @ todo"
    and "\<forall>p \<in> set todo. 0 < Block_SpaceLen cap (snd p)" and "n \<le> fuel"
  shows "\<exists>v new b'. Buffer_Reserve_loop env fuel b (first_addr todo) n ret = Inr (ret @ v, b') \<and>
     grown env b b' new \<and> n \<le> length (chain_space cap (todo @ new)) \<and>
     vec_cells v = take n (chain_space cap (todo @ new)) \<and> vec_solid v"
  using assms
proof (induction fuel arbitrary: b ks todo n ret)
  case 0
  then show ?case
    by (subst Buffer_Reserve_loop.simps) (auto intro!: exI [of _ "[]"] grown_refl simp: vec_solid_def)
next
  case (Suc fuel)
  show ?case
  proof (cases "n = 0")
    case True
    then show ?thesis
      using Suc.prems by (subst Buffer_Reserve_loop.simps) (auto intro!: exI [of _ "[]"] grown_refl simp: vec_solid_def)
  next
    case False
    obtain p ps new1 b1 where b1:
      "SpaceStepper_Next env b (first_addr todo) = Inr (fst p, first_addr ps, b1)"
      "deref (bb_chain b1) (Some (fst p)) = Inr (snd p)"
      and g: "grown env b b1 new1" and new1: "todo @ new1 = p # ps"
      by (rule step_next [OF Suc.prems(1,2)])
    note pos = step_space [OF Suc.prems(3) g new1]
    define m where "m = (if n \<ge> Block_SpaceLen cap (snd p) then Block_SpaceLen cap (snd p) else n)"
    let ?v = "(fst p, bl_offset (snd p) + bl_len (snd p), m)"
    have m: "0 < m" "m \<le> n" "m \<le> Block_SpaceLen cap (snd p)"
      "n = m \<or> m = Block_SpaceLen cap (snd p)" "n - m \<le> fuel"
      using pos False Suc.prems(4) by (auto simp: m_def)
    have "bb_chain b1 = (ks @ [p]) @ ps" "core_inv env b1"
      using g new1 Suc.prems(2) by (simp_all add: grown_def)
    then obtain v new b' where IH:
      "Buffer_Reserve_loop env fuel b1 (first_addr ps) (n - m) (ret @ [?v]) = Inr ((ret @ [?v]) @ v, b')"
      "grown env b1 b' new" "n - m \<le> length (chain_space cap (ps @ new))"
      "vec_cells v = take (n - m) (chain_space cap (ps @ new))" "vec_solid v"
      using Suc.IH [of b1 "ks @ [p]" ps "n - m" "ret @ [?v]"] pos(2) m(5) by blast
    have sp: "chain_space cap (todo @ new1 @ new) = blk_space cap p @ chain_space cap (ps @ new)"
      using new1 by (metis append_Cons append_assoc chain_cells_simps(5))
    have "Buffer_Reserve_loop env (Suc fuel) b (first_addr todo) n ret = Inr (ret @ (?v # v), b')"
      using False b1 IH(1) by (subst Buffer_Reserve_loop.simps) (simp add: Let_def m_def)
    moreover have "vec_cells (?v # v) = take n (chain_space cap (todo @ new1 @ new))"
      unfolding sp using first_space [OF m(3)] IH(4) m by auto
    moreover have "n \<le> length (chain_space cap (todo @ new1 @ new))"
      unfolding sp using IH(3) m by auto
    moreover have "vec_solid (?v # v)"
      using IH m(1) by (simp add: vec_solid_def)
    ultimately show ?thesis
      using grown_trans [OF g IH(2)] by blast
  qed
qed

lemma reserve_at_least_loop:
  assumes "core_inv env b" "bb_chain b = ks @ todo"
    and "\<forall>p \<in> set todo. 0 < Block_SpaceLen cap (snd p)" and "n - r \<le> fuel"
  shows "\<exists>v new b' k. Buffer_ReserveAtLeast_loop env fuel b (first_addr todo) n r ret = Inr (ret @ v, r + k, b') \<and>
     grown env b b' new \<and> n \<le> r + k \<and> (if r < n then r + k < n + cap else k = 0) \<and>
     k \<le> length (chain_space cap (todo @ new)) \<and> vec_cells v = take k (chain_space cap (todo @ new)) \<and>
     vec_solid v"
  using assms
proof (induction fuel arbitrary: b ks todo r ret)
  case 0
  then show ?case
    by (subst Buffer_ReserveAtLeast_loop.simps)
      (auto intro!: exI [of _ "[]"] grown_refl exI [of _ 0] simp: vec_solid_def)
next
  case (Suc fuel)
  show ?case
  proof (cases "r < n")
    case False
    then show ?thesis
      using Suc.prems by (subst Buffer_ReserveAtLeast_loop.simps)
        (auto intro!: exI [of _ "[]"] grown_refl exI [of _ 0] simp: vec_solid_def)
  next
    case True
    obtain p ps new1 b1 where b1:
      "SpaceStepper_Next env b (first_addr todo) = Inr (fst p, first_addr ps, b1)"
      "deref (bb_chain b1) (Some (fst p)) = Inr (snd p)"
      and g: "grown env b b1 new1" and new1: "todo @ new1 = p # ps"
      by (rule step_next [OF Suc.prems(1,2)])
    note pos = step_space [OF Suc.prems(3) g new1]
    define m where "m = Block_SpaceLen cap (snd p)"
    let ?v = "(fst p, bl_offset (snd p) + bl_len (snd p), m)"
    have m: "0 < m" "n - (r + m) \<le> fuel" "m \<le> Block_SpaceLen cap (snd p)" "m \<le> cap"
      using pos True Suc.prems(4) by (auto simp: m_def Block_SpaceLen_def)
    have "bb_chain b1 = (ks @ [p]) @ ps" "core_inv env b1"
      using g new1 Suc.prems(2) by (simp_all add: grown_def)
    then obtain v new b' k where IH:
      "Buffer_ReserveAtLeast_loop env fuel b1 (first_addr ps) n (r + m) (ret @ [?v])
         = Inr ((ret @ [?v]) @ v, (r + m) + k, b')"
      "grown env b1 b' new" "n \<le> (r + m) + k" "if r + m < n then (r + m) + k < n + cap else k = 0"
      "k \<le> length (chain_space cap (ps @ new))"
      "vec_cells v = take k (chain_space cap (ps @ new))" "vec_solid v"
      using Suc.IH [of b1 "ks @ [p]" ps "r + m" "ret @ [?v]"] pos(2) m(2) by blast
    have sp: "chain_space cap (todo @ new1 @ new) = blk_space cap p @ chain_space cap (ps @ new)"
      using new1 by (metis append_Cons append_assoc chain_cells_simps(5))
    have "Buffer_ReserveAtLeast_loop env (Suc fuel) b (first_addr todo) n r ret
        = Inr (ret @ (?v # v), r + (m + k), b')"
      using True b1 IH(1) by (subst Buffer_ReserveAtLeast_loop.simps) (simp add: Let_def m_def ac_simps)
    moreover have "vec_cells (?v # v) = take (m + k) (chain_space cap (todo @ new1 @ new))"
      unfolding sp using first_space [OF m(3)] IH(6) by (simp add: m_def)
    moreover have "m + k \<le> length (chain_space cap (todo @ new1 @ new))"
      unfolding sp using IH(5) by (simp add: m_def)
    moreover have "n \<le> r + (m + k)" "if r < n then r + (m + k) < n + cap else m + k = 0"
      using IH(3,4) True m(4) by (auto split: if_splits)
    moreover have "vec_solid (?v # v)"
      using IH m(1) by (simp add: vec_solid_def)
    ultimately show ?thesis
      using grown_trans [OF g IH(2)] by blast
  qed
qed

lemma commit_block:
  assumes "wf_block cap bl" and "0 < Block_SpaceLen cap bl" and "0 < n"
  obtains m bl' where "Block_Commit cap bl n = (n - m, bl')" "0 < m" "m \<le> n"
    "n = m \<or> full_block cap bl'" "wf_block cap bl'" "bl_offset bl' = bl_offset bl"
    "bl_offset bl < cap" "bl_buf bl' = bl_buf bl"
    "blk_data (a, bl') = blk_data (a, bl) @ take m (blk_space cap (a, bl))"
    "blk_space cap (a, bl') = drop m (blk_space cap (a, bl))"
    "m \<le> length (blk_space cap (a, bl))"
proof -
  define m where "m = (if n < Block_SpaceLen cap bl then n else Block_SpaceLen cap bl)"
  let ?bl = "bl\<lparr>bl_len := bl_len bl + m\<rparr>"
  have m: "0 < m" "m \<le> n" "m \<le> Block_SpaceLen cap bl" "n = m \<or> m = Block_SpaceLen cap bl"
    using assms by (auto simp: m_def)
  have le: "bl_offset bl + bl_len bl + m \<le> cap"
    using assms(1) m by (simp add: wf_block_def Block_SpaceLen_def)
  have "n = m \<or> full_block cap ?bl"
    using m le assms(1) by (auto simp: full_block_def Block_SpaceLen_def wf_block_def)
  moreover have "blk_data (a, ?bl) = blk_data (a, bl) @ take m (blk_space cap (a, bl))"
    using le upt_add_eq_append [of "bl_offset bl" "bl_offset bl + bl_len bl" m]
    by (simp add: blk_data_def blk_space_def take_map ac_simps)
  moreover have "blk_space cap (a, ?bl) = drop m (blk_space cap (a, bl))"
    by (simp add: blk_space_def drop_map ac_simps)
  moreover have "Block_Commit cap bl n = (n - m, ?bl)"
    by (simp add: Block_Commit_def m_def Let_def)
  moreover have "wf_block cap ?bl" "bl_offset bl < cap"
    using le m assms(1) by (simp_all add: wf_block_def)
  ultimately show ?thesis
    using that m by simp
qed

lemma commit_loop:
  assumes "core_inv env b" "bb_chain b = ks @ todo"
    and "\<forall>p \<in> set ks. full_block cap (snd p)" and "\<forall>p \<in> set todo. 0 < Block_SpaceLen cap (snd p)"
    and "\<forall>p \<in> set (tl todo). blank_block (snd p)"
    and "\<forall>p \<in> set (tl (ks @ todo)). bl_offset (snd p) = 0"
    and "n \<le> length (chain_space cap todo)" and "n \<le> fuel"
  shows "\<exists>b'. Buffer_Commit_loop env fuel b (first_addr todo) n = Inr b' \<and> core_inv env b' \<and>
     data_cells b' = data_cells b @ take n (spare_cells env b) \<and>
     spare_cells env b' = drop n (spare_cells env b) \<and>
     cell_content (bb_chain b') = cell_content (bb_chain b) \<and>
     bb_data_size b' = bb_data_size b \<and> bb_peeked b' = bb_peeked b"
  using assms
proof (induction todo arbitrary: b ks n fuel)
  case Nil
  then show ?case
    by (subst Buffer_Commit_loop.simps) simp
next
  case (Cons p ps)
  show ?case
  proof (cases "n = 0")
    case True
    then show ?thesis
      using Cons.prems by (subst Buffer_Commit_loop.simps) simp
  next
    case False
    then obtain fuel' where fuel: "fuel = Suc fuel'" using Cons.prems(8) by (cases fuel) auto
    obtain a bl where p: "p = (a, bl)" by (cases p)
    note dist = core_inv_distinct [OF Cons.prems(1), unfolded Cons.prems(2)]
    have nxt: "SpaceStepper_Next env b (first_addr (p # ps)) = Inr (fst p, first_addr ps, b)"
      and de: "deref (bb_chain b) (Some (fst p)) = Inr bl"
      using chain_next_append [OF dist] deref_mem [OF dist, of p] Cons.prems(2) p
      by (simp_all add: SpaceStepper_Next_def)
    have wf: "wf_block cap bl" "0 < Block_SpaceLen cap bl"
      using Cons.prems(1,2,4) p by (auto simp: core_inv_def)
    obtain m bl' where m: "Block_Commit cap bl n = (n - m, bl')" "0 < m" "m \<le> n"
      "n = m \<or> full_block cap bl'" "wf_block cap bl'" "bl_offset bl' = bl_offset bl"
      "bl_offset bl < cap" "bl_buf bl' = bl_buf bl"
      "blk_data (a, bl') = blk_data (a, bl) @ take m (blk_space cap (a, bl))"
      "blk_space cap (a, bl') = drop m (blk_space cap (a, bl))"
      "m \<le> length (blk_space cap (a, bl))"
      using commit_block [OF wf, of n a] False by blast
    let ?b = "b\<lparr>bb_end := Some (fst p), bb_chain := chain_set (bb_chain b) (fst p) bl'\<rparr>"
    have ch: "bb_chain ?b = ks @ (a, bl') # ps"
      using chain_set_append [OF dist] Cons.prems(2) p by simp
    have blank: "\<forall>q \<in> set ps. blank_block (snd q)" using Cons.prems(5) by simp
    have "shape_at cap ks (a, bl') ps"
      using Cons.prems(3,6) blank m p by (cases ks) (auto simp: shape_at_def)
    then have "shape cap (bb_end ?b) (bb_chain ?b)"
      using shapeI [of cap ks "(a, bl')" ps] ch p by simp
    then have inv: "core_inv env ?b"
      using Cons.prems(1,2) m(5) p unfolding core_inv_def ch by (auto split: if_splits)
    have empty: "chain_space cap ks = []" "chain_data ps = []"
      using full_cells Cons.prems(3) blank_cells blank by blast+
    have content: "cell_content (bb_chain ?b) = cell_content (bb_chain b)"
      using m(8) p Cons.prems(2) ch by (intro cell_content_mem) (simp add: chain_mem_def)
    have cells: "data_cells ?b = data_cells b @ take m (spare_cells env b)"
      "spare_cells env ?b = drop m (spare_cells env b)"
      using m(9-11) Cons.prems(2) p ch empty by (simp_all add: data_cells_def spare_cells_def)
    show ?thesis
    proof (cases "n = m")
      case True
      then show ?thesis
        using False fuel nxt de m(1) inv content cells
        by (subst Buffer_Commit_loop.simps) (simp add: Buffer_Commit_loop.simps [of _ _ _ _ 0])
    next
      case False
      then have full: "\<forall>q \<in> set (ks @ [(a, bl')]). full_block cap (snd q)"
        using m(4) Cons.prems(3) by simp
      have "\<exists>b'. Buffer_Commit_loop env fuel' ?b (first_addr ps) (n - m) = Inr b' \<and> core_inv env b' \<and>
         data_cells b' = data_cells ?b @ take (n - m) (spare_cells env ?b) \<and>
         spare_cells env b' = drop (n - m) (spare_cells env ?b) \<and>
         cell_content (bb_chain b') = cell_content (bb_chain ?b) \<and>
         bb_data_size b' = bb_data_size ?b \<and> bb_peeked b' = bb_peeked ?b"
      proof (rule Cons.IH [OF inv])
        show "bb_chain ?b = (ks @ [(a, bl')]) @ ps" using ch by simp
        show "\<forall>q \<in> set (ks @ [(a, bl')]). full_block cap (snd q)" by (rule full)
        show "\<forall>q \<in> set ps. 0 < Block_SpaceLen cap (snd q)" using Cons.prems(4) by simp
        show "\<forall>q \<in> set (tl ps). blank_block (snd q)"
          using blank by (cases ps) auto
        show "\<forall>q \<in> set (tl ((ks @ [(a, bl')]) @ ps)). bl_offset (snd q) = 0"
          using Cons.prems(6) m(6) p by (cases ks) auto
        show "n - m \<le> length (chain_space cap ps)"
        proof -
          have "blk_space cap (a, bl') = []"
            using full by (auto simp: full_block_def blk_space_def)
          then show ?thesis using Cons.prems(7) m(10,11) p by simp
        qed
        show "n - m \<le> fuel'" using Cons.prems(8) fuel m(2) by simp
      qed
      then obtain b' where b': "Buffer_Commit_loop env fuel' ?b (first_addr ps) (n - m) = Inr b'"
        "core_inv env b'" "data_cells b' = data_cells ?b @ take (n - m) (spare_cells env ?b)"
        "spare_cells env b' = drop (n - m) (spare_cells env ?b)"
        "cell_content (bb_chain b') = cell_content (bb_chain ?b)"
        "bb_data_size b' = bb_data_size ?b" "bb_peeked b' = bb_peeked ?b"
        by blast
      have "Buffer_Commit_loop env fuel b (first_addr (p # ps)) n = Inr b'"
        using \<open>n \<noteq> 0\<close> fuel nxt de m(1) b'(1) by (subst Buffer_Commit_loop.simps) simp
      moreover have "take m (spare_cells env b) @ take (n - m) (drop m (spare_cells env b))
          = take n (spare_cells env b)"
        using m(3) by (metis le_add_diff_inverse take_add)
      ultimately show ?thesis
        using b'(2-7) cells content m(3) by simp
    qed
  qed
qed

lemma same_content_mem: "chain_mem (bb_chain b') = chain_mem (bb_chain b) \<Longrightarrow> same_content b b'"
proof -
  assume eq: "chain_mem (bb_chain b') = chain_mem (bb_chain b)"
  have "map fst (chain_mem c) = map fst c" for c by (simp add: chain_mem_def)
  then have "map fst (bb_chain b') = map fst (bb_chain b)" using eq by metis
  then have "fst ` set (bb_chain b') = fst ` set (bb_chain b)" by (metis list.set_map)
  then show ?thesis using cell_content_mem [OF eq] by (simp add: same_content_def)
qed

lemma same_content_trans: "same_content b c \<Longrightarrow> same_content c d \<Longrightarrow> same_content b d"
  by (simp add: same_content_def)

lemma end_is_head:
  assumes "core_inv env b" "data_cells b = []"
  shows "bb_end b = first_addr (bb_chain b)"
proof (cases "bb_chain b = []")
  case True
  then show ?thesis using assms(1) by (simp add: core_inv_def shape_def)
next
  case False
  obtain pre e post where c: "bb_chain b = pre @ e # post" "bb_end b = Some (fst e)" "shape_at cap pre e post"
    using assms(1) False by (auto simp: core_inv_def elim: shape_cases)
  have "pre = []"
  proof (cases pre)
    case (Cons q qs)
    then have "blk_data q \<noteq> []"
      using c(3) length_blk(1) [of q] by (force simp: shape_at_def full_block_def)
    then show ?thesis using assms(2) c(1) Cons by (simp add: data_cells_def)
  qed
  then show ?thesis using c by simp
qed

lemma end_fixed_inv: "core_inv env b \<Longrightarrow> core_inv env (end_fixed b)"
  using end_is_head [of b] by (auto simp: end_fixed_def core_inv_def)

lemma drained_refl: "core_inv env b \<Longrightarrow> drained env b b 0"
  using end_fixed_inv by (simp add: drained_def same_content_def)

lemma drain_block:
  assumes "n \<le> bl_len bl" "wf_block cap bl"
  obtains bl' where "Block_Drain bl n = (0, bl')" "bl_buf bl' = bl_buf bl" "wf_block cap bl'"
    "bl_offset bl' + bl_len bl' = bl_offset bl + bl_len bl" "bl_len bl' = bl_len bl - n"
    "blk_data (a, bl') = drop n (blk_data (a, bl))" "blk_space cap (a, bl') = blk_space cap (a, bl)"
proof -
  let ?bl = "bl\<lparr>bl_offset := bl_offset bl + n, bl_len := bl_len bl - n\<rparr>"
  have "Block_Drain bl n = (0, ?bl)"
    using assms(1) by (auto simp: Block_Drain_def Let_def)
  moreover have "blk_data (a, ?bl) = drop n (blk_data (a, bl))"
    using assms(1) by (simp add: blk_data_def drop_map)
  moreover have "blk_space cap (a, ?bl) = blk_space cap (a, bl)"
    using assms(1) by (simp add: blk_space_def)
  ultimately show ?thesis
    by (intro that [of ?bl]) (use assms in \<open>simp_all add: wf_block_def\<close>)
qed

lemma head_replaced:
  assumes inv: "core_inv env b" and c: "bb_chain b = (a, bl) # rest"
    and bl: "n \<le> bl_len bl" "Block_Drain bl n = (0, bl')" "bl_len bl' = 0 \<longrightarrow> Block_SpaceLen cap bl' \<noteq> 0"
  shows "drained env b (b\<lparr>bb_chain := (a, bl') # rest\<rparr>) n"
proof -
  have wf: "wf_block cap bl" using inv c by (simp add: core_inv_def)
  have bl': "bl_buf bl' = bl_buf bl" "wf_block cap bl'"
    "bl_offset bl' + bl_len bl' = bl_offset bl + bl_len bl" "bl_len bl' = bl_len bl - n"
    "blk_data (a, bl') = drop n (blk_data (a, bl))" "blk_space cap (a, bl') = blk_space cap (a, bl)"
    using drain_block [OF bl(1) wf, of a] bl(2) by (metis Pair_inject)+
  let ?b = "b\<lparr>bb_chain := (a, bl') # rest\<rparr>"
  obtain pre e post where sh: "bb_chain b = pre @ e # post" "bb_end b = Some (fst e)" "shape_at cap pre e post"
    using inv c by (auto simp: core_inv_def elim: shape_cases)
  have "bl_offset bl' < cap"
    using bl'(2) bl(3) by (cases "bl_len bl' = 0") (auto simp: wf_block_def Block_SpaceLen_def)
  then have "shape cap (bb_end ?b) (bb_chain ?b)" if "data_cells ?b \<noteq> [] \<or> pre = []"
  proof (cases pre)
    case Nil
    then have "shape_at cap [] (a, bl') rest" using sh c \<open>bl_offset bl' < cap\<close> by (auto simp: shape_at_def)
    then show ?thesis using shapeI [of cap "[]" "(a, bl')" rest] sh c Nil by auto
  next
    case (Cons q qs)
    then have q: "q = (a, bl)" "rest = qs @ e # post" "full_block cap bl"
      using sh c by (auto simp: shape_at_def)
    have "bl_len bl' \<noteq> 0"
      using bl(3) bl'(3) q(3) by (auto simp: full_block_def Block_SpaceLen_def)
    then have "full_block cap bl'" using q(3) bl'(3) by (simp add: full_block_def)
    then have "shape_at cap ((a, bl') # qs) e post"
      using sh(3) Cons by (simp add: shape_at_def)
    then show ?thesis using shapeI [of cap "(a, bl') # qs" e post] sh(2) q(2) by simp
  qed
  moreover have "pre = [] \<or> bl_len bl' \<noteq> 0"
  proof (cases pre)
    case (Cons q qs)
    then have "full_block cap bl" using sh c by (auto simp: shape_at_def)
    then show ?thesis using bl(3) bl'(3) by (auto simp: full_block_def Block_SpaceLen_def)
  qed simp
  moreover have "bl_len bl' \<noteq> 0 \<Longrightarrow> data_cells ?b \<noteq> []"
    using length_blk(1) [of "(a, bl')"] by (auto simp: data_cells_def)
  ultimately have "core_inv env ?b"
    using inv c bl'(2) by (auto simp: core_inv_def)
  moreover have "same_content b ?b"
    using bl'(1) c by (intro same_content_mem) (simp add: chain_mem_def)
  ultimately show ?thesis
    using end_fixed_inv bl'(5,6) c bl(1) by (simp add: drained_def data_cells_def spare_cells_def)
qed

lemma head_pruned:
  assumes inv: "core_inv env b" and c: "bb_chain b = (a, bl) # rest"
    and full: "bl_offset bl + bl_len bl = cap"
    and len: "0 < bl_len bl"
  defines "b1 \<equiv> b\<lparr>bb_chain := rest, bb_freelist := Freelist_Delete (bb_freelist b) a,
               bb_block_cnt := bb_block_cnt b - 1\<rparr>"
  shows "core_inv env b1 \<or> data_cells b1 = [] \<and> core_inv env (end_fixed b1)"
    and "data_cells b = blk_data (a, bl) @ data_cells b1"
    and "spare_cells env b1 = spare_cells env b" "same_content b b1"
proof -
  show "data_cells b = blk_data (a, bl) @ data_cells b1" "spare_cells env b1 = spare_cells env b"
    using c full by (simp_all add: data_cells_def spare_cells_def b1_def blk_space_def)
  have dist: "distinct (map fst ((a, bl) # rest))"
    using core_inv_distinct [OF inv] c by simp
  then show "same_content b b1"
    by (auto simp: same_content_def b1_def c)
  obtain pre e post where sh: "bb_chain b = pre @ e # post" "bb_end b = Some (fst e)" "shape_at cap pre e post"
    using inv c by (auto simp: core_inv_def elim: shape_cases)
  have rest_inv: "core_inv env (b1\<lparr>bb_end := x\<rparr>)" if "shape cap x rest" for x
    using inv c that fl_ok_Delete by (auto simp: core_inv_def b1_def)
  show "core_inv env b1 \<or> data_cells b1 = [] \<and> core_inv env (end_fixed b1)"
  proof (cases pre)
    case Nil
    then have blank: "\<forall>p \<in> set rest. blank_block (snd p)" using sh c by (simp add: shape_at_def)
    then have "data_cells b1 = []" using blank_cells by (simp add: data_cells_def b1_def)
    moreover have "shape cap (first_addr rest) rest"
    proof (cases rest)
      case (Cons q qs)
      then have "shape_at cap [] q qs"
        using blank cap_pos by (simp add: shape_at_def blank_block_def)
      then show ?thesis using shapeI [of cap "[]" q qs] Cons by simp
    qed (simp add: shape_def)
    ultimately show ?thesis
      using rest_inv by (simp add: end_fixed_def) (simp add: b1_def)
  next
    case (Cons q qs)
    have "shape_at cap qs e post"
      using sh(3) Cons by (cases qs) (auto simp: shape_at_def)
    then have "shape cap (bb_end b) rest"
      using shapeI [of cap qs e post] sh c Cons by simp
    then have "core_inv env (b1\<lparr>bb_end := bb_end b\<rparr>)" by (rule rest_inv)
    moreover have "b1\<lparr>bb_end := bb_end b\<rparr> = b1" by (simp add: b1_def)
    ultimately show ?thesis by simp
  qed
qed

lemma drain_loop:
  assumes "core_inv env b" "n \<le> length (data_cells b)" "n \<le> fuel"
  shows "\<exists>b'. Buffer_Drain_loop env fuel b n = Inr b' \<and> drained env b b' n"
  using assms
proof (induction fuel arbitrary: b n)
  case 0
  then show ?case using drained_refl by (subst Buffer_Drain_loop.simps) simp
next
  case (Suc fuel)
  show ?case
  proof (cases "n = 0")
    case True
    then show ?thesis using drained_refl Suc.prems by (subst Buffer_Drain_loop.simps) simp
  next
    case False
    then obtain a bl rest where c: "bb_chain b = (a, bl) # rest"
      using Suc.prems(2) by (cases "bb_chain b") (auto simp: data_cells_def)
    have wf: "wf_block cap bl" using Suc.prems(1) c by (simp add: core_inv_def)
    define b1 where "b1 = b\<lparr>bb_chain := rest, bb_freelist := Freelist_Delete (bb_freelist b) a,
               bb_block_cnt := bb_block_cnt b - 1\<rparr>"
    obtain r bl' where bl': "Block_Drain bl n = (r, bl')" by fastforce
    have head: "0 < bl_len bl \<and> (n \<le> bl_len bl \<or> bl_offset bl + bl_len bl = cap)"
    proof -
      obtain pre e post where sh: "bb_chain b = pre @ e # post" "shape_at cap pre e post"
        using Suc.prems(1) c by (auto simp: core_inv_def elim: shape_cases)
      show ?thesis
      proof (cases pre)
        case Nil
        then have "chain_data rest = []" using sh c blank_cells by (simp add: shape_at_def)
        then show ?thesis using Suc.prems(2) False c by (simp add: data_cells_def)
      next
        case (Cons q qs)
        then show ?thesis using sh c by (auto simp: shape_at_def full_block_def)
      qed
    qed
    show ?thesis
    proof (cases "n \<le> bl_len bl \<and> \<not> (bl_len bl' = 0 \<and> Block_SpaceLen cap bl' = 0)")
      case True
      then have "r = 0" using bl' by (auto simp: Block_Drain_def Let_def split: if_splits)
      then show ?thesis
        using False True c bl' head_replaced [OF Suc.prems(1) c, of n bl']
        by (subst Buffer_Drain_loop.simps)
          (auto simp: Let_def Buffer_Drain_loop.simps [of _ _ _ 0])
    next
      case prune: False
      have full: "bl_offset bl + bl_len bl = cap" and r: "r = n - bl_len bl"
        and gone: "bl_len bl' = 0" "Block_SpaceLen cap bl' = 0"
        using prune head bl' wf
        by (auto simp: Block_Drain_def Let_def Block_SpaceLen_def wf_block_def split: if_splits)
      note pr = head_pruned [OF Suc.prems(1) c full, folded b1_def]
      have step: "Buffer_Drain_loop env (Suc fuel) b n = Buffer_Drain_loop env fuel b1 r"
        using False c bl' gone by (subst Buffer_Drain_loop.simps) (simp add: b1_def)
      have data: "drop n (data_cells b) = drop r (data_cells b1)" if "bl_len bl \<le> n"
        using pr(2) head that r by simp
      have keep: "bb_data_size b1 = bb_data_size b" "bb_reserved b1 = bb_reserved b"
        by (simp_all add: b1_def)
      have len: "bl_len bl \<le> n"
        using prune gone bl' by (auto simp: Block_Drain_def Let_def split: if_splits)
      show ?thesis
      proof (cases "core_inv env b1")
        case True
        moreover have "r \<le> length (data_cells b1)" using Suc.prems(2) pr(2) head r by simp
        moreover have "r \<le> fuel" using Suc.prems(3) head r by linarith
        ultimately obtain b' where "Buffer_Drain_loop env fuel b1 r = Inr b'" "drained env b1 b' r"
          using Suc.IH by blast
        then show ?thesis
          using step data [OF len] pr(3,4) head keep same_content_trans
          by (auto simp: drained_def)
      next
        case False
        then have "data_cells b1 = []" "core_inv env (end_fixed b1)" using pr(1) head by auto
        moreover have "r = 0" using Suc.prems(2) pr(2) head r \<open>data_cells b1 = []\<close> by simp
        ultimately show ?thesis
          using step data [OF len] pr(3,4) head keep
          by (simp add: drained_def Buffer_Drain_loop.simps [of _ _ _ 0])
      qed
    qed
  qed
qed

end

end
