(* ===== verification/Proxy_Buffer_Ops.thy ===== *)
theory Proxy_Buffer_Ops
  imports Proxy_Buffer_Correct
begin

text \<open>
  Whole operations of the proxy's buffer: on a buffer that keeps the invariant each of
  them returns, keeps the invariant and acts on data and spare cells as the abstract
  buffer prescribes.
\<close>

section \<open>Whole operations\<close>

context buffer_world begin

lemma chain_cells_addr:
  "fst ` set (chain_data c) \<subseteq> fst ` set c" "fst ` set (chain_space cap c) \<subseteq> fst ` set c"
  by (induction c) (auto simp: blk_data_def blk_space_def)

lemma chain_cells_valid:
  assumes "distinct (map fst c)" "\<forall>p \<in> set c. wf_block cap (snd p)"
    and "x \<in> set (chain_data c) \<union> set (chain_space cap c)"
  shows "cell_valid c x"
proof -
  obtain p where p: "p \<in> set c" "x \<in> set (blk_data p) \<union> set (blk_space cap p)"
    using assms(3) by (auto simp: chain_data_def chain_space_def)
  then have "map_of c (fst x) = Some (snd p)"
    using assms(1) by (auto simp: blk_data_def blk_space_def)
  moreover have "snd x < length (bl_buf (snd p))"
    using p assms(2) by (auto simp: blk_data_def blk_space_def wf_block_def)
  ultimately show ?thesis by (simp add: cell_valid_def)
qed

lemma chain_cells_distinct:
  assumes "distinct (map fst c)"
  shows "distinct (chain_data c @ chain_space cap c)"
  using assms
proof (induction c)
  case (Cons p c)
  then have out: "fst p \<notin> fst ` (set (chain_data c) \<union> set (chain_space cap c))"
    using chain_cells_addr(1) [of c] chain_cells_addr(2) [of c] by (simp add: image_Un) blast
  have "x \<notin> set (chain_data c) \<union> set (chain_space cap c)"
    if "x \<in> set (blk_data p) \<union> set (blk_space cap p)" for x
  proof -
    have "fst x = fst p" using that by (auto simp: blk_data_def blk_space_def)
    then show ?thesis using out by (metis imageI)
  qed
  then have "set (blk_data p) \<inter> (set (chain_data c) \<union> set (chain_space cap c)) = {}"
    "set (blk_space cap p) \<inter> (set (chain_data c) \<union> set (chain_space cap c)) = {}"
    by blast+
  moreover have "distinct (blk_data p)" "distinct (blk_space cap p)"
    "set (blk_data p) \<inter> set (blk_space cap p) = {}"
    by (auto simp: blk_data_def blk_space_def distinct_map inj_on_def)
  moreover have "distinct (chain_data c @ chain_space cap c)" using Cons by simp
  ultimately show ?case by (simp add: Int_Un_distrib Int_Un_distrib2 Int_commute)
qed simp

lemma cells_valid:
  "core_inv env b \<Longrightarrow> x \<in> set (data_cells b) \<union> set (spare_cells env b) \<Longrightarrow> cell_valid (bb_chain b) x"
  unfolding data_cells_def spare_cells_def
  by (rule chain_cells_valid) (simp_all add: core_inv_def fl_ok_def)

lemma cells_distinct: "core_inv env b \<Longrightarrow> distinct (data_cells b @ spare_cells env b)"
  unfolding data_cells_def spare_cells_def by (rule chain_cells_distinct) (rule core_inv_distinct)

lemma content_append:
  "cell_valid c x \<Longrightarrow> cell_content (c @ d) x = cell_content c x"
  by (cases x) (auto simp: cell_valid_def)

lemma grown_buffer:
  assumes "grown env b b' new" "buffer_inv env b"
  shows "buffer_inv env b'" "data_cells b' = data_cells b"
    "\<forall>x \<in> set (data_cells b). cell_content (bb_chain b') x = cell_content (bb_chain b) x"
proof -
  have c: "bb_chain b' = bb_chain b @ new" "chain_data new = []" "core_inv env b'"
    "bb_data_size b' = bb_data_size b"
    using assms(1) blank_cells by (auto simp: grown_def)
  then show "data_cells b' = data_cells b" by (simp add: data_cells_def)
  then show "buffer_inv env b'" using assms(2) c by (simp add: buffer_inv_def)
  show "\<forall>x \<in> set (data_cells b). cell_content (bb_chain b') x = cell_content (bb_chain b) x"
    using assms(2) content_append cells_valid by (auto simp: c(1) buffer_inv_def)
qed

lemma spare_after:
  assumes "grown env b b' new" "bb_chain b = ks @ todo" "\<forall>p \<in> set ks. full_block cap (snd p)"
  shows "spare_cells env b' = chain_space cap (todo @ new)"
  using assms full_cells by (simp add: grown_def spare_cells_def)

lemma num_buffers:
  assumes "core_inv env b"
  obtains k where "SpaceStepper_NumBuffersToReserve env b n = Inr k"
proof (cases "bb_end b")
  case None
  then show ?thesis using that by (simp add: SpaceStepper_NumBuffersToReserve_def Let_def)
next
  case (Some a)
  have "\<exists>bl. deref (bb_chain b) (Some a) = Inr bl"
  proof (cases "bb_chain b = []")
    case True
    then show ?thesis using assms Some by (simp add: core_inv_def shape_def)
  next
    case False
    then obtain pre e post where "bb_chain b = pre @ e # post" "bb_end b = Some (fst e)"
      using assms by (auto simp: core_inv_def elim: shape_cases)
    then show ?thesis
      using deref_mem [OF core_inv_distinct [OF assms], of e] Some by auto
  qed
  then obtain bl where "deref (bb_chain b) (Some a) = Inr bl" by blast
  then show ?thesis
    using that Some
    by (cases "Block_SpaceLen cap bl = 0") (simp_all add: SpaceStepper_NumBuffersToReserve_def Let_def)
qed

lemma op_Reserve:
  assumes inv: "buffer_inv env b" and free: "\<not> bb_reserved b"
  obtains v b' where "Buffer_Reserve env b n = Inr (v, b')" "buffer_inv env b'" "bb_reserved b'"
    "bb_peeked b' = bb_peeked b" "data_cells b' = data_cells b"
    "\<forall>x \<in> set (data_cells b). cell_content (bb_chain b') x = cell_content (bb_chain b) x"
    "n \<le> length (spare_cells env b')" "vec_cells v = take n (spare_cells env b')" "vec_solid v"
proof -
  let ?b = "b\<lparr>bb_reserved := True\<rparr>"
  have core: "core_inv env ?b" and inv': "buffer_inv env ?b"
    using inv by (simp_all add: buffer_inv_def data_cells_def)
  obtain ks todo where st: "SpaceStepper env ?b = Inr (first_addr todo)" "bb_chain ?b = ks @ todo"
    "\<forall>p \<in> set ks. full_block cap (snd p)" "\<forall>p \<in> set todo. 0 < Block_SpaceLen cap (snd p)"
    "\<forall>p \<in> set (tl todo). blank_block (snd p)" "\<forall>p \<in> set (tl (ks @ todo)). bl_offset (snd p) = 0"
    by (rule stepper [OF core])
  obtain k where k: "SpaceStepper_NumBuffersToReserve env ?b n = Inr k"
    by (rule num_buffers [OF core])
  obtain v new b' where r: "Buffer_Reserve_loop env n ?b (first_addr todo) n [] = Inr (v, b')"
    "grown env ?b b' new" "n \<le> length (chain_space cap (todo @ new))"
    "vec_cells v = take n (chain_space cap (todo @ new))" "vec_solid v"
    using reserve_loop [OF core st(2,4) order_refl [of n], of "[]"] unfolding append_Nil by blast
  have "Buffer_Reserve env b n = Inr (v, b')"
    using free st(1) k r(1) by (simp add: Buffer_Reserve_def Let_def)
  then show ?thesis
    using that grown_buffer [OF r(2) inv'] spare_after [OF r(2) st(2,3)] r(2-5)
    by (simp add: grown_def data_cells_def)
qed

lemma op_ReserveAtLeast:
  assumes inv: "buffer_inv env b" and free: "\<not> bb_reserved b"
  obtains v k b' where "Buffer_ReserveAtLeast env b n = Inr (v, k, b')" "buffer_inv env b'"
    "bb_reserved b'" "bb_peeked b' = bb_peeked b" "data_cells b' = data_cells b"
    "\<forall>x \<in> set (data_cells b). cell_content (bb_chain b') x = cell_content (bb_chain b) x"
    "n \<le> k" "0 < n \<longrightarrow> k < n + cap"
    "k \<le> length (spare_cells env b')" "vec_cells v = take k (spare_cells env b')" "vec_solid v"
proof -
  let ?b = "b\<lparr>bb_reserved := True\<rparr>"
  have core: "core_inv env ?b" and inv': "buffer_inv env ?b"
    using inv by (simp_all add: buffer_inv_def data_cells_def)
  obtain ks todo where st: "SpaceStepper env ?b = Inr (first_addr todo)" "bb_chain ?b = ks @ todo"
    "\<forall>p \<in> set ks. full_block cap (snd p)" "\<forall>p \<in> set todo. 0 < Block_SpaceLen cap (snd p)"
    "\<forall>p \<in> set (tl todo). blank_block (snd p)" "\<forall>p \<in> set (tl (ks @ todo)). bl_offset (snd p) = 0"
    by (rule stepper [OF core])
  obtain j where j: "SpaceStepper_NumBuffersToReserve env ?b n = Inr j"
    by (rule num_buffers [OF core])
  obtain v new b' k where r: "Buffer_ReserveAtLeast_loop env n ?b (first_addr todo) n 0 [] = Inr (v, k, b')"
    "grown env ?b b' new" "n \<le> k" "if 0 < n then k < n + cap else k = 0"
    "k \<le> length (chain_space cap (todo @ new))" "vec_cells v = take k (chain_space cap (todo @ new))"
    "vec_solid v"
    using reserve_at_least_loop [OF core st(2,4) diff_le_self [of n 0], of "[]"]
    unfolding append_Nil add_0 by blast
  have "Buffer_ReserveAtLeast env b n = Inr (v, k, b')"
    using free st(1) j r(1) by (simp add: Buffer_ReserveAtLeast_def Let_def)
  then show ?thesis
    using that grown_buffer [OF r(2) inv'] spare_after [OF r(2) st(2,3)] r(2-7)
    by (simp add: grown_def data_cells_def)
qed

lemma chain_room:
  assumes "\<forall>p \<in> set c. wf_block cap (snd p)" "\<forall>p \<in> set c. bl_offset (snd p) = 0"
  shows "length c * cap = length (chain_data c) + length (chain_space cap c)"
  using assms by (induction c) (auto simp: wf_block_def Block_SpaceLen_def)

lemma space_size:
  assumes inv: "buffer_inv env b"
  shows "Buffer_space_size env b = length (spare_cells env b)"
proof (cases "bb_chain b")
  case Nil
  then show ?thesis by (simp add: Buffer_space_size_def spare_cells_def)
next
  case (Cons p c)
  have core: "core_inv env b" using inv by (simp add: buffer_inv_def)
  obtain ks todo where "bb_chain b = ks @ todo" "\<forall>p \<in> set (tl (ks @ todo)). bl_offset (snd p) = 0"
    by (rule stepper [OF core]) blast
  then have "\<forall>q \<in> set c. bl_offset (snd q) = 0" using Cons by (metis list.sel(3))
  then have "length c * cap = length (chain_data c) + length (chain_space cap c)"
    using core Cons by (intro chain_room) (auto simp: core_inv_def)
  moreover have "bl_offset (snd p) + bl_len (snd p) + Block_SpaceLen cap (snd p) = cap"
    using core Cons by (auto simp: core_inv_def wf_block_def Block_SpaceLen_def)
  ultimately show ?thesis
    using inv Cons
    by (simp add: Buffer_space_size_def spare_cells_def buffer_inv_def core_inv_def data_cells_def)
qed

lemma op_Commit:
  assumes inv: "buffer_inv env b" and res: "bb_reserved b" and ne: "bb_chain b \<noteq> []"
    and room: "n \<le> length (spare_cells env b)"
  obtains b' where "Buffer_Commit env b n = Inr b'" "buffer_inv env b'" "\<not> bb_reserved b'"
    "bb_peeked b' = bb_peeked b" "data_cells b' = data_cells b @ take n (spare_cells env b)"
    "cell_content (bb_chain b') = cell_content (bb_chain b)"
proof -
  have core: "core_inv env b" using inv by (simp add: buffer_inv_def)
  obtain ks todo where st: "SpaceStepper env b = Inr (first_addr todo)" "bb_chain b = ks @ todo"
    "\<forall>p \<in> set ks. full_block cap (snd p)" "\<forall>p \<in> set todo. 0 < Block_SpaceLen cap (snd p)"
    "\<forall>p \<in> set (tl todo). blank_block (snd p)" "\<forall>p \<in> set (tl (ks @ todo)). bl_offset (snd p) = 0"
    by (rule stepper [OF core])
  have "n \<le> length (chain_space cap todo)"
    using room st(2) full_cells [OF st(3)] by (simp add: spare_cells_def)
  then obtain b1 where b1: "Buffer_Commit_loop env n b (first_addr todo) n = Inr b1" "core_inv env b1"
    "data_cells b1 = data_cells b @ take n (spare_cells env b)"
    "cell_content (bb_chain b1) = cell_content (bb_chain b)"
    "bb_data_size b1 = bb_data_size b" "bb_peeked b1 = bb_peeked b"
    using commit_loop [OF core st(2-6) _ order_refl] by blast
  let ?b = "b1\<lparr>bb_data_size := bb_data_size b1 + n, bb_reserved := False\<rparr>"
  have "Buffer_Commit env b n = Inr ?b"
    using res ne room space_size [OF inv] st(1) b1(1) by (simp add: Buffer_Commit_def)
  moreover have "buffer_inv env ?b"
    using inv b1(2,3,5) room by (simp add: buffer_inv_def data_cells_def)
  ultimately show ?thesis
    using that b1 by (simp add: data_cells_def)
qed

lemma peek_cells:
  assumes "core_inv env b"
  shows "vec_cells (map (\<lambda>(a, bl). (a, bl_offset bl, bl_len bl))
           (takeWhile (\<lambda>p. 0 < bl_len (snd p)) (bb_chain b))) = data_cells b"
proof -
  have vec: "vec_cells (map (\<lambda>(a, bl). (a, bl_offset bl, bl_len bl)) c) = chain_data c" for c
    by (induction c) (auto simp: blk_data_def)
  have "chain_data (takeWhile (\<lambda>p. 0 < bl_len (snd p)) (bb_chain b)) = chain_data (bb_chain b)"
  proof (cases "bb_chain b = []")
    case False
    obtain pre e post where c: "bb_chain b = pre @ e # post" "shape_at cap pre e post"
      using assms False by (auto simp: core_inv_def elim: shape_cases)
    have "takeWhile (\<lambda>p. 0 < bl_len (snd p)) post = []" "chain_data post = []"
      using c(2) blank_cells by (cases post; auto simp: shape_at_def blank_block_def)+
    moreover have "takeWhile (\<lambda>p. 0 < bl_len (snd p)) (pre @ e # post)
        = pre @ takeWhile (\<lambda>p. 0 < bl_len (snd p)) (e # post)"
      using c(2) by (intro takeWhile_append2) (auto simp: shape_at_def full_block_def)
    ultimately show ?thesis using c(1) by (cases "0 < bl_len (snd e)") auto
  qed simp
  then show ?thesis by (simp add: vec data_cells_def)
qed

lemma op_Peek:
  assumes inv: "buffer_inv env b" and free: "\<not> bb_peeked b"
  obtains v where "Buffer_Peek b = Inr (v, b\<lparr>bb_peeked := True\<rparr>)" "vec_cells v = data_cells b"
    "vec_solid v"
proof
  let ?v = "map (\<lambda>(a, bl). (a, bl_offset bl, bl_len bl)) (takeWhile (\<lambda>p. 0 < bl_len (snd p)) (bb_chain b))"
  show "Buffer_Peek b = Inr (?v, b\<lparr>bb_peeked := True\<rparr>)"
    using free by (simp add: Buffer_Peek_def)
  show "vec_cells ?v = data_cells b"
    using inv by (intro peek_cells) (simp add: buffer_inv_def)
  show "vec_solid ?v"
    by (auto simp: vec_solid_def dest: set_takeWhileD)
qed

lemma reset_head:
  assumes inv: "core_inv env b" and empty: "data_cells b = []" and c: "bb_chain b = (a, bl) # rest"
    and e: "bb_end b = Some a"
  shows "core_inv env (b\<lparr>bb_chain := (a, bl\<lparr>bl_offset := 0\<rparr>) # rest\<rparr>)"
proof -
  have "bb_end b = first_addr (bb_chain b)" by (rule end_is_head [OF inv empty])
  obtain pre x post where sh: "bb_chain b = pre @ x # post" "shape_at cap pre x post" "bb_end b = Some (fst x)"
    using inv c by (auto simp: core_inv_def elim: shape_cases)
  have "pre = []"
    using sh empty by (cases pre) (auto simp: shape_at_def full_block_def data_cells_def)
  then have "shape_at cap [] (a, bl\<lparr>bl_offset := 0\<rparr>) rest"
    using sh c cap_pos by (simp add: shape_at_def)
  then have "shape cap (Some a) ((a, bl\<lparr>bl_offset := 0\<rparr>) # rest)"
    using shapeI [of cap "[]" "(a, bl\<lparr>bl_offset := 0\<rparr>)" rest] by simp
  then show ?thesis
    using inv c e by (auto simp: core_inv_def wf_block_def)
qed

lemma op_Drain:
  assumes inv: "buffer_inv env b" and pk: "bb_peeked b" and n: "n \<le> length (data_cells b)"
  obtains b' where "Buffer_Drain env b n = Inr b'" "buffer_inv env b'" "\<not> bb_peeked b'"
    "bb_reserved b' = bb_reserved b" "data_cells b' = drop n (data_cells b)"
    "\<forall>x \<in> set (data_cells b'). cell_content (bb_chain b') x = cell_content (bb_chain b) x"
    "bb_reserved b \<longrightarrow> spare_cells env b' = spare_cells env b"
proof -
  have core: "core_inv env b" and size: "bb_data_size b = length (data_cells b)"
    using inv by (simp_all add: buffer_inv_def)
  obtain b1 where b1: "Buffer_Drain_loop env n b n = Inr b1" "drained env b b1 n"
    using drain_loop [OF core n order_refl] by blast
  let ?b2 = "end_fixed (b1\<lparr>bb_data_size := bb_data_size b1 - n, bb_peeked := False\<rparr>)"
  have d: "core_inv env (end_fixed b1)" "data_cells b1 = drop n (data_cells b)"
    "spare_cells env b1 = spare_cells env b" "same_content b b1"
    "bb_data_size b1 = bb_data_size b" "bb_reserved b1 = bb_reserved b"
    using b1(2) by (simp_all add: drained_def)
  have zero: "bb_data_size b1 - n = 0 \<longleftrightarrow> data_cells b1 = []"
    using size d(2,5) by simp
  have e2: "?b2 = (end_fixed b1)\<lparr>bb_data_size := bb_data_size b1 - n, bb_peeked := False\<rparr>"
    by (simp add: end_fixed_def data_cells_def)
  have b2: "core_inv env ?b2" "data_cells ?b2 = data_cells b1" "bb_chain ?b2 = bb_chain b1"
    "bb_data_size ?b2 = length (data_cells b1)" "\<not> bb_peeked ?b2" "bb_reserved ?b2 = bb_reserved b"
    unfolding e2 using d size by (simp_all add: end_fixed_def data_cells_def)
  have content: "\<forall>x \<in> set (data_cells b1). cell_content (bb_chain b1) x = cell_content (bb_chain b) x"
  proof
    fix x assume "x \<in> set (data_cells b1)"
    then have "fst x \<in> fst ` set (bb_chain b1)"
      using chain_cells_addr(1) [of "bb_chain b1"] by (auto simp: data_cells_def)
    then show "cell_content (bb_chain b1) x = cell_content (bb_chain b) x"
      using d(4) unfolding same_content_def by blast
  qed
  show ?thesis
  proof (cases "data_cells b1 = [] \<and> bb_chain b1 \<noteq> [] \<and> \<not> bb_reserved b")
    case True
    then obtain a bl rest where c: "bb_chain b1 = (a, bl) # rest" by (cases "bb_chain b1") auto
    have e: "bb_end ?b2 = Some a" using True c by (simp add: end_fixed_def data_cells_def)
    let ?b3 = "?b2\<lparr>bb_chain := (a, bl\<lparr>bl_offset := 0\<rparr>) # rest\<rparr>"
    have "core_inv env ?b3"
      using b2(1,2,3) True c e by (intro reset_head) simp_all
    moreover have "data_cells ?b3 = []"
      using True c by (simp add: data_cells_def)
    ultimately have "buffer_inv env ?b3" "data_cells ?b3 = data_cells b1"
      using b2(4) True by (simp_all add: buffer_inv_def)
    moreover have "Buffer_Drain env b n = Inr ?b3"
      using pk n size b1(1) zero True c d(5,6)
      by (simp add: Buffer_Drain_def Let_def end_fixed_def data_cells_def)
    ultimately show ?thesis
      using that True b2(5,6) d(2) by simp
  next
    case False
    have "Buffer_Drain env b n = Inr ?b2"
      using pk n size b1(1) zero False d(5,6)
      by (auto simp add: Buffer_Drain_def Let_def end_fixed_def data_cells_def)
    moreover have "buffer_inv env ?b2" using b2 by (simp add: buffer_inv_def)
    ultimately show ?thesis
      using that b2 d(2,3) content by (simp add: spare_cells_def)
  qed
qed

lemma op_scatter:
  assumes inv: "buffer_inv env b" and v: "vec_solid v" "vec_cells v = take k (spare_cells env b)"
    and xs: "length xs \<le> length (vec_cells v)"
  obtains b' where "Buffer_scatter b v xs = Inr b'" "buffer_inv env b'"
    "bb_reserved b' = bb_reserved b" "bb_peeked b' = bb_peeked b"
    "data_cells b' = data_cells b" "spare_cells env b' = spare_cells env b"
    "map (cell_content (bb_chain b')) (take (length xs) (spare_cells env b)) = xs"
    "\<forall>x \<in> set (data_cells b). cell_content (bb_chain b') x = cell_content (bb_chain b) x"
proof -
  have core: "core_inv env b" using inv by (simp add: buffer_inv_def)
  note dist = cells_distinct [OF core]
  have sub: "set (vec_cells v) \<subseteq> set (spare_cells env b)" using v(2) by (simp add: set_take_subset)
  have "vec_valid (bb_chain b) v"
    using v(1) sub cells_valid [OF core] by (intro vec_valid_cells) auto
  moreover have "distinct (vec_cells v)" using v(2) dist by simp
  ultimately obtain c where c: "scatter (bb_chain b) v xs = Inr c" "chain_hdr c = chain_hdr (bb_chain b)"
    "map (cell_content c) (take (length xs) (vec_cells v)) = xs"
    "\<forall>x. x \<notin> set (take (length xs) (vec_cells v)) \<longrightarrow> cell_content c x = cell_content (bb_chain b) x"
    using scatter_valid [OF core_inv_distinct [OF core] _ _ xs] by blast
  let ?b = "b\<lparr>bb_chain := c\<rparr>"
  have cells: "data_cells ?b = data_cells b" "spare_cells env ?b = spare_cells env b"
    using chain_hdr_map(2,3) [OF c(2)] by (simp_all add: data_cells_def spare_cells_def)
  then have "buffer_inv env ?b"
    using inv core_inv_hdr [OF core c(2)] by (simp add: buffer_inv_def)
  moreover have "take (length xs) (vec_cells v) = take (length xs) (spare_cells env b)"
  proof -
    have "length xs \<le> k" using v(2) xs by simp
    then show ?thesis using v(2) by simp
  qed
  moreover have "x \<notin> set (take (length xs) (vec_cells v))" if "x \<in> set (data_cells b)" for x
    using that dist sub by (auto dest: in_set_takeD)
  ultimately show ?thesis
    using that [of ?b] cells c by (simp add: Buffer_scatter_def)
qed

lemma op_gather:
  assumes inv: "buffer_inv env b" and v: "vec_solid v" "vec_cells v = take k (data_cells b)"
  shows "Buffer_gather b v = Inr (take k (buffer_bytes b))"
proof -
  have core: "core_inv env b" using inv by (simp add: buffer_inv_def)
  have "vec_valid (bb_chain b) v"
    using v cells_valid [OF core] by (intro vec_valid_cells) (auto dest: in_set_takeD)
  then show ?thesis
    using gather_valid v(2) by (simp add: Buffer_gather_def buffer_bytes_def take_map)
qed

lemma op_CopyOut:
  assumes inv: "buffer_inv env b" and free: "\<not> bb_peeked b"
  obtains b' where "Buffer_CopyOut env b n = Inr (take n (buffer_bytes b), b')" "buffer_inv env b'"
    "\<not> bb_peeked b'" "bb_reserved b' = bb_reserved b" "buffer_bytes b' = drop n (buffer_bytes b)"
proof -
  let ?b = "b\<lparr>bb_peeked := True\<rparr>"
  have core: "core_inv env b" using inv by (simp add: buffer_inv_def)
  have pinv: "buffer_inv env ?b" using inv by (simp add: buffer_inv_def data_cells_def)
  obtain v where v: "Buffer_Peek b = Inr (v, ?b)" "vec_cells v = data_cells b" "vec_solid v"
    by (rule op_Peek [OF inv free])
  have "vec_valid (bb_chain b) v"
    using v cells_valid [OF core] by (intro vec_valid_cells) auto
  then have loop: "Buffer_CopyOut_loop (bb_chain ?b) v n [] = Inr (take n (buffer_bytes b))"
    using v(2) CopyOut_loop [of "bb_chain b" v "[]" n] by (simp add: buffer_bytes_def)
  let ?k = "length (take n (buffer_bytes b))"
  have k: "?k \<le> length (data_cells ?b)" by (simp add: buffer_bytes_def data_cells_def)
  obtain b' where b': "Buffer_Drain env ?b ?k = Inr b'" "buffer_inv env b'" "\<not> bb_peeked b'"
    "bb_reserved b' = bb_reserved ?b" "data_cells b' = drop ?k (data_cells ?b)"
    "\<forall>x \<in> set (data_cells b'). cell_content (bb_chain b') x = cell_content (bb_chain ?b) x"
    "bb_reserved ?b \<longrightarrow> spare_cells env b' = spare_cells env ?b"
    by (rule op_Drain [OF pinv _ k]) simp_all
  have "drop ?k (data_cells ?b) = drop n (data_cells b)"
    by (cases "n \<le> length (data_cells b)") (simp_all add: buffer_bytes_def data_cells_def min_def)
  then have "buffer_bytes b' = drop n (buffer_bytes b)"
    using b'(5,6) by (simp add: buffer_bytes_def drop_map)
  moreover have "Buffer_CopyOut env b n = Inr (take n (buffer_bytes b), b')"
    using v(1) loop b'(1) by (simp add: Buffer_CopyOut_def)
  ultimately show ?thesis using that b' by simp
qed

lemma op_CopyIn:
  assumes inv: "buffer_inv env b" and free: "\<not> bb_reserved b" and xs: "xs \<noteq> []"
  obtains b' where "Buffer_CopyIn env b xs = Inr b'" "buffer_inv env b'" "\<not> bb_reserved b'"
    "bb_peeked b' = bb_peeked b" "buffer_bytes b' = buffer_bytes b @ xs"
proof -
  obtain v b1 where b1: "Buffer_Reserve env b (length xs) = Inr (v, b1)" "buffer_inv env b1" "bb_reserved b1"
    "bb_peeked b1 = bb_peeked b" "data_cells b1 = data_cells b"
    "\<forall>x \<in> set (data_cells b). cell_content (bb_chain b1) x = cell_content (bb_chain b) x"
    "length xs \<le> length (spare_cells env b1)" "vec_cells v = take (length xs) (spare_cells env b1)"
    "vec_solid v"
    by (rule op_Reserve [OF inv free])
  have len: "length xs \<le> length (vec_cells v)" using b1(7,8) by simp
  obtain b2 where b2: "Buffer_scatter b1 v xs = Inr b2" "buffer_inv env b2"
    "bb_reserved b2 = bb_reserved b1" "bb_peeked b2 = bb_peeked b1"
    "data_cells b2 = data_cells b1" "spare_cells env b2 = spare_cells env b1"
    "map (cell_content (bb_chain b2)) (take (length xs) (spare_cells env b1)) = xs"
    "\<forall>x \<in> set (data_cells b1). cell_content (bb_chain b2) x = cell_content (bb_chain b1) x"
    by (rule op_scatter [OF b1(2,9,8) len])
  have ne: "bb_chain b2 \<noteq> []" using b1(7) b2(6) xs by (auto simp: spare_cells_def)
  obtain b3 where b3: "Buffer_Commit env b2 (length xs) = Inr b3" "buffer_inv env b3" "\<not> bb_reserved b3"
    "bb_peeked b3 = bb_peeked b2" "data_cells b3 = data_cells b2 @ take (length xs) (spare_cells env b2)"
    "cell_content (bb_chain b3) = cell_content (bb_chain b2)"
    by (rule op_Commit [OF b2(2) _ ne]) (use b1 b2 in simp_all)
  have "map (cell_content (bb_chain b2)) (data_cells b1) = map (cell_content (bb_chain b)) (data_cells b)"
    using b1(5,6) b2(8) by simp
  then have "buffer_bytes b3 = buffer_bytes b @ xs"
    using b3(5,6) b2(5-7) by (simp add: buffer_bytes_def)
  moreover have "Buffer_CopyIn env b xs = Inr b3"
    using b1(1) b2(1) b3(1) by (simp add: Buffer_CopyIn_def)
  ultimately show ?thesis using that b3 b2(4) b1(4) by simp
qed

end

end
