(* ===== verification/Byte_Buffer.thy ===== *)
theory Byte_Buffer
  imports Proxy_Buffer_Ops
begin

text \<open>
  The contract of the proxy's buffer towards the SOCKS5 state machine and the bridge. The
  clients call the operations through a record, so that what they rely on is stated once,
  as the locale \<open>byte_buffer\<close>, and their lemmas hold for every buffer that keeps it. The
  buffer of the program keeps it.
\<close>

section \<open>Runs\<close>

record ('b, 'v) buffer_ops =
  bo_new :: 'b
  bo_data_size :: "'b \<Rightarrow> nat"
  bo_ReserveAtLeast :: "'b \<Rightarrow> nat \<Rightarrow> cpp_fault + 'v \<times> nat \<times> 'b"
  bo_scatter :: "'b \<Rightarrow> 'v \<Rightarrow> u8 list \<Rightarrow> cpp_fault + 'b"
  bo_Commit :: "'b \<Rightarrow> nat \<Rightarrow> cpp_fault + 'b"
  bo_Peek :: "'b \<Rightarrow> cpp_fault + 'v \<times> 'b"
  bo_gather :: "'b \<Rightarrow> 'v \<Rightarrow> cpp_fault + u8 list"
  bo_Drain :: "'b \<Rightarrow> nat \<Rightarrow> cpp_fault + 'b"
  bo_CopyIn :: "'b \<Rightarrow> u8 list \<Rightarrow> cpp_fault + 'b"
  bo_CopyOut :: "'b \<Rightarrow> nat \<Rightarrow> cpp_fault + u8 list \<times> 'b"

text \<open>
  Sequences of copies into and out of a buffer, what each call hands out, and the same on
  a plain list of bytes.
\<close>

datatype buf_op = OpCopyIn "u8 list" | OpCopyOut nat

fun buf_step :: "('b, 'v) buffer_ops \<Rightarrow> 'b \<Rightarrow> buf_op \<Rightarrow> cpp_fault + u8 list \<times> 'b" where
  "buf_step BO b (OpCopyIn xs) = bindE (bo_CopyIn BO b xs) (\<lambda>b'. Inr ([], b'))"
| "buf_step BO b (OpCopyOut n) = bo_CopyOut BO b n"

fun buf_run :: "('b, 'v) buffer_ops \<Rightarrow> 'b \<Rightarrow> buf_op list \<Rightarrow> cpp_fault + u8 list list \<times> 'b" where
  "buf_run BO b [] = Inr ([], b)"
| "buf_run BO b (x # xs) =
     bindE (buf_step BO b x) (\<lambda>(out, b1).
     bindE (buf_run BO b1 xs) (\<lambda>(outs, b2). Inr (out # outs, b2)))"

fun pipe_run :: "u8 list \<Rightarrow> buf_op list \<Rightarrow> u8 list list \<times> u8 list" where
  "pipe_run s [] = ([], s)"
| "pipe_run s (OpCopyIn xs # ops) = (let (outs, s') = pipe_run (s @ xs) ops in ([] # outs, s'))"
| "pipe_run s (OpCopyOut n # ops) = (let (outs, s') = pipe_run (drop n s) ops in (take n s # outs, s'))"

text \<open>A read and a write in flight at once: the read was started first and ends last.\<close>

definition overlapped_io ::
  "('b, 'v) buffer_ops \<Rightarrow> 'b \<Rightarrow> nat \<Rightarrow> nat \<Rightarrow> u8 list \<Rightarrow> cpp_fault + u8 list \<times> 'b" where
  "overlapped_io BO b n m xs =
     bindE (bo_ReserveAtLeast BO b n) (\<lambda>(v, k, b1).
     bindE (bo_Peek BO b1) (\<lambda>(w, b2).
     bindE (bo_gather BO b2 w) (\<lambda>sent.
     bindE (bo_Drain BO b2 m) (\<lambda>b3.
     bindE (bo_scatter BO b3 v xs) (\<lambda>b4.
     bindE (bo_Commit BO b4 (length xs)) (\<lambda>b5. Inr (take m sent, b5)))))))"

section \<open>The contract\<close>

text \<open>
  \<open>data\<close> and \<open>spare\<close> are the cells of the committed data and of the space behind it,
  \<open>region\<close> the cells a vector covers. A vector from \<open>ReserveAtLeast\<close> covers a prefix
  of the spare cells, which stay where they are while the reservation lasts; one from
  \<open>Peek\<close> covers the data.
\<close>

locale byte_buffer =
  fixes BO :: "('b, 'v) buffer_ops"
    and good :: "'b \<Rightarrow> bool"
    and data :: "'b \<Rightarrow> 'c list"
    and spare :: "'b \<Rightarrow> 'c list"
    and content :: "'b \<Rightarrow> 'c \<Rightarrow> u8"
    and reserved :: "'b \<Rightarrow> bool"
    and peeked :: "'b \<Rightarrow> bool"
    and region :: "'v \<Rightarrow> 'c list"
    and solid :: "'v \<Rightarrow> bool"
    and slack :: nat
  assumes new_buffer: "good (bo_new BO)" "data (bo_new BO) = []"
      "\<not> reserved (bo_new BO)" "\<not> peeked (bo_new BO)"
    and size_data: "good b \<Longrightarrow> bo_data_size BO b = length (data b)"
    and reserve: "good b \<Longrightarrow> \<not> reserved b \<Longrightarrow>
      \<exists>v k b'. bo_ReserveAtLeast BO b n = Inr (v, k, b') \<and> good b' \<and> reserved b' \<and>
        peeked b' = peeked b \<and> data b' = data b \<and> (\<forall>x \<in> set (data b). content b' x = content b x) \<and>
        n \<le> k \<and> (0 < n \<longrightarrow> k < n + slack) \<and> k \<le> length (spare b') \<and>
        region v = take k (spare b') \<and> solid v"
    and scatter_write: "good b \<Longrightarrow> solid v \<Longrightarrow> region v = take k (spare b) \<Longrightarrow>
        length xs \<le> length (region v) \<Longrightarrow>
      \<exists>b'. bo_scatter BO b v xs = Inr b' \<and> good b' \<and> reserved b' = reserved b \<and>
        peeked b' = peeked b \<and> data b' = data b \<and> spare b' = spare b \<and>
        map (content b') (take (length xs) (spare b)) = xs \<and>
        (\<forall>x \<in> set (data b). content b' x = content b x)"
    and commit: "good b \<Longrightarrow> reserved b \<Longrightarrow> spare b \<noteq> [] \<Longrightarrow> n \<le> length (spare b) \<Longrightarrow>
      \<exists>b'. bo_Commit BO b n = Inr b' \<and> good b' \<and> \<not> reserved b' \<and> peeked b' = peeked b \<and>
        data b' = data b @ take n (spare b) \<and> content b' = content b"
    and peek: "good b \<Longrightarrow> \<not> peeked b \<Longrightarrow>
      \<exists>v b'. bo_Peek BO b = Inr (v, b') \<and> good b' \<and> peeked b' \<and> reserved b' = reserved b \<and>
        data b' = data b \<and> spare b' = spare b \<and> content b' = content b \<and>
        region v = data b \<and> solid v"
    and gather_read: "good b \<Longrightarrow> solid v \<Longrightarrow> region v = take k (data b) \<Longrightarrow>
      bo_gather BO b v = Inr (map (content b) (region v))"
    and drain: "good b \<Longrightarrow> peeked b \<Longrightarrow> n \<le> length (data b) \<Longrightarrow>
      \<exists>b'. bo_Drain BO b n = Inr b' \<and> good b' \<and> \<not> peeked b' \<and> reserved b' = reserved b \<and>
        data b' = drop n (data b) \<and> (\<forall>x \<in> set (data b'). content b' x = content b x) \<and>
        (reserved b \<longrightarrow> spare b' = spare b)"
    and copy_in: "good b \<Longrightarrow> \<not> reserved b \<Longrightarrow> xs \<noteq> [] \<Longrightarrow>
      \<exists>b'. bo_CopyIn BO b xs = Inr b' \<and> good b' \<and> \<not> reserved b' \<and> peeked b' = peeked b \<and>
        map (content b') (data b') = map (content b) (data b) @ xs"
    and copy_out: "good b \<Longrightarrow> \<not> peeked b \<Longrightarrow>
      \<exists>b'. bo_CopyOut BO b n = Inr (take n (map (content b) (data b)), b') \<and> good b' \<and>
        \<not> peeked b' \<and> reserved b' = reserved b \<and>
        map (content b') (data b') = drop n (map (content b) (data b))"
begin

definition bytes :: "'b \<Rightarrow> u8 list" where
  "bytes b = map (content b) (data b)"

lemma run_pipe:
  assumes "good b" "\<not> reserved b" "\<not> peeked b" "\<forall>xs. OpCopyIn xs \<in> set ops \<longrightarrow> xs \<noteq> []"
  shows "\<exists>outs b'. buf_run BO b ops = Inr (outs, b') \<and> good b' \<and> pipe_run (bytes b) ops = (outs, bytes b')"
  using assms
proof (induction ops arbitrary: b)
  case (Cons x ops)
  show ?case
  proof (cases x)
    case (OpCopyIn xs)
    then obtain b1 where b1: "bo_CopyIn BO b xs = Inr b1" "good b1" "\<not> reserved b1" "\<not> peeked b1"
      "bytes b1 = bytes b @ xs"
      using copy_in [of b xs] Cons.prems by (auto simp: bytes_def)
    then show ?thesis
      using Cons.IH [of b1] Cons.prems(4) OpCopyIn by auto
  next
    case (OpCopyOut n)
    then obtain b1 where b1: "bo_CopyOut BO b n = Inr (take n (bytes b), b1)" "good b1"
      "\<not> reserved b1" "\<not> peeked b1" "bytes b1 = drop n (bytes b)"
      using copy_out [of b n] Cons.prems by (auto simp: bytes_def)
    then show ?thesis
      using Cons.IH [of b1] Cons.prems(4) OpCopyOut by auto
  qed
qed simp

lemma map_content_drop:
  "\<forall>x \<in> set (drop n xs). f x = g x \<Longrightarrow> map f (drop n xs) = drop n (map g xs)"
  by (simp add: drop_map)

lemma overlapped:
  assumes "good b" "\<not> reserved b" "\<not> peeked b" "0 < n" "length xs \<le> n" "m \<le> length (data b)"
  shows "\<exists>b'. overlapped_io BO b n m xs = Inr (take m (bytes b), b') \<and> good b' \<and>
           \<not> reserved b' \<and> \<not> peeked b' \<and> bytes b' = drop m (bytes b) @ xs"
proof -
  obtain v k b1 where 1: "bo_ReserveAtLeast BO b n = Inr (v, k, b1)" "good b1" "reserved b1"
    "peeked b1 = peeked b" "data b1 = data b" "\<forall>x \<in> set (data b). content b1 x = content b x"
    "n \<le> k" "k \<le> length (spare b1)" "region v = take k (spare b1)" "solid v"
    using reserve [OF assms(1,2), of n] by blast
  obtain w b2 where 2: "bo_Peek BO b1 = Inr (w, b2)" "good b2" "peeked b2" "reserved b2 = reserved b1"
    "data b2 = data b1" "spare b2 = spare b1" "content b2 = content b1" "region w = data b1" "solid w"
    using peek [of b1] 1(2,4) assms(3) by auto
  have sent: "bo_gather BO b2 w = Inr (bytes b)"
    using gather_read [OF 2(2,9), of "length (data b2)"] 1(5,6) 2(5,7,8) by (simp add: bytes_def)
  obtain b3 where 3: "bo_Drain BO b2 m = Inr b3" "good b3" "\<not> peeked b3" "reserved b3 = reserved b2"
    "data b3 = drop m (data b2)" "\<forall>x \<in> set (data b3). content b3 x = content b2 x"
    "spare b3 = spare b2"
    using drain [OF 2(2,3), of m] 1(3,5) 2(4,5) assms(6) by auto
  have reg: "region v = take k (spare b3)" "length xs \<le> length (region v)"
    using 1(7-9) 2(6) 3(7) assms(5) by simp_all
  obtain b4 where 4: "bo_scatter BO b3 v xs = Inr b4" "good b4" "reserved b4 = reserved b3"
    "peeked b4 = peeked b3" "data b4 = data b3" "spare b4 = spare b3"
    "map (content b4) (take (length xs) (spare b3)) = xs"
    "\<forall>x \<in> set (data b3). content b4 x = content b3 x"
    using scatter_write [OF 3(2) 1(10) reg] by blast
  have room: "spare b4 \<noteq> []" "length xs \<le> length (spare b4)" "reserved b4"
    using 1(3,7,8) 2(4,6) 3(4,7) 4(3,6) assms(4,5) by auto
  obtain b5 where 5: "bo_Commit BO b4 (length xs) = Inr b5" "good b5" "\<not> reserved b5"
    "peeked b5 = peeked b4" "data b5 = data b4 @ take (length xs) (spare b4)" "content b5 = content b4"
    using commit [OF 4(2) room(3,1,2)] by blast
  have "content b4 x = content b x" if "x \<in> set (drop m (data b))" for x
    using that 4(8) 3(5,6) 2(5,7) 1(5,6) by (metis in_set_dropD)
  then have "map (content b5) (data b5) = drop m (map (content b) (data b)) @ xs"
    using map_content_drop [of m "data b" "content b4" "content b"] 5(5,6) 4(5-7) 3(5) 2(5) 1(5) by simp
  moreover have "overlapped_io BO b n m xs = Inr (take m (bytes b), b5)"
    using 1(1) 2(1) sent 3(1) 4(1) 5(1) by (simp add: overlapped_io_def)
  ultimately show ?thesis
    using 5(2-4) 4(4) 3(3) by (auto simp: bytes_def)
qed

end

section \<open>The buffer of the program\<close>

definition Buffer_ops :: "buffer_env \<Rightarrow> (buffer, sysbuf list) buffer_ops" where
  "Buffer_ops env =
     \<lparr>bo_new = BasicBuffer,
      bo_data_size = Buffer_data_size,
      bo_ReserveAtLeast = Buffer_ReserveAtLeast env,
      bo_scatter = Buffer_scatter,
      bo_Commit = Buffer_Commit env,
      bo_Peek = Buffer_Peek,
      bo_gather = Buffer_gather,
      bo_Drain = Buffer_Drain env,
      bo_CopyIn = Buffer_CopyIn env,
      bo_CopyOut = Buffer_CopyOut env\<rparr>"

sublocale buffer_world \<subseteq> bb: byte_buffer "Buffer_ops env" "buffer_inv env" data_cells
  "spare_cells env" "\<lambda>b. cell_content (bb_chain b)" bb_reserved bb_peeked vec_cells vec_solid
  "Block_capacity env"
proof unfold_locales
  show "buffer_inv env (bo_new (Buffer_ops env))" "data_cells (bo_new (Buffer_ops env)) = []"
    "\<not> bb_reserved (bo_new (Buffer_ops env))" "\<not> bb_peeked (bo_new (Buffer_ops env))"
    by (simp_all add: Buffer_ops_def BasicBuffer_def buffer_inv_def core_inv_def data_cells_def
        shape_def fl_ok_def Freelist_def)
next
  fix b assume "buffer_inv env b"
  then show "bo_data_size (Buffer_ops env) b = length (data_cells b)"
    by (simp add: Buffer_ops_def Buffer_data_size_def buffer_inv_def)
next
  fix b n assume "buffer_inv env b" "\<not> bb_reserved b"
  from op_ReserveAtLeast [OF this, of n]
  show "\<exists>v k b'. bo_ReserveAtLeast (Buffer_ops env) b n = Inr (v, k, b') \<and> buffer_inv env b' \<and>
      bb_reserved b' \<and> bb_peeked b' = bb_peeked b \<and> data_cells b' = data_cells b \<and>
      (\<forall>x \<in> set (data_cells b). cell_content (bb_chain b') x = cell_content (bb_chain b) x) \<and>
      n \<le> k \<and> (0 < n \<longrightarrow> k < n + Block_capacity env) \<and> k \<le> length (spare_cells env b') \<and>
      vec_cells v = take k (spare_cells env b') \<and> vec_solid v"
    unfolding Buffer_ops_def buffer_ops.simps by metis
next
  fix b v k and xs :: "u8 list"
  assume "buffer_inv env b" "vec_solid v" "vec_cells v = take k (spare_cells env b)"
    "length xs \<le> length (vec_cells v)"
  from op_scatter [OF this]
  show "\<exists>b'. bo_scatter (Buffer_ops env) b v xs = Inr b' \<and> buffer_inv env b' \<and>
      bb_reserved b' = bb_reserved b \<and> bb_peeked b' = bb_peeked b \<and> data_cells b' = data_cells b \<and>
      spare_cells env b' = spare_cells env b \<and>
      map (cell_content (bb_chain b')) (take (length xs) (spare_cells env b)) = xs \<and>
      (\<forall>x \<in> set (data_cells b). cell_content (bb_chain b') x = cell_content (bb_chain b) x)"
    unfolding Buffer_ops_def buffer_ops.simps by metis
next
  fix b n
  assume a: "buffer_inv env b" "bb_reserved b" "spare_cells env b \<noteq> []" "n \<le> length (spare_cells env b)"
  then have "bb_chain b \<noteq> []" by (auto simp: spare_cells_def)
  from op_Commit [OF a(1,2) this a(4)]
  show "\<exists>b'. bo_Commit (Buffer_ops env) b n = Inr b' \<and> buffer_inv env b' \<and> \<not> bb_reserved b' \<and>
      bb_peeked b' = bb_peeked b \<and> data_cells b' = data_cells b @ take n (spare_cells env b) \<and>
      cell_content (bb_chain b') = cell_content (bb_chain b)"
    unfolding Buffer_ops_def buffer_ops.simps by metis
next
  fix b assume a: "buffer_inv env b" "\<not> bb_peeked b"
  obtain v where v: "Buffer_Peek b = Inr (v, b\<lparr>bb_peeked := True\<rparr>)" "vec_cells v = data_cells b"
    "vec_solid v"
    by (rule op_Peek [OF a])
  then show "\<exists>v b'. bo_Peek (Buffer_ops env) b = Inr (v, b') \<and> buffer_inv env b' \<and> bb_peeked b' \<and>
      bb_reserved b' = bb_reserved b \<and> data_cells b' = data_cells b \<and>
      spare_cells env b' = spare_cells env b \<and> cell_content (bb_chain b') = cell_content (bb_chain b) \<and>
      vec_cells v = data_cells b \<and> vec_solid v"
    using a(1) by (auto simp: Buffer_ops_def buffer_inv_def data_cells_def spare_cells_def
        intro!: exI [of _ v])
next
  fix b v k assume "buffer_inv env b" "vec_solid v" "vec_cells v = take k (data_cells b)"
  then show "bo_gather (Buffer_ops env) b v = Inr (map (cell_content (bb_chain b)) (vec_cells v))"
    using op_gather [of b v k] by (simp add: Buffer_ops_def buffer_bytes_def take_map)
next
  fix b n assume "buffer_inv env b" "bb_peeked b" "n \<le> length (data_cells b)"
  from op_Drain [OF this]
  show "\<exists>b'. bo_Drain (Buffer_ops env) b n = Inr b' \<and> buffer_inv env b' \<and> \<not> bb_peeked b' \<and>
      bb_reserved b' = bb_reserved b \<and> data_cells b' = drop n (data_cells b) \<and>
      (\<forall>x \<in> set (data_cells b'). cell_content (bb_chain b') x = cell_content (bb_chain b) x) \<and>
      (bb_reserved b \<longrightarrow> spare_cells env b' = spare_cells env b)"
    unfolding Buffer_ops_def buffer_ops.simps by metis
next
  fix b and xs :: "u8 list" assume "buffer_inv env b" "\<not> bb_reserved b" "xs \<noteq> []"
  from op_CopyIn [OF this]
  show "\<exists>b'. bo_CopyIn (Buffer_ops env) b xs = Inr b' \<and> buffer_inv env b' \<and> \<not> bb_reserved b' \<and>
      bb_peeked b' = bb_peeked b \<and> map (cell_content (bb_chain b')) (data_cells b') =
        map (cell_content (bb_chain b)) (data_cells b) @ xs"
    unfolding Buffer_ops_def buffer_ops.simps buffer_bytes_def [symmetric] by metis
next
  fix b n assume "buffer_inv env b" "\<not> bb_peeked b"
  from op_CopyOut [OF this]
  show "\<exists>b'. bo_CopyOut (Buffer_ops env) b n =
        Inr (take n (map (cell_content (bb_chain b)) (data_cells b)), b') \<and>
      buffer_inv env b' \<and> \<not> bb_peeked b' \<and> bb_reserved b' = bb_reserved b \<and>
      map (cell_content (bb_chain b')) (data_cells b') =
        drop n (map (cell_content (bb_chain b)) (data_cells b))"
    unfolding Buffer_ops_def buffer_ops.simps buffer_bytes_def [symmetric] by metis
qed

text \<open>The block size the proxy uses, plenty of memory, and zeroed blocks.\<close>

definition proxy_env :: buffer_env where
  "proxy_env = \<lparr>BlockSize = 4096, alloc_ok = (\<lambda>_. True), junk = (\<lambda>_ _. 0)\<rparr>"

interpretation proxy: buffer_world proxy_env
  by unfold_locales (simp_all add: proxy_env_def sizeof_Block_def)

context buffer_world begin

lemma bytes_buffer: "bb.bytes b = buffer_bytes b"
  by (simp add: bb.bytes_def buffer_bytes_def)

lemmas buffer_run_pipe = bb.run_pipe [unfolded bytes_buffer]

lemmas buffer_overlapped = bb.overlapped [unfolded bytes_buffer]

lemmas new_good = bb.new_buffer

end

section \<open>Properties\<close>

text \<open>
  C3: Any sequence of \<open>CopyOut\<close> calls and of \<open>CopyIn\<close> calls with at least one byte on the
  proxy's buffer runs without a fault while memory can be allocated, and hands out exactly
  the bytes a plain byte queue would: nothing is lost, reordered or invented however the
  bytes fall into blocks, and \<open>data_size\<close> is the number of bytes held. Blocks come from
  memory or the free list, none is both free and in use. A \<open>CopyIn\<close> of no bytes is left
  out: on a buffer without blocks it trips an assertion (\<open>buffer_copy_in_nothing_asserts\<close>).
\<close>

theorem buffer_is_byte_queue:
  assumes "buffer_world env" and "\<forall>xs. OpCopyIn xs \<in> set ops \<longrightarrow> xs \<noteq> []"
  shows "\<exists>outs b. buf_run (Buffer_ops env) BasicBuffer ops = Inr (outs, b) \<and>
           pipe_run [] ops = (outs, buffer_bytes b) \<and>
           Buffer_data_size b = length (buffer_bytes b) \<and>
           distinct (fl_chain (bb_freelist b) @ map fst (bb_chain b))"
proof -
  have new: "BasicBuffer = bo_new (Buffer_ops env)" by (simp add: Buffer_ops_def)
  obtain outs b where b: "buf_run (Buffer_ops env) BasicBuffer ops = Inr (outs, b)"
    "buffer_inv env b" "pipe_run (buffer_bytes BasicBuffer) ops = (outs, buffer_bytes b)"
    using buffer_world.buffer_run_pipe [OF assms(1), of BasicBuffer ops]
      buffer_world.new_good [OF assms(1)] assms(2) unfolding new by blast
  moreover have "buffer_bytes BasicBuffer = []"
    by (simp add: buffer_bytes_def data_cells_def BasicBuffer_def)
  ultimately show ?thesis
    by (simp add: buffer_inv_def core_inv_def fl_ok_def Buffer_data_size_def buffer_bytes_def)
qed

text \<open>The bytes 5, 6, 7 through blocks of two bytes.\<close>

definition tiny_env :: buffer_env where
  "tiny_env = \<lparr>BlockSize = 26, alloc_ok = (\<lambda>_. True), junk = (\<lambda>_ _. 0)\<rparr>"

interpretation tiny: buffer_world tiny_env
  by unfold_locales (simp_all add: tiny_env_def sizeof_Block_def)

theorem buffer_is_byte_queue_witness:
  "buffer_world tiny_env \<and>
   (\<exists>outs b. buf_run (Buffer_ops tiny_env) BasicBuffer
      [OpCopyIn [5, 6, 7], OpCopyOut 1, OpCopyIn [8], OpCopyOut 9] = Inr (outs, b) \<and>
     outs = [[], [5], [], [6, 7, 8]] \<and> Buffer_data_size b = 0)"
proof -
  have "\<forall>xs. OpCopyIn xs \<in> set [OpCopyIn [5, 6, 7], OpCopyOut 1, OpCopyIn [8], OpCopyOut 9] \<longrightarrow> xs \<noteq> []"
    by simp
  from buffer_is_byte_queue [OF tiny.buffer_world_axioms this] show ?thesis
    using tiny.buffer_world_axioms by auto
qed

text \<open>
  C5: A read and a write may be in flight at once. If space is reserved for a read, data
  is peeked and drained for a write while the read is outstanding, and the read then
  completes with \<open>xs\<close>, the write has sent the first \<open>m\<close> bytes the buffer held and the
  buffer holds the rest followed by \<open>xs\<close>: the memory handed to the operating system
  stays valid and is not moved until it is committed.
\<close>

theorem buffer_overlapped_io:
  assumes "buffer_world env" and "buffer_inv env b" and "\<not> bb_reserved b" and "\<not> bb_peeked b"
    and "0 < n" and "length xs \<le> n" and "m \<le> Buffer_data_size b"
  shows "\<exists>b'. overlapped_io (Buffer_ops env) b n m xs = Inr (take m (buffer_bytes b), b') \<and>
           buffer_inv env b' \<and> \<not> bb_reserved b' \<and> \<not> bb_peeked b' \<and>
           buffer_bytes b' = drop m (buffer_bytes b) @ xs"
proof -
  have "m \<le> length (data_cells b)"
    using assms(2,7) by (simp add: buffer_inv_def Buffer_data_size_def)
  then show ?thesis
    by (rule buffer_world.buffer_overlapped [OF assms(1-6)])
qed

definition tiny_buffer :: buffer where
  "tiny_buffer =
     \<lparr>bb_chain = [(0, \<lparr>bl_offset = 1, bl_len = 1, bl_buf = [5, 6]\<rparr>),
                  (1, \<lparr>bl_offset = 0, bl_len = 1, bl_buf = [7, 0]\<rparr>)],
      bb_end = Some 1, bb_tail = Some 1, bb_freelist = \<lparr>fl_chain = [], fl_size = 0, fl_tick = 2\<rparr>,
      bb_block_cnt = 2, bb_data_size = 2, bb_reserved = False, bb_peeked = False\<rparr>"

lemma tiny_buffer_inv: "buffer_inv tiny_env tiny_buffer"
proof -
  let ?p = "(0, \<lparr>bl_offset = 1, bl_len = 1, bl_buf = [5, 6]\<rparr>)"
  let ?e = "(1, \<lparr>bl_offset = 0, bl_len = 1, bl_buf = [7, 0]\<rparr>)"
  have "shape_at (Block_capacity tiny_env) [?p] ?e []"
    by (simp add: shape_at_def full_block_def Block_capacity_def tiny_env_def sizeof_Block_def)
  then have "shape (Block_capacity tiny_env) (Some 1) [?p, ?e]"
    using shapeI [of _ "[?p]" ?e "[]"] by simp
  then show ?thesis
    by (simp add: buffer_inv_def core_inv_def tiny_buffer_def fl_ok_def data_cells_def wf_block_def
        Block_capacity_def tiny_env_def sizeof_Block_def)
qed

theorem buffer_overlapped_io_witness:
  "buffer_inv tiny_env tiny_buffer \<and>
   (\<exists>b. overlapped_io (Buffer_ops tiny_env) tiny_buffer 4 2 [8, 9, 10] = Inr ([6, 7], b) \<and>
        buffer_bytes b = [8, 9, 10])"
proof -
  have "buffer_bytes tiny_buffer = [6, 7]" by code_simp
  moreover have "\<not> bb_reserved tiny_buffer" "\<not> bb_peeked tiny_buffer" "2 \<le> Buffer_data_size tiny_buffer"
    by (simp_all add: tiny_buffer_def Buffer_data_size_def)
  ultimately show ?thesis
    using buffer_overlapped_io [OF tiny.buffer_world_axioms tiny_buffer_inv, of 4 "[8, 9, 10]" 2]
      tiny_buffer_inv by auto
qed

text \<open>
  Copying nothing into a buffer that holds no block trips the assertion in
  \<open>Commit\<close>: \<open>Reserve(0)\<close> allocates no block and \<open>Commit\<close> then finds \<open>head_\<close> null.
\<close>

theorem buffer_copy_in_nothing_asserts:
  "Buffer_CopyIn env BasicBuffer [] = Inl AssertFailed"
  by (simp add: Buffer_CopyIn_def Buffer_Reserve_def BasicBuffer_def SpaceStepper_def
      SpaceStepper_NumBuffersToReserve_def Buffer_Reserve_loop.simps Buffer_scatter_def
      Buffer_Commit_def Let_def)

end
