(* ===== verification/Socks5.thy ===== *)
theory Socks5
  imports Byte_Buffer
begin

text \<open>
  The SOCKS5 handshake of the proxy: cc/aws/proxy/src/socks5_state.{h,cc} and the address
  encoding of cc/aws/proxy/src/protocol.cc. The state machine reads a buffer through the
  contract of \<open>Byte_Buffer\<close> and talks to its owner through four callbacks, which here
  act on the owner's state; a callback that is not set is \<open>None\<close>, and calling it
  throws.
\<close>

section \<open>Addresses\<close>

text \<open>
  A socket address: address and port bytes in network order, or a family the encoding
  does not know.
\<close>

datatype sockaddr = AF_INET "u8 list" "u8 list" | AF_INET6 "u8 list" "u8 list" | AF_OTHER

fun sockaddr_ok :: "sockaddr \<Rightarrow> bool" where
  "sockaddr_ok (AF_INET a p) \<longleftrightarrow> length a = 4 \<and> length p = 2"
| "sockaddr_ok (AF_INET6 a p) \<longleftrightarrow> length a = 16 \<and> length p = 2"
| "sockaddr_ok AF_OTHER \<longleftrightarrow> True"

definition kATYP_v4 :: u8 where "kATYP_v4 = 0x01"

definition kATYP_v6 :: u8 where "kATYP_v6 = 0x04"

fun FillAddrPort :: "sockaddr \<Rightarrow> u8 list" where
  "FillAddrPort (AF_INET a p) = [kATYP_v4] @ a @ p"
| "FillAddrPort (AF_INET6 a p) = [kATYP_v6] @ a @ p"
| "FillAddrPort AF_OTHER = []"

text \<open>\<open>htons\<close> and \<open>ntohs\<close> on the two bytes of a port.\<close>

definition ntohs :: "u8 list \<Rightarrow> u16" where
  "ntohs bs = (case bs of [h, l] \<Rightarrow> push_bit 8 (ucast h) OR ucast l | _ \<Rightarrow> 0)"

definition htons :: "u16 \<Rightarrow> u8 list" where
  "htons p = [ucast (drop_bit 8 p), ucast p]"

section \<open>State and callbacks\<close>

datatype HandshakeState =
    kGreetingHeader | kGreetingMethods | kRequestHeader | kRequestAddrV4 | kRequestAddrV6
  | kRequestBind | kWaitConnect | kWaitAccept | kResponse | kSuccess | kFail

datatype CallbackStatus = kStatusOK | kStatusInProgress | kStatusFail

record socks5 =
  s5_state :: HandshakeState
  s5_required_size :: nat

definition Socks5State :: socks5 where
  "Socks5State = \<lparr>s5_state = kGreetingHeader, s5_required_size = 2\<rparr>"

record 'w s5_callbacks =
  response_callback :: "('w \<Rightarrow> u8 list \<Rightarrow> CallbackStatus \<times> 'w) option"
  connect_callback :: "('w \<Rightarrow> sockaddr \<Rightarrow> CallbackStatus \<times> 'w) option"
  dest_address_callback :: "('w \<Rightarrow> bool \<Rightarrow> (CallbackStatus \<times> sockaddr) \<times> 'w) option"
  bind_callback :: "('w \<Rightarrow> u16 \<Rightarrow> cpp_fault + (CallbackStatus \<times> u16) \<times> 'w) option"

definition call :: "('w \<Rightarrow> 'a) option \<Rightarrow> 'w \<Rightarrow> cpp_fault + 'a" where
  "call f w = (case f of None \<Rightarrow> Inl ThrowsException | Some g \<Rightarrow> Inr (g w))"

definition InsufficientBuffer :: "('b, 'v) buffer_ops \<Rightarrow> socks5 \<Rightarrow> 'b \<Rightarrow> bool" where
  "InsufficientBuffer BO s b \<longleftrightarrow> bo_data_size BO b < s5_required_size s"

text \<open>\<open>Failed()\<close> compares the enumerators: past \<open>kSuccess\<close> there is only \<open>kFail\<close>.\<close>

definition Socks5State_Failed :: "socks5 \<Rightarrow> bool" where
  "Socks5State_Failed s \<longleftrightarrow> s5_state s = kFail"

definition err_resp_template :: "u8 list" where
  "err_resp_template = [0x05, 0x01, 0x00, 0x01, 0x00, 0x00, 0x00, 0x00, 0x00, 0x00]"

definition Socks5State_CreateResp ::
  "'w s5_callbacks \<Rightarrow> bool \<Rightarrow> 'w \<Rightarrow> u8 list \<times> 'w" where
  "Socks5State_CreateResp cb is_bind w =
     (case dest_address_callback cb of
        None \<Rightarrow> (err_resp_template, w)
      | Some f \<Rightarrow>
          (let ((st, addr), w') = f w is_bind
           in if st = kStatusOK then ([0x05, 0x00, 0x00] @ FillAddrPort addr, w')
              else (err_resp_template, w')))"

section \<open>The transitions\<close>

type_synonym ('b, 'w) s5_result = "cpp_fault + bool \<times> socks5 \<times> 'b \<times> 'w"

text \<open>The end of the \<open>switch\<close>: \<open>return state_ != kFail\<close>.\<close>

definition s5_break :: "socks5 \<Rightarrow> 'b \<Rightarrow> 'w \<Rightarrow> ('b, 'w) s5_result" where
  "s5_break s b w = Inr (s5_state s \<noteq> kFail, s, b, w)"

definition s5_fail :: "socks5 \<Rightarrow> 'b \<Rightarrow> 'w \<Rightarrow> ('b, 'w) s5_result" where
  "s5_fail s b w = s5_break (s\<lparr>s5_state := kFail\<rparr>) b w"

text \<open>
  \<open>uint8_t x[n]; buffer.CopyOut(x, n)\<close>: reading an element that was not copied would
  read an indeterminate value.
\<close>

definition read_array ::
  "('b, 'v) buffer_ops \<Rightarrow> 'b \<Rightarrow> nat \<Rightarrow> cpp_fault + u8 list \<times> 'b" where
  "read_array BO b n =
     bindE (bo_CopyOut BO b n) (\<lambda>(xs, b').
       if length xs = n then Inr (xs, b') else Inl UndefinedBehaviour)"

text \<open>The same into a zeroed structure, where bytes that are not copied stay zero.\<close>

definition read_zeroed ::
  "('b, 'v) buffer_ops \<Rightarrow> 'b \<Rightarrow> nat \<Rightarrow> cpp_fault + u8 list \<times> 'b" where
  "read_zeroed BO b n =
     bindE (bo_CopyOut BO b n) (\<lambda>(xs, b'). Inr (xs @ replicate (n - length xs) 0, b'))"

definition Proceed_GreetingHeader ::
  "('b, 'v) buffer_ops \<Rightarrow> socks5 \<Rightarrow> 'b \<Rightarrow> 'w \<Rightarrow> ('b, 'w) s5_result" where
  "Proceed_GreetingHeader BO s b w =
     bindE (read_array BO b 2) (\<lambda>(greeting, b').
       if greeting ! 0 \<noteq> 0x05 \<or> greeting ! 1 = 0 then s5_fail s b' w
       else s5_break (s\<lparr>s5_required_size := unat (greeting ! 1), s5_state := kGreetingMethods\<rparr>) b' w)"

definition Proceed_GreetingMethods ::
  "('b, 'v) buffer_ops \<Rightarrow> 'w s5_callbacks \<Rightarrow> socks5 \<Rightarrow> 'b \<Rightarrow> 'w \<Rightarrow> ('b, 'w) s5_result" where
  "Proceed_GreetingMethods BO cb s b w =
     (let n_methods = s5_required_size s;
          next_state = s\<lparr>s5_state := kRequestHeader, s5_required_size := 4\<rparr>
      in bindE (read_array BO b n_methods) (\<lambda>(methods, b').
           if 0x00 \<notin> set methods then s5_fail s b' w
           else case response_callback cb of
                  None \<Rightarrow> s5_break next_state b' w
                | Some f \<Rightarrow>
                    (let (ret, w') = f w [0x05, 0x00]
                     in if ret \<noteq> kStatusOK then s5_fail s b' w' else s5_break next_state b' w')))"

text \<open>Both commands check the address type the same way.\<close>

definition Proceed_RequestHeader ::
  "('b, 'v) buffer_ops \<Rightarrow> socks5 \<Rightarrow> 'b \<Rightarrow> 'w \<Rightarrow> ('b, 'w) s5_result" where
  "Proceed_RequestHeader BO s b w =
     bindE (read_array BO b 4) (\<lambda>(header, b').
       if header ! 0 \<noteq> 0x05 \<or> header ! 2 \<noteq> 0x00 then s5_fail s b' w
       else if header ! 1 = 0x01 then
         (let atyp = header ! 3
          in if atyp = 0x01 then
               s5_break (s\<lparr>s5_state := kRequestAddrV4, s5_required_size := 6\<rparr>) b' w
             else if atyp = 0x03 then s5_fail s b' w
             else if atyp = 0x04 then
               s5_break (s\<lparr>s5_state := kRequestAddrV6, s5_required_size := 16 + 2\<rparr>) b' w
             else s5_fail s b' w)
       else if header ! 1 = 0x02 then
         (let atyp = header ! 3
          in if atyp = 0x01 then
               s5_break (s\<lparr>s5_required_size := 6, s5_state := kRequestBind\<rparr>) b' w
             else if atyp = 0x03 then s5_fail s b' w
             else if atyp = 0x04 then
               s5_break (s\<lparr>s5_required_size := 16 + 2, s5_state := kRequestBind\<rparr>) b' w
             else s5_fail s b' w)
       else s5_fail s b' w)"

text \<open>What follows the address in both connect states.\<close>

definition Proceed_connect ::
  "'w s5_callbacks \<Rightarrow> socks5 \<Rightarrow> sockaddr \<Rightarrow> 'b \<Rightarrow> 'w \<Rightarrow> ('b, 'w) s5_result" where
  "Proceed_connect cb s addr b w =
     (let s0 = s\<lparr>s5_required_size := 0\<rparr>
      in case connect_callback cb of
           None \<Rightarrow> s5_break (s0\<lparr>s5_state := kWaitConnect\<rparr>) b w
         | Some f \<Rightarrow>
             (let (ret, w') = f w addr
              in if ret = kStatusOK then s5_break (s0\<lparr>s5_state := kResponse\<rparr>) b w'
                 else if ret = kStatusInProgress
                 then Inr (False, s0\<lparr>s5_state := kWaitConnect\<rparr>, b, w')
                 else s5_fail s0 b w'))"

definition Proceed_RequestAddrV4 ::
  "('b, 'v) buffer_ops \<Rightarrow> 'w s5_callbacks \<Rightarrow> socks5 \<Rightarrow> 'b \<Rightarrow> 'w \<Rightarrow> ('b, 'w) s5_result" where
  "Proceed_RequestAddrV4 BO cb s b w =
     bindE (read_zeroed BO b 4) (\<lambda>(sin_addr, b1).
     bindE (read_zeroed BO b1 2) (\<lambda>(sin_port, b2).
       Proceed_connect cb s (AF_INET sin_addr sin_port) b2 w))"

definition Proceed_RequestAddrV6 ::
  "('b, 'v) buffer_ops \<Rightarrow> 'w s5_callbacks \<Rightarrow> socks5 \<Rightarrow> 'b \<Rightarrow> 'w \<Rightarrow> ('b, 'w) s5_result" where
  "Proceed_RequestAddrV6 BO cb s b w =
     bindE (read_zeroed BO b 16) (\<lambda>(sin6_addr, b1).
     bindE (read_zeroed BO b1 2) (\<lambda>(sin6_port, b2).
       Proceed_connect cb s (AF_INET6 sin6_addr sin6_port) b2 w))"

definition Proceed_RequestBind ::
  "('b, 'v) buffer_ops \<Rightarrow> 'w s5_callbacks \<Rightarrow> socks5 \<Rightarrow> 'b \<Rightarrow> 'w \<Rightarrow> ('b, 'w) s5_result" where
  "Proceed_RequestBind BO cb s b w =
     bindE (bo_CopyOut BO b (s5_required_size s - 2)) (\<lambda>(_, b1).
     bindE (read_zeroed BO b1 2) (\<lambda>(port_bytes, b2).
       let s0 = s\<lparr>s5_required_size := 0\<rparr>
       in bindE (call (bind_callback cb) w) (\<lambda>bnd.
          bindE (bnd (ntohs port_bytes)) (\<lambda>((ret, port), w1).
            if ret = kStatusFail then s5_fail s0 b2 w1
               else bindE (call (response_callback cb) w1) (\<lambda>resp.
                 let bind_resp = [0x05, 0x00, 0x00, 0x01, 0x00, 0x00, 0x00, 0x00] @ htons port;
                     (ret2, w2) = resp bind_resp
                 in if ret2 = kStatusFail then s5_fail s0 b2 w2
                    else Inr (False, s0\<lparr>s5_state := kWaitAccept\<rparr>, b2, w2))))))"

definition Proceed_Response ::
  "'w s5_callbacks \<Rightarrow> socks5 \<Rightarrow> 'b \<Rightarrow> 'w \<Rightarrow> ('b, 'w) s5_result" where
  "Proceed_Response cb s b w =
     (let (resp, w1) = Socks5State_CreateResp cb False w
      in bindE (call (response_callback cb) w1) (\<lambda>f.
           let (ret, w2) = f resp
           in if ret \<noteq> kStatusOK then s5_fail s b w2
              else s5_break (s\<lparr>s5_state := kSuccess, s5_required_size := 1\<rparr>) b w2))"

definition Socks5State_Proceed ::
  "('b, 'v) buffer_ops \<Rightarrow> 'w s5_callbacks \<Rightarrow> socks5 \<Rightarrow> 'b \<Rightarrow> 'w \<Rightarrow> ('b, 'w) s5_result" where
  "Socks5State_Proceed BO cb s b w =
     (if InsufficientBuffer BO s b then Inr (False, s, b, w)
      else case s5_state s of
        kGreetingHeader \<Rightarrow> Proceed_GreetingHeader BO s b w
      | kGreetingMethods \<Rightarrow> Proceed_GreetingMethods BO cb s b w
      | kRequestHeader \<Rightarrow> Proceed_RequestHeader BO s b w
      | kRequestAddrV4 \<Rightarrow> Proceed_RequestAddrV4 BO cb s b w
      | kRequestAddrV6 \<Rightarrow> Proceed_RequestAddrV6 BO cb s b w
      | kRequestBind \<Rightarrow> Proceed_RequestBind BO cb s b w
      | kWaitConnect \<Rightarrow> Inr (False, s, b, w)
      | kWaitAccept \<Rightarrow> Inr (False, s, b, w)
      | kResponse \<Rightarrow> Proceed_Response cb s b w
      | kSuccess \<Rightarrow> Inr (False, s, b, w)
      | kFail \<Rightarrow> Inr (False, s\<lparr>s5_required_size := 0\<rparr>, b, w))"

text \<open>
  \<open>ConnectionSucceed\<close> sets \<open>kFail\<close> when the response could not be sent, and then
  \<open>kSuccess\<close> in any case.
\<close>

definition Socks5State_ConnectionSucceed ::
  "'w s5_callbacks \<Rightarrow> socks5 \<Rightarrow> 'w \<Rightarrow> cpp_fault + bool \<times> socks5 \<times> 'w" where
  "Socks5State_ConnectionSucceed cb s w =
     (if s5_state s = kWaitConnect \<or> s5_state s = kWaitAccept then
        (let (resp, w1) = Socks5State_CreateResp cb (s5_state s = kWaitAccept) w
         in bindE (call (response_callback cb) w1) (\<lambda>f.
              let (ret, w2) = f resp;
                  s1 = (if ret \<noteq> kStatusOK then s\<lparr>s5_state := kFail\<rparr> else s);
                  s2 = s1\<lparr>s5_state := kSuccess\<rparr>
              in Inr (s5_state s2 = kSuccess, s2, w2)))
      else Inr (False, s\<lparr>s5_state := kFail\<rparr>, w))"

text \<open>
  The loop of \<open>Socks5HandshakeHandler\<close>: proceed while it makes progress. Every transition
  that returns true leads to a later state of the handshake, so five rounds are enough.
\<close>

fun Socks5_loop ::
  "nat \<Rightarrow> ('b, 'v) buffer_ops \<Rightarrow> 'w s5_callbacks \<Rightarrow> socks5 \<Rightarrow> 'b \<Rightarrow> 'w \<Rightarrow> cpp_fault + socks5 \<times> 'b \<times> 'w" where
  "Socks5_loop 0 BO cb s b w = Inl OutOfFuel"
| "Socks5_loop (Suc fuel) BO cb s b w =
     (if s5_state s = kSuccess then Inr (s, b, w)
      else bindE (Socks5State_Proceed BO cb s b w) (\<lambda>(progress, s', b', w').
             if progress then Socks5_loop fuel BO cb s' b' w' else Inr (s', b', w')))"

end
