(* ===== verification/Socks5_Correct.thy ===== *)
theory Socks5_Correct
  imports Socks5
begin

text \<open>
  Correctness of the SOCKS5 handshake. The request grammar of RFC 1928, as far as the
  proxy supports it, is a function from the bytes a client sends to what the proxy must
  do; however the bytes are cut into chunks, the state machine does exactly that.
\<close>

section \<open>The grammar\<close>

datatype s5_outcome =
    NeedMore
  | Malformed
  | ConnectTo sockaddr "u8 list"
  | BindTo u16 "u8 list"

definition spec_v4 :: "u8 list \<Rightarrow> s5_outcome" where
  "spec_v4 xs =
     (if length xs < 6 then NeedMore
      else ConnectTo (AF_INET (take 4 xs) (take 2 (drop 4 xs))) (drop 6 xs))"

definition spec_v6 :: "u8 list \<Rightarrow> s5_outcome" where
  "spec_v6 xs =
     (if length xs < 18 then NeedMore
      else ConnectTo (AF_INET6 (take 16 xs) (take 2 (drop 16 xs))) (drop 18 xs))"

definition spec_bind :: "nat \<Rightarrow> u8 list \<Rightarrow> s5_outcome" where
  "spec_bind n xs =
     (if length xs < n then NeedMore
      else BindTo (ntohs (take 2 (drop (n - 2) xs))) (drop n xs))"

definition spec_request :: "u8 list \<Rightarrow> s5_outcome" where
  "spec_request xs =
     (if length xs < 4 then NeedMore
      else if xs ! 0 \<noteq> 5 \<or> xs ! 2 \<noteq> 0 then Malformed
      else if xs ! 1 = 1 \<and> xs ! 3 = 1 then spec_v4 (drop 4 xs)
      else if xs ! 1 = 1 \<and> xs ! 3 = 4 then spec_v6 (drop 4 xs)
      else if xs ! 1 = 2 \<and> xs ! 3 = 1 then spec_bind 6 (drop 4 xs)
      else if xs ! 1 = 2 \<and> xs ! 3 = 4 then spec_bind 18 (drop 4 xs)
      else Malformed)"

definition spec_methods :: "nat \<Rightarrow> u8 list \<Rightarrow> s5_outcome" where
  "spec_methods n xs =
     (if length xs < n then NeedMore
      else if 0 \<notin> set (take n xs) then Malformed
      else spec_request (drop n xs))"

definition spec_greeting :: "u8 list \<Rightarrow> s5_outcome" where
  "spec_greeting xs =
     (if length xs < 2 then NeedMore
      else if xs ! 0 \<noteq> 5 \<or> xs ! 1 = 0 then Malformed
      else spec_methods (unat (xs ! 1)) (drop 2 xs))"

text \<open>What is left to parse in each state of the handshake.\<close>

definition spec_rest :: "socks5 \<Rightarrow> u8 list \<Rightarrow> s5_outcome" where
  "spec_rest s xs =
     (case s5_state s of
        kGreetingHeader \<Rightarrow> spec_greeting xs
      | kGreetingMethods \<Rightarrow> spec_methods (s5_required_size s) xs
      | kRequestHeader \<Rightarrow> spec_request xs
      | kRequestAddrV4 \<Rightarrow> spec_v4 xs
      | kRequestAddrV6 \<Rightarrow> spec_v6 xs
      | kRequestBind \<Rightarrow> spec_bind (s5_required_size s) xs
      | _ \<Rightarrow> Malformed)"

lemma spec_rest_upd:
  "spec_rest (s\<lparr>s5_state := kRequestAddrV4, s5_required_size := k\<rparr>) xs = spec_v4 xs"
  "spec_rest (s\<lparr>s5_state := kRequestAddrV6, s5_required_size := k\<rparr>) xs = spec_v6 xs"
  "spec_rest (s\<lparr>s5_state := kRequestBind, s5_required_size := k\<rparr>) xs = spec_bind k xs"
  by (simp_all add: spec_rest_def)

section \<open>Owner and driver\<close>

text \<open>
  An owner whose sockets work: it records what the machine asks for; a connect is in
  progress until the destination answers.
\<close>

datatype s5_event = Sent "u8 list" | Connect sockaddr | Bind u16

definition logging_callbacks :: "s5_event list s5_callbacks" where
  "logging_callbacks =
     \<lparr>response_callback = Some (\<lambda>w xs. (kStatusOK, w @ [Sent xs])),
      connect_callback = Some (\<lambda>w a. (kStatusInProgress, w @ [Connect a])),
      dest_address_callback = Some (\<lambda>w r. ((kStatusOK, AF_INET [127, 0, 0, 1] [0, 80]), w)),
      bind_callback = Some (\<lambda>w p. Inr ((kStatusOK, p), w @ [Bind p]))\<rparr>"

text \<open>
  The handler for every chunk the client sends: append it, proceed, and read on while the
  machine needs more; the chunks not read are left.
\<close>

fun s5_feed ::
  "('b, 'v) buffer_ops \<Rightarrow> 'w s5_callbacks \<Rightarrow> socks5 \<Rightarrow> 'b \<Rightarrow> 'w \<Rightarrow> u8 list list \<Rightarrow>
   cpp_fault + socks5 \<times> 'b \<times> 'w \<times> u8 list list" where
  "s5_feed BO cb s b w [] = Inr (s, b, w, [])"
| "s5_feed BO cb s b w (c # cs) =
     bindE (bo_CopyIn BO b c) (\<lambda>b1.
     bindE (Socks5_loop 6 BO cb s b1 w) (\<lambda>(s', b', w').
       if InsufficientBuffer BO s' b' then s5_feed BO cb s' b' w' cs
       else Inr (s', b', w', cs)))"

section \<open>Invariant and progress\<close>

text \<open>The size each state asks for, and how far the handshake has come.\<close>

fun s5_inv :: "socks5 \<Rightarrow> bool" where
  "s5_inv s =
     (case s5_state s of
        kGreetingHeader \<Rightarrow> s5_required_size s = 2
      | kGreetingMethods \<Rightarrow> 0 < s5_required_size s \<and> s5_required_size s < 256
      | kRequestHeader \<Rightarrow> s5_required_size s = 4
      | kRequestAddrV4 \<Rightarrow> s5_required_size s = 6
      | kRequestAddrV6 \<Rightarrow> s5_required_size s = 18
      | kRequestBind \<Rightarrow> s5_required_size s = 6 \<or> s5_required_size s = 18
      | kWaitConnect \<Rightarrow> s5_required_size s = 0
      | kWaitAccept \<Rightarrow> s5_required_size s = 0
      | kResponse \<Rightarrow> s5_required_size s = 0
      | kSuccess \<Rightarrow> s5_required_size s \<le> 1
      | kFail \<Rightarrow> s5_required_size s < 256)"

fun s5_rank :: "HandshakeState \<Rightarrow> nat" where
  "s5_rank kGreetingHeader = 5"
| "s5_rank kGreetingMethods = 4"
| "s5_rank kRequestHeader = 3"
| "s5_rank kRequestAddrV4 = 2"
| "s5_rank kRequestAddrV6 = 2"
| "s5_rank kRequestBind = 2"
| "s5_rank kResponse = 1"
| "s5_rank _ = 0"

definition s5_reading :: "socks5 \<Rightarrow> bool" where
  "s5_reading s \<longleftrightarrow> 2 \<le> s5_rank (s5_state s)"

text \<open>What the client has been told by the time a state is reached.\<close>

definition s5_log :: "socks5 \<Rightarrow> s5_event list" where
  "s5_log s =
     (if s5_state s = kGreetingHeader \<or> s5_state s = kGreetingMethods then [] else [Sent [5, 0]])"

definition bind_reply :: "u16 \<Rightarrow> u8 list" where
  "bind_reply p = [0x05, 0x00, 0x00, 0x01, 0x00, 0x00, 0x00, 0x00] @ htons p"

text \<open>
  How a transition or a series of them relates to the grammar: \<open>xs\<close> and \<open>xs'\<close> are the
  bytes in the buffer before and after, \<open>ys\<close> whatever the client sends later.
\<close>

definition s5_done :: "socks5 \<Rightarrow> u8 list \<Rightarrow> socks5 \<Rightarrow> u8 list \<Rightarrow> s5_event list \<Rightarrow> bool" where
  "s5_done s xs s' xs' w' \<longleftrightarrow>
     (case s5_state s' of
        kFail \<Rightarrow> \<forall>ys. spec_rest s (xs @ ys) = Malformed
      | kWaitConnect \<Rightarrow>
          \<exists>a. w' = [Sent [5, 0], Connect a] \<and> (\<forall>ys. spec_rest s (xs @ ys) = ConnectTo a (xs' @ ys))
      | kWaitAccept \<Rightarrow>
          \<exists>p. w' = [Sent [5, 0], Bind p, Sent (bind_reply p)] \<and>
              (\<forall>ys. spec_rest s (xs @ ys) = BindTo p (xs' @ ys))
      | _ \<Rightarrow> False)"

definition s5_moved :: "socks5 \<Rightarrow> u8 list \<Rightarrow> socks5 \<Rightarrow> u8 list \<Rightarrow> s5_event list \<Rightarrow> bool" where
  "s5_moved s xs s' xs' w' \<longleftrightarrow>
     s5_reading s' \<and> w' = s5_log s' \<and> (\<forall>ys. spec_rest s (xs @ ys) = spec_rest s' (xs' @ ys))"

lemma s5_moved_trans: "s5_moved s xs s' xs' w \<Longrightarrow> s5_moved s' xs' t zs v \<Longrightarrow> s5_moved s xs t zs v"
  by (simp add: s5_moved_def)

lemma s5_moved_done: "s5_moved s xs s' xs' w \<Longrightarrow> s5_done s' xs' t zs v \<Longrightarrow> s5_done s xs t zs v"
  by (simp add: s5_moved_def s5_done_def split: HandshakeState.splits)

context byte_buffer begin

lemma copy_out_bytes:
  assumes "good b" "\<not> peeked b"
  obtains b' where "bo_CopyOut BO b n = Inr (take n (bytes b), b')" "good b'" "\<not> peeked b'"
    "reserved b' = reserved b" "bytes b' = drop n (bytes b)"
  using copy_out [OF assms] that by (auto simp: bytes_def)

lemma read_array_bytes:
  assumes "good b" "\<not> peeked b" "n \<le> length (bytes b)"
  obtains b' where "read_array BO b n = Inr (take n (bytes b), b')" "good b'" "\<not> peeked b'"
    "reserved b' = reserved b" "bytes b' = drop n (bytes b)"
proof -
  obtain b' where "bo_CopyOut BO b n = Inr (take n (bytes b), b')" "good b'" "\<not> peeked b'"
    "reserved b' = reserved b" "bytes b' = drop n (bytes b)"
    by (rule copy_out_bytes [OF assms(1,2)])
  then show ?thesis using that assms(3) by (simp add: read_array_def)
qed

lemma read_zeroed_bytes:
  assumes "good b" "\<not> peeked b" "n \<le> length (bytes b)"
  obtains b' where "read_zeroed BO b n = Inr (take n (bytes b), b')" "good b'" "\<not> peeked b'"
    "reserved b' = reserved b" "bytes b' = drop n (bytes b)"
proof -
  obtain b' where "bo_CopyOut BO b n = Inr (take n (bytes b), b')" "good b'" "\<not> peeked b'"
    "reserved b' = reserved b" "bytes b' = drop n (bytes b)"
    by (rule copy_out_bytes [OF assms(1,2)])
  then show ?thesis using that assms(3) by (simp add: read_zeroed_def)
qed

lemma insufficient_bytes: "good b \<Longrightarrow> InsufficientBuffer BO s b \<longleftrightarrow> length (bytes b) < s5_required_size s"
  by (simp add: InsufficientBuffer_def size_data bytes_def)

text \<open>The buffer after a transition: what was read is gone, all else is as it was.\<close>

definition read_from :: "'b \<Rightarrow> 'b \<Rightarrow> nat \<Rightarrow> bool" where
  "read_from b b' n \<longleftrightarrow> good b' \<and> \<not> peeked b' \<and> reserved b' = reserved b \<and> bytes b' = drop n (bytes b)"

lemma proceed_two_reads:
  assumes "good b" "\<not> peeked b" "n + 2 \<le> length (bytes b)"
  obtains b1 b2 where "read_zeroed BO b n = Inr (take n (bytes b), b1)"
    "bo_CopyOut BO b n = Inr (take n (bytes b), b1)"
    "read_zeroed BO b1 2 = Inr (take 2 (drop n (bytes b)), b2)" "read_from b b2 (n + 2)"
proof -
  obtain b1 where b1: "bo_CopyOut BO b n = Inr (take n (bytes b), b1)" "good b1" "\<not> peeked b1"
    "reserved b1 = reserved b" "bytes b1 = drop n (bytes b)"
    by (rule copy_out_bytes [OF assms(1,2)])
  then have "2 \<le> length (bytes b1)" using assms(3) by simp
  then obtain b2 where b2: "read_zeroed BO b1 2 = Inr (take 2 (bytes b1), b2)" "good b2" "\<not> peeked b2"
    "reserved b2 = reserved b1" "bytes b2 = drop 2 (bytes b1)"
    by (rule read_zeroed_bytes [OF b1(2,3)])
  have "read_zeroed BO b n = Inr (take n (bytes b), b1)"
    using b1(1) assms(3) by (simp add: read_zeroed_def)
  then show ?thesis
    using that b1 b2 by (simp add: read_from_def add.commute)
qed

text \<open>One transition from a state that reads, with enough bytes in the buffer.\<close>

definition s5_step_ok :: "socks5 \<Rightarrow> 'b \<Rightarrow> s5_event list \<Rightarrow> bool" where
  "s5_step_ok s b w \<longleftrightarrow>
     (\<exists>p s' b' w' n. Socks5State_Proceed BO logging_callbacks s b w = Inr (p, s', b', w') \<and>
        read_from b b' n \<and> s5_inv s' \<and>
        (if p then s5_rank (s5_state s') < s5_rank (s5_state s) \<and> s5_moved s (bytes b) s' (bytes b') w'
         else s5_done s (bytes b) s' (bytes b') w'))"

lemma step_movedI:
  assumes "Socks5State_Proceed BO logging_callbacks s b w = Inr (True, s', b', w')" "read_from b b' n"
    "s5_inv s'" "s5_rank (s5_state s') < s5_rank (s5_state s)" "s5_moved s (bytes b) s' (bytes b') w'"
  shows "s5_step_ok s b w"
  unfolding s5_step_ok_def using assms by (metis (full_types))

lemma step_doneI:
  assumes "Socks5State_Proceed BO logging_callbacks s b w = Inr (False, s', b', w')" "read_from b b' n"
    "s5_inv s'" "s5_done s (bytes b) s' (bytes b') w'"
  shows "s5_step_ok s b w"
  unfolding s5_step_ok_def using assms by (metis (full_types))

lemma step_failI:
  assumes "Socks5State_Proceed BO logging_callbacks s b w = Inr (False, s\<lparr>s5_state := kFail\<rparr>, b', w')"
    "read_from b b' n" "s5_required_size s < 256" "\<And>ys. spec_rest s (bytes b @ ys) = Malformed"
  shows "s5_step_ok s b w"
  by (rule step_doneI [OF assms(1,2)]) (use assms(3,4) in \<open>simp_all add: s5_done_def\<close>)

lemma enough_bytes:
  "good b \<Longrightarrow> s5_required_size s \<le> length (bytes b) \<Longrightarrow> \<not> InsufficientBuffer BO s b"
  by (simp add: insufficient_bytes)

lemma step_greeting:
  assumes b: "good b" "\<not> peeked b" and s: "s5_state s = kGreetingHeader" "s5_inv s"
    and n: "s5_required_size s \<le> length (bytes b)" and w: "w = s5_log s"
  shows "s5_step_ok s b w"
proof -
  have 2: "2 \<le> length (bytes b)" using s n by simp
  obtain b' where b': "read_array BO b 2 = Inr (take 2 (bytes b), b')" "read_from b b' 2"
    using read_array_bytes [OF b 2] by (auto simp: read_from_def)
  have nth: "(bytes b @ ys) ! i = bytes b ! i" if "i < 2" for i ys
    using 2 that by (simp add: nth_append)
  have spec: "spec_rest s (bytes b @ ys) =
      (if bytes b ! 0 \<noteq> 5 \<or> bytes b ! 1 = 0 then Malformed
       else spec_methods (unat (bytes b ! 1)) (drop 2 (bytes b) @ ys))" for ys
    using 2 s(1) nth by (simp add: spec_rest_def spec_greeting_def)
  have run: "Socks5State_Proceed BO logging_callbacks s b w =
      (if bytes b ! 0 \<noteq> 5 \<or> bytes b ! 1 = 0 then Inr (False, s\<lparr>s5_state := kFail\<rparr>, b', w)
       else Inr (True, s\<lparr>s5_required_size := unat (bytes b ! 1), s5_state := kGreetingMethods\<rparr>, b', w))"
    using s(1) b'(1) enough_bytes [OF b(1) n]
    by (simp add: Socks5State_Proceed_def Proceed_GreetingHeader_def s5_fail_def s5_break_def)
  show ?thesis
  proof (cases "bytes b ! 0 \<noteq> 5 \<or> bytes b ! 1 = 0")
    case True
    then have "Socks5State_Proceed BO logging_callbacks s b w = Inr (False, s\<lparr>s5_state := kFail\<rparr>, b', w)"
      using run by simp
    then show ?thesis
      by (rule step_failI [OF _ b'(2)]) (use True spec s in simp_all)
  next
    case False
    have "0 < unat (bytes b ! 1)" using False by (simp add: unat_gt_0)
    moreover have "unat (bytes b ! 1) < 256" using unsigned_less [of "bytes b ! 1"] by simp
    moreover have go: "Socks5State_Proceed BO logging_callbacks s b w =
        Inr (True, s\<lparr>s5_required_size := unat (bytes b ! 1), s5_state := kGreetingMethods\<rparr>, b', w)"
      using run False by simp
    ultimately show ?thesis
      using False spec w s b'(2)
      by (intro step_movedI [OF go b'(2)])
        (auto simp: s5_moved_def s5_reading_def s5_log_def spec_rest_def read_from_def)
  qed
qed

lemma step_methods:
  assumes b: "good b" "\<not> peeked b" and s: "s5_state s = kGreetingMethods" "s5_inv s"
    and n: "s5_required_size s \<le> length (bytes b)" and w: "w = s5_log s"
  shows "s5_step_ok s b w"
proof -
  let ?n = "s5_required_size s"
  obtain b' where b': "read_array BO b ?n = Inr (take ?n (bytes b), b')" "read_from b b' ?n"
    using read_array_bytes [OF b n] by (auto simp: read_from_def)
  have spec: "spec_rest s (bytes b @ ys) =
      (if 0 \<notin> set (take ?n (bytes b)) then Malformed else spec_request (drop ?n (bytes b) @ ys))" for ys
    using n s(1) by (simp add: spec_rest_def spec_methods_def)
  have run: "Socks5State_Proceed BO logging_callbacks s b w =
      (if 0 \<notin> set (take ?n (bytes b)) then Inr (False, s\<lparr>s5_state := kFail\<rparr>, b', w)
       else Inr (True, s\<lparr>s5_state := kRequestHeader, s5_required_size := 4\<rparr>, b', w @ [Sent [5, 0]]))"
    using s(1) b'(1) enough_bytes [OF b(1) n]
    by (simp add: Socks5State_Proceed_def Proceed_GreetingMethods_def s5_fail_def s5_break_def
        logging_callbacks_def Let_def)
  show ?thesis
  proof (cases "0 \<notin> set (take ?n (bytes b))")
    case True
    then have "Socks5State_Proceed BO logging_callbacks s b w = Inr (False, s\<lparr>s5_state := kFail\<rparr>, b', w)"
      using run by simp
    then show ?thesis
      by (rule step_failI [OF _ b'(2)]) (use True spec s in simp_all)
  next
    case False
    then have go: "Socks5State_Proceed BO logging_callbacks s b w =
        Inr (True, s\<lparr>s5_state := kRequestHeader, s5_required_size := 4\<rparr>, b', w @ [Sent [5, 0]])"
      using run by simp
    then show ?thesis
      using False spec w s b'(2)
      by (intro step_movedI [OF go b'(2)])
        (auto simp: s5_moved_def s5_reading_def s5_log_def spec_rest_def read_from_def)
  qed
qed

lemma step_request:
  assumes b: "good b" "\<not> peeked b" and s: "s5_state s = kRequestHeader" "s5_inv s"
    and n: "s5_required_size s \<le> length (bytes b)" and w: "w = s5_log s"
  shows "s5_step_ok s b w"
proof -
  have 4: "4 \<le> length (bytes b)" using s n by simp
  obtain b' where b': "read_array BO b 4 = Inr (take 4 (bytes b), b')" "read_from b b' 4"
    using read_array_bytes [OF b 4] by (auto simp: read_from_def)
  have nth: "(bytes b @ ys) ! i = bytes b ! i" if "i < 4" for i ys
    using 4 that by (simp add: nth_append)
  have spec: "spec_rest s (bytes b @ ys) =
      (if bytes b ! 0 \<noteq> 5 \<or> bytes b ! 2 \<noteq> 0 then Malformed
       else if bytes b ! 1 = 1 \<and> bytes b ! 3 = 1 then spec_v4 (drop 4 (bytes b) @ ys)
       else if bytes b ! 1 = 1 \<and> bytes b ! 3 = 4 then spec_v6 (drop 4 (bytes b) @ ys)
       else if bytes b ! 1 = 2 \<and> bytes b ! 3 = 1 then spec_bind 6 (drop 4 (bytes b) @ ys)
       else if bytes b ! 1 = 2 \<and> bytes b ! 3 = 4 then spec_bind 18 (drop 4 (bytes b) @ ys)
       else Malformed)" for ys
    using 4 s(1) nth by (simp add: spec_rest_def spec_request_def)
  let ?fail = "Inr (False, s\<lparr>s5_state := kFail\<rparr>, b', w)"
  let ?go = "\<lambda>st k. Inr (True, s\<lparr>s5_state := st, s5_required_size := k\<rparr>, b', w)"
  have run: "Socks5State_Proceed BO logging_callbacks s b w =
      (if bytes b ! 0 \<noteq> 5 \<or> bytes b ! 2 \<noteq> 0 then ?fail
       else if bytes b ! 1 = 1 \<and> bytes b ! 3 = 1 then ?go kRequestAddrV4 6
       else if bytes b ! 1 = 1 \<and> bytes b ! 3 = 4 then ?go kRequestAddrV6 18
       else if bytes b ! 1 = 2 \<and> bytes b ! 3 = 1 then ?go kRequestBind 6
       else if bytes b ! 1 = 2 \<and> bytes b ! 3 = 4 then ?go kRequestBind 18
       else ?fail)"
    using s(1) b'(1) enough_bytes [OF b(1) n]
    by (simp add: Socks5State_Proceed_def Proceed_RequestHeader_def s5_fail_def s5_break_def Let_def)
  have go: "s5_step_ok s b w"
    if "Socks5State_Proceed BO logging_callbacks s b w = ?go st k" "st \<in> {kRequestAddrV4, kRequestAddrV6, kRequestBind}"
      "s5_inv (s\<lparr>s5_state := st, s5_required_size := k\<rparr>)"
      "\<forall>ys. spec_rest s (bytes b @ ys) = spec_rest (s\<lparr>s5_state := st, s5_required_size := k\<rparr>) (bytes b' @ ys)" for st k
    by (rule step_movedI [OF that(1) b'(2) that(3)])
      (use that s w in \<open>auto simp: s5_moved_def s5_reading_def s5_log_def\<close>)
  have fail: "s5_step_ok s b w"
    if "Socks5State_Proceed BO logging_callbacks s b w = ?fail" "\<forall>ys. spec_rest s (bytes b @ ys) = Malformed"
    by (rule step_failI [OF that(1) b'(2)]) (use that s in simp_all)
  have bytes': "bytes b' = drop 4 (bytes b)" using b'(2) by (simp add: read_from_def)
  show ?thesis
  proof (cases "bytes b ! 0 \<noteq> 5 \<or> bytes b ! 2 \<noteq> 0 \<or> \<not> (bytes b ! 1 = 1 \<or> bytes b ! 1 = 2) \<or>
      \<not> (bytes b ! 3 = 1 \<or> bytes b ! 3 = 4)")
    case True
    then show ?thesis by (intro fail) (auto simp: run spec)
  next
    case False
    then consider "bytes b ! 1 = 1" "bytes b ! 3 = 1" | "bytes b ! 1 = 1" "bytes b ! 3 = 4"
      | "bytes b ! 1 = 2" "bytes b ! 3 = 1" | "bytes b ! 1 = 2" "bytes b ! 3 = 4" by auto
    then show ?thesis
    proof cases
      case 1 then show ?thesis using False
        by (intro go [of 6 kRequestAddrV4]) (simp_all add: run spec spec_rest_upd bytes')
    next
      case 2 then show ?thesis using False
        by (intro go [of 18 kRequestAddrV6]) (simp_all add: run spec spec_rest_upd bytes')
    next
      case 3 then show ?thesis using False
        by (intro go [of 6 kRequestBind]) (simp_all add: run spec spec_rest_upd bytes')
    next
      case 4 then show ?thesis using False
        by (intro go [of 18 kRequestBind]) (simp_all add: run spec spec_rest_upd bytes')
    qed
  qed
qed

lemma step_connect:
  assumes b: "good b" "\<not> peeked b" and s: "s5_inv s" and w: "w = s5_log s"
    and st: "s5_state s = kRequestAddrV4 \<or> s5_state s = kRequestAddrV6"
    and n: "s5_required_size s \<le> length (bytes b)"
  shows "s5_step_ok s b w"
proof -
  define k where "k = s5_required_size s - 2"
  define f where "f = (if s5_state s = kRequestAddrV4 then AF_INET else AF_INET6)"
  define a where "a = f (take k (bytes b)) (take 2 (drop k (bytes b)))"
  have k: "k + 2 = s5_required_size s" "k + 2 \<le> length (bytes b)"
    using s st n by (auto simp: k_def)
  obtain b1 b2 where r: "read_zeroed BO b k = Inr (take k (bytes b), b1)"
    "bo_CopyOut BO b k = Inr (take k (bytes b), b1)"
    "read_zeroed BO b1 2 = Inr (take 2 (drop k (bytes b)), b2)" "read_from b b2 (k + 2)"
    by (rule proceed_two_reads [OF b k(2)])
  have run: "Socks5State_Proceed BO logging_callbacks s b w =
      Inr (False, s\<lparr>s5_required_size := 0, s5_state := kWaitConnect\<rparr>, b2, w @ [Connect a])"
    using st
  proof
    assume v4: "s5_state s = kRequestAddrV4"
    then have "k = 4" using s by (simp add: k_def)
    then show ?thesis
      using v4 r(1,3) enough_bytes [OF b(1) n]
      by (simp add: Socks5State_Proceed_def Proceed_RequestAddrV4_def Proceed_connect_def
          logging_callbacks_def a_def f_def Let_def)
  next
    assume v6: "s5_state s = kRequestAddrV6"
    then have "k = 16" using s by (simp add: k_def)
    then show ?thesis
      using v6 r(1,3) enough_bytes [OF b(1) n]
      by (simp add: Socks5State_Proceed_def Proceed_RequestAddrV6_def Proceed_connect_def
          logging_callbacks_def a_def f_def Let_def)
  qed
  have spec: "spec_rest s (bytes b @ ys) = ConnectTo a (bytes b2 @ ys)" for ys
    using st
  proof
    assume v4: "s5_state s = kRequestAddrV4"
    then have "k = 4" using s by (simp add: k_def)
    then show ?thesis
      using v4 k(2) r(4) by (simp add: spec_rest_def spec_v4_def a_def f_def read_from_def)
  next
    assume v6: "s5_state s = kRequestAddrV6"
    then have "k = 16" using s by (simp add: k_def)
    then show ?thesis
      using v6 k(2) r(4) by (simp add: spec_rest_def spec_v6_def a_def f_def read_from_def)
  qed
  show ?thesis
    by (rule step_doneI [OF run r(4)]) (use w st spec in \<open>auto simp: s5_done_def s5_log_def\<close>)
qed

lemma step_bind:
  assumes b: "good b" "\<not> peeked b" and s: "s5_inv s" and w: "w = s5_log s"
    and st: "s5_state s = kRequestBind" and n: "s5_required_size s \<le> length (bytes b)"
  shows "s5_step_ok s b w"
proof -
  define k where "k = s5_required_size s - 2"
  define q where "q = ntohs (take 2 (drop k (bytes b)))"
  have k: "k + 2 = s5_required_size s" "k + 2 \<le> length (bytes b)"
    using s st n by (auto simp: k_def)
  obtain b1 b2 where r: "read_zeroed BO b k = Inr (take k (bytes b), b1)"
    "bo_CopyOut BO b k = Inr (take k (bytes b), b1)"
    "read_zeroed BO b1 2 = Inr (take 2 (drop k (bytes b)), b2)" "read_from b b2 (k + 2)"
    by (rule proceed_two_reads [OF b k(2)])
  have run: "Socks5State_Proceed BO logging_callbacks s b w =
      Inr (False, s\<lparr>s5_required_size := 0, s5_state := kWaitAccept\<rparr>, b2,
           w @ [Bind q, Sent (bind_reply q)])"
    using st r(2,3) enough_bytes [OF b(1) n]
    by (simp add: Socks5State_Proceed_def Proceed_RequestBind_def k_def [symmetric] q_def
        logging_callbacks_def call_def bind_reply_def Let_def)
  have spec: "spec_rest s (bytes b @ ys) = BindTo q (bytes b2 @ ys)" for ys
    using st k r(4) by (simp add: spec_rest_def spec_bind_def k_def [symmetric] q_def read_from_def)
  show ?thesis
    by (rule step_doneI [OF run r(4)]) (use w st spec in \<open>auto simp: s5_done_def s5_log_def\<close>)
qed

lemma step_any:
  assumes "good b" "\<not> peeked b" "s5_inv s" "s5_reading s" "w = s5_log s"
    "s5_required_size s \<le> length (bytes b)"
  shows "s5_step_ok s b w"
  using assms step_greeting step_methods step_request step_connect step_bind
  by (cases "s5_state s") (auto simp: s5_reading_def simp del: s5_inv.simps)

lemma loop_any:
  assumes "good b" "\<not> peeked b" "s5_inv s" "s5_reading s" "w = s5_log s"
    "s5_rank (s5_state s) < fuel"
  shows "\<exists>s' b' w' n. Socks5_loop fuel BO logging_callbacks s b w = Inr (s', b', w') \<and>
     read_from b b' n \<and> s5_inv s' \<and>
     (if s5_reading s' then InsufficientBuffer BO s' b' \<and> s5_moved s (bytes b) s' (bytes b') w'
      else s5_done s (bytes b) s' (bytes b') w')"
  using assms
proof (induction fuel arbitrary: s b w)
  case (Suc fuel)
  have ns: "s5_state s \<noteq> kSuccess" using Suc.prems(4) by (auto simp: s5_reading_def)
  show ?case
  proof (cases "InsufficientBuffer BO s b")
    case True
    then have "Socks5_loop (Suc fuel) BO logging_callbacks s b w = Inr (s, b, w)"
      using ns by (simp add: Socks5State_Proceed_def)
    moreover have "read_from b b 0" using Suc.prems(1,2) by (simp add: read_from_def)
    moreover have "s5_moved s (bytes b) s (bytes b) w" using Suc.prems(4,5) by (simp add: s5_moved_def)
    ultimately show ?thesis using True Suc.prems(3,4) by fastforce
  next
    case False
    then have "s5_step_ok s b w"
      using Suc.prems insufficient_bytes [OF Suc.prems(1)] by (intro step_any) auto
    then obtain p s1 b1 w1 n where st: "Socks5State_Proceed BO logging_callbacks s b w = Inr (p, s1, b1, w1)"
      "read_from b b1 n" "s5_inv s1"
      and post: "if p then s5_rank (s5_state s1) < s5_rank (s5_state s) \<and> s5_moved s (bytes b) s1 (bytes b1) w1
         else s5_done s (bytes b) s1 (bytes b1) w1"
      unfolding s5_step_ok_def by blast
    show ?thesis
    proof (cases p)
      case True
      then have m: "s5_moved s (bytes b) s1 (bytes b1) w1" "s5_rank (s5_state s1) < fuel"
        using post Suc.prems(6) by auto
      obtain s2 b2 w2 k where IH: "Socks5_loop fuel BO logging_callbacks s1 b1 w1 = Inr (s2, b2, w2)"
        "read_from b1 b2 k" "s5_inv s2"
        "if s5_reading s2 then InsufficientBuffer BO s2 b2 \<and> s5_moved s1 (bytes b1) s2 (bytes b2) w2
         else s5_done s1 (bytes b1) s2 (bytes b2) w2"
        using Suc.IH [of b1 s1 w1] st m by (auto simp: read_from_def s5_moved_def simp del: s5_inv.simps)
      have "read_from b b2 (k + n)" using st(2) IH(2) by (simp add: read_from_def)
      moreover have "if s5_reading s2 then InsufficientBuffer BO s2 b2 \<and> s5_moved s (bytes b) s2 (bytes b2) w2
         else s5_done s (bytes b) s2 (bytes b2) w2"
        using IH(4) s5_moved_trans [OF m(1)] s5_moved_done [OF m(1)] by (auto split: if_splits)
      ultimately show ?thesis using ns st(1) True IH(1,3) by fastforce
    next
      case False
      then have "\<not> s5_reading s1" "s5_done s (bytes b) s1 (bytes b1) w1"
        using post by (auto simp: s5_done_def s5_reading_def split: HandshakeState.splits)
      then show ?thesis using ns st False by fastforce
    qed
  qed
qed simp

text \<open>Where the handshake stands when the stream so far parses to \<open>out\<close>.\<close>

definition s5_settled :: "s5_outcome \<Rightarrow> socks5 \<Rightarrow> 'b \<Rightarrow> s5_event list \<Rightarrow> u8 list list \<Rightarrow> bool" where
  "s5_settled out s' b' w' unread \<longleftrightarrow>
     (if s5_reading s'
      then unread = [] \<and> InsufficientBuffer BO s' b' \<and> s5_inv s' \<and> w' = s5_log s' \<and>
           out = spec_rest s' (bytes b')
      else case s5_state s' of
        kFail \<Rightarrow> out = Malformed
      | kWaitConnect \<Rightarrow>
          \<exists>a. w' = [Sent [5, 0], Connect a] \<and> out = ConnectTo a (bytes b' @ concat unread)
      | kWaitAccept \<Rightarrow>
          \<exists>p. w' = [Sent [5, 0], Bind p, Sent (bind_reply p)] \<and>
              out = BindTo p (bytes b' @ concat unread)
      | _ \<Rightarrow> False)"

lemma feed_fail:
  assumes "good b" "\<not> peeked b" "\<not> reserved b" "s5_state s = kFail" "\<forall>c \<in> set cs. c \<noteq> []"
  shows "\<exists>s' b' w' unread. s5_feed BO logging_callbacks s b w cs = Inr (s', b', w', unread) \<and> good b' \<and>
     s5_state s' = kFail"
  using assms
proof (induction cs arbitrary: s b)
  case (Cons c cs)
  obtain b1 where b1: "bo_CopyIn BO b c = Inr b1" "good b1" "\<not> reserved b1" "\<not> peeked b1"
    using copy_in [of b c] Cons.prems by auto
  have "\<exists>s1. Socks5_loop 6 BO logging_callbacks s b1 w = Inr (s1, b1, w) \<and> s5_state s1 = kFail"
    using Cons.prems(4)
    by (cases "InsufficientBuffer BO s b1") (simp_all add: Socks5State_Proceed_def eval_nat_numeral)
  then obtain s1 where s1: "Socks5_loop 6 BO logging_callbacks s b1 w = Inr (s1, b1, w)" "s5_state s1 = kFail"
    by blast
  show ?case
  proof (cases "InsufficientBuffer BO s1 b1")
    case True
    then show ?thesis using Cons.IH [OF b1(2,4,3) s1(2)] Cons.prems(5) b1(1) s1(1) by simp
  next
    case False
    then show ?thesis using b1(1,2) s1 by simp
  qed
qed simp

lemma feed_any:
  assumes "good b" "\<not> peeked b" "\<not> reserved b" "s5_inv s" "s5_reading s" "w = s5_log s"
    "InsufficientBuffer BO s b" "\<forall>c \<in> set cs. c \<noteq> []"
  shows "\<exists>s' b' w' unread. s5_feed BO logging_callbacks s b w cs = Inr (s', b', w', unread) \<and> good b' \<and>
     s5_settled (spec_rest s (bytes b @ concat cs)) s' b' w' unread"
  using assms
proof (induction cs arbitrary: s b w)
  case Nil
  then show ?case by (simp add: s5_settled_def)
next
  case (Cons c cs)
  obtain b1 where b1: "bo_CopyIn BO b c = Inr b1" "good b1" "\<not> reserved b1" "\<not> peeked b1"
    "bytes b1 = bytes b @ c"
    using copy_in [of b c] Cons.prems by (auto simp: bytes_def)
  have "s5_rank (s5_state s) < 6" by (cases "s5_state s") simp_all
  then obtain s2 b2 w2 n where l: "Socks5_loop 6 BO logging_callbacks s b1 w = Inr (s2, b2, w2)"
    "read_from b1 b2 n" "s5_inv s2"
    "if s5_reading s2 then InsufficientBuffer BO s2 b2 \<and> s5_moved s (bytes b1) s2 (bytes b2) w2
     else s5_done s (bytes b1) s2 (bytes b2) w2"
    using loop_any [OF b1(2,4) Cons.prems(4-6)] by blast
  have g2: "good b2" "\<not> peeked b2" "\<not> reserved b2" using l(2) b1(3) by (simp_all add: read_from_def)
  have all: "bytes b @ concat (c # cs) = bytes b1 @ concat cs" using b1(5) by simp
  show ?case
  proof (cases "s5_reading s2")
    case True
    then have m: "InsufficientBuffer BO s2 b2" "s5_moved s (bytes b1) s2 (bytes b2) w2" using l(4) by auto
    obtain s' b' w' unread where f: "s5_feed BO logging_callbacks s2 b2 w2 cs = Inr (s', b', w', unread)"
      "good b'" "s5_settled (spec_rest s2 (bytes b2 @ concat cs)) s' b' w' unread"
      using Cons.IH [OF g2 l(3) True _ m(1)] m(2) Cons.prems(8) by (auto simp: s5_moved_def)
    have "spec_rest s (bytes b1 @ concat cs) = spec_rest s2 (bytes b2 @ concat cs)"
      using m(2) by (simp add: s5_moved_def)
    then have "s5_settled (spec_rest s (bytes b1 @ concat cs)) s' b' w' unread"
      using f(3) by simp
    then show ?thesis unfolding all using b1(1) l(1) m(1) f(1,2) by simp
  next
    case False
    then have d: "s5_done s (bytes b1) s2 (bytes b2) w2" using l(4) by simp
    show ?thesis
    proof (cases "s5_state s2 = kFail")
      case True
      then have mal: "spec_rest s (bytes b1 @ concat cs) = Malformed" using d by (simp add: s5_done_def)
      have settled: "s5_settled (spec_rest s (bytes b1 @ concat cs)) s' b' w' unread" if "s5_state s' = kFail" for s' b' w' unread
        using mal that by (simp add: s5_settled_def s5_reading_def)
      show ?thesis
      proof (cases "InsufficientBuffer BO s2 b2")
        case ins: True
        obtain s' b' w' unread where f: "s5_feed BO logging_callbacks s2 b2 w2 cs = Inr (s', b', w', unread)"
          "good b'" "s5_state s' = kFail"
          using feed_fail [OF g2 True, of cs w2] Cons.prems(8) by auto
        then show ?thesis unfolding all using b1(1) l(1) ins settled by simp
      next
        case False
        then show ?thesis unfolding all using b1(1) l(1) g2(1) settled True by simp
      qed
    next
      case nf: False
      then have "s5_required_size s2 = 0"
        using d l(3) by (auto simp: s5_done_def split: HandshakeState.splits)
      then have "\<not> InsufficientBuffer BO s2 b2" by (simp add: InsufficientBuffer_def)
      moreover have "s5_settled (spec_rest s (bytes b1 @ concat cs)) s2 b2 w2 cs"
        using d nf False by (auto simp: s5_done_def s5_settled_def split: HandshakeState.splits)
      ultimately show ?thesis unfolding all using b1(1) l(1) g2(1) by simp
    qed
  qed
qed

lemma insufficient_needs_more:
  assumes "good b" "s5_inv s" "s5_reading s" "InsufficientBuffer BO s b"
  shows "spec_rest s (bytes b) = NeedMore"
  using assms insufficient_bytes [OF assms(1), of s]
  by (cases "s5_state s")
    (auto simp: s5_reading_def spec_rest_def spec_greeting_def spec_methods_def spec_request_def
      spec_v4_def spec_v6_def spec_bind_def)

lemma handshake:
  assumes "\<forall>c \<in> set cs. c \<noteq> []"
  shows "\<exists>s b w unread. s5_feed BO logging_callbacks Socks5State (bo_new BO) [] cs = Inr (s, b, w, unread) \<and>
     (case spec_greeting (concat cs) of
        NeedMore \<Rightarrow> unread = [] \<and> s5_reading s \<and> InsufficientBuffer BO s b
      | Malformed \<Rightarrow> s5_state s = kFail
      | ConnectTo a rest \<Rightarrow> s5_state s = kWaitConnect \<and> w = [Sent [5, 0], Connect a] \<and>
          bytes b @ concat unread = rest
      | BindTo p rest \<Rightarrow> s5_state s = kWaitAccept \<and>
          w = [Sent [5, 0], Bind p, Sent (bind_reply p)] \<and> bytes b @ concat unread = rest)"
proof -
  have new: "bytes (bo_new BO) = []" using new_buffer by (simp add: bytes_def)
  have start: "s5_inv Socks5State" "s5_reading Socks5State" "[] = s5_log Socks5State"
    "InsufficientBuffer BO Socks5State (bo_new BO)"
    using new insufficient_bytes [OF new_buffer(1)]
    by (simp_all add: Socks5State_def s5_reading_def s5_log_def)
  obtain s b w unread where f: "s5_feed BO logging_callbacks Socks5State (bo_new BO) [] cs = Inr (s, b, w, unread)"
    "good b" "s5_settled (spec_rest Socks5State (concat cs)) s b w unread"
    using feed_any [OF new_buffer(1,4,3) start assms] new by auto
  moreover have "spec_rest Socks5State (concat cs) = spec_greeting (concat cs)"
    by (simp add: spec_rest_def Socks5State_def)
  ultimately show ?thesis
    using insufficient_needs_more [OF f(2), of s]
    by (cases "s5_reading s")
      (auto simp: s5_settled_def simp del: s5_inv.simps split: HandshakeState.splits s5_outcome.splits)
qed

end

context buffer_world begin

lemmas buffer_handshake = bb.handshake [unfolded bytes_buffer]

end

section \<open>Properties\<close>

text \<open>
  C4: However the client's bytes are cut into chunks, the handshake does what the request
  grammar prescribes for their concatenation. An incomplete request leaves the machine
  waiting for more, a malformed one fails, a CONNECT request answers the greeting and
  starts a connection to exactly the requested address, a BIND request binds the requested
  port and tells the client; in both cases every byte behind the request is kept for the
  traffic that follows.
\<close>

theorem socks5_handshake_parses:
  assumes "buffer_world env" and "\<forall>c \<in> set chunks. c \<noteq> []"
  shows "\<exists>s b w unread.
     s5_feed (Buffer_ops env) logging_callbacks Socks5State BasicBuffer [] chunks = Inr (s, b, w, unread) \<and>
     (case spec_greeting (concat chunks) of
        NeedMore \<Rightarrow> unread = [] \<and> s5_reading s \<and> InsufficientBuffer (Buffer_ops env) s b
      | Malformed \<Rightarrow> s5_state s = kFail
      | ConnectTo a rest \<Rightarrow> s5_state s = kWaitConnect \<and> w = [Sent [5, 0], Connect a] \<and>
          buffer_bytes b @ concat unread = rest
      | BindTo p rest \<Rightarrow> s5_state s = kWaitAccept \<and>
          w = [Sent [5, 0], Bind p, Sent (bind_reply p)] \<and> buffer_bytes b @ concat unread = rest)"
proof -
  have "bo_new (Buffer_ops env) = BasicBuffer" by (simp add: Buffer_ops_def)
  then show ?thesis
    using buffer_world.buffer_handshake [OF assms] by simp
qed

theorem socks5_handshake_parses_witness:
  "spec_greeting (concat [[5], [2, 0, 1, 5, 1], [0, 1, 10, 0, 0, 1, 0, 80, 65]]) =
     ConnectTo (AF_INET [10, 0, 0, 1] [0, 80]) [65] \<and>
   (\<exists>s b w unread. s5_feed (Buffer_ops tiny_env) logging_callbacks Socks5State BasicBuffer []
       [[5], [2, 0, 1, 5, 1], [0, 1, 10, 0, 0, 1, 0, 80, 65]] = Inr (s, b, w, unread) \<and>
     s5_state s = kWaitConnect \<and> w = [Sent [5, 0], Connect (AF_INET [10, 0, 0, 1] [0, 80])] \<and>
     buffer_bytes b @ concat unread = [65])"
proof -
  have spec: "spec_greeting (concat [[5], [2, 0, 1, 5, 1], [0, 1, 10, 0, 0, 1, 0, 80, 65]]) =
     ConnectTo (AF_INET [10, 0, 0, 1] [0, 80]) [65]"
    by code_simp
  have "\<forall>c \<in> set [[5], [2, 0, 1, 5, 1], [0, 1, 10, 0, 0, 1, 0, 80, 65 :: u8]]. c \<noteq> []" by simp
  from socks5_handshake_parses [OF tiny.buffer_world_axioms this] spec show ?thesis by auto
qed

text \<open>
  \<open>ConnectionSucceed\<close> reports success whatever happened to the final response: if
  the machine was waiting, it returns true and is in \<open>kSuccess\<close> even when the response
  could not be sent to the client, because the assignment of \<open>kFail\<close> is overwritten.
\<close>

theorem socks5_success_after_failed_response:
  assumes "s5_state s = kWaitConnect \<or> s5_state s = kWaitAccept"
    and "response_callback cb = Some (\<lambda>w xs. (kStatusFail, w))"
  shows "\<exists>w'. Socks5State_ConnectionSucceed cb s w = Inr (True, s\<lparr>s5_state := kSuccess\<rparr>, w')"
  using assms by (auto simp: Socks5State_ConnectionSucceed_def call_def split: prod.splits)

theorem socks5_success_after_failed_response_witness:
  "\<exists>w'. Socks5State_ConnectionSucceed
     (logging_callbacks\<lparr>response_callback := Some (\<lambda>w xs. (kStatusFail, w))\<rparr>)
     \<lparr>s5_state = kWaitConnect, s5_required_size = 0\<rparr> [] =
     Inr (True, \<lparr>s5_state = kSuccess, s5_required_size = 0\<rparr>, w')"
  using socks5_success_after_failed_response [of "\<lparr>s5_state = kWaitConnect, s5_required_size = 0\<rparr>"
      "logging_callbacks\<lparr>response_callback := Some (\<lambda>w xs. (kStatusFail, w))\<rparr>" "[]"]
  by simp

end
