(* ===== verification/Proxy_Bridge.thy ===== *)
theory Proxy_Bridge
  imports Socks5_Correct
begin

text \<open>
  The bridge between a client and its destination, cc/aws/proxy/src/proxy_bridge.{h,cc}.
  Its handlers run one at a time, in the bridge's strand. Starting an asynchronous
  operation records it as pending together with the memory it was given; boost::asio may
  then complete any pending operation, which moves the bytes and calls the handler. The
  results of the synchronous socket calls and of the acceptor pool are given by a record
  of functions.
\<close>

section \<open>State\<close>

datatype ec = ec_ok | ec_eof | ec_error

definition ec_failed :: "ec \<Rightarrow> bool" where
  "ec_failed e \<longleftrightarrow> e \<noteq> ec_ok"

datatype cancel_call = CancelAccept | CancelClientOps

datatype shutdown_call = ClientShutdownSend | ClientShutdownReceive | DestShutdownSend | DestShutdownReceive

text \<open>
  The bridge and its pending operations: the vectors of the outstanding reads, with the
  number of bytes they can take, and of the outstanding writes. \<open>br_to_dest\<close> and
  \<open>br_to_client\<close> are the bytes the sockets have accepted.
\<close>

record ('b, 'v) bridge =
  br_upstream :: 'b
  br_downstream :: 'b
  br_socks5 :: socks5
  reading_client :: bool
  writing_client :: bool
  client_readable :: bool
  client_writable :: bool
  reading_dest :: bool
  writing_dest :: bool
  dest_readable :: bool
  dest_writable :: bool
  pend_handshake :: "('v \<times> nat) option"
  pend_client_read :: "('v \<times> nat) option"
  pend_client_write :: "'v option"
  pend_dest_read :: "('v \<times> nat) option"
  pend_dest_write :: "'v option"
  pend_connect :: "sockaddr option"
  pend_accept :: bool
  pend_wait :: bool
  br_responses :: "(u8 list \<times> bool) list"
  br_shutdowns :: "shutdown_call list"
  br_cancels :: "cancel_call list"
  br_to_dest :: "u8 list"
  br_to_client :: "u8 list"

definition kMaxBufferSize :: nat where
  "kMaxBufferSize = 1024 * 1024"

definition kReadSize :: nat where
  "kReadSize = 64 * 1024"

definition ProxyBridge :: "('b, 'v) buffer_ops \<Rightarrow> ('b, 'v) bridge" where
  "ProxyBridge BO =
     \<lparr>br_upstream = bo_new BO, br_downstream = bo_new BO, br_socks5 = Socks5State,
      reading_client = False, writing_client = False, client_readable = True, client_writable = True,
      reading_dest = False, writing_dest = False, dest_readable = True, dest_writable = True,
      pend_handshake = None, pend_client_read = None, pend_client_write = None,
      pend_dest_read = None, pend_dest_write = None, pend_connect = None,
      pend_accept = False, pend_wait = False, br_responses = [], br_shutdowns = [], br_cancels = [],
      br_to_dest = [], br_to_client = []\<rparr>"

text \<open>
  Whether the n-th synchronous write to the client succeeds, the endpoint of the
  destination socket, and the acceptor pool: the pointer may be null, which is the default
  of the constructors; otherwise it gives the port that is bound for a requested one, or no
  acceptor. The bind callback goes through the pointer without a check.
\<close>

record bridge_io =
  io_write :: "nat \<Rightarrow> bool"
  io_endpoint :: "bool \<Rightarrow> sockaddr option"
  io_acceptor_pool :: "(u16 \<Rightarrow> u16 option) option"

definition ProxyBridge_callbacks :: "bridge_io \<Rightarrow> ('b, 'v) bridge s5_callbacks" where
  "ProxyBridge_callbacks io =
     \<lparr>response_callback = Some (\<lambda>br xs.
        let ok = io_write io (length (br_responses br))
        in (if ok then kStatusOK else kStatusFail,
            br\<lparr>br_responses := br_responses br @ [(xs, ok)]\<rparr>)),
      connect_callback = Some (\<lambda>br addr. (kStatusInProgress, br\<lparr>pend_connect := Some addr\<rparr>)),
      dest_address_callback = Some (\<lambda>br remote.
        (case io_endpoint io remote of
           None \<Rightarrow> ((kStatusFail, AF_OTHER), br)
         | Some ep \<Rightarrow> ((kStatusOK, ep), br))),
      bind_callback = Some (\<lambda>br port.
        (case io_acceptor_pool io of
           None \<Rightarrow> Inl UndefinedBehaviour
         | Some GetAcceptor \<Rightarrow>
             (case GetAcceptor port of
                None \<Rightarrow> Inr ((kStatusFail, port), br)
              | Some p \<Rightarrow> Inr ((kStatusOK, p), br\<lparr>pend_accept := True, pend_wait := True\<rparr>))))\<rparr>"

section \<open>Handshake\<close>

definition schedule_handshake_read ::
  "('b, 'v) buffer_ops \<Rightarrow> ('b, 'v) bridge \<Rightarrow> cpp_fault + ('b, 'v) bridge" where
  "schedule_handshake_read BO br =
     bindE (bo_ReserveAtLeast BO (br_upstream br) 1) (\<lambda>(v, k, up).
       Inr (br\<lparr>br_upstream := up, pend_handshake := Some (v, k)\<rparr>))"

definition PerformSocks5Handshake ::
  "('b, 'v) buffer_ops \<Rightarrow> ('b, 'v) bridge \<Rightarrow> cpp_fault + ('b, 'v) bridge" where
  "PerformSocks5Handshake BO br = schedule_handshake_read BO br"

definition Socks5HandshakeHandler ::
  "('b, 'v) buffer_ops \<Rightarrow> bridge_io \<Rightarrow> ('b, 'v) bridge \<Rightarrow> ec \<Rightarrow> nat \<Rightarrow> cpp_fault + ('b, 'v) bridge" where
  "Socks5HandshakeHandler BO io br e bytes_read =
     bindE (bo_Commit BO (br_upstream br) bytes_read) (\<lambda>up.
       let br0 = br\<lparr>br_upstream := up\<rparr>
       in if ec_failed e then Inr br0
          else bindE (Socks5_loop 6 BO (ProxyBridge_callbacks io) (br_socks5 br0) up br0) (\<lambda>(s, up', br1).
                 let br2 = br1\<lparr>br_socks5 := s, br_upstream := up'\<rparr>
                 in if InsufficientBuffer BO s up' then schedule_handshake_read BO br2
                    else Inr br2))"

section \<open>Forwarding\<close>

definition start_client_read ::
  "('b, 'v) buffer_ops \<Rightarrow> ('b, 'v) bridge \<Rightarrow> cpp_fault + ('b, 'v) bridge" where
  "start_client_read BO br =
     (if \<not> reading_client br \<and> client_readable br \<and> dest_writable br \<and>
         bo_data_size BO (br_upstream br) < kMaxBufferSize
      then bindE (bo_ReserveAtLeast BO (br_upstream br) kReadSize) (\<lambda>(v, k, up).
             Inr (br\<lparr>br_upstream := up, reading_client := True, pend_client_read := Some (v, k)\<rparr>))
      else Inr br)"

definition start_client_write ::
  "('b, 'v) buffer_ops \<Rightarrow> ('b, 'v) bridge \<Rightarrow> cpp_fault + ('b, 'v) bridge" where
  "start_client_write BO br =
     (if \<not> writing_client br \<and> client_writable br \<and> bo_data_size BO (br_downstream br) > 0
      then bindE (bo_Peek BO (br_downstream br)) (\<lambda>(v, down).
             Inr (br\<lparr>br_downstream := down, writing_client := True, pend_client_write := Some v\<rparr>))
      else Inr br)"

definition start_dest_read ::
  "('b, 'v) buffer_ops \<Rightarrow> ('b, 'v) bridge \<Rightarrow> cpp_fault + ('b, 'v) bridge" where
  "start_dest_read BO br =
     (if \<not> reading_dest br \<and> dest_readable br \<and> client_writable br \<and>
         bo_data_size BO (br_downstream br) < kMaxBufferSize
      then bindE (bo_ReserveAtLeast BO (br_downstream br) kReadSize) (\<lambda>(v, k, down).
             Inr (br\<lparr>br_downstream := down, reading_dest := True, pend_dest_read := Some (v, k)\<rparr>))
      else Inr br)"

definition start_dest_write ::
  "('b, 'v) buffer_ops \<Rightarrow> ('b, 'v) bridge \<Rightarrow> cpp_fault + ('b, 'v) bridge" where
  "start_dest_write BO br =
     (if \<not> writing_dest br \<and> dest_writable br \<and> bo_data_size BO (br_upstream br) > 0
      then bindE (bo_Peek BO (br_upstream br)) (\<lambda>(v, up).
             Inr (br\<lparr>br_upstream := up, writing_dest := True, pend_dest_write := Some v\<rparr>))
      else Inr br)"

definition ForwardTraffic ::
  "('b, 'v) buffer_ops \<Rightarrow> ('b, 'v) bridge \<Rightarrow> cpp_fault + ('b, 'v) bridge" where
  "ForwardTraffic BO br =
     bindE (start_client_read BO br) (\<lambda>br1.
     bindE (start_client_write BO br1) (\<lambda>br2.
     bindE (start_dest_read BO br2) (\<lambda>br3. start_dest_write BO br3)))"

definition ClientReadHandler ::
  "('b, 'v) buffer_ops \<Rightarrow> ('b, 'v) bridge \<Rightarrow> ec \<Rightarrow> nat \<Rightarrow> cpp_fault + ('b, 'v) bridge" where
  "ClientReadHandler BO br e bytes_read =
     bindE (bo_Commit BO (br_upstream br) bytes_read) (\<lambda>up.
       let br0 = br\<lparr>reading_client := False, br_upstream := up\<rparr>;
           br1 = (if ec_failed e then
                    let br' = br0\<lparr>client_readable := False\<rparr>
                    in if bo_data_size BO up = 0
                       then br'\<lparr>br_shutdowns := br_shutdowns br' @ [DestShutdownSend]\<rparr> else br'
                  else br0)
       in ForwardTraffic BO br1)"

definition ClientWriteHandler ::
  "('b, 'v) buffer_ops \<Rightarrow> ('b, 'v) bridge \<Rightarrow> ec \<Rightarrow> nat \<Rightarrow> cpp_fault + ('b, 'v) bridge" where
  "ClientWriteHandler BO br e bytes_written =
     bindE (bo_Drain BO (br_downstream br) bytes_written) (\<lambda>down.
       let br0 = br\<lparr>writing_client := False, br_downstream := down\<rparr>;
           br1 = (if ec_failed e
                  then br0\<lparr>client_writable := False, br_shutdowns := br_shutdowns br0 @ [DestShutdownReceive]\<rparr>
                  else br0);
           br2 = (if \<not> dest_readable br1 \<and> bo_data_size BO down = 0
                  then br1\<lparr>client_writable := False, br_shutdowns := br_shutdowns br1 @ [ClientShutdownSend]\<rparr>
                  else br1)
       in ForwardTraffic BO br2)"

definition DestReadHandler ::
  "('b, 'v) buffer_ops \<Rightarrow> ('b, 'v) bridge \<Rightarrow> ec \<Rightarrow> nat \<Rightarrow> cpp_fault + ('b, 'v) bridge" where
  "DestReadHandler BO br e bytes_read =
     bindE (bo_Commit BO (br_downstream br) bytes_read) (\<lambda>down.
       let br0 = br\<lparr>reading_dest := False, br_downstream := down\<rparr>;
           br1 = (if ec_failed e then
                    let br' = br0\<lparr>dest_readable := False\<rparr>
                    in if bo_data_size BO down = 0
                       then br'\<lparr>br_shutdowns := br_shutdowns br' @ [ClientShutdownSend]\<rparr> else br'
                  else br0)
       in ForwardTraffic BO br1)"

definition DestWriteHandler ::
  "('b, 'v) buffer_ops \<Rightarrow> ('b, 'v) bridge \<Rightarrow> ec \<Rightarrow> nat \<Rightarrow> cpp_fault + ('b, 'v) bridge" where
  "DestWriteHandler BO br e bytes_written =
     bindE (bo_Drain BO (br_upstream br) bytes_written) (\<lambda>up.
       let br0 = br\<lparr>writing_dest := False, br_upstream := up\<rparr>;
           br1 = (if ec_failed e
                  then br0\<lparr>dest_writable := False, br_shutdowns := br_shutdowns br0 @ [ClientShutdownReceive]\<rparr>
                  else br0);
           br2 = (if \<not> client_readable br1 \<and> bo_data_size BO up = 0
                  then br1\<lparr>dest_writable := False, br_shutdowns := br_shutdowns br1 @ [DestShutdownSend]\<rparr>
                  else br1)
       in ForwardTraffic BO br2)"

definition ConnectionSucceed_then_forward ::
  "('b, 'v) buffer_ops \<Rightarrow> bridge_io \<Rightarrow> ('b, 'v) bridge \<Rightarrow> cpp_fault + ('b, 'v) bridge" where
  "ConnectionSucceed_then_forward BO io br =
     bindE (Socks5State_ConnectionSucceed (ProxyBridge_callbacks io) (br_socks5 br) br) (\<lambda>(ok, s, br1).
       let br2 = br1\<lparr>br_socks5 := s\<rparr>
       in if ok then ForwardTraffic BO br2 else Inr br2)"

definition ConnectHandler ::
  "('b, 'v) buffer_ops \<Rightarrow> bridge_io \<Rightarrow> ('b, 'v) bridge \<Rightarrow> ec \<Rightarrow> cpp_fault + ('b, 'v) bridge" where
  "ConnectHandler BO io br e =
     (if ec_failed e then Inr br else ConnectionSucceed_then_forward BO io br)"

text \<open>
  Cancelling asks boost::asio to complete the pending operations with an error; one that
  has completed already is still delivered as a success. So a cancel only is recorded, and
  the operations stay pending until their completion.
\<close>

definition AcceptInboundConnection ::
  "('b, 'v) buffer_ops \<Rightarrow> bridge_io \<Rightarrow> ('b, 'v) bridge \<Rightarrow> cpp_fault + ('b, 'v) bridge" where
  "AcceptInboundConnection BO io br =
     ConnectionSucceed_then_forward BO io (br\<lparr>br_cancels := br_cancels br @ [CancelClientOps]\<rparr>)"

definition StopWaitingInbound :: "('b, 'v) bridge \<Rightarrow> bool \<Rightarrow> ('b, 'v) bridge" where
  "StopWaitingInbound br client_error =
     br\<lparr>br_cancels := br_cancels br @ [if client_error then CancelAccept else CancelClientOps]\<rparr>"

section \<open>Completions\<close>

datatype bridge_event =
    EvHandshakeRead ec "u8 list"
  | EvConnect ec
  | EvAccept ec
  | EvClientWait bool
  | EvClientRead ec "u8 list"
  | EvClientWrite ec nat
  | EvDestRead ec "u8 list"
  | EvDestWrite ec nat

text \<open>
  What boost::asio may complete: an operation that is pending, a read with no more bytes
  than its vector can take, a write with no more than its vector holds.
\<close>

fun bridge_enabled :: "('b, 'v) buffer_ops \<Rightarrow> ('b, 'v) bridge \<Rightarrow> bridge_event \<Rightarrow> bool" where
  "bridge_enabled BO br (EvHandshakeRead e xs) \<longleftrightarrow>
     (case pend_handshake br of None \<Rightarrow> False | Some (v, k) \<Rightarrow> length xs \<le> k)"
| "bridge_enabled BO br (EvConnect e) \<longleftrightarrow> pend_connect br \<noteq> None"
| "bridge_enabled BO br (EvAccept e) \<longleftrightarrow> pend_accept br"
| "bridge_enabled BO br (EvClientWait cancelled) \<longleftrightarrow> pend_wait br"
| "bridge_enabled BO br (EvClientRead e xs) \<longleftrightarrow>
     (case pend_client_read br of None \<Rightarrow> False | Some (v, k) \<Rightarrow> length xs \<le> k)"
| "bridge_enabled BO br (EvClientWrite e n) \<longleftrightarrow>
     (case pend_client_write br of
        None \<Rightarrow> False
      | Some v \<Rightarrow> (case bo_gather BO (br_downstream br) v of Inl _ \<Rightarrow> True | Inr xs \<Rightarrow> n \<le> length xs))"
| "bridge_enabled BO br (EvDestRead e xs) \<longleftrightarrow>
     (case pend_dest_read br of None \<Rightarrow> False | Some (v, k) \<Rightarrow> length xs \<le> k)"
| "bridge_enabled BO br (EvDestWrite e n) \<longleftrightarrow>
     (case pend_dest_write br of
        None \<Rightarrow> False
      | Some v \<Rightarrow> (case bo_gather BO (br_upstream br) v of Inl _ \<Rightarrow> True | Inr xs \<Rightarrow> n \<le> length xs))"

fun bridge_handle ::
  "('b, 'v) buffer_ops \<Rightarrow> bridge_io \<Rightarrow> ('b, 'v) bridge \<Rightarrow> bridge_event \<Rightarrow> cpp_fault + ('b, 'v) bridge" where
  "bridge_handle BO io br (EvHandshakeRead e xs) =
     (case pend_handshake br of
        None \<Rightarrow> Inr br
      | Some (v, k) \<Rightarrow>
          bindE (bo_scatter BO (br_upstream br) v xs) (\<lambda>up.
            Socks5HandshakeHandler BO io (br\<lparr>br_upstream := up, pend_handshake := None\<rparr>) e (length xs)))"
| "bridge_handle BO io br (EvConnect e) = ConnectHandler BO io (br\<lparr>pend_connect := None\<rparr>) e"
| "bridge_handle BO io br (EvAccept e) =
     (if ec_failed e then Inr (StopWaitingInbound (br\<lparr>pend_accept := False\<rparr>) False)
      else AcceptInboundConnection BO io (br\<lparr>pend_accept := False\<rparr>))"
| "bridge_handle BO io br (EvClientWait cancelled) =
     (let br0 = br\<lparr>pend_wait := False\<rparr>
      in Inr (if \<not> cancelled then StopWaitingInbound br0 True else br0))"
| "bridge_handle BO io br (EvClientRead e xs) =
     (case pend_client_read br of
        None \<Rightarrow> Inr br
      | Some (v, k) \<Rightarrow>
          bindE (bo_scatter BO (br_upstream br) v xs) (\<lambda>up.
            ClientReadHandler BO (br\<lparr>br_upstream := up, pend_client_read := None\<rparr>) e (length xs)))"
| "bridge_handle BO io br (EvClientWrite e n) =
     (case pend_client_write br of
        None \<Rightarrow> Inr br
      | Some v \<Rightarrow>
          bindE (bo_gather BO (br_downstream br) v) (\<lambda>xs.
            ClientWriteHandler BO
              (br\<lparr>pend_client_write := None, br_to_client := br_to_client br @ take n xs\<rparr>) e n))"
| "bridge_handle BO io br (EvDestRead e xs) =
     (case pend_dest_read br of
        None \<Rightarrow> Inr br
      | Some (v, k) \<Rightarrow>
          bindE (bo_scatter BO (br_downstream br) v xs) (\<lambda>down.
            DestReadHandler BO (br\<lparr>br_downstream := down, pend_dest_read := None\<rparr>) e (length xs)))"
| "bridge_handle BO io br (EvDestWrite e n) =
     (case pend_dest_write br of
        None \<Rightarrow> Inr br
      | Some v \<Rightarrow>
          bindE (bo_gather BO (br_upstream br) v) (\<lambda>xs.
            DestWriteHandler BO
              (br\<lparr>pend_dest_write := None, br_to_dest := br_to_dest br @ take n xs\<rparr>) e n))"

inductive bridge_steps ::
  "('b, 'v) buffer_ops \<Rightarrow> bridge_io \<Rightarrow> ('b, 'v) bridge \<Rightarrow> bridge_event list \<Rightarrow> ('b, 'v) bridge \<Rightarrow> bool"
  for BO :: "('b, 'v) buffer_ops" and io :: bridge_io where
  steps_Nil: "bridge_steps BO io br [] br"
| steps_Cons: "bridge_enabled BO br e \<Longrightarrow> bridge_handle BO io br e = Inr br' \<Longrightarrow>
     bridge_steps BO io br' es br'' \<Longrightarrow> bridge_steps BO io br (e # es) br''"

inductive_cases bridge_steps_NilE: "bridge_steps BO io br [] br'"
inductive_cases bridge_steps_ConsE: "bridge_steps BO io br (e # es) br'"

text \<open>The states of a session: what its events can lead to once the handshake has begun.\<close>

inductive bridge_reachable ::
  "('b, 'v) buffer_ops \<Rightarrow> bridge_io \<Rightarrow> ('b, 'v) bridge \<Rightarrow> bool"
  for BO :: "('b, 'v) buffer_ops" and io :: bridge_io where
  reach_start: "PerformSocks5Handshake BO (ProxyBridge BO) = Inr br \<Longrightarrow> bridge_reachable BO io br"
| reach_step: "bridge_reachable BO io br \<Longrightarrow> bridge_enabled BO br e \<Longrightarrow>
     bridge_handle BO io br e = Inr br' \<Longrightarrow> bridge_reachable BO io br'"

text \<open>The bytes the events bring in from each side.\<close>

fun client_input :: "bridge_event \<Rightarrow> u8 list" where
  "client_input (EvClientRead e xs) = xs"
| "client_input _ = []"

fun dest_input :: "bridge_event \<Rightarrow> u8 list" where
  "dest_input (EvDestRead e xs) = xs"
| "dest_input _ = []"

end
