(* ===== verification/Proxy_Bridge_Correct.thy ===== *)
theory Proxy_Bridge_Correct
  imports Proxy_Bridge
begin

text \<open>
  Correctness of the bridge: no assertion of its buffers ever trips, every byte is
  forwarded unchanged and in order, and the memory it buffers is bounded, whatever
  completions boost::asio delivers in whatever order.
\<close>

section \<open>One direction\<close>

text \<open>
  A buffer with the read that fills it and the write that empties it, each pending or
  not: the read's vector is a prefix of the spare cells, the write's one of the data.
\<close>

context byte_buffer begin

definition rd_ok :: "'b \<Rightarrow> ('v \<times> nat) option \<Rightarrow> bool" where
  "rd_ok b r \<longleftrightarrow>
     (case r of
        None \<Rightarrow> \<not> reserved b
      | Some (v, k) \<Rightarrow> reserved b \<and> solid v \<and> region v = take k (spare b) \<and> 0 < k \<and> k \<le> length (spare b))"

definition wr_ok :: "'b \<Rightarrow> 'v option \<Rightarrow> bool" where
  "wr_ok b w \<longleftrightarrow>
     (case w of
        None \<Rightarrow> \<not> peeked b
      | Some v \<Rightarrow> peeked b \<and> solid v \<and> (\<exists>j. j \<le> length (data b) \<and> region v = take j (data b)))"

definition pipe_ok :: "'b \<Rightarrow> ('v \<times> nat) option \<Rightarrow> 'v option \<Rightarrow> bool" where
  "pipe_ok b r w \<longleftrightarrow>
     good b \<and> rd_ok b r \<and> wr_ok b w \<and>
     length (data b) + (case r of None \<Rightarrow> 0 | Some (v, k) \<Rightarrow> k) < kMaxBufferSize + kReadSize + slack"

lemma length_bytes [simp]: "length (bytes b) = length (data b)"
  by (simp add: bytes_def)

lemma pipe_size: "pipe_ok b r w \<Longrightarrow> bo_data_size BO b = length (data b)"
  by (simp add: pipe_ok_def size_data)

lemma pipe_start_read:
  assumes p: "pipe_ok b None w" and n: "0 < n" "length (data b) + n \<le> kMaxBufferSize + kReadSize"
  obtains v k b' where "bo_ReserveAtLeast BO b n = Inr (v, k, b')" "pipe_ok b' (Some (v, k)) w"
    "bytes b' = bytes b"
proof -
  have g: "good b" "\<not> reserved b" using p by (simp_all add: pipe_ok_def rd_ok_def)
  obtain v k b' where r: "bo_ReserveAtLeast BO b n = Inr (v, k, b')" "good b'" "reserved b'"
    "peeked b' = peeked b" "data b' = data b" "\<forall>x \<in> set (data b). content b' x = content b x"
    "n \<le> k" "0 < n \<longrightarrow> k < n + slack" "k \<le> length (spare b')"
    "region v = take k (spare b')" "solid v"
    using reserve [OF g, of n] by blast
  have "wr_ok b' w" using p r(4,5) by (cases w) (simp_all add: pipe_ok_def wr_ok_def)
  moreover have "rd_ok b' (Some (v, k))" using r n by (simp add: rd_ok_def)
  ultimately have "pipe_ok b' (Some (v, k)) w"
    using r n by (simp add: pipe_ok_def)
  moreover have "bytes b' = bytes b" using r(5,6) by (simp add: bytes_def)
  ultimately show ?thesis using that r(1) by blast
qed

lemma pipe_start_write:
  assumes p: "pipe_ok b r None"
  obtains v b' where "bo_Peek BO b = Inr (v, b')" "pipe_ok b' r (Some v)" "bytes b' = bytes b"
proof -
  have g: "good b" "\<not> peeked b" using p by (simp_all add: pipe_ok_def wr_ok_def)
  obtain v b' where k: "bo_Peek BO b = Inr (v, b')" "good b'" "peeked b'" "reserved b' = reserved b"
    "data b' = data b" "spare b' = spare b" "content b' = content b" "region v = data b" "solid v"
    using peek [OF g] by blast
  have "rd_ok b' r" using p k(4,6) by (auto simp: pipe_ok_def rd_ok_def split: option.splits)
  moreover have "wr_ok b' (Some v)" using k by (auto simp: wr_ok_def intro!: exI [of _ "length (data b)"])
  ultimately have "pipe_ok b' r (Some v)" using p k(2,5) by (simp add: pipe_ok_def)
  then show ?thesis using that k by (simp add: bytes_def)
qed

lemma pipe_end_read:
  assumes p: "pipe_ok b (Some (v, k)) w" and xs: "length xs \<le> k"
  obtains b1 b2 where "bo_scatter BO b v xs = Inr b1" "bo_Commit BO b1 (length xs) = Inr b2"
    "pipe_ok b2 None w" "bytes b2 = bytes b @ xs"
proof -
  have g: "good b" "reserved b" "solid v" "region v = take k (spare b)" "0 < k" "k \<le> length (spare b)"
    using p by (simp_all add: pipe_ok_def rd_ok_def)
  have len: "length xs \<le> length (region v)" using g(4,6) xs by simp
  obtain b1 where b1: "bo_scatter BO b v xs = Inr b1" "good b1" "reserved b1 = reserved b"
    "peeked b1 = peeked b" "data b1 = data b" "spare b1 = spare b"
    "map (content b1) (take (length xs) (spare b)) = xs" "\<forall>x \<in> set (data b). content b1 x = content b x"
    using scatter_write [OF g(1,3,4) len] by blast
  have "spare b1 \<noteq> []" "length xs \<le> length (spare b1)" "reserved b1"
    using b1(3,6) g xs by auto
  then obtain b2 where b2: "bo_Commit BO b1 (length xs) = Inr b2" "good b2" "\<not> reserved b2"
    "peeked b2 = peeked b1" "data b2 = data b1 @ take (length xs) (spare b1)" "content b2 = content b1"
    using commit [OF b1(2)] by blast
  have "wr_ok b2 w"
  proof (cases w)
    case None
    then show ?thesis using p b1(4) b2(4) by (simp add: pipe_ok_def wr_ok_def)
  next
    case (Some u)
    then obtain j where "j \<le> length (data b)" "region u = take j (data b)" "peeked b" "solid u"
      using p by (auto simp: pipe_ok_def wr_ok_def)
    then show ?thesis
      using Some b1(4,5) b2(4,5) by (auto simp: wr_ok_def intro!: exI [of _ j])
  qed
  moreover have "rd_ok b2 None" using b2(3) by (simp add: rd_ok_def)
  moreover have "length (data b2) = length (data b) + length xs"
    using b2(5) b1(5,6) g(6) xs by simp
  ultimately have "pipe_ok b2 None w" using p xs b2(2) by (simp add: pipe_ok_def)
  moreover have "bytes b2 = bytes b @ xs"
    using b2(5,6) b1(5-8) by (simp add: bytes_def)
  ultimately show ?thesis using that b1(1) b2(1) by blast
qed

lemma pipe_end_write:
  assumes p: "pipe_ok b r (Some v)"
  obtains xs where "bo_gather BO b v = Inr xs"
    "\<forall>n \<le> length xs. \<exists>b'. bo_Drain BO b n = Inr b' \<and> pipe_ok b' r None \<and> bytes b = take n xs @ bytes b'"
proof -
  obtain j where g: "good b" "peeked b" "solid v" "j \<le> length (data b)" "region v = take j (data b)"
    using p by (auto simp: pipe_ok_def wr_ok_def)
  have xs: "bo_gather BO b v = Inr (take j (bytes b))"
    using gather_read [OF g(1,3,5)] g(5) by (simp add: bytes_def take_map)
  have "\<exists>b'. bo_Drain BO b n = Inr b' \<and> pipe_ok b' r None \<and> bytes b = take n (take j (bytes b)) @ bytes b'"
    if "n \<le> length (take j (bytes b))" for n
  proof -
    have n: "n \<le> j" "n \<le> length (data b)" using that by simp_all
    obtain b' where b': "bo_Drain BO b n = Inr b'" "good b'" "\<not> peeked b'" "reserved b' = reserved b"
      "data b' = drop n (data b)" "\<forall>x \<in> set (data b'). content b' x = content b x"
      "reserved b \<longrightarrow> spare b' = spare b"
      using drain [OF g(1,2) n(2)] by blast
    have "rd_ok b' r" using p b'(4,7) by (auto simp: pipe_ok_def rd_ok_def split: option.splits)
    moreover have "wr_ok b' None" using b'(3) by (simp add: wr_ok_def)
    moreover have "length (data b') \<le> length (data b)" using b'(5) by simp
    ultimately have "pipe_ok b' r None" using p b'(2) unfolding pipe_ok_def by linarith
    moreover have "bytes b' = drop n (bytes b)"
      using b'(5,6) map_content_drop [of n "data b" "content b'" "content b"] by (simp add: bytes_def)
    ultimately show ?thesis using b'(1) n by (simp add: min_def)
  qed
  then show ?thesis using that xs by blast
qed

section \<open>Forwarding\<close>

definition fwd_inv :: "('b, 'v) bridge \<Rightarrow> bool" where
  "fwd_inv br \<longleftrightarrow>
     pend_handshake br = None \<and>
     pipe_ok (br_upstream br) (pend_client_read br) (pend_dest_write br) \<and>
     pipe_ok (br_downstream br) (pend_dest_read br) (pend_client_write br) \<and>
     (pend_client_read br = None \<longleftrightarrow> \<not> reading_client br) \<and>
     (pend_dest_write br = None \<longleftrightarrow> \<not> writing_dest br) \<and>
     (pend_dest_read br = None \<longleftrightarrow> \<not> reading_dest br) \<and>
     (pend_client_write br = None \<longleftrightarrow> \<not> writing_client br)"

text \<open>Nothing but the scheduling of input and output has changed.\<close>

definition same_traffic :: "('b, 'v) bridge \<Rightarrow> ('b, 'v) bridge \<Rightarrow> bool" where
  "same_traffic br br' \<longleftrightarrow>
     bytes (br_upstream br') = bytes (br_upstream br) \<and>
     bytes (br_downstream br') = bytes (br_downstream br) \<and>
     br_to_dest br' = br_to_dest br \<and> br_to_client br' = br_to_client br \<and>
     br_socks5 br' = br_socks5 br \<and> pend_connect br' = pend_connect br \<and>
     pend_accept br' = pend_accept br \<and>
     client_readable br' = client_readable br \<and> client_writable br' = client_writable br \<and>
     dest_readable br' = dest_readable br \<and> dest_writable br' = dest_writable br \<and>
     (reading_client br \<longrightarrow> reading_client br') \<and> (writing_client br \<longrightarrow> writing_client br') \<and>
     (reading_dest br \<longrightarrow> reading_dest br') \<and> (writing_dest br \<longrightarrow> writing_dest br')"

lemma same_traffic_trans: "same_traffic a b \<Longrightarrow> same_traffic b c \<Longrightarrow> same_traffic a c"
  by (simp add: same_traffic_def)

text \<open>Whatever can be read or written is being read or written.\<close>

definition cr_driven :: "('b, 'v) bridge \<Rightarrow> bool" where
  "cr_driven br \<longleftrightarrow> (client_readable br \<and> dest_writable br \<and>
     length (bytes (br_upstream br)) < kMaxBufferSize \<longrightarrow> reading_client br)"

definition cw_driven :: "('b, 'v) bridge \<Rightarrow> bool" where
  "cw_driven br \<longleftrightarrow> (client_writable br \<and> bytes (br_downstream br) \<noteq> [] \<longrightarrow> writing_client br)"

definition dr_driven :: "('b, 'v) bridge \<Rightarrow> bool" where
  "dr_driven br \<longleftrightarrow> (dest_readable br \<and> client_writable br \<and>
     length (bytes (br_downstream br)) < kMaxBufferSize \<longrightarrow> reading_dest br)"

definition dw_driven :: "('b, 'v) bridge \<Rightarrow> bool" where
  "dw_driven br \<longleftrightarrow> (dest_writable br \<and> bytes (br_upstream br) \<noteq> [] \<longrightarrow> writing_dest br)"

definition driven :: "('b, 'v) bridge \<Rightarrow> bool" where
  "driven br \<longleftrightarrow> cr_driven br \<and> cw_driven br \<and> dr_driven br \<and> dw_driven br"

lemmas driven_defs = cr_driven_def cw_driven_def dr_driven_def dw_driven_def

lemma driven_mono:
  assumes "same_traffic br br'"
  shows "cr_driven br \<Longrightarrow> cr_driven br'" "cw_driven br \<Longrightarrow> cw_driven br'" "dr_driven br \<Longrightarrow> dr_driven br'"
  using assms by (auto simp: driven_defs same_traffic_def)

lemma bytes_Nil_iff: "bytes b = [] \<longleftrightarrow> length (data b) = 0"
  by (simp add: bytes_def)

lemma same_traffic_refl [simp]: "same_traffic a a"
  by (simp add: same_traffic_def)

lemma start_ok:
  assumes "fwd_inv br"
  shows "\<exists>br'. start_client_read BO br = Inr br' \<and> fwd_inv br' \<and> same_traffic br br' \<and> cr_driven br'"
    and "\<exists>br'. start_client_write BO br = Inr br' \<and> fwd_inv br' \<and> same_traffic br br' \<and> cw_driven br'"
    and "\<exists>br'. start_dest_read BO br = Inr br' \<and> fwd_inv br' \<and> same_traffic br br' \<and> dr_driven br'"
    and "\<exists>br'. start_dest_write BO br = Inr br' \<and> fwd_inv br' \<and> same_traffic br br' \<and> dw_driven br'"
proof -
  have up: "pipe_ok (br_upstream br) (pend_client_read br) (pend_dest_write br)"
    and down: "pipe_ok (br_downstream br) (pend_dest_read br) (pend_client_write br)"
    using assms by (simp_all add: fwd_inv_def)
  have k: "0 < kReadSize" by (simp add: kReadSize_def)
  show "\<exists>br'. start_client_read BO br = Inr br' \<and> fwd_inv br' \<and> same_traffic br br' \<and> cr_driven br'"
  proof (cases "\<not> reading_client br \<and> client_readable br \<and> dest_writable br \<and>
      bo_data_size BO (br_upstream br) < kMaxBufferSize")
    case True
    then have none: "pend_client_read br = None" using assms by (simp add: fwd_inv_def)
    have ok: "pipe_ok (br_upstream br) None (pend_dest_write br)"
      using up none by simp
    have room: "length (data (br_upstream br)) + kReadSize \<le> kMaxBufferSize + kReadSize"
      using True pipe_size [OF up] by simp
    obtain v m b' where "bo_ReserveAtLeast BO (br_upstream br) kReadSize = Inr (v, m, b')"
      "pipe_ok b' (Some (v, m)) (pend_dest_write br)" "bytes b' = bytes (br_upstream br)"
      by (rule pipe_start_read [OF ok k room])
    then show ?thesis
      using True assms by (simp add: start_client_read_def fwd_inv_def same_traffic_def cr_driven_def)
  qed (use assms pipe_size [OF up] in \<open>auto simp: start_client_read_def cr_driven_def bytes_Nil_iff\<close>)
  show "\<exists>br'. start_dest_read BO br = Inr br' \<and> fwd_inv br' \<and> same_traffic br br' \<and> dr_driven br'"
  proof (cases "\<not> reading_dest br \<and> dest_readable br \<and> client_writable br \<and>
      bo_data_size BO (br_downstream br) < kMaxBufferSize")
    case True
    then have none: "pend_dest_read br = None" using assms by (simp add: fwd_inv_def)
    have ok: "pipe_ok (br_downstream br) None (pend_client_write br)"
      using down none by simp
    have room: "length (data (br_downstream br)) + kReadSize \<le> kMaxBufferSize + kReadSize"
      using True pipe_size [OF down] by simp
    obtain v m b' where "bo_ReserveAtLeast BO (br_downstream br) kReadSize = Inr (v, m, b')"
      "pipe_ok b' (Some (v, m)) (pend_client_write br)" "bytes b' = bytes (br_downstream br)"
      by (rule pipe_start_read [OF ok k room])
    then show ?thesis
      using True assms by (simp add: start_dest_read_def fwd_inv_def same_traffic_def dr_driven_def)
  qed (use assms pipe_size [OF down] in \<open>auto simp: start_dest_read_def dr_driven_def bytes_Nil_iff\<close>)
  show "\<exists>br'. start_client_write BO br = Inr br' \<and> fwd_inv br' \<and> same_traffic br br' \<and> cw_driven br'"
  proof (cases "\<not> writing_client br \<and> client_writable br \<and> bo_data_size BO (br_downstream br) > 0")
    case True
    then have "pend_client_write br = None" using assms by (simp add: fwd_inv_def)
    then have ok: "pipe_ok (br_downstream br) (pend_dest_read br) None" using down by simp
    obtain v b' where "bo_Peek BO (br_downstream br) = Inr (v, b')"
      "pipe_ok b' (pend_dest_read br) (Some v)" "bytes b' = bytes (br_downstream br)"
      by (rule pipe_start_write [OF ok])
    then show ?thesis
      using True assms by (simp add: start_client_write_def fwd_inv_def same_traffic_def cw_driven_def)
  qed (use assms pipe_size [OF down] in \<open>auto simp: start_client_write_def cw_driven_def bytes_Nil_iff\<close>)
  show "\<exists>br'. start_dest_write BO br = Inr br' \<and> fwd_inv br' \<and> same_traffic br br' \<and> dw_driven br'"
  proof (cases "\<not> writing_dest br \<and> dest_writable br \<and> bo_data_size BO (br_upstream br) > 0")
    case True
    then have "pend_dest_write br = None" using assms by (simp add: fwd_inv_def)
    then have ok: "pipe_ok (br_upstream br) (pend_client_read br) None" using up by simp
    obtain v b' where "bo_Peek BO (br_upstream br) = Inr (v, b')"
      "pipe_ok b' (pend_client_read br) (Some v)" "bytes b' = bytes (br_upstream br)"
      by (rule pipe_start_write [OF ok])
    then show ?thesis
      using True assms by (simp add: start_dest_write_def fwd_inv_def same_traffic_def dw_driven_def)
  qed (use assms pipe_size [OF up] in \<open>auto simp: start_dest_write_def dw_driven_def bytes_Nil_iff\<close>)
qed

lemma forward_ok:
  assumes "fwd_inv br"
  shows "\<exists>br'. ForwardTraffic BO br = Inr br' \<and> fwd_inv br' \<and> same_traffic br br' \<and> driven br'"
proof -
  obtain br1 where 1: "start_client_read BO br = Inr br1" "fwd_inv br1" "same_traffic br br1" "cr_driven br1"
    using start_ok(1) [OF assms] by blast
  obtain br2 where 2: "start_client_write BO br1 = Inr br2" "fwd_inv br2" "same_traffic br1 br2" "cw_driven br2"
    using start_ok(2) [OF 1(2)] by blast
  obtain br3 where 3: "start_dest_read BO br2 = Inr br3" "fwd_inv br3" "same_traffic br2 br3" "dr_driven br3"
    using start_ok(3) [OF 2(2)] by blast
  obtain br4 where 4: "start_dest_write BO br3 = Inr br4" "fwd_inv br4" "same_traffic br3 br4" "dw_driven br4"
    using start_ok(4) [OF 3(2)] by blast
  note t34 = same_traffic_trans [OF 3(3) 4(3)]
  note t24 = same_traffic_trans [OF 2(3) t34]
  have "driven br4"
    using driven_mono(1) [OF t24 1(4)] driven_mono(2) [OF t34 2(4)] driven_mono(3) [OF 4(3) 3(4)] 4(4)
    by (simp add: driven_def)
  then show ?thesis
    using 1(1) 2(1) 3(1) 4(1,2) same_traffic_trans [OF 1(3) t24] by (simp add: ForwardTraffic_def)
qed

lemma fwd_inv_fields [simp]:
  "fwd_inv (br\<lparr>br_shutdowns := x\<rparr>) = fwd_inv br" "fwd_inv (br\<lparr>br_cancels := y\<rparr>) = fwd_inv br"
  "fwd_inv (br\<lparr>client_readable := a\<rparr>) = fwd_inv br" "fwd_inv (br\<lparr>client_writable := a\<rparr>) = fwd_inv br"
  "fwd_inv (br\<lparr>dest_readable := a\<rparr>) = fwd_inv br" "fwd_inv (br\<lparr>dest_writable := a\<rparr>) = fwd_inv br"
  "fwd_inv (br\<lparr>br_to_dest := z\<rparr>) = fwd_inv br" "fwd_inv (br\<lparr>br_to_client := z\<rparr>) = fwd_inv br"
  "fwd_inv (br\<lparr>br_socks5 := s\<rparr>) = fwd_inv br" "fwd_inv (br\<lparr>br_responses := rs\<rparr>) = fwd_inv br"
  "fwd_inv (br\<lparr>pend_connect := c\<rparr>) = fwd_inv br" "fwd_inv (br\<lparr>pend_accept := a\<rparr>) = fwd_inv br"
  "fwd_inv (br\<lparr>pend_wait := a\<rparr>) = fwd_inv br"
  by (simp_all add: fwd_inv_def)

text \<open>What an event has done to the two streams.\<close>

definition traffic_step :: "('b, 'v) bridge \<Rightarrow> bridge_event \<Rightarrow> ('b, 'v) bridge \<Rightarrow> bool" where
  "traffic_step br e br' \<longleftrightarrow>
     br_to_dest br' @ bytes (br_upstream br') =
       br_to_dest br @ bytes (br_upstream br) @ client_input e \<and>
     br_to_client br' @ bytes (br_downstream br') =
       br_to_client br @ bytes (br_downstream br) @ dest_input e \<and>
     br_socks5 br' = br_socks5 br \<and> pend_connect br' = pend_connect br \<and> pend_accept br' = pend_accept br"

lemma forward_then:
  assumes "fwd_inv br1" "traffic_step br e br1"
  shows "\<exists>br'. ForwardTraffic BO br1 = Inr br' \<and> fwd_inv br' \<and> driven br' \<and> traffic_step br e br'"
proof -
  obtain br' where "ForwardTraffic BO br1 = Inr br'" "fwd_inv br'" "same_traffic br1 br'" "driven br'"
    using forward_ok [OF assms(1)] by blast
  then show ?thesis using assms(2) by (auto simp: traffic_step_def same_traffic_def)
qed

lemma client_read_ok:
  assumes inv: "fwd_inv br" and en: "bridge_enabled BO br (EvClientRead e xs)"
  shows "\<exists>br'. bridge_handle BO io br (EvClientRead e xs) = Inr br' \<and> fwd_inv br' \<and> driven br' \<and>
           traffic_step br (EvClientRead e xs) br'"
proof -
  obtain v k where p: "pend_client_read br = Some (v, k)" "length xs \<le> k"
    using en by (auto split: option.splits)
  have ok: "pipe_ok (br_upstream br) (Some (v, k)) (pend_dest_write br)"
    using inv p(1) by (simp add: fwd_inv_def)
  obtain b1 b2 where b: "bo_scatter BO (br_upstream br) v xs = Inr b1" "bo_Commit BO b1 (length xs) = Inr b2"
    "pipe_ok b2 None (pend_dest_write br)" "bytes b2 = bytes (br_upstream br) @ xs"
    by (rule pipe_end_read [OF ok p(2)])
  let ?br = "br\<lparr>pend_client_read := None, reading_client := False, br_upstream := b2\<rparr>"
  have inv': "fwd_inv ?br" using inv b(3) by (simp add: fwd_inv_def)
  define br1 where "br1 = (if ec_failed e then
      if bo_data_size BO b2 = 0
      then ?br\<lparr>client_readable := False, br_shutdowns := br_shutdowns br @ [DestShutdownSend]\<rparr>
      else ?br\<lparr>client_readable := False\<rparr> else ?br)"
  have "fwd_inv br1" using inv' by (simp add: br1_def)
  moreover have "traffic_step br (EvClientRead e xs) br1" using b(4) by (simp add: traffic_step_def br1_def)
  moreover have "bridge_handle BO io br (EvClientRead e xs) = ForwardTraffic BO br1"
    using p(1) b(1,2) by (simp add: ClientReadHandler_def br1_def Let_def)
  ultimately show ?thesis using forward_then by metis
qed

lemma dest_read_ok:
  assumes inv: "fwd_inv br" and en: "bridge_enabled BO br (EvDestRead e xs)"
  shows "\<exists>br'. bridge_handle BO io br (EvDestRead e xs) = Inr br' \<and> fwd_inv br' \<and> driven br' \<and>
           traffic_step br (EvDestRead e xs) br'"
proof -
  obtain v k where p: "pend_dest_read br = Some (v, k)" "length xs \<le> k"
    using en by (auto split: option.splits)
  have ok: "pipe_ok (br_downstream br) (Some (v, k)) (pend_client_write br)"
    using inv p(1) by (simp add: fwd_inv_def)
  obtain b1 b2 where b: "bo_scatter BO (br_downstream br) v xs = Inr b1" "bo_Commit BO b1 (length xs) = Inr b2"
    "pipe_ok b2 None (pend_client_write br)" "bytes b2 = bytes (br_downstream br) @ xs"
    by (rule pipe_end_read [OF ok p(2)])
  let ?br = "br\<lparr>pend_dest_read := None, reading_dest := False, br_downstream := b2\<rparr>"
  have inv': "fwd_inv ?br" using inv b(3) by (simp add: fwd_inv_def)
  define br1 where "br1 = (if ec_failed e then
      if bo_data_size BO b2 = 0
      then ?br\<lparr>dest_readable := False, br_shutdowns := br_shutdowns br @ [ClientShutdownSend]\<rparr>
      else ?br\<lparr>dest_readable := False\<rparr> else ?br)"
  have "fwd_inv br1" using inv' by (simp add: br1_def)
  moreover have "traffic_step br (EvDestRead e xs) br1" using b(4) by (simp add: traffic_step_def br1_def)
  moreover have "bridge_handle BO io br (EvDestRead e xs) = ForwardTraffic BO br1"
    using p(1) b(1,2) by (simp add: DestReadHandler_def br1_def Let_def)
  ultimately show ?thesis using forward_then by metis
qed

lemma client_write_ok:
  assumes inv: "fwd_inv br" and en: "bridge_enabled BO br (EvClientWrite e n)"
  shows "\<exists>br'. bridge_handle BO io br (EvClientWrite e n) = Inr br' \<and> fwd_inv br' \<and> driven br' \<and>
           traffic_step br (EvClientWrite e n) br'"
proof -
  obtain v where p: "pend_client_write br = Some v" using en by (auto split: option.splits)
  have ok: "pipe_ok (br_downstream br) (pend_dest_read br) (Some v)"
    using inv p(1) by (simp add: fwd_inv_def)
  obtain xs where xs: "bo_gather BO (br_downstream br) v = Inr xs" and
    dr: "\<forall>n \<le> length xs. \<exists>b'. bo_Drain BO (br_downstream br) n = Inr b' \<and>
       pipe_ok b' (pend_dest_read br) None \<and> bytes (br_downstream br) = take n xs @ bytes b'"
    by (rule pipe_end_write [OF ok])
  have "n \<le> length xs" using en p xs by simp
  then obtain b' where b': "bo_Drain BO (br_downstream br) n = Inr b'"
    "pipe_ok b' (pend_dest_read br) None" "bytes (br_downstream br) = take n xs @ bytes b'"
    using dr by blast
  let ?br = "br\<lparr>pend_client_write := None, br_to_client := br_to_client br @ take n xs,
    writing_client := False, br_downstream := b'\<rparr>"
  have inv': "fwd_inv ?br" using inv b'(2) by (simp add: fwd_inv_def)
  define br1 where "br1 = (if ec_failed e
    then ?br\<lparr>client_writable := False, br_shutdowns := br_shutdowns br @ [DestShutdownReceive]\<rparr> else ?br)"
  define br2 where "br2 = (if \<not> dest_readable br1 \<and> bo_data_size BO b' = 0
    then br1\<lparr>client_writable := False, br_shutdowns := br_shutdowns br1 @ [ClientShutdownSend]\<rparr> else br1)"
  have "fwd_inv br2" using inv' by (simp add: br1_def br2_def)
  moreover have "traffic_step br (EvClientWrite e n) br2"
    using b'(3) by (simp add: traffic_step_def br1_def br2_def)
  moreover have "bridge_handle BO io br (EvClientWrite e n) = ForwardTraffic BO br2"
    using p xs b'(1) by (simp add: ClientWriteHandler_def br1_def br2_def Let_def)
  ultimately show ?thesis using forward_then by metis
qed

lemma dest_write_ok:
  assumes inv: "fwd_inv br" and en: "bridge_enabled BO br (EvDestWrite e n)"
  shows "\<exists>br'. bridge_handle BO io br (EvDestWrite e n) = Inr br' \<and> fwd_inv br' \<and> driven br' \<and>
           traffic_step br (EvDestWrite e n) br'"
proof -
  obtain v where p: "pend_dest_write br = Some v" using en by (auto split: option.splits)
  have ok: "pipe_ok (br_upstream br) (pend_client_read br) (Some v)"
    using inv p(1) by (simp add: fwd_inv_def)
  obtain xs where xs: "bo_gather BO (br_upstream br) v = Inr xs" and
    dr: "\<forall>n \<le> length xs. \<exists>b'. bo_Drain BO (br_upstream br) n = Inr b' \<and>
       pipe_ok b' (pend_client_read br) None \<and> bytes (br_upstream br) = take n xs @ bytes b'"
    by (rule pipe_end_write [OF ok])
  have "n \<le> length xs" using en p xs by simp
  then obtain b' where b': "bo_Drain BO (br_upstream br) n = Inr b'"
    "pipe_ok b' (pend_client_read br) None" "bytes (br_upstream br) = take n xs @ bytes b'"
    using dr by blast
  let ?br = "br\<lparr>pend_dest_write := None, br_to_dest := br_to_dest br @ take n xs,
    writing_dest := False, br_upstream := b'\<rparr>"
  have inv': "fwd_inv ?br" using inv b'(2) by (simp add: fwd_inv_def)
  define br1 where "br1 = (if ec_failed e
    then ?br\<lparr>dest_writable := False, br_shutdowns := br_shutdowns br @ [ClientShutdownReceive]\<rparr> else ?br)"
  define br2 where "br2 = (if \<not> client_readable br1 \<and> bo_data_size BO b' = 0
    then br1\<lparr>dest_writable := False, br_shutdowns := br_shutdowns br1 @ [DestShutdownSend]\<rparr> else br1)"
  have "fwd_inv br2" using inv' by (simp add: br1_def br2_def)
  moreover have "traffic_step br (EvDestWrite e n) br2"
    using b'(3) by (simp add: traffic_step_def br1_def br2_def)
  moreover have "bridge_handle BO io br (EvDestWrite e n) = ForwardTraffic BO br2"
    using p xs b'(1) by (simp add: DestWriteHandler_def br1_def br2_def Let_def)
  ultimately show ?thesis using forward_then by metis
qed

end

end
