(* ===== verification/Proxy_Bridge_Session.thy ===== *)
theory Proxy_Bridge_Session
  imports Proxy_Bridge_Correct
begin

text \<open>
  A whole session of the bridge, from the first byte of the handshake to the end of the
  forwarded traffic: the invariant of its reachable states and what follows from it.
\<close>

context byte_buffer begin

section \<open>The handshake of a session\<close>

text \<open>
  What the callbacks may do to the bridge before the state machine is in \<open>s'\<close>: a connect is
  only pending in \<open>kWaitConnect\<close>, an accept also after a failed reply.
\<close>

definition hs_effect :: "('b, 'v) bridge \<Rightarrow> socks5 \<Rightarrow> ('b, 'v) bridge \<Rightarrow> bool" where
  "hs_effect br s' br' \<longleftrightarrow>
     (\<exists>rs c a w. br' = br\<lparr>br_responses := rs, pend_connect := c, pend_accept := a, pend_wait := w\<rparr>) \<and>
     (pend_connect br' \<noteq> None \<longrightarrow> s5_state s' = kWaitConnect) \<and>
     (pend_accept br' \<longrightarrow> s5_state s' = kWaitAccept \<or> s5_state s' = kFail) \<and>
     s5_state s' \<noteq> kSuccess \<and> s5_state s' \<noteq> kResponse"

lemma hs_effectI:
  assumes "br' = br\<lparr>br_responses := rs, pend_connect := c, pend_accept := a, pend_wait := w\<rparr>"
    "c \<noteq> None \<longrightarrow> s5_state s' = kWaitConnect" "a \<longrightarrow> s5_state s' = kWaitAccept \<or> s5_state s' = kFail"
    "s5_state s' \<noteq> kSuccess" "s5_state s' \<noteq> kResponse"
  shows "hs_effect br s' br'"
  unfolding hs_effect_def
  by (intro conjI exI, rule assms(1)) (use assms in simp_all)

lemma hs_effect_trans:
  assumes "hs_effect br s br'" "hs_effect br' s' br''"
  shows "hs_effect br s' br''"
proof -
  obtain rs c a w where "br' = br\<lparr>br_responses := rs, pend_connect := c, pend_accept := a, pend_wait := w\<rparr>"
    using assms(1) unfolding hs_effect_def by blast
  moreover obtain rs' c' a' w' where
    "br'' = br'\<lparr>br_responses := rs', pend_connect := c', pend_accept := a', pend_wait := w'\<rparr>"
    using assms(2) unfolding hs_effect_def by blast
  ultimately have "br'' = br\<lparr>br_responses := rs', pend_connect := c', pend_accept := a', pend_wait := w'\<rparr>"
    by simp
  then show ?thesis using assms(2) unfolding hs_effect_def by blast
qed

definition hs_step :: "bridge_io \<Rightarrow> socks5 \<Rightarrow> 'b \<Rightarrow> ('b, 'v) bridge \<Rightarrow> bool" where
  "hs_step io s b br \<longleftrightarrow>
     (\<exists>p s' b' br' n. Socks5State_Proceed BO (ProxyBridge_callbacks io) s b br = Inr (p, s', b', br') \<and>
        read_from b b' n \<and> s5_inv s' \<and> hs_effect br s' br' \<and>
        (p \<longrightarrow> s5_reading s' \<and> s5_rank (s5_state s') < s5_rank (s5_state s)))"

lemma hs_stepI:
  assumes "Socks5State_Proceed BO (ProxyBridge_callbacks io) s b br = Inr (p, s', b', br')"
    "read_from b b' n" "s5_inv s'" "hs_effect br s' br'"
    "p \<longrightarrow> s5_reading s' \<and> s5_rank (s5_state s') < s5_rank (s5_state s)"
  shows "hs_step io s b br"
  unfolding hs_step_def using assms by blast

lemma hs_effect_none:
  assumes "pend_connect br = None" "\<not> pend_accept br" "s5_state s' \<noteq> kSuccess" "s5_state s' \<noteq> kResponse"
  shows "hs_effect br s' br"
  by (rule hs_effectI [where rs = "br_responses br" and c = None and a = False and w = "pend_wait br"])
    (use assms in auto)

lemma hs_effect_response:
  assumes "pend_connect br = None" "\<not> pend_accept br" "s5_state s' \<noteq> kSuccess" "s5_state s' \<noteq> kResponse"
  shows "hs_effect br s' (br\<lparr>br_responses := rs\<rparr>)"
  by (rule hs_effectI [where rs = rs and c = None and a = False and w = "pend_wait br"])
    (use assms in auto)

lemma hs_greeting:
  assumes b: "good b" "\<not> peeked b" and s: "s5_state s = kGreetingHeader" "s5_inv s"
    and n: "s5_required_size s \<le> length (bytes b)" and br: "pend_connect br = None" "\<not> pend_accept br"
  shows "hs_step io s b br"
proof -
  have 2: "2 \<le> length (bytes b)" using s n by simp
  obtain b' where b': "read_array BO b 2 = Inr (take 2 (bytes b), b')" "read_from b b' 2"
    using read_array_bytes [OF b 2] by (auto simp: read_from_def)
  define p where "p \<longleftrightarrow> bytes b ! 0 = 5 \<and> bytes b ! 1 \<noteq> 0"
  define s' where "s' = (if p then s\<lparr>s5_required_size := unat (bytes b ! 1), s5_state := kGreetingMethods\<rparr>
     else s\<lparr>s5_state := kFail\<rparr>)"
  have run: "Socks5State_Proceed BO (ProxyBridge_callbacks io) s b br = Inr (p, s', b', br)"
    using s(1) b'(1) enough_bytes [OF b(1) n]
    by (simp add: Socks5State_Proceed_def Proceed_GreetingHeader_def s5_fail_def s5_break_def p_def s'_def)
  have "unat (bytes b ! 1) < 256" using unsigned_less [of "bytes b ! 1"] by simp
  then have inv: "s5_inv s'" using s by (simp add: s'_def p_def unat_gt_0)
  have eff: "hs_effect br s' br" by (rule hs_effect_none [OF br]) (simp_all add: s'_def)
  have "p \<longrightarrow> s5_reading s' \<and> s5_rank (s5_state s') < s5_rank (s5_state s)"
    using s(1) by (simp add: s'_def s5_reading_def)
  then show ?thesis by (rule hs_stepI [OF run b'(2) inv eff])
qed

lemma hs_methods:
  assumes b: "good b" "\<not> peeked b" and s: "s5_state s = kGreetingMethods" "s5_inv s"
    and n: "s5_required_size s \<le> length (bytes b)" and br: "pend_connect br = None" "\<not> pend_accept br"
  shows "hs_step io s b br"
proof -
  let ?n = "s5_required_size s"
  obtain b' where b': "read_array BO b ?n = Inr (take ?n (bytes b), b')" "read_from b b' ?n"
    using read_array_bytes [OF b n] by (auto simp: read_from_def)
  define ok where "ok = io_write io (length (br_responses br))"
  define p where "p \<longleftrightarrow> 0 \<in> set (take ?n (bytes b)) \<and> ok"
  define s' where "s' = (if p then s\<lparr>s5_state := kRequestHeader, s5_required_size := 4\<rparr>
     else s\<lparr>s5_state := kFail\<rparr>)"
  define br' where "br' = (if 0 \<in> set (take ?n (bytes b))
     then br\<lparr>br_responses := br_responses br @ [([5, 0], ok)]\<rparr> else br)"
  have run: "Socks5State_Proceed BO (ProxyBridge_callbacks io) s b br = Inr (p, s', b', br')"
    using s(1) b'(1) enough_bytes [OF b(1) n]
    by (simp add: Socks5State_Proceed_def Proceed_GreetingMethods_def s5_fail_def s5_break_def
        ProxyBridge_callbacks_def Let_def p_def s'_def br'_def ok_def)
  have eff: "hs_effect br s' br'"
    using br by (simp add: br'_def s'_def hs_effect_none hs_effect_response)
  have inv: "s5_inv s'" using s by (simp add: s'_def)
  have "p \<longrightarrow> s5_reading s' \<and> s5_rank (s5_state s') < s5_rank (s5_state s)"
    using s(1) by (simp add: s'_def s5_reading_def)
  then show ?thesis by (rule hs_stepI [OF run b'(2) inv eff])
qed

lemma hs_request:
  assumes b: "good b" "\<not> peeked b" and s: "s5_state s = kRequestHeader" "s5_inv s"
    and n: "s5_required_size s \<le> length (bytes b)" and br: "pend_connect br = None" "\<not> pend_accept br"
  shows "hs_step io s b br"
proof -
  have 4: "4 \<le> length (bytes b)" using s n by simp
  obtain b' where b': "read_array BO b 4 = Inr (take 4 (bytes b), b')" "read_from b b' 4"
    using read_array_bytes [OF b 4] by (auto simp: read_from_def)
  define p where "p \<longleftrightarrow> bytes b ! 0 = 5 \<and> bytes b ! 2 = 0 \<and> (bytes b ! 1 = 1 \<or> bytes b ! 1 = 2) \<and>
    (bytes b ! 3 = 1 \<or> bytes b ! 3 = 4)"
  define st where "st = (if bytes b ! 1 = 2 then kRequestBind
     else if bytes b ! 3 = 1 then kRequestAddrV4 else kRequestAddrV6)"
  define s' where "s' = (if p then s\<lparr>s5_state := st, s5_required_size := if bytes b ! 3 = 1 then 6 else 18\<rparr>
     else s\<lparr>s5_state := kFail\<rparr>)"
  have run: "Socks5State_Proceed BO (ProxyBridge_callbacks io) s b br = Inr (p, s', b', br)"
    using s(1) b'(1) enough_bytes [OF b(1) n]
    by (simp add: Socks5State_Proceed_def Proceed_RequestHeader_def s5_fail_def s5_break_def Let_def
        p_def s'_def st_def) blast
  have inv: "s5_inv s'" using s by (simp add: s'_def st_def)
  have eff: "hs_effect br s' br" by (rule hs_effect_none [OF br]) (simp_all add: s'_def st_def)
  have "p \<longrightarrow> s5_reading s' \<and> s5_rank (s5_state s') < s5_rank (s5_state s)"
    using s(1) by (simp add: s'_def st_def s5_reading_def)
  then show ?thesis by (rule hs_stepI [OF run b'(2) inv eff])
qed

lemma hs_connect:
  assumes b: "good b" "\<not> peeked b" and s: "s5_inv s" and st: "s5_state s = kRequestAddrV4 \<or> s5_state s = kRequestAddrV6"
    and n: "s5_required_size s \<le> length (bytes b)" and br: "pend_connect br = None" "\<not> pend_accept br"
  shows "hs_step io s b br"
proof -
  define k where "k = s5_required_size s - 2"
  define f where "f = (if s5_state s = kRequestAddrV4 then AF_INET else AF_INET6)"
  define a where "a = f (take k (bytes b)) (take 2 (drop k (bytes b)))"
  have k: "k + 2 = s5_required_size s" "k + 2 \<le> length (bytes b)"
    "k = (if s5_state s = kRequestAddrV4 then 4 else 16)"
    using s st n by (auto simp: k_def)
  obtain b1 b2 where r: "read_zeroed BO b k = Inr (take k (bytes b), b1)"
    "bo_CopyOut BO b k = Inr (take k (bytes b), b1)"
    "read_zeroed BO b1 2 = Inr (take 2 (drop k (bytes b)), b2)" "read_from b b2 (k + 2)"
    by (rule proceed_two_reads [OF b k(2)])
  have run: "Socks5State_Proceed BO (ProxyBridge_callbacks io) s b br =
      Inr (False, s\<lparr>s5_required_size := 0, s5_state := kWaitConnect\<rparr>, b2, br\<lparr>pend_connect := Some a\<rparr>)"
    using st r(1,3) k(3) enough_bytes [OF b(1) n]
    by (auto simp: Socks5State_Proceed_def Proceed_RequestAddrV4_def Proceed_RequestAddrV6_def
        Proceed_connect_def ProxyBridge_callbacks_def a_def f_def Let_def)
  have eff: "hs_effect br (s\<lparr>s5_required_size := 0, s5_state := kWaitConnect\<rparr>) (br\<lparr>pend_connect := Some a\<rparr>)"
    by (rule hs_effectI [where rs = "br_responses br" and c = "Some a" and a = False and w = "pend_wait br"])
      (use br in simp_all)
  show ?thesis by (rule hs_stepI [OF run r(4) _ eff]) simp_all
qed

text \<open>The one fault a session can have: a BIND request with no acceptor pool.\<close>

definition null_pool :: "bridge_io \<Rightarrow> cpp_fault + 'x \<Rightarrow> bool" where
  "null_pool io r \<longleftrightarrow> io_acceptor_pool io = None \<and> r = Inl UndefinedBehaviour"

lemma hs_bind:
  assumes b: "good b" "\<not> peeked b" and s: "s5_inv s" and st: "s5_state s = kRequestBind"
    and n: "s5_required_size s \<le> length (bytes b)" and br: "pend_connect br = None" "\<not> pend_accept br"
  shows "hs_step io s b br \<or> null_pool io (Socks5State_Proceed BO (ProxyBridge_callbacks io) s b br)"
proof -
  define k where "k = s5_required_size s - 2"
  define q where "q = ntohs (take 2 (drop k (bytes b)))"
  have k: "k + 2 = s5_required_size s" "k + 2 \<le> length (bytes b)" using s st n by (auto simp: k_def)
  obtain b1 b2 where r: "read_zeroed BO b k = Inr (take k (bytes b), b1)"
    "bo_CopyOut BO b k = Inr (take k (bytes b), b1)"
    "read_zeroed BO b1 2 = Inr (take 2 (drop k (bytes b)), b2)" "read_from b b2 (k + 2)"
    by (rule proceed_two_reads [OF b k(2)])
  note defs = Socks5State_Proceed_def Proceed_RequestBind_def k_def [symmetric] q_def [symmetric]
    ProxyBridge_callbacks_def call_def bind_reply_def Let_def s5_fail_def s5_break_def
  consider (null) "io_acceptor_pool io = None"
    | (refused) f where "io_acceptor_pool io = Some f" "f q = None"
    | (bound) f p where "io_acceptor_pool io = Some f" "f q = Some p" by fastforce
  then show ?thesis
  proof cases
    case null
    then show ?thesis
      using st r(2,3) enough_bytes [OF b(1) n] by (simp add: defs null_pool_def)
  next
    case refused
    then have "Socks5State_Proceed BO (ProxyBridge_callbacks io) s b br =
        Inr (False, s\<lparr>s5_required_size := 0, s5_state := kFail\<rparr>, b2, br)"
      using st r(2,3) enough_bytes [OF b(1) n] by (simp add: defs)
    then have "hs_step io s b br"
      by (rule hs_stepI [OF _ r(4)]) (use br in \<open>simp_all add: hs_effect_none\<close>)
    then show ?thesis ..
  next
    case bound
    define ok where "ok = io_write io (length (br_responses br))"
    have run: "Socks5State_Proceed BO (ProxyBridge_callbacks io) s b br =
        Inr (False, s\<lparr>s5_required_size := 0, s5_state := if ok then kWaitAccept else kFail\<rparr>, b2,
          br\<lparr>pend_accept := True, pend_wait := True,
             br_responses := br_responses br @ [(bind_reply p, ok)]\<rparr>)"
      using st r(2,3) bound enough_bytes [OF b(1) n] by (simp add: defs ok_def)
    have eff: "hs_effect br (s\<lparr>s5_required_size := 0, s5_state := if ok then kWaitAccept else kFail\<rparr>)
        (br\<lparr>pend_accept := True, pend_wait := True, br_responses := br_responses br @ [(bind_reply p, ok)]\<rparr>)"
      by (rule hs_effectI [where rs = "br_responses br @ [(bind_reply p, ok)]" and c = None and a = True and w = True])
        (use br in simp_all)
    have "hs_step io s b br" by (rule hs_stepI [OF run r(4) _ eff]) simp_all
    then show ?thesis ..
  qed
qed

lemma hs_any:
  assumes "good b" "\<not> peeked b" "s5_inv s" "s5_reading s" "s5_required_size s \<le> length (bytes b)"
    "pend_connect br = None" "\<not> pend_accept br"
  shows "hs_step io s b br \<or> null_pool io (Socks5State_Proceed BO (ProxyBridge_callbacks io) s b br)"
  using assms hs_greeting hs_methods hs_request hs_connect hs_bind
  by (cases "s5_state s") (auto simp: s5_reading_def simp del: s5_inv.simps)

lemma hs_loop:
  assumes "good b" "\<not> peeked b" "s5_inv s" "s5_reading s" "pend_connect br = None" "\<not> pend_accept br"
    "s5_rank (s5_state s) < fuel"
  shows "(\<exists>s' b' br' n. Socks5_loop fuel BO (ProxyBridge_callbacks io) s b br = Inr (s', b', br') \<and>
     read_from b b' n \<and> s5_inv s' \<and> hs_effect br s' br') \<or>
     null_pool io (Socks5_loop fuel BO (ProxyBridge_callbacks io) s b br)"
  using assms
proof (induction fuel arbitrary: s b br)
  case (Suc fuel)
  have ns: "s5_state s \<noteq> kSuccess" "s5_state s \<noteq> kResponse" using Suc.prems(4) by (auto simp: s5_reading_def)
  show ?case
  proof (cases "InsufficientBuffer BO s b")
    case True
    then have "Socks5_loop (Suc fuel) BO (ProxyBridge_callbacks io) s b br = Inr (s, b, br)"
      using ns by (simp add: Socks5State_Proceed_def)
    moreover have "read_from b b 0" using Suc.prems(1,2) by (simp add: read_from_def)
    moreover have "hs_effect br s br" by (rule hs_effect_none [OF Suc.prems(5,6) ns])
    ultimately show ?thesis using Suc.prems(3) by blast
  next
    case False
    then consider "null_pool io (Socks5State_Proceed BO (ProxyBridge_callbacks io) s b br)" | "hs_step io s b br"
      using Suc.prems insufficient_bytes [OF Suc.prems(1)] hs_any [of b s br io] by auto
    then show ?thesis
    proof cases
      case 1
      then show ?thesis using ns by (simp add: null_pool_def)
    next
    case 2
    then obtain p s1 b1 br1 n where st: "Socks5State_Proceed BO (ProxyBridge_callbacks io) s b br = Inr (p, s1, b1, br1)"
      "read_from b b1 n" "s5_inv s1" "hs_effect br s1 br1"
      "p \<longrightarrow> s5_reading s1 \<and> s5_rank (s5_state s1) < s5_rank (s5_state s)"
      unfolding hs_step_def by blast
    show ?thesis
    proof (cases p)
      case True
      then have r: "s5_reading s1" "s5_rank (s5_state s1) < fuel" using st(5) Suc.prems(7) by auto
      have nop: "pend_connect br1 = None" "\<not> pend_accept br1"
        using st(4) r(1) by (auto simp: hs_effect_def s5_reading_def)
      have g1: "good b1" "\<not> peeked b1" using st(2) by (simp_all add: read_from_def)
      show ?thesis
      proof (cases "null_pool io (Socks5_loop fuel BO (ProxyBridge_callbacks io) s1 b1 br1)")
        case null: True
        then show ?thesis using ns(1) st(1) True by (simp add: null_pool_def)
      next
      case False
      then obtain s2 b2 br2 k where IH: "Socks5_loop fuel BO (ProxyBridge_callbacks io) s1 b1 br1 = Inr (s2, b2, br2)"
        "read_from b1 b2 k" "s5_inv s2" "hs_effect br1 s2 br2"
        using Suc.IH [OF g1 st(3) r(1) nop r(2)] by blast
      have "read_from b b2 (k + n)" using st(2) IH(2) by (simp add: read_from_def)
      moreover have "Socks5_loop (Suc fuel) BO (ProxyBridge_callbacks io) s b br = Inr (s2, b2, br2)"
        using ns(1) st(1) True IH(1) by simp
      ultimately show ?thesis using IH(3) hs_effect_trans [OF st(4) IH(4)] by blast
      qed
    next
      case False
      then have "Socks5_loop (Suc fuel) BO (ProxyBridge_callbacks io) s b br = Inr (s1, b1, br1)"
        using ns(1) st(1) by simp
      then show ?thesis using st(2-4) by blast
    qed
    qed
  qed
qed simp

lemma hs_loop_fail:
  assumes "good b" "\<not> peeked b" "s5_inv s" "s5_state s = kFail" "pend_connect br = None"
  shows "\<exists>s' b' br' n. Socks5_loop (Suc fuel) BO (ProxyBridge_callbacks io) s b br = Inr (s', b', br') \<and>
     read_from b b' n \<and> s5_inv s' \<and> hs_effect br s' br'"
proof -
  let ?s = "if InsufficientBuffer BO s b then s else s\<lparr>s5_required_size := 0\<rparr>"
  have "Socks5_loop (Suc fuel) BO (ProxyBridge_callbacks io) s b br = Inr (?s, b, br)"
    using assms(4) by (simp add: Socks5State_Proceed_def)
  moreover have "read_from b b 0" using assms(1,2) by (simp add: read_from_def)
  moreover have "s5_inv ?s" using assms(3,4) by simp
  moreover have "hs_effect br ?s br"
    by (rule hs_effectI [where rs = "br_responses br" and c = None and a = "pend_accept br" and w = "pend_wait br"])
      (use assms in simp_all)
  ultimately show ?thesis by blast
qed

section \<open>The invariant\<close>

definition hs_phase :: "('b, 'v) bridge \<Rightarrow> bool" where
  "hs_phase br \<longleftrightarrow>
     s5_inv (br_socks5 br) \<and> s5_state (br_socks5 br) \<noteq> kSuccess \<and> s5_state (br_socks5 br) \<noteq> kResponse \<and>
     pipe_ok (br_upstream br) (pend_handshake br) None \<and> pipe_ok (br_downstream br) None None \<and>
     pend_client_read br = None \<and> pend_client_write br = None \<and>
     pend_dest_read br = None \<and> pend_dest_write br = None \<and>
     \<not> reading_client br \<and> \<not> writing_client br \<and> \<not> reading_dest br \<and> \<not> writing_dest br \<and>
     (pend_handshake br \<noteq> None \<longrightarrow> s5_reading (br_socks5 br) \<or> s5_state (br_socks5 br) = kFail) \<and>
     (pend_connect br \<noteq> None \<longrightarrow> s5_state (br_socks5 br) = kWaitConnect) \<and>
     (pend_accept br \<longrightarrow> s5_state (br_socks5 br) = kWaitAccept \<or> s5_state (br_socks5 br) = kFail)"

definition fwd_phase :: "('b, 'v) bridge \<Rightarrow> bool" where
  "fwd_phase br \<longleftrightarrow>
     s5_state (br_socks5 br) = kSuccess \<and> fwd_inv br \<and> driven br \<and> pend_connect br = None \<and> \<not> pend_accept br"

definition session_inv :: "('b, 'v) bridge \<Rightarrow> bool" where
  "session_inv br \<longleftrightarrow> hs_phase br \<or> fwd_phase br"

lemma schedule_ok:
  assumes "hs_phase br" "pend_handshake br = None" "length (bytes (br_upstream br)) < 256"
    "s5_reading (br_socks5 br) \<or> s5_state (br_socks5 br) = kFail"
  shows "\<exists>br'. schedule_handshake_read BO br = Inr br' \<and> hs_phase br' \<and>
    br_to_dest br' = br_to_dest br \<and> br_to_client br' = br_to_client br"
proof -
  have ok: "pipe_ok (br_upstream br) None None" using assms(1,2) by (simp add: hs_phase_def)
  have room: "length (data (br_upstream br)) + 1 \<le> kMaxBufferSize + kReadSize"
    using assms(3) by (simp add: kMaxBufferSize_def)
  obtain v k b' where "bo_ReserveAtLeast BO (br_upstream br) 1 = Inr (v, k, b')"
    "pipe_ok b' (Some (v, k)) None" "bytes b' = bytes (br_upstream br)"
    by (rule pipe_start_read [OF ok _ room]) simp_all
  then show ?thesis
    using assms by (simp add: schedule_handshake_read_def hs_phase_def del: s5_inv.simps)
qed

lemma read_from_pipe:
  assumes "pipe_ok b None None" "read_from b b' n"
  shows "pipe_ok b' None None"
proof -
  have "length (data b') = length (data b) - n"
    using assms(2) length_bytes [of b'] by (simp add: read_from_def)
  then show ?thesis
    using assms by (auto simp: pipe_ok_def read_from_def rd_ok_def wr_ok_def)
qed

lemma required_small: "s5_inv s \<Longrightarrow> s5_required_size s < 256"
  by (cases "s5_state s") auto

lemma waiting_needs_nothing:
  assumes "s5_inv s" "s5_required_size s \<noteq> 0" "s5_state s \<noteq> kSuccess" "s5_state s \<noteq> kResponse"
  shows "s5_reading s \<or> s5_state s = kFail"
  using assms by (cases "s5_state s") (auto simp: s5_reading_def)

lemma hs_phase_advance:
  assumes inv: "hs_phase br" "pend_handshake br = None" and eff: "hs_effect br s' br1" and s': "s5_inv s'"
    and r: "read_from (br_upstream br) b' n"
  shows "hs_phase (br1\<lparr>br_socks5 := s', br_upstream := b'\<rparr>)"
proof -
  have ok: "pipe_ok b' None None"
    by (rule read_from_pipe [OF _ r]) (use inv in \<open>simp add: hs_phase_def\<close>)
  obtain rs c a w where br1: "br1 = br\<lparr>br_responses := rs, pend_connect := c, pend_accept := a, pend_wait := w\<rparr>"
    using eff unfolding hs_effect_def by blast
  have "pend_connect br1 \<noteq> None \<longrightarrow> s5_state s' = kWaitConnect"
    "pend_accept br1 \<longrightarrow> s5_state s' = kWaitAccept \<or> s5_state s' = kFail"
    "s5_state s' \<noteq> kSuccess" "s5_state s' \<noteq> kResponse"
    using eff unfolding hs_effect_def by blast+
  with inv ok s' show ?thesis by (simp add: br1 hs_phase_def del: s5_inv.simps)
qed

lemma handshake_event:
  assumes inv: "hs_phase br" and en: "bridge_enabled BO br (EvHandshakeRead e xs)"
  shows "(\<exists>br'. bridge_handle BO io br (EvHandshakeRead e xs) = Inr br' \<and> hs_phase br') \<or>
    null_pool io (bridge_handle BO io br (EvHandshakeRead e xs))"
proof -
  obtain v k where p: "pend_handshake br = Some (v, k)" "length xs \<le> k"
    using en by (auto split: option.splits)
  have ok: "pipe_ok (br_upstream br) (Some (v, k)) None" using inv p(1) by (simp add: hs_phase_def)
  obtain b1 b2 where b: "bo_scatter BO (br_upstream br) v xs = Inr b1" "bo_Commit BO b1 (length xs) = Inr b2"
    "pipe_ok b2 None None" "bytes b2 = bytes (br_upstream br) @ xs"
    by (rule pipe_end_read [OF ok p(2)])
  define br0 where "br0 = br\<lparr>pend_handshake := None, br_upstream := b2\<rparr>"
  have inv0: "hs_phase br0" "pend_handshake br0 = None" and s0: "br_socks5 br0 = br_socks5 br" "br_upstream br0 = b2"
    using inv b(3) by (simp_all add: hs_phase_def br0_def del: s5_inv.simps)
  have st: "s5_reading (br_socks5 br) \<or> s5_state (br_socks5 br) = kFail" using inv p(1) by (simp add: hs_phase_def)
  have handle: "bridge_handle BO io br (EvHandshakeRead e xs) =
      (if ec_failed e then Inr br0
       else bindE (Socks5_loop 6 BO (ProxyBridge_callbacks io) (br_socks5 br) b2 br0) (\<lambda>(s, up', br1).
         if InsufficientBuffer BO s up'
         then schedule_handshake_read BO (br1\<lparr>br_socks5 := s, br_upstream := up'\<rparr>)
         else Inr (br1\<lparr>br_socks5 := s, br_upstream := up'\<rparr>)))"
    using p(1) b(1,2) by (simp add: Socks5HandshakeHandler_def br0_def Let_def)
  let ?ok = "\<exists>s' b' br' n. Socks5_loop 6 BO (ProxyBridge_callbacks io) (br_socks5 br) b2 br0 = Inr (s', b', br') \<and>
     read_from b2 b' n \<and> s5_inv s' \<and> hs_effect br0 s' br'"
  let ?null = "null_pool io (Socks5_loop 6 BO (ProxyBridge_callbacks io) (br_socks5 br) b2 br0)"
  have loop: "?ok \<or> ?null"
  proof (cases "s5_state (br_socks5 br) = kFail")
    case True
    then show ?thesis
      using hs_loop_fail [of b2 "br_socks5 br" br0 5 io] inv0 b(3) s0
      by (simp add: hs_phase_def pipe_ok_def wr_ok_def del: s5_inv.simps Socks5_loop.simps)
  next
    case False
    have "s5_rank (s5_state (br_socks5 br)) < 6" by (cases "s5_state (br_socks5 br)") simp_all
    moreover have "s5_reading (br_socks5 br)" using st False by simp
    moreover have "pend_connect br0 = None" "\<not> pend_accept br0"
      using st False inv0(1) s0 by (auto simp: hs_phase_def s5_reading_def)
    ultimately show ?thesis
      using inv0(1) b(3) s0 by (intro hs_loop) (simp_all add: hs_phase_def pipe_ok_def wr_ok_def del: s5_inv.simps)
  qed
  show ?thesis
  proof (cases ?ok)
    case False
    then show ?thesis using loop handle inv0(1) by (cases "ec_failed e") (auto simp: null_pool_def simp del: Socks5_loop.simps)
  next
  case True
  then obtain s' b' br1 n where l: "Socks5_loop 6 BO (ProxyBridge_callbacks io) (br_socks5 br) b2 br0 = Inr (s', b', br1)"
    "read_from b2 b' n" "s5_inv s'" "hs_effect br0 s' br1" by blast
  let ?br2 = "br1\<lparr>br_socks5 := s', br_upstream := b'\<rparr>"
  have inv2: "hs_phase ?br2"
    using l(2) s0(2) by (intro hs_phase_advance [OF inv0 l(4,3)]) simp
  have none2: "pend_handshake ?br2 = None" using l(4) inv0(2) by (auto simp: hs_effect_def)
  show ?thesis
  proof (cases "ec_failed e \<or> \<not> InsufficientBuffer BO s' b'")
    case True
    then show ?thesis using handle l(1) inv0(1) inv2 by (auto simp del: Socks5_loop.simps)
  next
    case False
    have g: "good b'" using l(2) by (simp add: read_from_def)
    then have "length (bytes b') < s5_required_size s'" using False insufficient_bytes [OF g] by simp
    then have small: "length (bytes (br_upstream ?br2)) < 256" "s5_required_size s' \<noteq> 0"
      using required_small [OF l(3)] by auto
    have "s5_reading s' \<or> s5_state s' = kFail"
      using waiting_needs_nothing [OF l(3) small(2)] l(4) by (simp add: hs_effect_def)
    then obtain br' where "schedule_handshake_read BO ?br2 = Inr br'" "hs_phase br'"
      using schedule_ok [OF inv2 none2 small(1)] by auto
    then show ?thesis using handle l(1) False by simp
  qed
  qed
qed

lemma succeed_forward:
  assumes inv: "hs_phase br" and none: "pend_connect br = None" "\<not> pend_accept br"
  shows "\<exists>br'. ConnectionSucceed_then_forward BO io br = Inr br' \<and> session_inv br' \<and>
     (s5_state (br_socks5 br) = kWaitConnect \<longrightarrow> fwd_phase br' \<and>
        (\<exists>br1. same_traffic br1 br' \<and> br_to_dest br1 = br_to_dest br \<and> br_upstream br1 = br_upstream br \<and>
           client_readable br1 = client_readable br \<and> dest_writable br1 = dest_writable br))"
proof (cases "s5_state (br_socks5 br) = kWaitConnect \<or> s5_state (br_socks5 br) = kWaitAccept")
  case True
  define resp where "resp = fst (Socks5State_CreateResp (ProxyBridge_callbacks io)
    (s5_state (br_socks5 br) = kWaitAccept) br)"
  define ok where "ok = io_write io (length (br_responses br))"
  define br1 where "br1 = br\<lparr>br_responses := br_responses br @ [(resp, ok)],
    br_socks5 := (br_socks5 br)\<lparr>s5_state := kSuccess\<rparr>\<rparr>"
  have "Socks5State_CreateResp (ProxyBridge_callbacks io) (s5_state (br_socks5 br) = kWaitAccept) br = (resp, br)"
    by (simp add: resp_def Socks5State_CreateResp_def ProxyBridge_callbacks_def split: option.splits)
  then have "ConnectionSucceed_then_forward BO io br = ForwardTraffic BO br1"
    using True by (auto simp: ConnectionSucceed_then_forward_def Socks5State_ConnectionSucceed_def call_def
        ProxyBridge_callbacks_def br1_def ok_def Let_def)
  moreover have "pend_handshake br = None"
    using True inv by (auto simp: hs_phase_def s5_reading_def simp del: not_None_eq)
  then have "fwd_inv br1" using inv by (simp add: br1_def fwd_inv_def hs_phase_def)
  from forward_ok [OF this] obtain br' where "ForwardTraffic BO br1 = Inr br'" "fwd_inv br'"
    "same_traffic br1 br'" "driven br'" by blast
  moreover from this have "fwd_phase br'"
    using none by (simp add: fwd_phase_def same_traffic_def br1_def)
  moreover have "br_to_dest br1 = br_to_dest br \<and> br_upstream br1 = br_upstream br \<and>
           client_readable br1 = client_readable br \<and> dest_writable br1 = dest_writable br"
    by (simp add: br1_def)
  ultimately show ?thesis by (auto simp: session_inv_def)
next
  case False
  then have "ConnectionSucceed_then_forward BO io br =
      Inr (br\<lparr>br_socks5 := (br_socks5 br)\<lparr>s5_state := kFail\<rparr>\<rparr>)"
    by (simp add: ConnectionSucceed_then_forward_def Socks5State_ConnectionSucceed_def Let_def)
  moreover have "hs_phase (br\<lparr>br_socks5 := (br_socks5 br)\<lparr>s5_state := kFail\<rparr>\<rparr>)"
    using inv none required_small [of "br_socks5 br"] by (simp add: hs_phase_def)
  ultimately show ?thesis using False by (simp add: session_inv_def)
qed

lemma phase_fields [simp]:
  "hs_phase (br\<lparr>pend_wait := a\<rparr>) = hs_phase br" "hs_phase (br\<lparr>br_cancels := y\<rparr>) = hs_phase br"
  "fwd_phase (br\<lparr>pend_wait := a\<rparr>) = fwd_phase br" "fwd_phase (br\<lparr>br_cancels := y\<rparr>) = fwd_phase br"
  by (simp_all add: hs_phase_def fwd_phase_def driven_def driven_defs)

lemma hs_phase_done:
  assumes "hs_phase br"
  shows "hs_phase (br\<lparr>pend_connect := None\<rparr>)" "hs_phase (br\<lparr>pend_accept := False\<rparr>)"
  using assms by (simp_all add: hs_phase_def)

lemma hs_event:
  assumes inv: "hs_phase br" and en: "bridge_enabled BO br ev"
  shows "(\<exists>br'. bridge_handle BO io br ev = Inr br' \<and> session_inv br') \<or> null_pool io (bridge_handle BO io br ev)"
proof (cases ev)
  case (EvHandshakeRead e xs)
  then show ?thesis using handshake_event [OF inv, of e xs io] en unfolding session_inv_def by blast
next
  case (EvConnect e)
  then have "\<not> pend_accept br" using inv en by (auto simp: hs_phase_def)
  then show ?thesis
    using EvConnect succeed_forward [OF hs_phase_done(1) [OF inv], of io] hs_phase_done(1) [OF inv]
    by (auto simp: ConnectHandler_def session_inv_def)
next
  case (EvAccept e)
  then have "pend_connect br = None" using inv en by (auto simp: hs_phase_def)
  then show ?thesis
    using EvAccept hs_phase_done(2) [OF inv]
      succeed_forward [of "br\<lparr>pend_accept := False, br_cancels := br_cancels br @ [CancelClientOps]\<rparr>" io]
    by (auto simp: AcceptInboundConnection_def StopWaitingInbound_def session_inv_def)
next
  case (EvClientWait c)
  then show ?thesis using inv by (simp add: session_inv_def Let_def StopWaitingInbound_def)
qed (use inv en in \<open>simp_all add: hs_phase_def\<close>)

lemma fwd_event:
  assumes inv: "fwd_phase br" and en: "bridge_enabled BO br ev"
  shows "\<exists>br'. bridge_handle BO io br ev = Inr br' \<and> fwd_phase br' \<and> traffic_step br ev br'"
proof -
  have f: "fwd_inv br" using inv by (simp add: fwd_phase_def)
  have go: ?thesis if "\<exists>br'. bridge_handle BO io br ev = Inr br' \<and> fwd_inv br' \<and> driven br' \<and> traffic_step br ev br'"
    using that inv by (auto simp: fwd_phase_def traffic_step_def)
  show ?thesis
  proof (cases ev)
    case (EvClientWait c)
    then show ?thesis using inv by (simp add: Let_def StopWaitingInbound_def traffic_step_def)
  next
    case EvClientRead
    then show ?thesis using client_read_ok [OF f] en by (intro go) blast
  next
    case EvClientWrite
    then show ?thesis using client_write_ok [OF f] en by (intro go) blast
  next
    case EvDestRead
    then show ?thesis using dest_read_ok [OF f] en by (intro go) blast
  next
    case EvDestWrite
    then show ?thesis using dest_write_ok [OF f] en by (intro go) blast
  qed (use inv en in \<open>simp_all add: fwd_phase_def fwd_inv_def\<close>)
qed

lemma session_start:
  "\<exists>br. PerformSocks5Handshake BO (ProxyBridge BO) = Inr br \<and> hs_phase br"
proof -
  have "pipe_ok (bo_new BO) None None"
    using new_buffer by (simp add: pipe_ok_def rd_ok_def wr_ok_def kMaxBufferSize_def)
  then have "hs_phase (ProxyBridge BO)" "pend_handshake (ProxyBridge BO) = None"
    "length (bytes (br_upstream (ProxyBridge BO))) < 256"
    "s5_reading (br_socks5 (ProxyBridge BO)) \<or> s5_state (br_socks5 (ProxyBridge BO)) = kFail"
    using new_buffer by (simp_all add: hs_phase_def ProxyBridge_def Socks5State_def s5_reading_def)
  from schedule_ok [OF this] show ?thesis by (auto simp: PerformSocks5Handshake_def)
qed

lemma reachable_inv: "bridge_reachable BO io br \<Longrightarrow> session_inv br"
proof (induction rule: bridge_reachable.induct)
  case (reach_start br)
  then show ?case using session_start by (auto simp: session_inv_def)
next
  case (reach_step br e br')
  then show ?case using hs_event [of br e io] fwd_event [of br e io] by (auto simp: session_inv_def null_pool_def)
qed

lemma reachable_step:
  "bridge_reachable BO io br \<Longrightarrow> bridge_enabled BO br ev \<Longrightarrow> io_acceptor_pool io \<noteq> None \<Longrightarrow>
     \<exists>br'. bridge_handle BO io br ev = Inr br'"
  using reachable_inv [of io br] hs_event [of br ev io] fwd_event [of br ev io]
  by (auto simp: session_inv_def null_pool_def)

lemma reachable_forwarding:
  "bridge_reachable BO io br \<Longrightarrow> s5_state (br_socks5 br) = kSuccess \<Longrightarrow> fwd_phase br"
  using reachable_inv by (auto simp: session_inv_def hs_phase_def)

lemma steps_traffic:
  assumes "bridge_steps BO io br es br'" "fwd_phase br"
  shows "fwd_phase br' \<and>
    br_to_dest br' @ bytes (br_upstream br') = br_to_dest br @ bytes (br_upstream br) @ concat (map client_input es) \<and>
    br_to_client br' @ bytes (br_downstream br') = br_to_client br @ bytes (br_downstream br) @ concat (map dest_input es)"
  using assms
proof (induction rule: bridge_steps.induct)
  case (steps_Cons br e br' es br'')
  then have "fwd_phase br'" "traffic_step br e br'" using fwd_event [of br e io] by auto
  then show ?case
    using steps_Cons.IH by (auto simp: traffic_step_def simp flip: append_assoc)
qed simp

lemma reachable_driven:
  assumes "bridge_reachable BO io br" "s5_state (br_socks5 br) = kSuccess"
  shows "client_readable br \<and> dest_writable br \<and> bo_data_size BO (br_upstream br) < kMaxBufferSize \<longrightarrow> pend_client_read br \<noteq> None"
    and "dest_writable br \<and> bytes (br_upstream br) \<noteq> [] \<longrightarrow> pend_dest_write br \<noteq> None"
    and "dest_readable br \<and> client_writable br \<and> bo_data_size BO (br_downstream br) < kMaxBufferSize \<longrightarrow> pend_dest_read br \<noteq> None"
    and "client_writable br \<and> bytes (br_downstream br) \<noteq> [] \<longrightarrow> pend_client_write br \<noteq> None"
proof -
  have f: "fwd_inv br" "driven br" using reachable_forwarding [OF assms] by (simp_all add: fwd_phase_def)
  then have size: "bo_data_size BO (br_upstream br) = length (data (br_upstream br))"
    "bo_data_size BO (br_downstream br) = length (data (br_downstream br))"
    unfolding fwd_inv_def by (auto intro: pipe_size)
  show "client_readable br \<and> dest_writable br \<and> bo_data_size BO (br_upstream br) < kMaxBufferSize \<longrightarrow> pend_client_read br \<noteq> None"
    "dest_writable br \<and> bytes (br_upstream br) \<noteq> [] \<longrightarrow> pend_dest_write br \<noteq> None"
    "dest_readable br \<and> client_writable br \<and> bo_data_size BO (br_downstream br) < kMaxBufferSize \<longrightarrow> pend_dest_read br \<noteq> None"
    "client_writable br \<and> bytes (br_downstream br) \<noteq> [] \<longrightarrow> pend_client_write br \<noteq> None"
    using f by (simp_all add: size fwd_inv_def driven_def driven_defs)
qed

lemma reachable_bound:
  assumes "bridge_reachable BO io br"
  shows "bo_data_size BO (br_upstream br) < kMaxBufferSize + kReadSize + slack"
    and "bo_data_size BO (br_downstream br) < kMaxBufferSize + kReadSize + slack"
proof -
  obtain r w r' w' where "pipe_ok (br_upstream br) r w" "pipe_ok (br_downstream br) r' w'"
    using reachable_inv [OF assms] unfolding session_inv_def hs_phase_def fwd_phase_def fwd_inv_def by blast
  then show "bo_data_size BO (br_upstream br) < kMaxBufferSize + kReadSize + slack"
    "bo_data_size BO (br_downstream br) < kMaxBufferSize + kReadSize + slack"
    using pipe_size by (auto simp: pipe_ok_def)
qed

lemma connect_event:
  assumes r: "bridge_reachable BO io br" and p: "pend_connect br \<noteq> None"
  shows "\<exists>br'. bridge_reachable BO io br' \<and> s5_state (br_socks5 br') = kSuccess \<and>
     br_to_dest br' = br_to_dest br \<and> bytes (br_upstream br') = bytes (br_upstream br) \<and>
     dest_writable br' = dest_writable br \<and>
     (client_readable br \<and> dest_writable br \<and> length (bytes (br_upstream br)) < kMaxBufferSize \<longrightarrow>
        (\<exists>v k. pend_client_read br' = Some (v, k) \<and> 0 < k))"
proof -
  have hs: "hs_phase br" using reachable_inv [OF r] p by (auto simp: session_inv_def fwd_phase_def)
  have c: "s5_state (br_socks5 br) = kWaitConnect" "\<not> pend_accept br" using hs p by (auto simp: hs_phase_def)
  obtain br1 br' where b: "ConnectionSucceed_then_forward BO io (br\<lparr>pend_connect := None\<rparr>) = Inr br'"
    "fwd_phase br'" "same_traffic br1 br'" "br_to_dest br1 = br_to_dest br" "br_upstream br1 = br_upstream br"
    "client_readable br1 = client_readable br" "dest_writable br1 = dest_writable br"
    using succeed_forward [OF hs_phase_done(1) [OF hs], of io] c by auto
  have "bridge_handle BO io br (EvConnect ec_ok) = Inr br'" using b(1) by (simp add: ConnectHandler_def ec_failed_def)
  then have r': "bridge_reachable BO io br'" using reach_step [OF r, of "EvConnect ec_ok"] p by simp
  have "\<exists>v k. pend_client_read br' = Some (v, k) \<and> 0 < k"
    if "client_readable br \<and> dest_writable br \<and> length (bytes (br_upstream br)) < kMaxBufferSize"
  proof -
    have "reading_client br'" using b(2,3,5,6,7) that
      by (simp add: fwd_phase_def driven_def cr_driven_def same_traffic_def del: length_bytes)
    then have "pend_client_read br' \<noteq> None" using b(2) by (simp add: fwd_phase_def fwd_inv_def)
    then show ?thesis using b(2) by (auto simp: fwd_phase_def fwd_inv_def pipe_ok_def rd_ok_def)
  qed
  then show ?thesis
    using r' b by (intro exI [of _ br']) (simp add: fwd_phase_def same_traffic_def)
qed

end

context buffer_world begin

lemmas buffer_bridge_step = bb.reachable_step

lemmas buffer_bridge_traffic = bb.steps_traffic [unfolded bytes_buffer]

lemmas buffer_bridge_forwarding = bb.reachable_forwarding

lemmas buffer_bridge_driven = bb.reachable_driven [unfolded bytes_buffer]

lemmas buffer_bridge_bound = bb.reachable_bound

lemmas buffer_bridge_start = bb.session_start

lemmas buffer_bridge_connect = bb.connect_event [unfolded bytes_buffer]

end

section \<open>A session through blocks of two bytes\<close>

text \<open>The sockets always work; a client asks for 10.0.0.1:80 in one message.\<close>

definition tiny_io :: bridge_io where
  "tiny_io = \<lparr>io_write = (\<lambda>_. True), io_endpoint = (\<lambda>_. Some (AF_INET [10, 0, 0, 1] [0, 80])),
     io_acceptor_pool = Some Some\<rparr>"

definition tiny_request :: "u8 list list" where
  "tiny_request = [[5, 1], [0, 5], [1, 0], [1, 10], [0, 0], [1, 0], [80, 65]]"

fun bridge_feed ::
  "('b, 'v) buffer_ops \<Rightarrow> bridge_io \<Rightarrow> ('b, 'v) bridge \<Rightarrow> u8 list list \<Rightarrow> (cpp_fault + ('b, 'v) bridge)" where
  "bridge_feed BO io br [] = Inr br"
| "bridge_feed BO io br (c # cs) =
     (if bridge_enabled BO br (EvHandshakeRead ec_ok c)
      then bindE (bridge_handle BO io br (EvHandshakeRead ec_ok c)) (\<lambda>br'. bridge_feed BO io br' cs)
      else Inl OutOfFuel)"

lemma bridge_feed_reachable:
  "bridge_reachable BO io br \<Longrightarrow> bridge_feed BO io br cs = Inr br' \<Longrightarrow> bridge_reachable BO io br'"
  by (induction cs arbitrary: br) (auto simp: bindE_Inr_iff simp del: bridge_enabled.simps bridge_handle.simps
      split: if_splits intro: reach_step)

lemma tiny_fed:
  "(case PerformSocks5Handshake (Buffer_ops tiny_env) (ProxyBridge (Buffer_ops tiny_env)) of
      Inl _ \<Rightarrow> False
    | Inr br0 \<Rightarrow>
       (case bridge_feed (Buffer_ops tiny_env) tiny_io br0 tiny_request of
          Inl _ \<Rightarrow> False
        | Inr br \<Rightarrow> pend_connect br = Some (AF_INET [10, 0, 0, 1] [0, 80]) \<and> client_readable br \<and>
            dest_writable br \<and> buffer_bytes (br_upstream br) = [65] \<and> br_to_dest br = []))"
  by code_simp

lemma tiny_connected:
  obtains br where "bridge_reachable (Buffer_ops tiny_env) tiny_io br"
    "s5_state (br_socks5 br) = kSuccess" "br_to_dest br = []" "buffer_bytes (br_upstream br) = [65]"
    "bridge_enabled (Buffer_ops tiny_env) br (EvClientRead ec_ok [66])" "dest_writable br"
proof -
  let ?B = "Buffer_ops tiny_env"
  obtain br0 br where b: "PerformSocks5Handshake ?B (ProxyBridge ?B) = Inr br0"
    "bridge_feed ?B tiny_io br0 tiny_request = Inr br" "pend_connect br \<noteq> None" "client_readable br"
    "dest_writable br" "buffer_bytes (br_upstream br) = [65]" "br_to_dest br = []"
    using tiny_fed by (auto split: sum.splits)
  have r: "bridge_reachable ?B tiny_io br"
    using bridge_feed_reachable [OF reach_start [OF b(1)] b(2)] .
  obtain br' v k where "bridge_reachable ?B tiny_io br'" "s5_state (br_socks5 br') = kSuccess"
    "br_to_dest br' = []" "buffer_bytes (br_upstream br') = [65]" "pend_client_read br' = Some (v, k)" "0 < k"
    "dest_writable br'"
    using tiny.buffer_bridge_connect [OF r b(3)] b(4-7) by (auto simp: kMaxBufferSize_def)
  then show ?thesis using that [of br'] by simp
qed

section \<open>Properties\<close>

text \<open>
  C2: Whatever the peers send, in whatever order boost::asio completes the pending reads,
  writes, connects and accepts, and whether they succeed or fail: no handler of a session
  trips an assertion of its buffers, dereferences a null block or calls an empty callback.
  The bridge was given an acceptor pool, and memory for the blocks of its buffers can be
  allocated. Without a pool a BIND request dereferences the null pointer.
\<close>

theorem bridge_never_faults:
  assumes "buffer_world env" and "bridge_reachable (Buffer_ops env) io br"
    and "bridge_enabled (Buffer_ops env) br e" and "io_acceptor_pool io \<noteq> None"
  shows "\<exists>br'. bridge_handle (Buffer_ops env) io br e = Inr br'"
  by (rule buffer_world.buffer_bridge_step [OF assms])

theorem bridge_never_faults_witness:
  "\<exists>br br'. bridge_reachable (Buffer_ops tiny_env) tiny_io br \<and>
     bridge_enabled (Buffer_ops tiny_env) br (EvClientRead ec_ok [66]) \<and>
     bridge_handle (Buffer_ops tiny_env) tiny_io br (EvClientRead ec_ok [66]) = Inr br'"
proof -
  obtain br where "bridge_reachable (Buffer_ops tiny_env) tiny_io br"
    "bridge_enabled (Buffer_ops tiny_env) br (EvClientRead ec_ok [66])"
    by (rule tiny_connected)
  with bridge_never_faults [OF tiny.buffer_world_axioms this] show ?thesis by (auto simp: tiny_io_def)
qed

text \<open>
  C1: Once the handshake has succeeded the bridge is a faithful pair of pipes: for every
  series of completions, what the destination has received followed by what is buffered for
  it is what it had before followed by all the client has sent, byte for byte and in order;
  likewise from the destination to the client. The bytes behind the request that arrived
  during the handshake are forwarded first.
\<close>

theorem bridge_forwards_everything:
  assumes "buffer_world env" and "bridge_reachable (Buffer_ops env) io br"
    and "s5_state (br_socks5 br) = kSuccess" and "bridge_steps (Buffer_ops env) io br es br'"
  shows "br_to_dest br' @ buffer_bytes (br_upstream br') =
           br_to_dest br @ buffer_bytes (br_upstream br) @ concat (map client_input es) \<and>
         br_to_client br' @ buffer_bytes (br_downstream br') =
           br_to_client br @ buffer_bytes (br_downstream br) @ concat (map dest_input es)"
  using buffer_world.buffer_bridge_traffic [OF assms(1,4) buffer_world.buffer_bridge_forwarding [OF assms(1-3)]]
  by simp

theorem bridge_forwards_everything_witness:
  "\<exists>br br'. bridge_reachable (Buffer_ops tiny_env) tiny_io br \<and> s5_state (br_socks5 br) = kSuccess \<and>
     bridge_steps (Buffer_ops tiny_env) tiny_io br [EvClientRead ec_ok [66]] br' \<and>
     br_to_dest br' @ buffer_bytes (br_upstream br') = [65, 66]"
proof -
  obtain br where br: "bridge_reachable (Buffer_ops tiny_env) tiny_io br" "s5_state (br_socks5 br) = kSuccess"
    "br_to_dest br = []" "buffer_bytes (br_upstream br) = [65]"
    "bridge_enabled (Buffer_ops tiny_env) br (EvClientRead ec_ok [66])"
    by (rule tiny_connected)
  obtain br' where "bridge_handle (Buffer_ops tiny_env) tiny_io br (EvClientRead ec_ok [66]) = Inr br'"
    using tiny.buffer_bridge_step [OF br(1,5)] by (auto simp: tiny_io_def)
  then have st: "bridge_steps (Buffer_ops tiny_env) tiny_io br [EvClientRead ec_ok [66]] br'"
    using br(5) by (blast intro: steps_Cons steps_Nil)
  show ?thesis
    using bridge_forwards_everything [OF tiny.buffer_world_axioms br(1,2) st] br st by auto
qed

text \<open>
  C6: The bridge is never idle while there is something to do: as long as the destination
  takes bytes, buffered bytes are being written to it and, unless the buffer is full or the
  client has finished, a read from the client is outstanding; likewise in the other direction.
\<close>

theorem bridge_keeps_moving:
  assumes "buffer_world env" and "bridge_reachable (Buffer_ops env) io br"
    and "s5_state (br_socks5 br) = kSuccess"
  shows "(dest_writable br \<and> buffer_bytes (br_upstream br) \<noteq> [] \<longrightarrow> pend_dest_write br \<noteq> None) \<and>
     (client_readable br \<and> dest_writable br \<and> Buffer_data_size (br_upstream br) < kMaxBufferSize \<longrightarrow>
        pend_client_read br \<noteq> None) \<and>
     (client_writable br \<and> buffer_bytes (br_downstream br) \<noteq> [] \<longrightarrow> pend_client_write br \<noteq> None) \<and>
     (dest_readable br \<and> client_writable br \<and> Buffer_data_size (br_downstream br) < kMaxBufferSize \<longrightarrow>
        pend_dest_read br \<noteq> None)"
  using buffer_world.buffer_bridge_driven [OF assms] by (simp add: Buffer_ops_def)

theorem bridge_keeps_moving_witness:
  "\<exists>br. bridge_reachable (Buffer_ops tiny_env) tiny_io br \<and> s5_state (br_socks5 br) = kSuccess \<and>
     dest_writable br \<and> pend_dest_write br \<noteq> None"
proof -
  obtain br where br: "bridge_reachable (Buffer_ops tiny_env) tiny_io br" "s5_state (br_socks5 br) = kSuccess"
    "buffer_bytes (br_upstream br) = [65]" "dest_writable br"
    by (rule tiny_connected)
  then show ?thesis using bridge_keeps_moving [OF tiny.buffer_world_axioms br(1,2)] by auto
qed

text \<open>
  C7: Back-pressure bounds the memory of a session: neither buffer ever holds more than
  the limit at which reading stops plus one read, rounded up to a block.
\<close>

theorem bridge_memory_bounded:
  assumes "buffer_world env" and "bridge_reachable (Buffer_ops env) io br"
  shows "Buffer_data_size (br_upstream br) < kMaxBufferSize + kReadSize + Block_capacity env \<and>
         Buffer_data_size (br_downstream br) < kMaxBufferSize + kReadSize + Block_capacity env"
  using buffer_world.buffer_bridge_bound [OF assms] by (simp add: Buffer_ops_def)

theorem bridge_memory_bounded_witness:
  "\<exists>br. bridge_reachable (Buffer_ops tiny_env) tiny_io br \<and> Buffer_data_size (br_upstream br) < 1114114"
proof -
  obtain br where br: "bridge_reachable (Buffer_ops tiny_env) tiny_io br" by (rule tiny_connected)
  from bridge_memory_bounded [OF tiny.buffer_world_axioms this] br show ?thesis
    by (auto simp: kMaxBufferSize_def kReadSize_def Block_capacity_def tiny_env_def sizeof_Block_def)
qed

end
