(* ===== verification/Execution_Result.thy ===== *)
theory Execution_Result
  imports Prelude
begin

text \<open>
  The result values every component returns (cc/public/core/interface/execution_result.h
  and cc/public/core/src/execution_result.cc) and the registry of error codes
  (cc/core/interface/errors.h).
\<close>

section \<open>Status, status code, result\<close>

datatype ExecutionStatus = Success | Failure | Retry

type_synonym StatusCode = u64

definition SC_OK :: StatusCode where
  "SC_OK = 0"

definition SC_UNKNOWN :: StatusCode where
  "SC_UNKNOWN = 1"

record ExecutionResult =
  status :: ExecutionStatus
  status_code :: StatusCode

definition SuccessExecutionResult :: ExecutionResult where
  "SuccessExecutionResult = \<lparr>status = Success, status_code = SC_OK\<rparr>"

definition FailureExecutionResult :: "StatusCode \<Rightarrow> ExecutionResult" where
  "FailureExecutionResult c = \<lparr>status = Failure, status_code = c\<rparr>"

definition RetryExecutionResult :: "StatusCode \<Rightarrow> ExecutionResult" where
  "RetryExecutionResult c = \<lparr>status = Retry, status_code = c\<rparr>"

text \<open>The default constructor: a failure of unknown cause.\<close>

definition DefaultExecutionResult :: ExecutionResult where
  "DefaultExecutionResult = \<lparr>status = Failure, status_code = SC_UNKNOWN\<rparr>"

definition Successful :: "ExecutionResult \<Rightarrow> bool" where
  "Successful r \<longleftrightarrow> r = SuccessExecutionResult"

definition Retryable :: "ExecutionResult \<Rightarrow> bool" where
  "Retryable r \<longleftrightarrow> status r = Retry"

lemmas result_defs = SuccessExecutionResult_def FailureExecutionResult_def
  RetryExecutionResult_def DefaultExecutionResult_def

lemma Successful_Success [simp]: "Successful SuccessExecutionResult"
  by (simp add: Successful_def)

lemma Successful_Failure [simp]: "\<not> Successful (FailureExecutionResult c)"
  by (simp add: Successful_def result_defs)

lemma Successful_Retry [simp]: "\<not> Successful (RetryExecutionResult c)"
  by (simp add: Successful_def result_defs)

lemma result_distinct [simp]:
  "SuccessExecutionResult \<noteq> FailureExecutionResult c"
  "FailureExecutionResult c \<noteq> SuccessExecutionResult"
  "SuccessExecutionResult \<noteq> RetryExecutionResult c"
  "RetryExecutionResult c \<noteq> SuccessExecutionResult"
  "FailureExecutionResult c \<noteq> RetryExecutionResult d"
  "RetryExecutionResult d \<noteq> FailureExecutionResult c"
  by (simp_all add: result_defs)

lemma result_inject [simp]:
  "FailureExecutionResult c = FailureExecutionResult d \<longleftrightarrow> c = d"
  "RetryExecutionResult c = RetryExecutionResult d \<longleftrightarrow> c = d"
  by (simp_all add: result_defs)

lemma result_status [simp]:
  "status SuccessExecutionResult = Success"
  "status (FailureExecutionResult c) = Failure"
  "status (RetryExecutionResult c) = Retry"
  by (simp_all add: result_defs)

lemma Retryable_simps [simp]:
  "\<not> Retryable SuccessExecutionResult"
  "\<not> Retryable (FailureExecutionResult c)"
  "Retryable (RetryExecutionResult c)"
  by (simp_all add: Retryable_def)

section \<open>A result or a value\<close>

text \<open>
  \<open>ExecutionResultOr<T>\<close> is a \<open>std::variant<ExecutionResult, T>\<close>. Reading the
  value of a variant that holds a result throws \<open>std::bad_variant_access\<close>: \<open>None\<close>.
\<close>

datatype 'a ExecutionResultOr = HoldsResult ExecutionResult | HoldsValue 'a

fun HasExecutionResult :: "'a ExecutionResultOr \<Rightarrow> bool" where
  "HasExecutionResult (HoldsResult _) = True"
| "HasExecutionResult (HoldsValue _) = False"

definition has_value :: "'a ExecutionResultOr \<Rightarrow> bool" where
  "has_value r \<longleftrightarrow> \<not> HasExecutionResult r"

fun result :: "'a ExecutionResultOr \<Rightarrow> ExecutionResult" where
  "result (HoldsResult r) = r"
| "result (HoldsValue _) = SuccessExecutionResult"

definition Or_Successful :: "'a ExecutionResultOr \<Rightarrow> bool" where
  "Or_Successful r \<longleftrightarrow> Successful (result r)"

fun value_of :: "'a ExecutionResultOr \<Rightarrow> 'a option" where
  "value_of (HoldsValue v) = Some v"
| "value_of (HoldsResult _) = None"

text \<open>
  \<open>ASSIGN_OR_RETURN(lhs, e)\<close>: on failure the enclosing function returns the result of
  \<open>e\<close>, otherwise it goes on with the released value. Releasing the value of a variant
  that holds a successful result throws, which is the outcome \<open>None\<close>.
\<close>

definition ASSIGN_OR_RETURN ::
  "'a ExecutionResultOr \<Rightarrow> ('a \<Rightarrow> 'b) \<Rightarrow> (ExecutionResult \<Rightarrow> 'b) \<Rightarrow> 'b option" where
  "ASSIGN_OR_RETURN e k ret =
     (if \<not> Or_Successful e then Some (ret (result e)) else map_option k (value_of e))"

text \<open>\<open>RETURN_IF_FAILURE(e)\<close>: return \<open>e\<close> if it failed, else go on.\<close>

definition RETURN_IF_FAILURE ::
  "ExecutionResult \<Rightarrow> ExecutionResult \<Rightarrow> ExecutionResult" where
  "RETURN_IF_FAILURE e rest = (if \<not> Successful e then e else rest)"

lemma Or_Successful_simps [simp]:
  "Or_Successful (HoldsValue v)"
  "Or_Successful (HoldsResult r) \<longleftrightarrow> Successful r"
  by (simp_all add: Or_Successful_def)

section \<open>Conversion to and from the wire format\<close>

text \<open>core/common/proto/common.proto: the enumeration and the message of the wire format.\<close>

datatype ProtoExecutionStatus =
    EXECUTION_STATUS_UNKNOWN
  | EXECUTION_STATUS_SUCCESS
  | EXECUTION_STATUS_FAILURE
  | EXECUTION_STATUS_RETRY

record ProtoExecutionResult =
  proto_status :: ProtoExecutionStatus
  proto_status_code :: u64

definition kExecutionStatusToProtoMap :: "(ExecutionStatus \<times> ProtoExecutionStatus) list" where
  "kExecutionStatusToProtoMap =
     [(Success, EXECUTION_STATUS_SUCCESS),
      (Failure, EXECUTION_STATUS_FAILURE),
      (Retry, EXECUTION_STATUS_RETRY)]"

text \<open>The loop \<open>for (kv : m) r[kv.second] = kv.first\<close>, over the entries in key order.\<close>

definition ReverseMap :: "('a \<times> 'b) list \<Rightarrow> 'b \<rightharpoonup> 'a" where
  "ReverseMap m = fold (\<lambda>(k, v) r. r(v \<mapsto> k)) m Map.empty"

definition kProtoToExecutionStatusMap :: "ProtoExecutionStatus \<rightharpoonup> ExecutionStatus" where
  "kProtoToExecutionStatusMap = ReverseMap kExecutionStatusToProtoMap"

text \<open>\<open>map::at\<close> throws on a missing key: \<open>None\<close>.\<close>

definition ToStatusProto :: "ExecutionStatus \<Rightarrow> ProtoExecutionStatus option" where
  "ToStatusProto s = map_of kExecutionStatusToProtoMap s"

definition ToProto :: "ExecutionResult \<Rightarrow> ProtoExecutionResult option" where
  "ToProto r =
     (case ToStatusProto (status r) of
        None \<Rightarrow> None
      | Some s \<Rightarrow> Some \<lparr>proto_status = s, proto_status_code = status_code r\<rparr>)"

definition FromProto :: "ProtoExecutionResult \<Rightarrow> ExecutionResult" where
  "FromProto p =
     (let mapped_status =
        (case kProtoToExecutionStatusMap (proto_status p) of None \<Rightarrow> Failure | Some s \<Rightarrow> s)
      in \<lparr>status = mapped_status, status_code = proto_status_code p\<rparr>)"

lemma kProtoToExecutionStatusMap_simps [simp]:
  "kProtoToExecutionStatusMap EXECUTION_STATUS_UNKNOWN = None"
  "kProtoToExecutionStatusMap EXECUTION_STATUS_SUCCESS = Some Success"
  "kProtoToExecutionStatusMap EXECUTION_STATUS_FAILURE = Some Failure"
  "kProtoToExecutionStatusMap EXECUTION_STATUS_RETRY = Some Retry"
  by (simp_all add: kProtoToExecutionStatusMap_def ReverseMap_def kExecutionStatusToProtoMap_def)

lemma ToStatusProto_simps [simp]:
  "ToStatusProto Success = Some EXECUTION_STATUS_SUCCESS"
  "ToStatusProto Failure = Some EXECUTION_STATUS_FAILURE"
  "ToStatusProto Retry = Some EXECUTION_STATUS_RETRY"
  by (simp_all add: ToStatusProto_def kExecutionStatusToProtoMap_def)

section \<open>Properties\<close>

text \<open>
  Every execution result survives the trip through its wire format unchanged. The
  other way round every message survives, except that a status the program does not know
  comes back as a failure with the same status code.
\<close>

theorem result_proto_roundtrip:
  "map_option FromProto (ToProto r) = Some r \<and>
   ToProto (FromProto p) =
     Some (if proto_status p = EXECUTION_STATUS_UNKNOWN
           then p\<lparr>proto_status := EXECUTION_STATUS_FAILURE\<rparr> else p)"
proof
  show "map_option FromProto (ToProto r) = Some r"
    by (cases "status r") (simp_all add: ToProto_def FromProto_def)
  show "ToProto (FromProto p) =
     Some (if proto_status p = EXECUTION_STATUS_UNKNOWN
           then p\<lparr>proto_status := EXECUTION_STATUS_FAILURE\<rparr> else p)"
    by (cases "proto_status p") (simp_all add: ToProto_def FromProto_def)
qed

end
