(* ===== verification/Error_Codes.thy ===== *)
theory Error_Codes
  imports Execution_Result
begin

text \<open>
  The global error codes of cc/core/interface/errors.h: how a component code and an error
  number are packed into one 64-bit status code, the registry that \<open>DEFINE_ERROR_CODE\<close>
  fills when the program starts, and the lookups on it.
\<close>

section \<open>HTTP status codes\<close>

datatype HttpStatusCode =
    UNKNOWN | OK | CREATED | ACCEPTED | NO_CONTENT | PARTIAL_CONTENT
  | MULTIPLE_CHOICES | MOVED_PERMANENTLY | FOUND | SEE_OTHER | NOT_MODIFIED
  | TEMPORARY_REDIRECT | PERMANENT_REDIRECT
  | BAD_REQUEST | UNAUTHORIZED | FORBIDDEN | NOT_FOUND | METHOD_NOT_ALLOWED
  | REQUEST_TIMEOUT | CONFLICT | GONE | LENGTH_REQUIRED | PRECONDITION_FAILED
  | REQUEST_ENTITY_TOO_LARGE | REQUEST_URI_TOO_LONG | UNSUPPORTED_MEDIA_TYPE
  | REQUEST_RANGE_NOT_SATISFIABLE | MISDIRECTED_REQUEST | TOO_MANY_REQUESTS | CANCELLED
  | INTERNAL_SERVER_ERROR | NOT_IMPLEMENTED | BAD_GATEWAY | SERVICE_UNAVAILABLE
  | GATEWAY_TIMEOUT | HTTP_VERSION_NOT_SUPPORTED

fun http_value :: "HttpStatusCode \<Rightarrow> int" where
  "http_value UNKNOWN = 0" | "http_value OK = 200" | "http_value CREATED = 201"
| "http_value ACCEPTED = 202" | "http_value NO_CONTENT = 204"
| "http_value PARTIAL_CONTENT = 206" | "http_value MULTIPLE_CHOICES = 300"
| "http_value MOVED_PERMANENTLY = 301" | "http_value FOUND = 302"
| "http_value SEE_OTHER = 303" | "http_value NOT_MODIFIED = 304"
| "http_value TEMPORARY_REDIRECT = 307" | "http_value PERMANENT_REDIRECT = 308"
| "http_value BAD_REQUEST = 400" | "http_value UNAUTHORIZED = 401"
| "http_value FORBIDDEN = 403" | "http_value NOT_FOUND = 404"
| "http_value METHOD_NOT_ALLOWED = 405" | "http_value REQUEST_TIMEOUT = 408"
| "http_value CONFLICT = 409" | "http_value GONE = 410" | "http_value LENGTH_REQUIRED = 411"
| "http_value PRECONDITION_FAILED = 412" | "http_value REQUEST_ENTITY_TOO_LARGE = 413"
| "http_value REQUEST_URI_TOO_LONG = 414" | "http_value UNSUPPORTED_MEDIA_TYPE = 415"
| "http_value REQUEST_RANGE_NOT_SATISFIABLE = 416" | "http_value MISDIRECTED_REQUEST = 421"
| "http_value TOO_MANY_REQUESTS = 429" | "http_value CANCELLED = 444"
| "http_value INTERNAL_SERVER_ERROR = 500" | "http_value NOT_IMPLEMENTED = 501"
| "http_value BAD_GATEWAY = 502" | "http_value SERVICE_UNAVAILABLE = 503"
| "http_value GATEWAY_TIMEOUT = 504" | "http_value HTTP_VERSION_NOT_SUPPORTED = 505"

definition IsRetriableErrorCode :: "HttpStatusCode \<Rightarrow> bool" where
  "IsRetriableErrorCode c \<longleftrightarrow> http_value c \<ge> http_value INTERNAL_SERVER_ERROR"

section \<open>Packing and unpacking\<close>

definition MakeErrorCode :: "u64 \<Rightarrow> u64 \<Rightarrow> u64" where
  "MakeErrorCode component error = push_bit 31 1 OR push_bit 16 component OR error"

definition ExtractComponentCode :: "u64 \<Rightarrow> u64" where
  "ExtractComponentCode error_code = drop_bit 16 error_code AND 0x7FFF"

lemma mask_15_word: "(0x7FFF :: u64) = mask 15"
  by (simp add: mask_eq_exp_minus_1)

lemma mask_16_word: "(0xFFFF :: u64) = mask 16"
  by (simp add: mask_eq_exp_minus_1)

text \<open>The two ranges \<open>DEFINE_ERROR_CODE\<close> asserts at compile time.\<close>

definition valid_code :: "u64 \<Rightarrow> u64 \<Rightarrow> bool" where
  "valid_code component error \<longleftrightarrow> component < 0x8000 \<and> error < 0x10000"

lemma valid_code_bits:
  assumes "valid_code c e"
  shows "bit c n \<Longrightarrow> n < 15" and "bit e n \<Longrightarrow> n < 16"
  using assms bit_less_exp [of c 15 n] bit_less_exp [of e 16 n]
  by (simp_all add: valid_code_def)

lemma bit_MakeErrorCode:
  "bit (MakeErrorCode c e) n \<longleftrightarrow> n = 31 \<or> 16 \<le> n \<and> n < 64 \<and> bit c (n - 16) \<or> bit e n"
  unfolding MakeErrorCode_def bit_or_iff bit_push_bit_iff
  by (auto simp only: bit_1_iff possible_bit_word) auto

lemma ExtractComponentCode_MakeErrorCode:
  assumes "valid_code c e"
  shows "ExtractComponentCode (MakeErrorCode c e) = c"
proof (rule bit_word_eqI)
  fix n assume n: "n < LENGTH(64)"
  note b = valid_code_bits [OF assms]
  show "bit (ExtractComponentCode (MakeErrorCode c e)) n = bit c n"
    unfolding ExtractComponentCode_def mask_15_word
    using b(1) [of n] b(2) [of "16 + n"] n
    by (auto simp: bit_MakeErrorCode bit_and_iff bit_drop_bit_eq bit_mask_iff)
qed

lemma error_number_MakeErrorCode:
  assumes "valid_code c e"
  shows "MakeErrorCode c e AND 0xFFFF = e"
proof (rule bit_word_eqI)
  fix n assume n: "n < LENGTH(64)"
  note b = valid_code_bits [OF assms]
  show "bit (MakeErrorCode c e AND 0xFFFF) n = bit e n"
    unfolding mask_16_word
    using b(2) [of n] n
    by (auto simp: bit_MakeErrorCode bit_and_iff bit_mask_iff)
qed

lemma MakeErrorCode_bit31: "bit (MakeErrorCode c e) 31"
  by (simp add: bit_MakeErrorCode)

lemma MakeErrorCode_reserved [simp]:
  "MakeErrorCode c e \<noteq> SC_OK" "MakeErrorCode c e \<noteq> SC_UNKNOWN"
proof -
  have "\<not> bit SC_OK 31" "\<not> bit SC_UNKNOWN 31"
    by (simp_all add: SC_OK_def SC_UNKNOWN_def bit_1_iff)
  then show "MakeErrorCode c e \<noteq> SC_OK" "MakeErrorCode c e \<noteq> SC_UNKNOWN"
    using MakeErrorCode_bit31 [of c e] by metis+
qed

section \<open>The registry\<close>

record SCPError =
  error_message :: string
  error_http_status_code :: HttpStatusCode

text \<open>
  \<open>GetGlobalErrorCodes()\<close>, a map of maps. \<open>m[component]\<close> on a missing component
  creates an empty inner map, which no lookup can tell from the missing one.
\<close>

type_synonym error_registry = "u64 \<rightharpoonup> (u64 \<rightharpoonup> SCPError)"

definition inner :: "error_registry \<Rightarrow> u64 \<Rightarrow> (u64 \<rightharpoonup> SCPError)" where
  "inner reg component = (case reg component of None \<Rightarrow> Map.empty | Some m \<Rightarrow> m)"

text \<open>\<open>emplace\<close> keeps an entry that is already there.\<close>

definition emplace :: "('k \<rightharpoonup> 'v) \<Rightarrow> 'k \<Rightarrow> 'v \<Rightarrow> ('k \<rightharpoonup> 'v)" where
  "emplace m k v = (case m k of None \<Rightarrow> m(k \<mapsto> v) | Some _ \<Rightarrow> m)"

text \<open>\<open>None\<close> is the program that does not compile.\<close>

definition DEFINE_ERROR_CODE ::
  "u64 \<Rightarrow> u64 \<Rightarrow> string \<Rightarrow> HttpStatusCode \<Rightarrow> error_registry \<Rightarrow> (u64 \<times> error_registry) option"
  where
  "DEFINE_ERROR_CODE component error message http reg =
     (if \<not> component < 0x8000 then None
      else if \<not> error < 0x10000 then None
      else
        let error_name = MakeErrorCode component error;
            scp_error = \<lparr>error_message = message, error_http_status_code = http\<rparr>
        in Some (error_name,
             reg(component \<mapsto> emplace (inner reg component) error_name scp_error)))"

definition kInvalidErrorCodeStr :: string where
  "kInvalidErrorCodeStr = ''InvalidErrorCode''"

definition GetErrorMessage :: "error_registry \<Rightarrow> u64 \<Rightarrow> string" where
  "GetErrorMessage reg error_code =
     (if error_code = SC_OK then ''Success''
      else if error_code = SC_UNKNOWN then ''Unknown Error''
      else case inner reg (ExtractComponentCode error_code) error_code of
             Some e \<Rightarrow> error_message e
           | None \<Rightarrow> kInvalidErrorCodeStr)"

text \<open>The iterator is dereferenced unchecked: \<open>None\<close> is undefined behaviour.\<close>

definition GetErrorHttpStatusCode :: "error_registry \<Rightarrow> u64 \<Rightarrow> HttpStatusCode option" where
  "GetErrorHttpStatusCode reg error_code =
     map_option error_http_status_code (inner reg (ExtractComponentCode error_code) error_code)"

definition MAP_TO_PUBLIC_ERROR_CODE :: "u64 \<Rightarrow> u64 \<Rightarrow> (u64 \<rightharpoonup> u64) \<Rightarrow> (u64 \<rightharpoonup> u64)" where
  "MAP_TO_PUBLIC_ERROR_CODE error_code public_error_code m =
     emplace m error_code public_error_code"

definition GetPublicErrorCode :: "(u64 \<rightharpoonup> u64) \<Rightarrow> u64 \<Rightarrow> u64" where
  "GetPublicErrorCode m error_code =
     (if error_code = SC_OK then SC_OK
      else case m error_code of None \<Rightarrow> SC_UNKNOWN | Some p \<Rightarrow> p)"

lemma DEFINE_ERROR_CODE_Some:
  "DEFINE_ERROR_CODE c e msg http reg = Some (code, reg') \<longleftrightarrow>
     valid_code c e \<and> code = MakeErrorCode c e \<and>
     reg' = reg(c \<mapsto> emplace (inner reg c) code
       \<lparr>error_message = msg, error_http_status_code = http\<rparr>)"
  by (auto simp: DEFINE_ERROR_CODE_def valid_code_def Let_def)

lemma inner_upd: "inner (reg(c \<mapsto> m)) c' = (if c' = c then m else inner reg c')"
  by (simp add: inner_def)

lemma emplace_apply:
  "emplace m k v k' = (if k' = k \<and> m k = None then Some v else m k')"
  by (auto simp: emplace_def split: option.splits)

text \<open>The program's error-code definitions, in the order the initialisers run.\<close>

type_synonym error_def = "u64 \<times> u64 \<times> string \<times> HttpStatusCode"

fun define_all :: "error_def list \<Rightarrow> error_registry \<Rightarrow> error_registry option" where
  "define_all [] reg = Some reg"
| "define_all ((c, e, msg, http) # ds) reg =
     (case DEFINE_ERROR_CODE c e msg http reg of
        None \<Rightarrow> None
      | Some (_, reg') \<Rightarrow> define_all ds reg')"

definition code_of :: "error_def \<Rightarrow> u64 \<times> u64" where
  "code_of d = (fst d, fst (snd d))"

lemma MakeErrorCode_inject:
  assumes "valid_code c e" "valid_code c' e'"
  shows "MakeErrorCode c e = MakeErrorCode c' e' \<longleftrightarrow> c = c' \<and> e = e'"
  using assms ExtractComponentCode_MakeErrorCode error_number_MakeErrorCode by metis

lemma define_all_keeps:
  assumes "define_all ds reg = Some reg'" and "inner reg c k = Some x"
  shows "inner reg' c k = Some x"
  using assms
proof (induction ds arbitrary: reg)
  case (Cons d ds)
  obtain c0 e0 msg http where d: "d = (c0, e0, msg, http)" by (cases d)
  let ?reg = "reg(c0 \<mapsto> emplace (inner reg c0) (MakeErrorCode c0 e0)
    \<lparr>error_message = msg, error_http_status_code = http\<rparr>)"
  have "define_all ds ?reg = Some reg'"
    using Cons.prems(1) by (auto simp: d DEFINE_ERROR_CODE_Some split: option.splits)
  moreover have "inner ?reg c k = Some x"
    using Cons.prems(2) by (auto simp: inner_upd emplace_apply)
  ultimately show ?case by (rule Cons.IH)
qed simp

lemma define_all_finds:
  assumes "define_all ds reg = Some reg'" and "distinct (map code_of ds)"
    and "(c, e, msg, http) \<in> set ds" and "inner reg c (MakeErrorCode c e) = None"
  shows "valid_code c e \<and> inner reg' c (MakeErrorCode c e) =
           Some \<lparr>error_message = msg, error_http_status_code = http\<rparr>"
  using assms
proof (induction ds reg rule: define_all.induct)
  case (2 c0 e0 msg0 http0 ds reg)
  then obtain reg1 where valid0: "valid_code c0 e0" and rest: "define_all ds reg1 = Some reg'"
    and reg1: "reg1 = reg(c0 \<mapsto> emplace (inner reg c0) (MakeErrorCode c0 e0)
       \<lparr>error_message = msg0, error_http_status_code = http0\<rparr>)"
    and def: "DEFINE_ERROR_CODE c0 e0 msg0 http0 reg = Some (MakeErrorCode c0 e0, reg1)"
    by (auto simp: DEFINE_ERROR_CODE_Some split: option.splits)
  show ?case
  proof (cases "(c, e, msg, http) \<in> set ds")
    case True
    then have ne: "(c, e) \<noteq> (c0, e0)" and dist: "distinct (map code_of ds)"
      using 2(3) by (force simp: code_of_def, simp)
    have "valid_code c e"
      using rest True
      by (induction ds reg1 rule: define_all.induct)
        (auto simp: DEFINE_ERROR_CODE_Some split: option.splits)
    then have "inner reg1 c (MakeErrorCode c e) = None"
      using ne valid0 2(5) by (auto simp: reg1 inner_upd emplace_apply MakeErrorCode_inject)
    then show ?thesis
      using 2(1) [OF def refl rest dist True] by simp
  next
    case False
    then have eq: "c = c0" "e = e0" "msg = msg0" "http = http0"
      using 2(4) by auto
    then have "inner reg1 c (MakeErrorCode c e) =
        Some \<lparr>error_message = msg, error_http_status_code = http\<rparr>"
      using 2(5) by (simp add: reg1 inner_upd emplace_apply)
    then show ?thesis
      using define_all_keeps [OF rest] valid0 eq by simp
  qed
qed simp

section \<open>Properties\<close>

text \<open>
  Once a list of error codes with pairwise different component and error numbers has
  been registered, every one of them can be read back: its number decodes to its component
  and error, \<open>GetErrorMessage\<close> returns its message and \<open>GetErrorHttpStatusCode\<close> its
  status.
\<close>

theorem error_registry_lookup:
  assumes "define_all ds Map.empty = Some reg" and "distinct (map code_of ds)"
    and "(c, e, msg, http) \<in> set ds"
  shows "GetErrorMessage reg (MakeErrorCode c e) = msg \<and>
         GetErrorHttpStatusCode reg (MakeErrorCode c e) = Some http \<and>
         ExtractComponentCode (MakeErrorCode c e) = c \<and>
         MakeErrorCode c e AND 0xFFFF = e"
proof -
  have "valid_code c e" "inner reg c (MakeErrorCode c e) =
      Some \<lparr>error_message = msg, error_http_status_code = http\<rparr>"
    using define_all_finds [OF assms] by (simp_all add: inner_def)
  then show ?thesis
    by (simp add: GetErrorMessage_def GetErrorHttpStatusCode_def
        ExtractComponentCode_MakeErrorCode error_number_MakeErrorCode)
qed

theorem error_registry_lookup_witness:
  "\<exists>reg. define_all [(1, 1, ''full'', BAD_REQUEST), (1, 2, ''empty'', NOT_FOUND),
                     (4, 1, ''exists'', CONFLICT)] Map.empty = Some reg \<and>
     GetErrorMessage reg (MakeErrorCode 1 2) = ''empty'' \<and>
     GetErrorHttpStatusCode reg (MakeErrorCode 1 2) = Some NOT_FOUND"
proof -
  let ?ds = "[(1, 1, ''full'', BAD_REQUEST), (1, 2, ''empty'', NOT_FOUND),
              (4, 1, ''exists'', CONFLICT)]"
  obtain reg where reg: "define_all ?ds Map.empty = Some reg"
    by (simp add: DEFINE_ERROR_CODE_def Let_def)
  have "distinct (map code_of ?ds)" by (simp add: code_of_def)
  from error_registry_lookup [OF reg this, of 1 2 "''empty''" NOT_FOUND]
  show ?thesis using reg by (intro exI [of _ reg]) simp
qed

end
