(* ===== verification/Concurrent_Containers.thy ===== *)
theory Concurrent_Containers
  imports Error_Codes Containers
begin

text \<open>
  The two thread-safe containers of cc/core/common: \<open>ConcurrentQueue\<close>
  (concurrent_queue/src/concurrent_queue.h) and \<open>ConcurrentMap\<close>
  (concurrent_map/src/concurrent_map.h), which turn the answers of the oneTBB containers
  into execution results. Every operation is one atomic step; \<open>Keys\<close> is too, because it
  takes the map's mutex exclusively. The contract that the clients of the two classes
  rely on is stated as the locales \<open>result_queue\<close> and \<open>result_map\<close>.
\<close>

section \<open>ConcurrentQueue\<close>

definition SC_CONCURRENT_QUEUE_CANNOT_ENQUEUE :: StatusCode where
  "SC_CONCURRENT_QUEUE_CANNOT_ENQUEUE = MakeErrorCode 0x0001 0x0001"

definition SC_CONCURRENT_QUEUE_CANNOT_DEQUEUE :: StatusCode where
  "SC_CONCURRENT_QUEUE_CANNOT_DEQUEUE = MakeErrorCode 0x0001 0x0002"

definition ConcurrentQueue :: "('q, 'a) tbb_bounded_queue \<Rightarrow> nat \<Rightarrow> 'q" where
  "ConcurrentQueue B max_size = bq_new B max_size"

definition ConcurrentQueue_TryEnqueue ::
  "('q, 'a) tbb_bounded_queue \<Rightarrow> 'q \<Rightarrow> 'a \<Rightarrow> ExecutionResult \<times> 'q" where
  "ConcurrentQueue_TryEnqueue B q element =
     (let (pushed, q') = bq_try_push B q element
      in if \<not> pushed then (FailureExecutionResult SC_CONCURRENT_QUEUE_CANNOT_ENQUEUE, q')
         else (SuccessExecutionResult, q'))"

definition ConcurrentQueue_TryDequeue ::
  "('q, 'a) tbb_bounded_queue \<Rightarrow> 'q \<Rightarrow> ExecutionResult \<times> 'a option \<times> 'q" where
  "ConcurrentQueue_TryDequeue B q =
     (let (popped, q') = bq_try_pop B q
      in case popped of
           None \<Rightarrow> (FailureExecutionResult SC_CONCURRENT_QUEUE_CANNOT_DEQUEUE, None, q')
         | Some element \<Rightarrow> (SuccessExecutionResult, Some element, q'))"

definition ConcurrentQueue_Size :: "('q, 'a) tbb_bounded_queue \<Rightarrow> 'q \<Rightarrow> nat" where
  "ConcurrentQueue_Size B q = bq_size B q"

lemmas ConcurrentQueue_defs [model_defs] = ConcurrentQueue_def
  ConcurrentQueue_TryEnqueue_def ConcurrentQueue_TryDequeue_def ConcurrentQueue_Size_def

text \<open>
  Calls in the order they take effect, their answers, and the same on a plain list with a
  bound. The operations are an argument, so that the runs can be stated for the contract.
\<close>

datatype 'a queue_op = OpEnqueue 'a | OpDequeue

datatype 'a queue_answer = Enqueued | Dequeued 'a | Refused

fun queue_step ::
  "('q \<Rightarrow> 'a \<Rightarrow> ExecutionResult \<times> 'q) \<Rightarrow> ('q \<Rightarrow> ExecutionResult \<times> 'a option \<times> 'q) \<Rightarrow>
   'q \<Rightarrow> 'a queue_op \<Rightarrow> 'a queue_answer \<times> 'q" where
  "queue_step enq deq q (OpEnqueue x) =
     (let (r, q') = enq q x in (if Successful r then Enqueued else Refused, q'))"
| "queue_step enq deq q OpDequeue =
     (let (r, v, q') = deq q
      in (case v of Some x \<Rightarrow> if Successful r then Dequeued x else Refused | None \<Rightarrow> Refused, q'))"

fun queue_run ::
  "('q \<Rightarrow> 'a \<Rightarrow> ExecutionResult \<times> 'q) \<Rightarrow> ('q \<Rightarrow> ExecutionResult \<times> 'a option \<times> 'q) \<Rightarrow>
   'q \<Rightarrow> 'a queue_op list \<Rightarrow> 'a queue_answer list \<times> 'q" where
  "queue_run enq deq q [] = ([], q)"
| "queue_run enq deq q (x # xs) =
     (let (r, q1) = queue_step enq deq q x; (rs, q2) = queue_run enq deq q1 xs in (r # rs, q2))"

fun fifo_step :: "nat \<Rightarrow> 'a list \<Rightarrow> 'a queue_op \<Rightarrow> 'a queue_answer \<times> 'a list" where
  "fifo_step n xs (OpEnqueue x) = (if length xs < n then (Enqueued, xs @ [x]) else (Refused, xs))"
| "fifo_step n [] OpDequeue = (Refused, [])"
| "fifo_step n (x # xs) OpDequeue = (Dequeued x, xs)"

fun fifo_run :: "nat \<Rightarrow> 'a list \<Rightarrow> 'a queue_op list \<Rightarrow> 'a queue_answer list \<times> 'a list" where
  "fifo_run n s [] = ([], s)"
| "fifo_run n s (x # xs) =
     (let (r, s1) = fifo_step n s x; (rs, s2) = fifo_run n s1 xs in (r # rs, s2))"

lemma fifo_run_bound: "length s \<le> n \<Longrightarrow> length (snd (fifo_run n s xs)) \<le> n"
proof (induction xs arbitrary: s)
  case (Cons x xs)
  have "length (snd (fifo_step n s x)) \<le> n"
    using Cons.prems by (cases "(n, s, x)" rule: fifo_step.cases) auto
  then show ?case
    using Cons.IH by (auto simp: split_beta Let_def)
qed simp

text \<open>The contract: a first-in first-out queue that refuses rather than blocks.\<close>

locale result_queue =
  fixes make :: "nat \<Rightarrow> 'q"
    and enq :: "'q \<Rightarrow> 'a \<Rightarrow> ExecutionResult \<times> 'q"
    and deq :: "'q \<Rightarrow> ExecutionResult \<times> 'a option \<times> 'q"
    and qsize :: "'q \<Rightarrow> nat"
    and elems :: "'q \<Rightarrow> 'a list"
    and bound :: "'q \<Rightarrow> nat"
  assumes make_elems [simp]: "elems (make n) = []"
    and make_bound [simp]: "bound (make n) = n"
    and enq_ok: "length (elems q) < bound q \<Longrightarrow>
          \<exists>q'. enq q x = (SuccessExecutionResult, q') \<and> elems q' = elems q @ [x] \<and> bound q' = bound q"
    and enq_full: "\<not> length (elems q) < bound q \<Longrightarrow>
          \<exists>r q'. enq q x = (r, q') \<and> \<not> Successful r \<and> elems q' = elems q \<and> bound q' = bound q"
    and deq_ok: "elems q = x # xs \<Longrightarrow>
          \<exists>q'. deq q = (SuccessExecutionResult, Some x, q') \<and> elems q' = xs \<and> bound q' = bound q"
    and deq_empty: "elems q = [] \<Longrightarrow>
          \<exists>r q'. deq q = (r, None, q') \<and> \<not> Successful r \<and> elems q' = [] \<and> bound q' = bound q"
    and qsize_elems [simp]: "qsize q = length (elems q)"
begin

lemma enq_elems:
  "elems (snd (enq q x)) = (if length (elems q) < bound q then elems q @ [x] else elems q)"
  using enq_ok [of q x] enq_full [of q x] by (cases "length (elems q) < bound q") auto

lemma enq_success: "Successful (fst (enq q x)) \<longleftrightarrow> length (elems q) < bound q"
  using enq_ok [of q x] enq_full [of q x] by (cases "length (elems q) < bound q") auto

lemma enq_bound [simp]: "bound (snd (enq q x)) = bound q"
  using enq_ok [of q x] enq_full [of q x] by (cases "length (elems q) < bound q") auto

lemma deq_elems: "elems (snd (snd (deq q))) = tl (elems q)"
  using deq_ok [of q] deq_empty [of q] by (cases "elems q") auto

lemma deq_success: "Successful (fst (deq q)) \<longleftrightarrow> elems q \<noteq> []"
  using deq_ok [of q] deq_empty [of q] by (cases "elems q") auto

lemma deq_value: "fst (snd (deq q)) = (case elems q of [] \<Rightarrow> None | x # _ \<Rightarrow> Some x)"
  using deq_ok [of q] deq_empty [of q] by (cases "elems q") auto

lemma deq_bound [simp]: "bound (snd (snd (deq q))) = bound q"
  using deq_ok [of q] deq_empty [of q] by (cases "elems q") auto

lemma step_refines:
  obtains r q' where "queue_step enq deq q x = (r, q')" "bound q' = bound q"
    "fifo_step (bound q) (elems q) x = (r, elems q')"
proof (cases x)
  case (OpEnqueue y)
  show ?thesis
  proof (cases "length (elems q) < bound q")
    case True
    from enq_ok [OF this, of y] show ?thesis using that True OpEnqueue by auto
  next
    case False
    from enq_full [OF this, of y] show ?thesis using that False OpEnqueue by auto
  qed
next
  case OpDequeue
  show ?thesis
  proof (cases "elems q")
    case Nil
    from deq_empty [OF this] show ?thesis using that Nil OpDequeue by auto
  next
    case (Cons y ys)
    from deq_ok [OF this] show ?thesis using that Cons OpDequeue by auto
  qed
qed

lemma run_refines:
  "\<exists>rs q'. queue_run enq deq q xs = (rs, q') \<and> bound q' = bound q \<and>
     fifo_run (bound q) (elems q) xs = (rs, elems q')"
proof (induction xs arbitrary: q)
  case (Cons x xs)
  obtain r q1 where "queue_step enq deq q x = (r, q1)" "bound q1 = bound q"
    "fifo_step (bound q) (elems q) x = (r, elems q1)"
    using step_refines by metis
  then show ?case
    using Cons.IH [of q1] by auto
qed simp

end

sublocale bounded_queue \<subseteq> rq: result_queue "ConcurrentQueue B"
  "ConcurrentQueue_TryEnqueue B" "ConcurrentQueue_TryDequeue B" "ConcurrentQueue_Size B"
  contents bq_capacity
proof unfold_locales
  fix q :: 'q and x :: 'a and xs
  show "length (contents q) < bq_capacity q \<Longrightarrow>
      \<exists>q'. ConcurrentQueue_TryEnqueue B q x = (SuccessExecutionResult, q') \<and>
        contents q' = contents q @ [x] \<and> bq_capacity q' = bq_capacity q"
    using push_true [of q x] contents_push [of q x] capacity_push [of q x]
    by (auto simp: model_defs split: prod.splits)
  show "\<not> length (contents q) < bq_capacity q \<Longrightarrow>
      \<exists>r q'. ConcurrentQueue_TryEnqueue B q x = (r, q') \<and> \<not> Successful r \<and>
        contents q' = contents q \<and> bq_capacity q' = bq_capacity q"
    using push_true [of q x] contents_push [of q x] capacity_push [of q x]
    by (auto simp: model_defs split: prod.splits)
  show "contents q = x # xs \<Longrightarrow>
      \<exists>q'. ConcurrentQueue_TryDequeue B q = (SuccessExecutionResult, Some x, q') \<and>
        contents q' = xs \<and> bq_capacity q' = bq_capacity q"
    using pop_result [of q] contents_pop [of q] capacity_pop [of q]
    by (auto simp: model_defs split: prod.splits)
  show "contents q = [] \<Longrightarrow>
      \<exists>r q'. ConcurrentQueue_TryDequeue B q = (r, None, q') \<and> \<not> Successful r \<and>
        contents q' = [] \<and> bq_capacity q' = bq_capacity q"
    using pop_result [of q] contents_pop [of q] capacity_pop [of q]
    by (auto simp: model_defs split: prod.splits)
qed (simp_all add: model_defs)

context bounded_queue begin

lemma queue_contract: "result_queue (ConcurrentQueue B) (ConcurrentQueue_TryEnqueue B)
    (ConcurrentQueue_TryDequeue B) (ConcurrentQueue_Size B) contents bq_capacity"
  by (rule rq.result_queue_axioms)

end

section \<open>ConcurrentMap\<close>

definition SC_CONCURRENT_MAP_ENTRY_ALREADY_EXISTS :: StatusCode where
  "SC_CONCURRENT_MAP_ENTRY_ALREADY_EXISTS = MakeErrorCode 0x0004 0x0001"

definition SC_CONCURRENT_MAP_ENTRY_DOES_NOT_EXIST :: StatusCode where
  "SC_CONCURRENT_MAP_ENTRY_DOES_NOT_EXIST = MakeErrorCode 0x0004 0x0002"

text \<open>The second component is \<open>out_value\<close>, what the accessor points at after the insert.\<close>

definition ConcurrentMap_Insert ::
  "('h, 'k, 'v) tbb_hash_map \<Rightarrow> 'h \<Rightarrow> 'k \<times> 'v \<Rightarrow> ExecutionResult \<times> 'v option \<times> 'h" where
  "ConcurrentMap_Insert M h key_value =
     (let (inserted, h') = tbb_insert M h (fst key_value) (snd key_value);
          execution_result =
            (if \<not> inserted then FailureExecutionResult SC_CONCURRENT_MAP_ENTRY_ALREADY_EXISTS
             else SuccessExecutionResult)
      in (execution_result, tbb_find M h' (fst key_value), h'))"

definition ConcurrentMap_Find ::
  "('h, 'k, 'v) tbb_hash_map \<Rightarrow> 'h \<Rightarrow> 'k \<Rightarrow> ExecutionResult \<times> 'v option" where
  "ConcurrentMap_Find M h key =
     (case tbb_find M h key of
        None \<Rightarrow> (FailureExecutionResult SC_CONCURRENT_MAP_ENTRY_DOES_NOT_EXIST, None)
      | Some v \<Rightarrow> (SuccessExecutionResult, Some v))"

definition ConcurrentMap_Erase ::
  "('h, 'k, 'v) tbb_hash_map \<Rightarrow> 'h \<Rightarrow> 'k \<Rightarrow> ExecutionResult \<times> 'h" where
  "ConcurrentMap_Erase M h key =
     (let (erased, h') = tbb_erase M h key
      in (if \<not> erased then FailureExecutionResult SC_CONCURRENT_MAP_ENTRY_DOES_NOT_EXIST
          else SuccessExecutionResult, h'))"

definition ConcurrentMap_Keys ::
  "('h, 'k, 'v) tbb_hash_map \<Rightarrow> 'h \<Rightarrow> ExecutionResult \<times> 'k list" where
  "ConcurrentMap_Keys M h = (SuccessExecutionResult, tbb_keys M h)"

definition ConcurrentMap_Size :: "('h, 'k, 'v) tbb_hash_map \<Rightarrow> 'h \<Rightarrow> nat" where
  "ConcurrentMap_Size M h = tbb_size M h"

lemmas ConcurrentMap_defs [model_defs] = ConcurrentMap_Insert_def ConcurrentMap_Find_def
  ConcurrentMap_Erase_def ConcurrentMap_Keys_def ConcurrentMap_Size_def

text \<open>The contract: a finite map whose operations say whether the key was there.\<close>

locale result_map =
  fixes ins :: "'h \<Rightarrow> 'k \<times> 'v \<Rightarrow> ExecutionResult \<times> 'v option \<times> 'h"
    and fnd :: "'h \<Rightarrow> 'k \<Rightarrow> ExecutionResult \<times> 'v option"
    and era :: "'h \<Rightarrow> 'k \<Rightarrow> ExecutionResult \<times> 'h"
    and keys :: "'h \<Rightarrow> ExecutionResult \<times> 'k list"
    and msize :: "'h \<Rightarrow> nat"
    and view :: "'h \<Rightarrow> 'k \<Rightarrow> 'v option"
  assumes ins_new: "view h k = None \<Longrightarrow>
          \<exists>h'. ins h (k, v) = (SuccessExecutionResult, Some v, h') \<and> view h' = (view h)(k \<mapsto> v)"
    and ins_old: "view h k = Some w \<Longrightarrow>
          \<exists>h'. ins h (k, v) = (FailureExecutionResult SC_CONCURRENT_MAP_ENTRY_ALREADY_EXISTS,
                 Some w, h') \<and> view h' = view h"
    and fnd_view: "fnd h k =
          (case view h k of
             None \<Rightarrow> (FailureExecutionResult SC_CONCURRENT_MAP_ENTRY_DOES_NOT_EXIST, None)
           | Some v \<Rightarrow> (SuccessExecutionResult, Some v))"
    and era_view: "view (snd (era h k)) = (view h)(k := None)"
    and era_result: "fst (era h k) =
          (if view h k = None then FailureExecutionResult SC_CONCURRENT_MAP_ENTRY_DOES_NOT_EXIST
           else SuccessExecutionResult)"
    and keys_view: "\<exists>ks. keys h = (SuccessExecutionResult, ks) \<and>
          set ks = {k. view h k \<noteq> None} \<and> distinct ks"
    and msize_view: "msize h = card {k. view h k \<noteq> None}"
begin

lemma ins_view:
  "view (snd (snd (ins h (k, v)))) = (if view h k = None then (view h)(k \<mapsto> v) else view h)"
  using ins_new [of h k v] ins_old [of h k _ v] by (cases "view h k") auto

lemma ins_success: "Successful (fst (ins h (k, v))) \<longleftrightarrow> view h k = None"
  using ins_new [of h k v] ins_old [of h k _ v] by (cases "view h k") auto

lemma ins_value: "fst (snd (ins h (k, v))) = Some (case view h k of None \<Rightarrow> v | Some w \<Rightarrow> w)"
  using ins_new [of h k v] ins_old [of h k _ v] by (cases "view h k") auto

lemma fnd_ins: "fnd (snd (snd (ins h (k, v)))) k =
    (SuccessExecutionResult, Some (case view h k of None \<Rightarrow> v | Some w \<Rightarrow> w))"
  by (simp add: fnd_view ins_view split: option.split)

lemma fnd_era: "\<not> Successful (fst (fnd (snd (era h k)) k))"
  by (simp add: fnd_view era_view)

end

sublocale concurrent_hash_map \<subseteq> cm: result_map "ConcurrentMap_Insert M" "ConcurrentMap_Find M"
  "ConcurrentMap_Erase M" "ConcurrentMap_Keys M" "ConcurrentMap_Size M" "tbb_find M"
proof unfold_locales
  fix h :: 'h and k :: 'k and v w :: 'v
  show "tbb_find M h k = None \<Longrightarrow>
      \<exists>h'. ConcurrentMap_Insert M h (k, v) = (SuccessExecutionResult, Some v, h') \<and>
        tbb_find M h' = (tbb_find M h)(k \<mapsto> v)"
    using insert_true [of h k v] find_insert [of h k v]
    by (auto simp: model_defs split: prod.splits)
  show "tbb_find M h k = Some w \<Longrightarrow>
      \<exists>h'. ConcurrentMap_Insert M h (k, v) =
        (FailureExecutionResult SC_CONCURRENT_MAP_ENTRY_ALREADY_EXISTS, Some w, h') \<and>
        tbb_find M h' = tbb_find M h"
    using insert_true [of h k v] find_insert [of h k v]
    by (auto simp: model_defs split: prod.splits)
  show "tbb_find M (snd (ConcurrentMap_Erase M h k)) = (tbb_find M h)(k := None)"
    using find_erase [of h k] by (auto simp: model_defs split: prod.splits)
  show "fst (ConcurrentMap_Erase M h k) =
      (if tbb_find M h k = None
       then FailureExecutionResult SC_CONCURRENT_MAP_ENTRY_DOES_NOT_EXIST
       else SuccessExecutionResult)"
    using erase_true [of h k] by (auto simp: model_defs split: prod.splits)
qed (simp_all add: model_defs keys_find keys_distinct size_card)

context concurrent_hash_map begin

lemma map_contract: "result_map (ConcurrentMap_Insert M) (ConcurrentMap_Find M)
    (ConcurrentMap_Erase M) (ConcurrentMap_Keys M) (ConcurrentMap_Size M) (tbb_find M)"
  by (rule cm.result_map_axioms)

end

section \<open>Properties\<close>

text \<open>
  Any sequence of \<open>TryEnqueue\<close> and \<open>TryDequeue\<close> calls on a \<open>ConcurrentQueue\<close>
  answers like a first-in first-out list with the bound given to the constructor: elements
  come out in the order they went in, none is lost or invented, a full queue refuses and an
  empty one fails, and the size never exceeds the bound.
\<close>

theorem queue_runs_fifo:
  assumes "bounded_queue B contents cap"
  shows "\<exists>rs q. queue_run (ConcurrentQueue_TryEnqueue B) (ConcurrentQueue_TryDequeue B)
             (ConcurrentQueue B n) ops = (rs, q) \<and>
           fifo_run n [] ops = (rs, contents q) \<and>
           ConcurrentQueue_Size B q = length (contents q) \<and> ConcurrentQueue_Size B q \<le> n"
proof -
  have rq: "result_queue (ConcurrentQueue B) (ConcurrentQueue_TryEnqueue B)
      (ConcurrentQueue_TryDequeue B) (ConcurrentQueue_Size B) contents cap"
    using assms by (rule bounded_queue.queue_contract)
  obtain rs q where q: "queue_run (ConcurrentQueue_TryEnqueue B) (ConcurrentQueue_TryDequeue B)
      (ConcurrentQueue B n) ops = (rs, q)" "fifo_run n [] ops = (rs, contents q)"
    using result_queue.run_refines [OF rq, of "ConcurrentQueue B n" ops]
      result_queue.make_elems [OF rq, of n] result_queue.make_bound [OF rq, of n] by auto
  then show ?thesis
    using fifo_run_bound [of "[]" n ops] result_queue.qsize_elems [OF rq, of q] by auto
qed

theorem queue_runs_fifo_witness:
  "bounded_queue list_bq snd fst \<and>
   (\<exists>rs q. queue_run (ConcurrentQueue_TryEnqueue list_bq) (ConcurrentQueue_TryDequeue list_bq)
       (ConcurrentQueue list_bq 2)
       [OpEnqueue 5, OpEnqueue 6, OpEnqueue 7, OpDequeue, OpDequeue, OpDequeue] = (rs, q) \<and>
     rs = [Enqueued, Enqueued, Refused, Dequeued (5 :: nat), Dequeued 6, Refused] \<and>
     ConcurrentQueue_Size list_bq q \<le> 2)"
  using queue_runs_fifo [OF list_bq.bounded_queue_axioms, of 2
      "[OpEnqueue 5, OpEnqueue 6, OpEnqueue (7 :: nat), OpDequeue, OpDequeue, OpDequeue]"]
    list_bq.bounded_queue_axioms
  by auto

text \<open>
  \<open>ConcurrentMap\<close> is a finite map: \<open>Insert\<close> adds a missing key, leaves an
  existing entry alone and reports it, and in both cases hands back the value the map now
  holds, which \<open>Find\<close> returns afterwards; \<open>Erase\<close> removes exactly its key, and an
  erased key can be inserted again.
\<close>

theorem concurrent_map_laws:
  assumes "concurrent_hash_map M"
  shows "let (r, out, h1) = ConcurrentMap_Insert M h (k, v);
             (r2, h2) = ConcurrentMap_Erase M h1 k;
             (r3, out3, h3) = ConcurrentMap_Insert M h2 (k, w)
         in (Successful r \<longleftrightarrow> \<not> Successful (fst (ConcurrentMap_Find M h k))) \<and>
            ConcurrentMap_Find M h1 k = (SuccessExecutionResult, out) \<and>
            out = Some (case snd (ConcurrentMap_Find M h k) of None \<Rightarrow> v | Some old \<Rightarrow> old) \<and>
            r2 = SuccessExecutionResult \<and>
            ConcurrentMap_Find M h2 k =
              (FailureExecutionResult SC_CONCURRENT_MAP_ENTRY_DOES_NOT_EXIST, None) \<and>
            r3 = SuccessExecutionResult \<and> out3 = Some w \<and>
            (\<forall>j. j \<noteq> k \<longrightarrow> ConcurrentMap_Find M h3 j = ConcurrentMap_Find M h j)"
proof -
  have rm: "result_map (ConcurrentMap_Insert M) (ConcurrentMap_Find M) (ConcurrentMap_Erase M)
      (ConcurrentMap_Keys M) (ConcurrentMap_Size M) (tbb_find M)"
    using assms by (rule concurrent_hash_map.map_contract)
  obtain r out h1 where 1: "ConcurrentMap_Insert M h (k, v) = (r, out, h1)" by (cases rule: prod_cases3)
  obtain r2 h2 where 2: "ConcurrentMap_Erase M h1 k = (r2, h2)" by fastforce
  note ins = result_map.ins_view [OF rm, of h k v] result_map.ins_success [OF rm, of h k v]
    result_map.ins_value [OF rm, of h k v]
  have h2: "tbb_find M h2 = (tbb_find M h1)(k := None)"
    using result_map.era_view [OF rm, of h1 k] 2 by simp
  then obtain h3 where 3: "ConcurrentMap_Insert M h2 (k, w) = (SuccessExecutionResult, Some w, h3)"
    "tbb_find M h3 = (tbb_find M h2)(k \<mapsto> w)"
    using result_map.ins_new [OF rm, of h2 k w] by auto
  have h1: "tbb_find M h1 = (if tbb_find M h k = None then (tbb_find M h)(k \<mapsto> v) else tbb_find M h)"
    using ins(1) 1 by simp
  have "r2 = SuccessExecutionResult"
    using result_map.era_result [OF rm, of h1 k] 2 h1 by auto
  then show ?thesis
    using ins 1 2 3 h1 h2 by (auto simp: result_map.fnd_view [OF rm] split: option.splits)
qed

theorem concurrent_map_laws_witness:
  "concurrent_hash_map (al_tbb :: ((nat \<times> nat) list, nat, nat) tbb_hash_map) \<and>
   (let (r, out, h1) = ConcurrentMap_Insert al_tbb [(2, 20)] (2 :: nat, 30 :: nat)
    in \<not> Successful r \<and> out = Some 20 \<and> ConcurrentMap_Find al_tbb h1 2 = (SuccessExecutionResult, out))"
  using concurrent_map_laws [OF al_tbb.concurrent_hash_map_axioms,
      of "[(2, 20)]" "2 :: nat" "30 :: nat" 40] al_tbb.concurrent_hash_map_axioms
  by (auto simp: ConcurrentMap_Find_def al_tbb_def split: prod.splits)

end
