(* ===== verification/Auto_Expiry_Map.thy ===== *)
theory Auto_Expiry_Map
  imports Concurrent_Containers
begin

text \<open>
  The map whose entries expire: cc/core/common/auto_expiry_concurrent_map/src/
  auto_expiry_concurrent_map.h. Entries are shared pointers, so they live in a store and the
  concurrent map holds their addresses. The executor runs the garbage collector some time
  after it was scheduled, and the owner answers each deletion callback some time after the
  collector asked; both are pending until an event takes them. Times are nanoseconds of the
  steady clock. An access that extends the lifetime of an entry takes the lock of the entry
  shared although its thread holds it shared already; the C++ standard gives that no meaning
  for a \<open>std::shared_timed_mutex\<close>, while some platforms let the thread have the lock again.
  Which of the two holds is part of the state.
\<close>

section \<open>Entries\<close>

record 'v entry =
  en_entry :: 'v
  being_evicted :: bool
  is_evictable :: bool
  expiration_time :: Timestamp

definition seconds :: "size_t \<Rightarrow> Timestamp" where
  "seconds n = n * 1000000000"

definition SC_AUTO_EXPIRY_CONCURRENT_MAP_CANNOT_SCHEDULE :: StatusCode where
  "SC_AUTO_EXPIRY_CONCURRENT_MAP_CANNOT_SCHEDULE = MakeErrorCode 0x0015 0x0001"

definition SC_AUTO_EXPIRY_CONCURRENT_MAP_INVALID_EXPIRATION :: StatusCode where
  "SC_AUTO_EXPIRY_CONCURRENT_MAP_INVALID_EXPIRATION = MakeErrorCode 0x0015 0x0002"

definition SC_AUTO_EXPIRY_CONCURRENT_MAP_ENTRY_BEING_DELETED :: StatusCode where
  "SC_AUTO_EXPIRY_CONCURRENT_MAP_ENTRY_BEING_DELETED = MakeErrorCode 0x0015 0x0004"

definition SC_AUTO_EXPIRY_CONCURRENT_MAP_STOP_INCOMPLETE :: StatusCode where
  "SC_AUTO_EXPIRY_CONCURRENT_MAP_STOP_INCOMPLETE = MakeErrorCode 0x0015 0x0005"

definition AutoExpiryConcurrentMapEntry :: "Timestamp \<Rightarrow> 'v \<Rightarrow> size_t \<Rightarrow> 'v entry" where
  "AutoExpiryConcurrentMapEntry now v expiration_in_seconds =
     \<lparr>en_entry = v, being_evicted = False, is_evictable = True,
      expiration_time = now + seconds expiration_in_seconds\<rparr>"

text \<open>
  \<open>ExtendExpiration\<close> is only called by threads that hold the lock of the entry shared;
  \<open>again\<close> says whether they can take it shared again.
\<close>

definition ExtendExpiration ::
  "bool \<Rightarrow> Timestamp \<Rightarrow> 'v entry \<Rightarrow> size_t \<Rightarrow> cpp_fault + (ExecutionResult \<times> 'v entry)" where
  "ExtendExpiration again now e expiration_seconds =
     (if expiration_seconds = 0
      then Inr (FailureExecutionResult SC_AUTO_EXPIRY_CONCURRENT_MAP_INVALID_EXPIRATION, e)
      else if \<not> again then Inl UndefinedBehaviour
      else if being_evicted e
      then Inr (FailureExecutionResult SC_AUTO_EXPIRY_CONCURRENT_MAP_ENTRY_BEING_DELETED, e)
      else Inr (SuccessExecutionResult, e\<lparr>expiration_time := now + seconds expiration_seconds\<rparr>))"

definition IsExpired :: "Timestamp \<Rightarrow> 'v entry \<Rightarrow> bool" where
  "IsExpired now e \<longleftrightarrow> expiration_time e < now"

section \<open>The map\<close>

text \<open>
  \<open>em_store\<close> holds the entries by address; \<open>em_gc\<close> is the number of collector runs
  the executor still has to start, \<open>em_calls\<close> are the deletion callbacks that were handed
  out and not answered yet, and \<open>em_cancel\<close> says whether \<open>current_cancellation_callback_\<close>
  has been set. The counter of pending callbacks counts entries in memory, so it is a
  natural number here. \<open>em_again\<close> says whether a thread can take a shared lock it holds.
\<close>

record ('h, 'k, 'v) expiry_map =
  em_again :: bool
  em_map :: 'h
  em_store :: "'v entry list"
  em_lifetime :: size_t
  em_extend :: bool
  em_block :: bool
  em_pending :: nat
  em_running :: bool
  em_cancel :: bool
  em_gc :: nat
  em_calls :: "('k \<times> nat) list"

definition AutoExpiryConcurrentMap ::
  "('h, 'k, nat) tbb_hash_map \<Rightarrow> bool \<Rightarrow> size_t \<Rightarrow> bool \<Rightarrow> bool \<Rightarrow> ('h, 'k, 'v) expiry_map" where
  "AutoExpiryConcurrentMap M again lifetime extend_on_access block_eviction =
     \<lparr>em_again = again, em_map = tbb_new M, em_store = [], em_lifetime = lifetime, em_extend = extend_on_access, em_block = block_eviction,
      em_pending = 0, em_running = False, em_cancel = False, em_gc = 0, em_calls = []\<rparr>"

definition set_entry :: "('h, 'k, 'v) expiry_map \<Rightarrow> nat \<Rightarrow> 'v entry \<Rightarrow> ('h, 'k, 'v) expiry_map" where
  "set_entry m a e = m\<lparr>em_store := (em_store m)[a := e]\<rparr>"

text \<open>An access to an entry under its shared lock, which extends its lifetime if asked to.\<close>

definition extend_entry ::
  "Timestamp \<Rightarrow> bool \<Rightarrow> ('h, 'k, 'v) expiry_map \<Rightarrow> nat \<Rightarrow> cpp_fault + ('h, 'k, 'v) expiry_map" where
  "extend_entry now wanted m a =
     (if wanted then bindE (ExtendExpiration (em_again m) now (em_store m ! a) (em_lifetime m)) (\<lambda>(_, e). Inr (set_entry m a e))
      else Inr m)"

text \<open>\<open>ScheduleFor\<close> of the executor returns \<open>scheduled\<close>.\<close>

definition ScheduleGarbageCollection ::
  "ExecutionResult \<Rightarrow> ('h, 'k, 'v) expiry_map \<Rightarrow> ExecutionResult \<times> ('h, 'k, 'v) expiry_map" where
  "ScheduleGarbageCollection scheduled m =
     (if \<not> em_running m then (FailureExecutionResult SC_AUTO_EXPIRY_CONCURRENT_MAP_CANNOT_SCHEDULE, m)
      else if Successful scheduled then (scheduled, m\<lparr>em_gc := em_gc m + 1, em_cancel := True\<rparr>)
      else (scheduled, m))"

definition ExpiryMap_Init :: "('h, 'k, 'v) expiry_map \<Rightarrow> ExecutionResult" where
  "ExpiryMap_Init m = SuccessExecutionResult"

definition ExpiryMap_Run ::
  "ExecutionResult \<Rightarrow> ('h, 'k, 'v) expiry_map \<Rightarrow> ExecutionResult \<times> ('h, 'k, 'v) expiry_map" where
  "ExpiryMap_Run scheduled m = ScheduleGarbageCollection scheduled (m\<lparr>em_running := True\<rparr>)"

text \<open>
  The polling of \<open>Stop\<close>: each observation is the number of pending callbacks, and the
  time waited after the following sleep. Without a further observation it still waits.
\<close>

fun Stop_wait :: "(size_t \<times> nat) list \<Rightarrow> ExecutionResult option" where
  "Stop_wait [] = None"
| "Stop_wait ((pending, waited) # rest) =
     (if pending > 0 then
        if waited \<ge> 10 * 1000000000
        then Some (FailureExecutionResult SC_AUTO_EXPIRY_CONCURRENT_MAP_STOP_INCOMPLETE)
        else Stop_wait rest
      else Some SuccessExecutionResult)"

text \<open>
  \<open>Stop\<close> up to the polling. Calling an empty \<open>std::function\<close> throws. The cancellation
  is in time if the collector run it is for has not started.
\<close>

definition ExpiryMap_Stop ::
  "bool \<Rightarrow> ('h, 'k, 'v) expiry_map \<Rightarrow> cpp_fault + ('h, 'k, 'v) expiry_map" where
  "ExpiryMap_Stop in_time m =
     (let m1 = m\<lparr>em_running := False\<rparr>
      in if \<not> em_cancel m1 then Inl ThrowsException
         else Inr (if in_time then m1\<lparr>em_gc := em_gc m1 - 1\<rparr> else m1))"

definition ExpiryMap_Insert ::
  "('h, 'k, nat) tbb_hash_map \<Rightarrow> Timestamp \<Rightarrow> ('h, 'k, 'v) expiry_map \<Rightarrow> 'k \<times> 'v \<Rightarrow>
   cpp_fault + (ExecutionResult \<times> 'v option \<times> ('h, 'k, 'v) expiry_map)" where
  "ExpiryMap_Insert M now m key_value =
     (let a = length (em_store m);
          record = AutoExpiryConcurrentMapEntry now (snd key_value) (em_lifetime m);
          (execution_result, out, h) = ConcurrentMap_Insert M (em_map m) (fst key_value, a);
          m1 = m\<lparr>em_map := h, em_store := em_store m @ [record]\<rparr>;
          b = the out; e = em_store m1 ! b
      in if \<not> Successful execution_result then
           if execution_result \<noteq> FailureExecutionResult SC_CONCURRENT_MAP_ENTRY_ALREADY_EXISTS
           then Inr (execution_result, None, m1)
           else if em_block m \<and> being_evicted e
           then Inr (FailureExecutionResult SC_AUTO_EXPIRY_CONCURRENT_MAP_ENTRY_BEING_DELETED, None, m1)
           else bindE (extend_entry now (em_extend m \<and> \<not> being_evicted e) m1 b) (\<lambda>m2.
                  Inr (execution_result, Some (en_entry (em_store m2 ! b)), m2))
         else Inr (execution_result, Some (en_entry e), m1))"

definition ExpiryMap_Find ::
  "('h, 'k, nat) tbb_hash_map \<Rightarrow> Timestamp \<Rightarrow> ('h, 'k, 'v) expiry_map \<Rightarrow> 'k \<Rightarrow>
   cpp_fault + (ExecutionResult \<times> 'v option \<times> ('h, 'k, 'v) expiry_map)" where
  "ExpiryMap_Find M now m key =
     (case ConcurrentMap_Find M (em_map m) key of
        (execution_result, Some a) \<Rightarrow>
          (let e = em_store m ! a
           in if em_block m \<and> being_evicted e
              then Inr (FailureExecutionResult SC_AUTO_EXPIRY_CONCURRENT_MAP_ENTRY_BEING_DELETED, None, m)
              else bindE (extend_entry now (em_extend m \<and> \<not> being_evicted e) m a) (\<lambda>m1.
                     Inr (execution_result, Some (en_entry (em_store m1 ! a)), m1)))
      | (execution_result, None) \<Rightarrow> Inr (execution_result, None, m))"

definition ExpiryMap_Erase ::
  "('h, 'k, nat) tbb_hash_map \<Rightarrow> ('h, 'k, 'v) expiry_map \<Rightarrow> 'k \<Rightarrow> ExecutionResult \<times> ('h, 'k, 'v) expiry_map" where
  "ExpiryMap_Erase M m key =
     (let (r, h) = ConcurrentMap_Erase M (em_map m) key in (r, m\<lparr>em_map := h\<rparr>))"

definition ExpiryMap_Keys ::
  "('h, 'k, nat) tbb_hash_map \<Rightarrow> ('h, 'k, 'v) expiry_map \<Rightarrow> ExecutionResult \<times> 'k list" where
  "ExpiryMap_Keys M m = ConcurrentMap_Keys M (em_map m)"

definition ExpiryMap_Size :: "('h, 'k, nat) tbb_hash_map \<Rightarrow> ('h, 'k, 'v) expiry_map \<Rightarrow> nat" where
  "ExpiryMap_Size M m = ConcurrentMap_Size M (em_map m)"

text \<open>\<open>DisableEviction\<close> and \<open>EnableEviction\<close> differ in the flag they store.\<close>

definition set_evictable ::
  "bool \<Rightarrow> ('h, 'k, nat) tbb_hash_map \<Rightarrow> Timestamp \<Rightarrow> ('h, 'k, 'v) expiry_map \<Rightarrow> 'k \<Rightarrow>
   cpp_fault + (ExecutionResult \<times> ('h, 'k, 'v) expiry_map)" where
  "set_evictable flag M now m key =
     (case ConcurrentMap_Find M (em_map m) key of
        (execution_result, Some a) \<Rightarrow>
          (let e = em_store m ! a
           in if being_evicted e
              then Inr (FailureExecutionResult SC_AUTO_EXPIRY_CONCURRENT_MAP_ENTRY_BEING_DELETED, m)
              else bindE (extend_entry now (em_extend m) m a) (\<lambda>m1.
                     Inr (execution_result, set_entry m1 a ((em_store m1 ! a)\<lparr>is_evictable := flag\<rparr>))))
      | (execution_result, None) \<Rightarrow> Inr (execution_result, m))"

definition ExpiryMap_DisableEviction ::
  "('h, 'k, nat) tbb_hash_map \<Rightarrow> Timestamp \<Rightarrow> ('h, 'k, 'v) expiry_map \<Rightarrow> 'k \<Rightarrow>
   cpp_fault + (ExecutionResult \<times> ('h, 'k, 'v) expiry_map)" where
  "ExpiryMap_DisableEviction = set_evictable False"

definition ExpiryMap_EnableEviction ::
  "('h, 'k, nat) tbb_hash_map \<Rightarrow> Timestamp \<Rightarrow> ('h, 'k, 'v) expiry_map \<Rightarrow> 'k \<Rightarrow>
   cpp_fault + (ExecutionResult \<times> ('h, 'k, 'v) expiry_map)" where
  "ExpiryMap_EnableEviction = set_evictable True"

section \<open>The collector\<close>

text \<open>
  The loop over the keys; \<open>locked\<close> are the entries whose lock another thread holds. It
  collects the elements to remove and marks them.
\<close>

fun collect ::
  "('h, 'k, nat) tbb_hash_map \<Rightarrow> Timestamp \<Rightarrow> (nat \<Rightarrow> bool) \<Rightarrow> ('h, 'k, 'v) expiry_map \<Rightarrow> 'k list \<Rightarrow>
   ('k \<times> nat) list \<times> ('h, 'k, 'v) expiry_map" where
  "collect M now locked m [] = ([], m)"
| "collect M now locked m (key # keys) =
     (case ConcurrentMap_Find M (em_map m) key of
        (r, None) \<Rightarrow> collect M now locked m keys
      | (r, Some a) \<Rightarrow>
          (let e = em_store m ! a
           in if locked a then collect M now locked m keys
              else if \<not> is_evictable e \<or> \<not> IsExpired now e then collect M now locked m keys
              else let (els, m') = collect M now locked (set_entry m a (e\<lparr>being_evicted := True\<rparr>)) keys
                   in ((key, a) # els, m')))"

definition RunGarbageCollector ::
  "('h, 'k, nat) tbb_hash_map \<Rightarrow> Timestamp \<Rightarrow> (nat \<Rightarrow> bool) \<Rightarrow> ExecutionResult \<Rightarrow> ('h, 'k, 'v) expiry_map \<Rightarrow>
   ('h, 'k, 'v) expiry_map" where
  "RunGarbageCollector M now locked scheduled m =
     (let (execution_result, keys) = ConcurrentMap_Keys M (em_map m)
      in if \<not> Successful execution_result then snd (ScheduleGarbageCollection scheduled m)
         else let (elements_to_remove, m1) = collect M now locked m keys
              in if length elements_to_remove = 0 then snd (ScheduleGarbageCollection scheduled m1)
                 else m1\<lparr>em_pending := length elements_to_remove,
                         em_calls := em_calls m1 @ elements_to_remove\<rparr>)"

definition clear_evicted :: "('h, 'k, 'v) expiry_map \<Rightarrow> nat \<Rightarrow> ('h, 'k, 'v) expiry_map" where
  "clear_evicted m a = set_entry m a ((em_store m ! a)\<lparr>being_evicted := False\<rparr>)"

definition OnRemoveEntryFromCacheLogged ::
  "('h, 'k, nat) tbb_hash_map \<Rightarrow> ExecutionResult \<Rightarrow> ('h, 'k, 'v) expiry_map \<Rightarrow> 'k \<times> nat \<Rightarrow> bool \<Rightarrow>
   ('h, 'k, 'v) expiry_map" where
  "OnRemoveEntryFromCacheLogged M scheduled m key_value_pair can_delete =
     (let m1 = (if can_delete then
                  let (execution_result, h) = ConcurrentMap_Erase M (em_map m) (fst key_value_pair);
                      m' = m\<lparr>em_map := h\<rparr>
                  in if \<not> Successful execution_result then clear_evicted m' (snd key_value_pair) else m'
                else clear_evicted m (snd key_value_pair));
          before = em_pending m1;
          m2 = m1\<lparr>em_pending := before - 1\<rparr>
      in if before \<noteq> 1 then m2 else snd (ScheduleGarbageCollection scheduled m2))"

section \<open>Events\<close>

datatype ('k, 'v) expiry_event =
    EvInsert Timestamp 'k 'v
  | EvFind Timestamp 'k
  | EvErase 'k
  | EvDisable Timestamp 'k
  | EvEnable Timestamp 'k
  | EvCollect Timestamp "nat \<Rightarrow> bool" ExecutionResult
  | EvAnswer nat bool ExecutionResult

text \<open>
  The collector runs if it is scheduled; the owner answers one of the callbacks it has. The
  last argument of both events is what the executor answers if \<open>ScheduleFor\<close> is called.
\<close>

fun expiry_step ::
  "('h, 'k, nat) tbb_hash_map \<Rightarrow> ('h, 'k, 'v) expiry_map \<Rightarrow> ('k, 'v) expiry_event \<Rightarrow>
   cpp_fault + ('h, 'k, 'v) expiry_map" where
  "expiry_step M m (EvInsert now k v) = bindE (ExpiryMap_Insert M now m (k, v)) (\<lambda>(_, _, m'). Inr m')"
| "expiry_step M m (EvFind now k) = bindE (ExpiryMap_Find M now m k) (\<lambda>(_, _, m'). Inr m')"
| "expiry_step M m (EvErase k) = Inr (snd (ExpiryMap_Erase M m k))"
| "expiry_step M m (EvDisable now k) = bindE (ExpiryMap_DisableEviction M now m k) (\<lambda>(_, m'). Inr m')"
| "expiry_step M m (EvEnable now k) = bindE (ExpiryMap_EnableEviction M now m k) (\<lambda>(_, m'). Inr m')"
| "expiry_step M m (EvCollect now locked scheduled) =
     Inr (if em_gc m = 0 then m
          else RunGarbageCollector M now locked scheduled (m\<lparr>em_gc := em_gc m - 1\<rparr>))"
| "expiry_step M m (EvAnswer i can_delete scheduled) =
     Inr (if i < length (em_calls m)
          then OnRemoveEntryFromCacheLogged M scheduled
                 (m\<lparr>em_calls := take i (em_calls m) @ drop (Suc i) (em_calls m)\<rparr>) (em_calls m ! i) can_delete
          else m)"

fun expiry_run ::
  "('h, 'k, nat) tbb_hash_map \<Rightarrow> ('h, 'k, 'v) expiry_map \<Rightarrow> ('k, 'v) expiry_event list \<Rightarrow>
   cpp_fault + ('h, 'k, 'v) expiry_map" where
  "expiry_run M m [] = Inr m"
| "expiry_run M m (ev # evs) = bindE (expiry_step M m ev) (\<lambda>m'. expiry_run M m' evs)"

text \<open>Whether the executor accepts the collector in an event, if it is asked to.\<close>

fun accepts :: "('k, 'v) expiry_event \<Rightarrow> bool" where
  "accepts (EvCollect now locked scheduled) \<longleftrightarrow> Successful scheduled"
| "accepts (EvAnswer i can_delete scheduled) \<longleftrightarrow> Successful scheduled"
| "accepts _ \<longleftrightarrow> True"

section \<open>What the collector does\<close>

locale expiry_backend = concurrent_hash_map M for M :: "('h, 'k, nat) tbb_hash_map"
begin

abbreviation view :: "('h, 'k, 'v) expiry_map \<Rightarrow> 'k \<Rightarrow> nat option" where
  "view m \<equiv> tbb_find M (em_map m)"

lemma find_view: "ConcurrentMap_Find M (em_map m) k =
    (case view m k of None \<Rightarrow> (FailureExecutionResult SC_CONCURRENT_MAP_ENTRY_DOES_NOT_EXIST, None)
     | Some a \<Rightarrow> (SuccessExecutionResult, Some a))"
  by (simp add: ConcurrentMap_Find_def)

definition doomed :: "Timestamp \<Rightarrow> (nat \<Rightarrow> bool) \<Rightarrow> ('h, 'k, 'v) expiry_map \<Rightarrow> 'k \<Rightarrow> nat \<Rightarrow> bool" where
  "doomed now locked m k a \<longleftrightarrow>
     view m k = Some a \<and> \<not> locked a \<and> is_evictable (em_store m ! a) \<and> IsExpired now (em_store m ! a)"

lemma doomed_mark:
  assumes "a < length (em_store m)"
  shows "doomed now locked (set_entry m a ((em_store m ! a)\<lparr>being_evicted := True\<rparr>)) k b = doomed now locked m k b"
  using assms by (auto simp: doomed_def set_entry_def IsExpired_def nth_list_update)

definition mark :: "nat set \<Rightarrow> 'v entry list \<Rightarrow> 'v entry list" where
  "mark A st = map (\<lambda>b. if b \<in> A then (st ! b)\<lparr>being_evicted := True\<rparr> else st ! b) [0..<length st]"

lemma mark_update: "a < length st \<Longrightarrow> mark A (st[a := (st ! a)\<lparr>being_evicted := True\<rparr>]) = mark (insert a A) st"
  by (auto simp: mark_def nth_list_update)

lemma collect_spec:
  assumes "\<forall>k a. view m k = Some a \<longrightarrow> a < length (em_store m)" "distinct keys"
  shows "\<exists>els. collect M now locked m keys = (els, m\<lparr>em_store := mark (snd ` set els) (em_store m)\<rparr>) \<and>
     set els = {(k, a). k \<in> set keys \<and> doomed now locked m k a} \<and> distinct (map fst els)"
  using assms
proof (induction keys arbitrary: m)
  case Nil
  have "mark {} (em_store m) = em_store m" by (simp add: mark_def map_nth)
  then show ?case by simp
next
  case (Cons key keys)
  have IH: "\<exists>els. collect M now locked m keys = (els, m\<lparr>em_store := mark (snd ` set els) (em_store m)\<rparr>) \<and>
     set els = {(k, a). k \<in> set keys \<and> doomed now locked m k a} \<and> distinct (map fst els)"
    using Cons.prems by (intro Cons.IH) simp_all
  show ?case
  proof (cases "\<exists>a. doomed now locked m key a")
    case False
    then have "collect M now locked m (key # keys) = collect M now locked m keys"
      by (auto simp: find_view doomed_def Let_def split: option.splits)
    moreover have "{(k, a). k \<in> set (key # keys) \<and> doomed now locked m k a} =
        {(k, a). k \<in> set keys \<and> doomed now locked m k a}" using False by auto
    ultimately show ?thesis using IH by simp
  next
    case True
    then obtain a where a: "doomed now locked m key a" ..
    then have len: "a < length (em_store m)" using Cons.prems(1) by (auto simp: doomed_def)
    define m1 where "m1 = set_entry m a ((em_store m ! a)\<lparr>being_evicted := True\<rparr>)"
    obtain els where els: "collect M now locked m1 keys = (els, m1\<lparr>em_store := mark (snd ` set els) (em_store m1)\<rparr>)"
      "set els = {(k, b). k \<in> set keys \<and> doomed now locked m1 k b}" "distinct (map fst els)"
      using Cons.IH [of m1] Cons.prems by (auto simp: m1_def set_entry_def)
    have "collect M now locked m (key # keys) =
        ((key, a) # els, m\<lparr>em_store := mark (insert a (snd ` set els)) (em_store m)\<rparr>)"
      using a els(1) mark_update [OF len]
      by (simp add: find_view doomed_def Let_def m1_def set_entry_def)
    moreover have "set els = {(k, b). k \<in> set keys \<and> doomed now locked m k b}"
      using els(2) doomed_mark [OF len] by (simp add: m1_def)
    moreover have "key \<notin> fst ` set els" using els(2) Cons.prems(2) by auto
    moreover have "{(k, b). k \<in> set (key # keys) \<and> doomed now locked m k b} =
        insert (key, a) {(k, b). k \<in> set keys \<and> doomed now locked m k b}"
      using a by (auto simp: doomed_def)
    ultimately show ?thesis using els(3) by simp
  qed
qed

section \<open>Invariants\<close>

definition valid :: "('h, 'k, 'v) expiry_map \<Rightarrow> bool" where
  "valid m \<longleftrightarrow> (\<forall>k a. view m k = Some a \<longrightarrow> a < length (em_store m))"

text \<open>
  At most one thing keeps the collector going: it is scheduled, or callbacks are outstanding.
  It is alive as long as there is one.
\<close>

definition sched_inv :: "('h, 'k, 'v) expiry_map \<Rightarrow> bool" where
  "sched_inv m \<longleftrightarrow> em_running m \<and> em_cancel m \<and> em_pending m = length (em_calls m) \<and>
     (em_gc m = 0 \<or> em_gc m = 1 \<and> em_calls m = [])"

definition alive :: "('h, 'k, 'v) expiry_map \<Rightarrow> bool" where
  "alive m \<longleftrightarrow> em_gc m \<noteq> 0 \<or> em_calls m \<noteq> []"

text \<open>
  As long as no user erases an entry, the entries marked for eviction are the ones whose
  callback is outstanding.
\<close>

definition evict_inv :: "('h, 'k, 'v) expiry_map \<Rightarrow> bool" where
  "evict_inv m \<longleftrightarrow>
     valid m \<and> (\<forall>k k' a. view m k = Some a \<longrightarrow> view m k' = Some a \<longrightarrow> k = k') \<and>
     distinct (map fst (em_calls m)) \<and>
     (\<forall>k a. (k, a) \<in> set (em_calls m) \<longleftrightarrow> view m k = Some a \<and> being_evicted (em_store m ! a)) \<and>
     (\<forall>k a. view m k = Some a \<longrightarrow> being_evicted (em_store m ! a) \<longrightarrow> is_evictable (em_store m ! a))"

text \<open>What an access to the map leaves alone.\<close>

definition calm :: "('h, 'k, 'v) expiry_map \<Rightarrow> ('h, 'k, 'v) expiry_map \<Rightarrow> bool" where
  "calm m m' \<longleftrightarrow>
     em_running m' = em_running m \<and> em_cancel m' = em_cancel m \<and> em_pending m' = em_pending m \<and> em_gc m' = em_gc m \<and>
     em_calls m' = em_calls m \<and> length (em_store m) \<le> length (em_store m') \<and>
     (\<forall>b < length (em_store m). being_evicted (em_store m' ! b) = being_evicted (em_store m ! b) \<and>
        en_entry (em_store m' ! b) = en_entry (em_store m ! b))"

lemma calm_sched: "calm m m' \<Longrightarrow> sched_inv m' = sched_inv m" "calm m m' \<Longrightarrow> alive m' = alive m"
  by (simp_all add: calm_def sched_inv_def alive_def)

lemma set_entry_calm:
  assumes "being_evicted e = being_evicted (em_store m ! b)" "en_entry e = en_entry (em_store m ! b)"
  shows "calm m (set_entry m b e)" "em_map (set_entry m b e) = em_map m"
    "length (em_store (set_entry m b e)) = length (em_store m)"
  using assms by (auto simp: calm_def set_entry_def nth_list_update_if)

text \<open>The time of an entry may have been changed, and nothing else.\<close>

definition touched :: "nat \<Rightarrow> ('h, 'k, 'v) expiry_map \<Rightarrow> ('h, 'k, 'v) expiry_map \<Rightarrow> bool" where
  "touched a m m' \<longleftrightarrow> m' = m \<or> (\<exists>t. m' = set_entry m a ((em_store m ! a)\<lparr>expiration_time := t\<rparr>))"

lemma touched_refl: "touched a m m"
  by (simp add: touched_def)

lemma extend_touched: "extend_entry now wanted m a = Inr m' \<Longrightarrow> touched a m m'"
  by (auto simp: extend_entry_def ExtendExpiration_def touched_def bindE_Inr_iff set_entry_def list_update_id split: if_splits)

lemma touched_calm:
  assumes "touched a m m'"
  shows "calm m m'" "em_map m' = em_map m" "length (em_store m') = length (em_store m)"
    "\<forall>b < length (em_store m). is_evictable (em_store m' ! b) = is_evictable (em_store m ! b)"
  using assms by (auto simp: touched_def calm_def set_entry_def nth_list_update_if split: if_splits)

lemma find_touched:
  assumes "expiry_step M m (EvFind now k) = Inr m'"
  obtains a where "touched a m m'"
proof (cases "view m k")
  case (Some a)
  then have "m' = m \<or> (\<exists>wanted. extend_entry now wanted m a = Inr m')"
    using assms by (auto simp: ExpiryMap_Find_def find_view Let_def bindE_Inr_iff split: if_splits)
  then show ?thesis using that [of a] extend_touched touched_refl by blast
next
  case None
  then have "m' = m" using assms by (simp add: ExpiryMap_Find_def find_view)
  then show ?thesis using that touched_refl by blast
qed

lemma insert_result:
  "\<exists>h. ConcurrentMap_Insert M (em_map m) (k, a) =
     (if view m k = None then SuccessExecutionResult
      else FailureExecutionResult SC_CONCURRENT_MAP_ENTRY_ALREADY_EXISTS,
      Some (case view m k of None \<Rightarrow> a | Some b \<Rightarrow> b), h) \<and>
     tbb_find M h = (if view m k = None then (view m)(k \<mapsto> a) else view m)"
  using insert_true [of "em_map m" k a] find_insert [of "em_map m" k a]
  by (auto simp: ConcurrentMap_Insert_def split: prod.splits option.splits)

definition inserted :: "Timestamp \<Rightarrow> 'k \<Rightarrow> 'v \<Rightarrow> ('h, 'k, 'v) expiry_map \<Rightarrow> ('h, 'k, 'v) expiry_map \<Rightarrow> bool" where
  "inserted now k v m m1 \<longleftrightarrow>
     m1 = m\<lparr>em_map := em_map m1, em_store := em_store m @ [AutoExpiryConcurrentMapEntry now v (em_lifetime m)]\<rparr> \<and>
     view m1 = (if view m k = None then (view m)(k \<mapsto> length (em_store m)) else view m)"

lemma insertedD:
  assumes "inserted now k v m m1"
  shows "em_store m1 = em_store m @ [AutoExpiryConcurrentMapEntry now v (em_lifetime m)]" "em_calls m1 = em_calls m"
    "view m1 = (if view m k = None then (view m)(k \<mapsto> length (em_store m)) else view m)"
    "sched_inv m1 = sched_inv m" "alive m1 = alive m" "em_again m1 = em_again m" "em_extend m1 = em_extend m"
proof -
  have m1: "m1 = m\<lparr>em_map := em_map m1, em_store := em_store m @ [AutoExpiryConcurrentMapEntry now v (em_lifetime m)]\<rparr>"
    using assms unfolding inserted_def by (rule conjunct1)
  show "em_store m1 = em_store m @ [AutoExpiryConcurrentMapEntry now v (em_lifetime m)]" "em_calls m1 = em_calls m"
    "sched_inv m1 = sched_inv m" "alive m1 = alive m" "em_again m1 = em_again m" "em_extend m1 = em_extend m"
    by (subst m1, simp add: sched_inv_def alive_def)+
  show "view m1 = (if view m k = None then (view m)(k \<mapsto> length (em_store m)) else view m)"
    using assms unfolding inserted_def by (rule conjunct2)
qed

lemma insert_step:
  obtains m1 b wanted where "inserted now k v m m1"
    "ExpiryMap_Insert M now m (k, v) =
       (if view m k = None then Inr (SuccessExecutionResult, Some v, m1)
        else if em_block m \<and> being_evicted (em_store m1 ! b)
        then Inr (FailureExecutionResult SC_AUTO_EXPIRY_CONCURRENT_MAP_ENTRY_BEING_DELETED, None, m1)
        else bindE (extend_entry now (em_extend m \<and> \<not> being_evicted (em_store m1 ! b)) m1 b) (\<lambda>m2.
          Inr (FailureExecutionResult SC_CONCURRENT_MAP_ENTRY_ALREADY_EXISTS, Some (en_entry (em_store m2 ! b)), m2)))"
proof -
  obtain h where h: "ConcurrentMap_Insert M (em_map m) (k, length (em_store m)) =
     (if view m k = None then SuccessExecutionResult
      else FailureExecutionResult SC_CONCURRENT_MAP_ENTRY_ALREADY_EXISTS,
      Some (case view m k of None \<Rightarrow> length (em_store m) | Some b \<Rightarrow> b), h)"
    "tbb_find M h = (if view m k = None then (view m)(k \<mapsto> length (em_store m)) else view m)"
    using insert_result by blast
  let ?m1 = "m\<lparr>em_map := h, em_store := em_store m @ [AutoExpiryConcurrentMapEntry now v (em_lifetime m)]\<rparr>"
  have "inserted now k v m ?m1" using h(2) by (simp add: inserted_def)
  then show ?thesis
    using that [of ?m1 "the (view m k)"] h(1)
    by (cases "view m k") (simp_all add: ExpiryMap_Insert_def Let_def AutoExpiryConcurrentMapEntry_def)
qed

lemma insert_touched:
  assumes "expiry_step M m (EvInsert now k v) = Inr m'"
  obtains m1 b where "inserted now k v m m1" "touched b m1 m'"
proof -
  obtain m1 b wanted where i: "inserted now k v m m1"
    "ExpiryMap_Insert M now m (k, v) =
       (if view m k = None then Inr (SuccessExecutionResult, Some v, m1)
        else if em_block m \<and> being_evicted (em_store m1 ! b)
        then Inr (FailureExecutionResult SC_AUTO_EXPIRY_CONCURRENT_MAP_ENTRY_BEING_DELETED, None, m1)
        else bindE (extend_entry now (em_extend m \<and> \<not> being_evicted (em_store m1 ! b)) m1 b) (\<lambda>m2.
          Inr (FailureExecutionResult SC_CONCURRENT_MAP_ENTRY_ALREADY_EXISTS, Some (en_entry (em_store m2 ! b)), m2)))"
    by (rule insert_step)
  have "m' = m1 \<or> (\<exists>wanted. extend_entry now wanted m1 b = Inr m')"
    using assms i(2) by (auto simp: bindE_Inr_iff split: if_splits)
  then show ?thesis using that [OF i(1), of b] extend_touched touched_refl by blast
qed

lemma evictable_step:
  assumes "set_evictable flag M now m k = Inr (r, m')"
  shows "m' = m \<or>
   (\<exists>a e. view m k = Some a \<and> \<not> being_evicted (em_store m ! a) \<and>
      e = (em_store m ! a)\<lparr>is_evictable := flag, expiration_time := expiration_time e\<rparr> \<and> m' = set_entry m a e)"
proof (cases "view m k")
  case (Some a)
  show ?thesis
  proof (cases "being_evicted (em_store m ! a) \<or> length (em_store m) \<le> a")
    case False
    then obtain m1 where "extend_entry now (em_extend m) m a = Inr m1" "m' = set_entry m1 a ((em_store m1 ! a)\<lparr>is_evictable := flag\<rparr>)"
      using assms Some by (auto simp: set_evictable_def find_view Let_def bindE_Inr_iff)
    from extend_touched [OF this(1)] this(2) False
    have "\<exists>t. m' = set_entry m a ((em_store m ! a)\<lparr>expiration_time := t, is_evictable := flag\<rparr>)"
      by (auto simp: touched_def set_entry_def intro: exI [of _ "expiration_time (em_store m ! a)"])
    then obtain t where t: "m' = set_entry m a ((em_store m ! a)\<lparr>expiration_time := t, is_evictable := flag\<rparr>)" ..
    show ?thesis
      by (intro disjI2 exI [of _ a] exI [of _ "(em_store m ! a)\<lparr>expiration_time := t, is_evictable := flag\<rparr>"])
        (use Some False t in simp)
  next
    case True
    then have "m' = m"
    proof
      assume "length (em_store m) \<le> a"
      then have n: "set_entry m a e = m" for e by (simp add: set_entry_def list_update_beyond)
      then have "extend_entry now wanted m a = Inr m1 \<Longrightarrow> m1 = m" for wanted m1
        using extend_touched [of now wanted m a m1] by (auto simp: touched_def)
      then show ?thesis using assms Some n by (auto simp: set_evictable_def find_view Let_def bindE_Inr_iff split: if_splits)
    qed (use assms Some in \<open>simp add: set_evictable_def find_view Let_def\<close>)
    then show ?thesis by simp
  qed
qed (use assms in \<open>simp add: set_evictable_def find_view\<close>)

text \<open>Outcomes of the two asynchronous steps.\<close>

definition rescheduled :: "ExecutionResult \<Rightarrow> ('h, 'k, 'v) expiry_map \<Rightarrow> ('h, 'k, 'v) expiry_map" where
  "rescheduled scheduled m = (if Successful scheduled then m\<lparr>em_gc := em_gc m + 1, em_cancel := True\<rparr> else m)"

lemma rescheduled_fields [simp]:
  "em_map (rescheduled scheduled m) = em_map m" "em_store (rescheduled scheduled m) = em_store m"
  "em_running (rescheduled scheduled m) = em_running m" "em_pending (rescheduled scheduled m) = em_pending m"
  "em_calls (rescheduled scheduled m) = em_calls m"
  "em_gc (rescheduled scheduled m) = (if Successful scheduled then em_gc m + 1 else em_gc m)"
  "em_cancel (rescheduled scheduled m) = (Successful scheduled \<or> em_cancel m)"
  "em_again (rescheduled scheduled m) = em_again m" "em_extend (rescheduled scheduled m) = em_extend m"
  by (simp_all add: rescheduled_def)

lemma collector_step:
  assumes "valid m" "em_running m"
  obtains els where "set els = {(k, a). doomed now locked m k a}" "distinct (map fst els)"
    "RunGarbageCollector M now locked scheduled m =
       (if els = [] then rescheduled scheduled m
        else m\<lparr>em_store := mark (snd ` set els) (em_store m), em_pending := length els,
               em_calls := em_calls m @ els\<rparr>)"
proof -
  obtain els where els: "collect M now locked m (tbb_keys M (em_map m)) =
      (els, m\<lparr>em_store := mark (snd ` set els) (em_store m)\<rparr>)"
    "set els = {(k, a). k \<in> set (tbb_keys M (em_map m)) \<and> doomed now locked m k a}" "distinct (map fst els)"
    using collect_spec [of m "tbb_keys M (em_map m)" now locked] assms(1) keys_distinct
    by (auto simp: valid_def)
  have all: "set els = {(k, a). doomed now locked m k a}"
    using els(2) keys_find [of "em_map m"] by (auto simp: doomed_def)
  have "mark {} (em_store m) = em_store m" by (simp add: mark_def map_nth)
  then have "RunGarbageCollector M now locked scheduled m =
       (if els = [] then rescheduled scheduled m
        else m\<lparr>em_store := mark (snd ` set els) (em_store m), em_pending := length els,
               em_calls := em_calls m @ els\<rparr>)"
    using els(1) assms(2)
    by (simp add: RunGarbageCollector_def ConcurrentMap_Keys_def ScheduleGarbageCollection_def rescheduled_def)
  then show ?thesis by (rule that [OF all els(3)])
qed

lemma answer_step:
  assumes "em_running m"
  obtains m1 where "OnRemoveEntryFromCacheLogged M scheduled m (k, a) can_delete =
       (if em_pending m \<noteq> 1 then m1\<lparr>em_pending := em_pending m - 1\<rparr>
        else rescheduled scheduled (m1\<lparr>em_pending := 0\<rparr>))"
    "em_running m1 = em_running m" "em_cancel m1 = em_cancel m" "em_pending m1 = em_pending m" "em_gc m1 = em_gc m" "em_calls m1 = em_calls m"
    "can_delete \<longrightarrow> view m k \<noteq> None \<longrightarrow> m1 = m\<lparr>em_map := em_map m1\<rparr> \<and> view m1 = (view m)(k := None)"
    "\<not> can_delete \<longrightarrow> m1 = clear_evicted m a"
    "view m1 = view m \<or> view m1 = (view m)(k := None)" "length (em_store m1) = length (em_store m)"
proof -
  obtain r h where e: "ConcurrentMap_Erase M (em_map m) k = (r, h)" by fastforce
  have r: "Successful r \<longleftrightarrow> view m k \<noteq> None" "tbb_find M h = (view m)(k := None)"
    using erase_true [of "em_map m" k] find_erase [of "em_map m" k] e
    by (auto simp: ConcurrentMap_Erase_def split: prod.splits if_splits)
  define m1 where "m1 = (if can_delete then
      if \<not> Successful r then clear_evicted (m\<lparr>em_map := h\<rparr>) a else m\<lparr>em_map := h\<rparr> else clear_evicted m a)"
  show ?thesis
  proof (rule that [of m1])
    show "OnRemoveEntryFromCacheLogged M scheduled m (k, a) can_delete =
       (if em_pending m \<noteq> 1 then m1\<lparr>em_pending := em_pending m - 1\<rparr>
        else rescheduled scheduled (m1\<lparr>em_pending := 0\<rparr>))"
      using e assms
      by (simp add: OnRemoveEntryFromCacheLogged_def m1_def Let_def clear_evicted_def set_entry_def
          ScheduleGarbageCollection_def rescheduled_def)
  qed (use r in \<open>auto simp: m1_def clear_evicted_def set_entry_def\<close>)
qed

lemma step_sched:
  assumes "valid m" "sched_inv m" "expiry_step M m ev = Inr m'"
  shows "valid m' \<and> sched_inv m' \<and> (accepts ev \<longrightarrow> alive m \<longrightarrow> alive m') \<and> (\<not> alive m \<longrightarrow> \<not> alive m')"
proof (cases ev)
  case (EvInsert now k v)
  obtain m1 a where i: "inserted now k v m m1" "touched a m1 m'"
    using insert_touched [of m now k v m'] assms(3) EvInsert by auto
  have "valid m1"
    using assms(1) insertedD(1,3) [OF i(1)] by (auto simp: valid_def less_Suc_eq split: if_splits)
  then show ?thesis
    using touched_calm(2,3) [OF i(2)] calm_sched [OF touched_calm(1) [OF i(2)]] insertedD(4,5) [OF i(1)] assms(2)
    by (simp add: valid_def)
next
  case (EvFind now k)
  obtain a where f: "touched a m m'" using find_touched [of m now k m'] assms(3) EvFind by auto
  show ?thesis
    using touched_calm(2,3) [OF f] calm_sched [OF touched_calm(1) [OF f]] assms by (simp add: valid_def)
next
  case (EvErase k)
  then show ?thesis
    using assms find_erase [of "em_map m" k]
    by (auto simp: ExpiryMap_Erase_def ConcurrentMap_Erase_def valid_def sched_inv_def alive_def split: prod.splits if_splits)
next
  case (EvDisable now k)
  then obtain r where "set_evictable False M now m k = Inr (r, m')"
    using assms(3) by (auto simp: ExpiryMap_DisableEviction_def bindE_Inr_iff)
  from evictable_step [OF this] show ?thesis
    using assms(1,2) by (auto simp: valid_def sched_inv_def alive_def set_entry_def)
next
  case (EvEnable now k)
  then obtain r where "set_evictable True M now m k = Inr (r, m')"
    using assms(3) by (auto simp: ExpiryMap_EnableEviction_def bindE_Inr_iff)
  from evictable_step [OF this] show ?thesis
    using assms(1,2) by (auto simp: valid_def sched_inv_def alive_def set_entry_def)
next
  case (EvCollect now locked scheduled)
  show ?thesis
  proof (cases "em_gc m = 0")
    case False
    then have none: "em_calls m = []" "em_gc m = 1" "em_running m" using assms(2) by (auto simp: sched_inv_def split: if_splits)
    have v: "valid (m\<lparr>em_gc := 0\<rparr>)" "em_running (m\<lparr>em_gc := 0\<rparr>)" using assms(1) none by (simp_all add: valid_def)
    obtain els where els: "RunGarbageCollector M now locked scheduled (m\<lparr>em_gc := 0\<rparr>) =
       (if els = [] then rescheduled scheduled (m\<lparr>em_gc := 0\<rparr>)
        else (m\<lparr>em_gc := 0\<rparr>)\<lparr>em_store := mark (snd ` set els) (em_store (m\<lparr>em_gc := 0\<rparr>)), em_pending := length els,
               em_calls := em_calls (m\<lparr>em_gc := 0\<rparr>) @ els\<rparr>)"
      by (rule collector_step [OF v])
    have m': "m' = RunGarbageCollector M now locked scheduled (m\<lparr>em_gc := 0\<rparr>)" using assms(3) EvCollect none by simp
    show ?thesis
      using EvCollect none(1) assms(1,2) unfolding m' els
      by (cases "els = []") (simp_all add: valid_def sched_inv_def alive_def mark_def none)
  qed (use EvCollect assms in auto)
next
  case (EvAnswer i can_delete scheduled)
  show ?thesis
  proof (cases "i < length (em_calls m)")
    case True
    let ?m = "m\<lparr>em_calls := take i (em_calls m) @ drop (Suc i) (em_calls m)\<rparr>"
    obtain k a where c: "em_calls m ! i = (k, a)" by fastforce
    have run: "em_running ?m" using assms(2) by (simp add: sched_inv_def)
    obtain m1 where m1: "OnRemoveEntryFromCacheLogged M scheduled ?m (k, a) can_delete =
       (if em_pending ?m \<noteq> 1 then m1\<lparr>em_pending := em_pending ?m - 1\<rparr> else rescheduled scheduled (m1\<lparr>em_pending := 0\<rparr>))"
      "em_running m1 = em_running ?m" "em_cancel m1 = em_cancel ?m" "em_pending m1 = em_pending ?m" "em_gc m1 = em_gc ?m" "em_calls m1 = em_calls ?m"
      "view m1 = view ?m \<or> view m1 = (view ?m)(k := None)" "length (em_store m1) = length (em_store ?m)"
      by (rule answer_step [OF run])
    have "valid m1" using assms(1) m1(7,8) by (auto simp: valid_def split: if_splits)
    moreover have "em_gc m = 0" "em_pending m = length (em_calls m)" "em_running m" "em_cancel m"
      using assms(2) True by (auto simp: sched_inv_def)
    moreover have "m' = OnRemoveEntryFromCacheLogged M scheduled ?m (k, a) can_delete" using assms(3) EvAnswer True c by simp
    ultimately show ?thesis
      using EvAnswer True m1 by (cases "length (em_calls m) = 1") (auto simp: valid_def sched_inv_def alive_def le_Suc_eq)
  qed (use EvAnswer assms in auto)
qed

lemma calm_evict:
  assumes "evict_inv m" "calm m m'" "em_map m' = em_map m" "length (em_store m') = length (em_store m)"
    "\<forall>b < length (em_store m). being_evicted (em_store m ! b) \<longrightarrow> is_evictable (em_store m' ! b) = is_evictable (em_store m ! b)"
  shows "evict_inv m'"
proof -
  have "b < length (em_store m)" if "view m k = Some b" for k b
    using assms(1) that by (auto simp: evict_inv_def valid_def)
  then show ?thesis
    using assms unfolding evict_inv_def valid_def calm_def by (simp, blast)
qed

lemma insert_evict:
  assumes inv: "evict_inv m" and m1: "inserted now k v m m1"
  shows "evict_inv m1"
proof -
  note st = insertedD(1,2) [OF m1] and view1 = insertedD(3) [OF m1]
  have old: "b < length (em_store m)" if "view m j = Some b" for j b
    using inv that by (auto simp: evict_inv_def valid_def)
  have nth: "em_store m1 ! b = em_store m ! b" if "b < length (em_store m)" for b
    using that by (simp add: st nth_append)
  have new: "\<not> being_evicted (em_store m1 ! length (em_store m))"
    by (simp add: st AutoExpiryConcurrentMapEntry_def)
  show ?thesis
  proof (cases "view m k")
    case (Some a)
    then have "view m1 = view m" using view1 by simp
    then show ?thesis
      using inv old nth unfolding evict_inv_def valid_def st by (simp, metis less_Suc_eq)
  next
    case None
    then have v1: "view m1 j = Some b \<longleftrightarrow> (if j = k then b = length (em_store m) else view m j = Some b)" for j b
      using view1 by auto
    have "valid m1" using old v1 unfolding valid_def st by (auto simp: less_Suc_eq split: if_splits)
    moreover have "\<forall>j j' b. view m1 j = Some b \<longrightarrow> view m1 j' = Some b \<longrightarrow> j = j'"
      using inv old unfolding v1 evict_inv_def by (metis less_irrefl)
    moreover have "\<forall>j b. (j, b) \<in> set (em_calls m1) \<longleftrightarrow> view m1 j = Some b \<and> being_evicted (em_store m1 ! b)"
    proof (intro allI)
      fix j b
      show "(j, b) \<in> set (em_calls m1) \<longleftrightarrow> view m1 j = Some b \<and> being_evicted (em_store m1 ! b)"
      proof (cases "j = k")
        case True
        then show ?thesis using inv None new v1 unfolding evict_inv_def st by auto
      next
        case False
        then show ?thesis using inv old nth v1 unfolding evict_inv_def st(2) by auto
      qed
    qed
    moreover have "is_evictable (em_store m1 ! b)" if "view m1 j = Some b" "being_evicted (em_store m1 ! b)" for j b
      using that inv old nth new v1 unfolding evict_inv_def by (auto split: if_splits)
    moreover have "distinct (map fst (em_calls m1))" using inv unfolding evict_inv_def st(2) by simp
    ultimately show ?thesis unfolding evict_inv_def by blast
  qed
qed

lemma collect_evict:
  assumes inv: "evict_inv m" and none: "em_calls m = []" and run: "em_running m"
  shows "evict_inv (RunGarbageCollector M now locked scheduled m)"
proof -
  have "valid m" using inv by (simp add: evict_inv_def)
  then obtain els where els: "set els = {(k, a). doomed now locked m k a}" "distinct (map fst els)"
    "RunGarbageCollector M now locked scheduled m =
       (if els = [] then rescheduled scheduled m
        else m\<lparr>em_store := mark (snd ` set els) (em_store m), em_pending := length els,
               em_calls := em_calls m @ els\<rparr>)"
    by (rule collector_step [OF _ run])
  show ?thesis
  proof (cases "els = []")
    case True
    then show ?thesis using els(3) inv none by (simp add: evict_inv_def valid_def)
  next
    case False
    have len: "a < length (em_store m)" if "view m k = Some a" for k a
      using inv that by (auto simp: evict_inv_def valid_def)
    have fresh: "\<not> being_evicted (em_store m ! a)" if "view m k = Some a" for k a
      using inv that none by (auto simp: evict_inv_def)
    have one: "k = k'" if "view m k = Some a" "view m k' = Some a" for k k' a
      using inv that unfolding evict_inv_def by blast
    have d: "view m k = Some a \<and> is_evictable (em_store m ! a)" if "(k, a) \<in> set els" for k a
      using els(1) that by (simp add: doomed_def)
    have mem: "a \<in> snd ` set els \<longleftrightarrow> (k, a) \<in> set els" if "view m k = Some a" for k a
    proof
      assume "a \<in> snd ` set els"
      then obtain k' where "(k', a) \<in> set els" by auto
      then show "(k, a) \<in> set els" using one [OF that, of k'] d [of k' a] by simp
    qed force
    define m' where "m' = RunGarbageCollector M now locked scheduled m"
    have m': "view m' = view m" "em_calls m' = els" "em_store m' = mark (snd ` set els) (em_store m)"
      using els(3) False none by (simp_all add: m'_def)
    have nth: "em_store m' ! a = (if (k, a) \<in> set els then (em_store m ! a)\<lparr>being_evicted := True\<rparr> else em_store m ! a)"
      if "view m k = Some a" for k a
      using len [OF that] mem [OF that] by (simp add: mark_def m')
    have "valid m'" using len unfolding valid_def m' by (simp add: mark_def)
    moreover have "\<forall>k k' a. view m' k = Some a \<longrightarrow> view m' k' = Some a \<longrightarrow> k = k'" using one unfolding m' by blast
    moreover have "(k, a) \<in> set (em_calls m') \<longleftrightarrow> view m' k = Some a \<and> being_evicted (em_store m' ! a)" for k a
      using d [of k a] nth [of k a] fresh [of k a] unfolding m'(1,2) by (cases "(k, a) \<in> set els") auto
    moreover have "is_evictable (em_store m' ! a)" if "view m' k = Some a" "being_evicted (em_store m' ! a)" for k a
      using that d [of k a] nth [of k a] fresh [of k a] unfolding m'(1) by (cases "(k, a) \<in> set els") auto
    ultimately show ?thesis using els(2) unfolding m'_def [symmetric] evict_inv_def m'(2) by blast
  qed
qed

lemma answer_evict:
  assumes inv: "evict_inv m" and run: "em_running m" and i: "i < length (em_calls m)"
  shows "evict_inv (OnRemoveEntryFromCacheLogged M scheduled
    (m\<lparr>em_calls := take i (em_calls m) @ drop (Suc i) (em_calls m)\<rparr>) (em_calls m ! i) can_delete)"
proof -
  let ?m = "m\<lparr>em_calls := take i (em_calls m) @ drop (Suc i) (em_calls m)\<rparr>"
  obtain k a where c: "em_calls m ! i = (k, a)" by fastforce
  have run': "em_running ?m" using run by simp
  obtain m1 where m1: "OnRemoveEntryFromCacheLogged M scheduled ?m (k, a) can_delete =
       (if em_pending ?m \<noteq> 1 then m1\<lparr>em_pending := em_pending ?m - 1\<rparr> else rescheduled scheduled (m1\<lparr>em_pending := 0\<rparr>))"
    "em_calls m1 = em_calls ?m"
    "can_delete \<longrightarrow> view ?m k \<noteq> None \<longrightarrow> m1 = ?m\<lparr>em_map := em_map m1\<rparr> \<and> view m1 = (view ?m)(k := None)"
    "\<not> can_delete \<longrightarrow> m1 = clear_evicted ?m a"
    by (rule answer_step [OF run'])
  have dist: "distinct (map fst (em_calls m))" using inv by (simp add: evict_inv_def)
  have mem: "(k, a) \<in> set (em_calls m)" using i c by (metis nth_mem)
  then have k: "view m k = Some a" using inv by (auto simp: evict_inv_def)
  then have a: "a < length (em_store m)" using inv by (auto simp: evict_inv_def valid_def)
  have one: "j = k" if "view m j = Some a" for j using inv k that unfolding evict_inv_def by blast
  have calls: "set (em_calls m1) = set (em_calls m) - {(k, a)}" 
    using erase_nth_set(1) [OF distinct_map [THEN iffD1, THEN conjunct1, OF dist] i] c m1(2) by simp
  have calls_dist: "distinct (map fst (em_calls m1))"
    using erase_nth_set(2) [OF dist, of i] i m1(2) by (simp add: take_map drop_map)
  have other: "j = k" if "(j, a) \<in> set (em_calls m)" for j using one inv that unfolding evict_inv_def by blast
  have "evict_inv m1"
  proof (cases can_delete)
    case True
    then have m1': "m1 = ?m\<lparr>em_map := em_map m1\<rparr>" "view m1 = (view m)(k := None)" using m1(3) k by auto
    have st: "em_store m1 = em_store m" by (subst m1'(1)) simp
    have same: "b = a" if "(k, b) \<in> set (em_calls m)" for b using inv k that unfolding evict_inv_def by simp
    show ?thesis
      using inv calls calls_dist same unfolding evict_inv_def valid_def m1'(2) st by auto
  next
    case False
    then have m1': "view m1 = view m" "em_store m1 = (em_store m)[a := (em_store m ! a)\<lparr>being_evicted := False\<rparr>]"
      using m1(4) by (simp_all add: clear_evicted_def set_entry_def)
    have nth: "em_store m1 ! b = (if b = a then (em_store m ! a)\<lparr>being_evicted := False\<rparr> else em_store m ! b)" for b
      using a by (simp add: m1'(2) nth_list_update)
    have "valid m1" using inv by (simp add: evict_inv_def valid_def m1')
    moreover have "(j, b) \<in> set (em_calls m1) \<longleftrightarrow> view m1 j = Some b \<and> being_evicted (em_store m1 ! b)" for j b
      using inv calls other [of j] unfolding evict_inv_def m1'(1) nth by (cases "b = a") auto
    ultimately show ?thesis
      using inv calls_dist unfolding evict_inv_def m1'(1) nth by (auto split: if_splits)
  qed
  then show ?thesis unfolding c m1(1) by (simp add: evict_inv_def valid_def)
qed

lemma evictable_evict:
  assumes "evict_inv m" "set_evictable flag M now m k = Inr (r, m')"
  shows "evict_inv m'"
  using evictable_step [OF assms(2)]
proof
  assume "\<exists>a e. view m k = Some a \<and> \<not> being_evicted (em_store m ! a) \<and>
      e = (em_store m ! a)\<lparr>is_evictable := flag, expiration_time := expiration_time e\<rparr> \<and> m' = set_entry m a e"
  then obtain a e where e: "\<not> being_evicted (em_store m ! a)"
      "e = (em_store m ! a)\<lparr>is_evictable := flag, expiration_time := expiration_time e\<rparr>" "m' = set_entry m a e" by blast
  have flags: "being_evicted e = being_evicted (em_store m ! a)" "en_entry e = en_entry (em_store m ! a)"
    by (subst e(2), simp)+
  show ?thesis unfolding e(3)
    by (rule calm_evict [OF assms(1) set_entry_calm [OF flags]])
      (use e(1) in \<open>auto simp: set_entry_def nth_list_update_if\<close>)
qed (simp add: assms)

lemma step_evict:
  assumes "evict_inv m" "sched_inv m" "\<forall>k. ev \<noteq> EvErase k" "expiry_step M m ev = Inr m'"
  shows "evict_inv m'"
proof (cases ev)
  case (EvInsert now k v)
  obtain m1 a where i: "inserted now k v m m1" "touched a m1 m'"
    using insert_touched [of m now k v m'] assms(4) EvInsert by auto
  show ?thesis
    by (rule calm_evict [OF insert_evict [OF assms(1) i(1)] touched_calm(1-3) [OF i(2)]])
      (use touched_calm(4) [OF i(2)] in simp)
next
  case (EvFind now k)
  obtain a where f: "touched a m m'" using find_touched [of m now k m'] assms(4) EvFind by auto
  show ?thesis
    by (rule calm_evict [OF assms(1) touched_calm(1-3) [OF f]]) (use touched_calm(4) [OF f] in simp)
next
  case (EvCollect now locked scheduled)
  have "evict_inv (m\<lparr>em_gc := em_gc m - 1\<rparr>)" using assms(1) by (simp add: evict_inv_def valid_def)
  then show ?thesis
    using collect_evict [of "m\<lparr>em_gc := em_gc m - 1\<rparr>" now locked scheduled] assms EvCollect
    by (auto simp: sched_inv_def split: if_splits)
next
  case (EvAnswer i can_delete scheduled)
  then show ?thesis using answer_evict [of m i scheduled can_delete] assms(1,2,4) by (auto simp: sched_inv_def split: if_splits)
qed (use assms evictable_evict in \<open>auto simp: ExpiryMap_DisableEviction_def ExpiryMap_EnableEviction_def bindE_Inr_iff\<close>)

text \<open>An entry that is not evictable, and that no outstanding callback is about.\<close>

definition pinned :: "('h, 'k, 'v) expiry_map \<Rightarrow> 'k \<Rightarrow> nat \<Rightarrow> 'v \<Rightarrow> bool" where
  "pinned m k a v \<longleftrightarrow>
     valid m \<and> view m k = Some a \<and> (\<forall>j. view m j = Some a \<longrightarrow> j = k) \<and>
     \<not> is_evictable (em_store m ! a) \<and> \<not> being_evicted (em_store m ! a) \<and> en_entry (em_store m ! a) = v \<and>
     (\<forall>(j, b) \<in> set (em_calls m). j \<noteq> k \<and> b \<noteq> a)"

lemma pinnedD:
  assumes "pinned m k a v"
  shows "a < length (em_store m)" "view m k = Some a" "view m j = Some a \<Longrightarrow> j = k"
    "view m j = Some b \<Longrightarrow> b < length (em_store m)" "(j, b) \<in> set (em_calls m) \<Longrightarrow> j \<noteq> k \<and> b \<noteq> a"
  using assms unfolding pinned_def valid_def by blast+

lemma pinned_calm:
  assumes "pinned m k a v" "calm m m'" "em_map m' = em_map m" "length (em_store m') = length (em_store m)"
    "is_evictable (em_store m' ! a) = is_evictable (em_store m ! a)"
  shows "pinned m' k a v"
  using assms pinnedD(1) [OF assms(1)] unfolding pinned_def valid_def calm_def by simp

lemma pinned_evictable:
  assumes "pinned m k a v" "j \<noteq> k \<or> \<not> flag" "set_evictable flag M now m j = Inr (r, m')"
  shows "pinned m' k a v"
  using evictable_step [OF assms(3)]
proof
  assume "\<exists>b e. view m j = Some b \<and> \<not> being_evicted (em_store m ! b) \<and>
      e = (em_store m ! b)\<lparr>is_evictable := flag, expiration_time := expiration_time e\<rparr> \<and> m' = set_entry m b e"
  then obtain b e where e: "view m j = Some b"
      "e = (em_store m ! b)\<lparr>is_evictable := flag, expiration_time := expiration_time e\<rparr>" "m' = set_entry m b e" by blast
  have flags: "being_evicted e = being_evicted (em_store m ! b)" "en_entry e = en_entry (em_store m ! b)"
    "is_evictable e = flag" by (subst e(2), simp)+
  have "is_evictable (em_store (set_entry m b e) ! a) = is_evictable (em_store m ! a)"
  proof (cases "b = a")
    case True
    then have "j = k" using pinnedD(3) [OF assms(1), of j] e(1) by simp
    then show ?thesis using assms(1,2) flags(3) True pinnedD(1) [OF assms(1)] by (simp add: set_entry_def pinned_def)
  qed (simp add: set_entry_def)
  then show ?thesis unfolding e(3) by (rule pinned_calm [OF assms(1) set_entry_calm [OF flags(1,2)]])
qed (simp add: assms)

lemma pinned_insert:
  assumes pin: "pinned m k a v" and m1: "inserted now j w m m1"
  shows "pinned m1 k a v"
proof -
  note st = insertedD(1,2) [OF m1] and view1 = insertedD(3) [OF m1]
  have a: "em_store m1 ! a = em_store m ! a" using pinnedD(1) [OF pin] by (simp add: st nth_append)
  have "b < length (em_store m1)" if "view m1 i = Some b" for i b
    using that view1 pinnedD(4) [OF pin, of i b] by (auto simp: st split: if_splits)
  moreover have "i = k" if "view m1 i = Some a" for i
    using that view1 pinnedD(1) [OF pin] pinnedD(3) [OF pin, of i] by (auto split: if_splits)
  moreover have "view m1 k = Some a" using view1 pinnedD(2) [OF pin] by auto
  ultimately show ?thesis
    using pin unfolding pinned_def valid_def a st(2) by blast
qed

lemma pinned_collect:
  assumes pin: "pinned m k a v" and run: "em_running m"
  shows "pinned (RunGarbageCollector M now locked scheduled m) k a v"
proof -
  have "valid m" using pin by (simp add: pinned_def)
  then obtain els where els: "set els = {(k, a). doomed now locked m k a}"
    "RunGarbageCollector M now locked scheduled m =
       (if els = [] then rescheduled scheduled m
        else m\<lparr>em_store := mark (snd ` set els) (em_store m), em_pending := length els,
               em_calls := em_calls m @ els\<rparr>)"
    by (rule collector_step [OF _ run])
  have out: "j \<noteq> k \<and> b \<noteq> a" if "(j, b) \<in> set els" for j b
  proof -
    have "view m j = Some b" "is_evictable (em_store m ! b)" using that els(1) by (simp_all add: doomed_def)
    moreover have "\<not> is_evictable (em_store m ! a)" using pin by (simp add: pinned_def)
    ultimately show ?thesis using pinnedD(2) [OF pin] by auto
  qed
  have "a \<notin> snd ` set els"
  proof
    assume "a \<in> snd ` set els"
    then obtain j where "(j, a) \<in> set els" by auto
    then show False using out by blast
  qed
  then have st: "mark (snd ` set els) (em_store m) ! a = em_store m ! a"
    using pinnedD(1) [OF pin] by (simp add: mark_def)
  show ?thesis
  proof (cases "els = []")
    case True
    then show ?thesis using els(2) pin by (simp add: pinned_def valid_def)
  next
    case False
    have "length (mark (snd ` set els) (em_store m)) = length (em_store m)" by (simp add: mark_def)
    moreover have "\<forall>(j, b) \<in> set (em_calls m @ els). j \<noteq> k \<and> b \<noteq> a" using out pinnedD(5) [OF pin] by auto
    ultimately show ?thesis using False els(2) pin st unfolding pinned_def valid_def by simp
  qed
qed

lemma pinned_answer:
  assumes pin: "pinned m k a v" and run: "em_running m" and i: "i < length (em_calls m)"
  shows "pinned (OnRemoveEntryFromCacheLogged M scheduled
    (m\<lparr>em_calls := take i (em_calls m) @ drop (Suc i) (em_calls m)\<rparr>) (em_calls m ! i) can_delete) k a v"
proof -
  let ?m = "m\<lparr>em_calls := take i (em_calls m) @ drop (Suc i) (em_calls m)\<rparr>"
  obtain j b where c: "em_calls m ! i = (j, b)" by fastforce
  obtain r h where e: "ConcurrentMap_Erase M (em_map m) j = (r, h)" by fastforce
  then have h: "tbb_find M h = (view m)(j := None)"
    using find_erase [of "em_map m" j] by (auto simp: ConcurrentMap_Erase_def split: prod.splits if_splits)
  have jb: "j \<noteq> k" "b \<noteq> a" using pinnedD(5) [OF pin, of j b] nth_mem [OF i] c by simp_all
  have calls: "set (take i (em_calls m) @ drop (Suc i) (em_calls m)) \<subseteq> set (em_calls m)"
    by (simp add: set_take_subset set_drop_subset)
  define m' where "m' = OnRemoveEntryFromCacheLogged M scheduled ?m (em_calls m ! i) can_delete"
  have m': "em_store m' ! a = em_store m ! a" "length (em_store m') = length (em_store m)"
    "em_calls m' = take i (em_calls m) @ drop (Suc i) (em_calls m)" "em_map m' = em_map m \<or> em_map m' = h"
    using i c e jb(2) run
    by (simp_all add: m'_def OnRemoveEntryFromCacheLogged_def ScheduleGarbageCollection_def clear_evicted_def
        set_entry_def Let_def)
  have "view m' k = Some a" using m'(4) h jb(1) pinnedD(2) [OF pin] by auto
  moreover have "view m x = Some y" if "view m' x = Some y" for x y using that m'(4) h by (auto split: if_splits)
  moreover have "\<forall>(x, y) \<in> set (em_calls m'). x \<noteq> k \<and> y \<noteq> a"
    using calls pinnedD(5) [OF pin] unfolding m'(3) by blast
  ultimately show ?thesis
    using pin unfolding m'_def [symmetric] pinned_def valid_def m'(1,2) by blast
qed

lemma step_pinned:
  assumes "pinned m k a v" "em_running m" "ev \<noteq> EvErase k" "\<forall>now. ev \<noteq> EvEnable now k" "expiry_step M m ev = Inr m'"
  shows "pinned m' k a v"
proof (cases ev)
  case (EvInsert now j w)
  obtain m1 b where i: "inserted now j w m m1" "touched b m1 m'"
    using insert_touched [of m now j w m'] assms(5) EvInsert by auto
  have p1: "pinned m1 k a v" by (rule pinned_insert [OF assms(1) i(1)])
  show ?thesis
    by (rule pinned_calm [OF p1 touched_calm(1-3) [OF i(2)]]) (use touched_calm(4) [OF i(2)] pinnedD(1) [OF p1] in simp)
next
  case (EvFind now j)
  obtain b where f: "touched b m m'" using find_touched [of m now j m'] assms(5) EvFind by auto
  show ?thesis
    by (rule pinned_calm [OF assms(1) touched_calm(1-3) [OF f]])
      (use touched_calm(4) [OF f] pinnedD(1) [OF assms(1)] in simp)
next
  case (EvErase j)
  then have "view m' = (view m)(j := None)" "em_store m' = em_store m" "em_calls m' = em_calls m"
    using find_erase [of "em_map m" j] assms(5)
    by (auto simp: ExpiryMap_Erase_def ConcurrentMap_Erase_def split: prod.splits if_splits)
  then show ?thesis using assms(1,3) EvErase unfolding pinned_def valid_def by simp
next
  case (EvCollect now locked scheduled)
  have "pinned (m\<lparr>em_gc := em_gc m - 1\<rparr>) k a v" using assms(1) by (simp add: pinned_def valid_def)
  then show ?thesis
    using pinned_collect [of "m\<lparr>em_gc := em_gc m - 1\<rparr>" k a v now locked scheduled] assms(1,2,5) EvCollect
    by (simp split: if_splits)
next
  case (EvAnswer i can_delete scheduled)
  then show ?thesis using pinned_answer [OF assms(1,2), of i scheduled can_delete] assms(1,5)
    by (cases "i < length (em_calls m)") simp_all
next
  case (EvDisable now j)
  then show ?thesis using assms(5) pinned_evictable [OF assms(1), of j False now]
    by (auto simp: ExpiryMap_DisableEviction_def bindE_Inr_iff)
next
  case (EvEnable now j)
  then show ?thesis using assms(4,5) pinned_evictable [OF assms(1), of j True now]
    by (auto simp: ExpiryMap_EnableEviction_def bindE_Inr_iff)
qed

text \<open>No access faults if locks can be taken again or no lifetimes are extended.\<close>

definition lock_ok :: "('h, 'k, 'v) expiry_map \<Rightarrow> bool" where
  "lock_ok m \<longleftrightarrow> em_again m \<or> \<not> em_extend m"

lemma lock_ok_simps [simp]:
  "lock_ok (set_entry m a e) = lock_ok m" "lock_ok (m\<lparr>em_calls := c\<rparr>) = lock_ok m" "lock_ok (m\<lparr>em_gc := g\<rparr>) = lock_ok m"
  "lock_ok (m\<lparr>em_pending := n\<rparr>) = lock_ok m" "lock_ok (m\<lparr>em_map := h\<rparr>) = lock_ok m"
  "lock_ok (m\<lparr>em_cancel := c'\<rparr>) = lock_ok m" "lock_ok (clear_evicted m a) = lock_ok m"
  by (simp_all add: lock_ok_def set_entry_def clear_evicted_def)

lemma lock_ok_schedule [simp]: "lock_ok (snd (ScheduleGarbageCollection scheduled m)) = lock_ok m"
  by (simp add: ScheduleGarbageCollection_def)

lemma lock_ok_collect: "lock_ok (snd (collect M now locked m keys)) = lock_ok m"
  by (induction keys arbitrary: m) (auto simp: Let_def split_beta split: option.split)

lemma extend_entry_total:
  assumes "lock_ok m" "wanted \<longrightarrow> em_extend m"
  shows "\<exists>m'. extend_entry now wanted m a = Inr m' \<and> lock_ok m'"
  using assms by (auto simp: extend_entry_def ExtendExpiration_def lock_ok_def set_entry_def)

lemma set_evictable_total:
  assumes "lock_ok m"
  shows "\<exists>r m'. set_evictable flag M now m k = Inr (r, m') \<and> lock_ok m'"
proof (cases "view m k")
  case (Some a)
  then show ?thesis using extend_entry_total [OF assms, of "em_extend m" now a] assms
    by (auto simp: set_evictable_def find_view Let_def)
qed (use assms in \<open>simp add: set_evictable_def find_view\<close>)

lemma step_total:
  assumes "lock_ok m"
  shows "\<exists>m'. expiry_step M m ev = Inr m' \<and> lock_ok m'"
proof (cases ev)
  case (EvInsert now k v)
  obtain m1 b wanted where i: "inserted now k v m m1"
    "ExpiryMap_Insert M now m (k, v) =
       (if view m k = None then Inr (SuccessExecutionResult, Some v, m1)
        else if em_block m \<and> being_evicted (em_store m1 ! b)
        then Inr (FailureExecutionResult SC_AUTO_EXPIRY_CONCURRENT_MAP_ENTRY_BEING_DELETED, None, m1)
        else bindE (extend_entry now (em_extend m \<and> \<not> being_evicted (em_store m1 ! b)) m1 b) (\<lambda>m2.
          Inr (FailureExecutionResult SC_CONCURRENT_MAP_ENTRY_ALREADY_EXISTS, Some (en_entry (em_store m2 ! b)), m2)))"
    by (rule insert_step)
  have ok: "lock_ok m1" using assms insertedD(6,7) [OF i(1)] by (simp add: lock_ok_def)
  then show ?thesis
    using i(2) extend_entry_total [OF ok, of "em_extend m \<and> \<not> being_evicted (em_store m1 ! b)" now b] insertedD(7) [OF i(1)]
    by (auto simp: EvInsert)
next
  case (EvFind now k)
  show ?thesis
  proof (cases "view m k")
    case (Some a)
    then show ?thesis
      using extend_entry_total [OF assms, of "em_extend m \<and> \<not> being_evicted (em_store m ! a)" now a] assms
      by (auto simp: EvFind ExpiryMap_Find_def find_view Let_def)
  qed (use assms in \<open>simp add: EvFind ExpiryMap_Find_def find_view\<close>)
next
  case (EvErase k)
  then show ?thesis using assms by (simp add: ExpiryMap_Erase_def split_beta)
next
  case (EvDisable now k)
  then show ?thesis using set_evictable_total [OF assms, of False now k] by (auto simp: ExpiryMap_DisableEviction_def)
next
  case (EvEnable now k)
  then show ?thesis using set_evictable_total [OF assms, of True now k] by (auto simp: ExpiryMap_EnableEviction_def)
next
  case (EvCollect now locked scheduled)
  then show ?thesis
    using assms lock_ok_collect [of now locked "m\<lparr>em_gc := em_gc m - 1\<rparr>"] by (auto simp: RunGarbageCollector_def Let_def split_beta)
next
  case (EvAnswer i can_delete scheduled)
  then show ?thesis using assms by (auto simp: OnRemoveEntryFromCacheLogged_def Let_def split_beta)
qed

text \<open>Runs of events from a map that was started.\<close>

abbreviation started :: "bool \<Rightarrow> size_t \<Rightarrow> bool \<Rightarrow> bool \<Rightarrow> ('h, 'k, 'v) expiry_map" where
  "started again lifetime extend_on_access block_eviction \<equiv> snd (ExpiryMap_Run SuccessExecutionResult
     (AutoExpiryConcurrentMap M again lifetime extend_on_access block_eviction))"

lemma started_inv:
  "valid (started g l x b)" "sched_inv (started g l x b)" "evict_inv (started g l x b)" "alive (started g l x b)"
  "lock_ok (started g l x b) \<longleftrightarrow> g \<or> \<not> x"
  using find_new
  by (auto simp: ExpiryMap_Run_def ScheduleGarbageCollection_def AutoExpiryConcurrentMap_def valid_def
      sched_inv_def evict_inv_def alive_def lock_ok_def)

lemma run_total: "lock_ok m \<Longrightarrow> \<exists>m'. expiry_run M m evs = Inr m' \<and> lock_ok m'"
proof (induction evs arbitrary: m)
  case (Cons ev evs)
  then show ?case using step_total [OF Cons.prems, of ev] by auto
qed simp

lemma run_sched:
  assumes "valid m" "sched_inv m" "expiry_run M m evs = Inr m'"
  shows "valid m' \<and> sched_inv m' \<and> (list_all accepts evs \<longrightarrow> alive m \<longrightarrow> alive m') \<and> (\<not> alive m \<longrightarrow> \<not> alive m')"
  using assms
proof (induction evs arbitrary: m)
  case (Cons ev evs)
  then obtain m1 where m1: "expiry_step M m ev = Inr m1" "expiry_run M m1 evs = Inr m'" by (auto simp: bindE_Inr_iff)
  note s1 = step_sched [OF Cons.prems(1,2) m1(1)]
  then show ?case using Cons.IH [of m1] m1(2) by auto
qed simp

lemma run_evict:
  assumes "evict_inv m" "sched_inv m" "\<forall>k. EvErase k \<notin> set evs" "expiry_run M m evs = Inr m'"
  shows "evict_inv m'"
  using assms
proof (induction evs arbitrary: m)
  case (Cons ev evs)
  then obtain m1 where m1: "expiry_step M m ev = Inr m1" "expiry_run M m1 evs = Inr m'" by (auto simp: bindE_Inr_iff)
  have "\<forall>k. ev \<noteq> EvErase k" using Cons.prems(3) by auto
  moreover have "valid m" using Cons.prems(1) by (simp add: evict_inv_def)
  ultimately show ?case
    using step_sched [of m ev m1] step_evict [of m ev m1] Cons.prems(1-3) Cons.IH [of m1] m1 by auto
qed simp

lemma run_pinned:
  assumes "pinned m k a v" "sched_inv m" "EvErase k \<notin> set evs" "\<forall>now. EvEnable now k \<notin> set evs" "expiry_run M m evs = Inr m'"
  shows "pinned m' k a v"
  using assms
proof (induction evs arbitrary: m)
  case (Cons ev evs)
  then obtain m1 where m1: "expiry_step M m ev = Inr m1" "expiry_run M m1 evs = Inr m'" by (auto simp: bindE_Inr_iff)
  have "valid m" "em_running m" using Cons.prems(1,2) by (simp_all add: pinned_def sched_inv_def)
  then show ?case
    using step_sched [of m ev m1] step_pinned [of m k a v ev m1] Cons.prems(1-4) Cons.IH [of m1] m1 by auto
qed simp

lemma disable_pins:
  assumes "evict_inv m" "ExpiryMap_DisableEviction M now m k = Inr (r, m')" "Successful r"
  obtains a where "pinned m' k a (en_entry (em_store m ! a))" "view m k = Some a"
proof (cases "view m k")
  case None
  then show ?thesis using assms(2,3) by (auto simp: ExpiryMap_DisableEviction_def set_evictable_def find_view)
next
  case (Some a)
  have free: "\<not> being_evicted (em_store m ! a)"
    using assms(2,3) Some by (auto simp: ExpiryMap_DisableEviction_def set_evictable_def find_view Let_def)
  have a: "a < length (em_store m)" using assms(1) Some by (auto simp: evict_inv_def valid_def)
  obtain m1 where m1: "extend_entry now (em_extend m) m a = Inr m1" "m' = set_entry m1 a ((em_store m1 ! a)\<lparr>is_evictable := False\<rparr>)"
    using assms(2) Some free by (auto simp: ExpiryMap_DisableEviction_def set_evictable_def find_view Let_def bindE_Inr_iff)
  note t = touched_calm [OF extend_touched [OF m1(1)]]
  have st: "\<not> is_evictable (em_store m' ! a)" "\<not> being_evicted (em_store m' ! a)" "en_entry (em_store m' ! a) = en_entry (em_store m ! a)"
    "em_map m' = em_map m" "em_calls m' = em_calls m" "length (em_store m') = length (em_store m)"
    using m1(2) t a free by (simp_all add: set_entry_def calm_def)
  have uniq: "\<forall>j. view m j = Some a \<longrightarrow> j = k" using assms(1) Some unfolding evict_inv_def by blast
  have val: "\<forall>j b. view m j = Some b \<longrightarrow> b < length (em_store m)" using assms(1) unfolding evict_inv_def valid_def by blast
  have out: "j \<noteq> k \<and> b \<noteq> a" if "(j, b) \<in> set (em_calls m)" for j b
  proof -
    have "view m j = Some b" "being_evicted (em_store m ! b)" using that assms(1) unfolding evict_inv_def by blast+
    then show ?thesis using Some free by auto
  qed
  have "pinned m' k a (en_entry (em_store m ! a))"
    unfolding pinned_def valid_def st(4-6) using st(1-3) Some uniq val out by blast
  then show ?thesis using that Some by blast
qed

lemma found_entry:
  assumes "view m k = Some a" "\<not> being_evicted (em_store m ! a)" "en_entry (em_store m ! a) = v" "lock_ok m" "a < length (em_store m)"
  shows "\<exists>m'. ExpiryMap_Find M now m k = Inr (SuccessExecutionResult, Some v, m')"
proof -
  obtain m1 where m1: "extend_entry now (em_extend m) m a = Inr m1"
    using extend_entry_total [OF assms(4), of "em_extend m" now a] by auto
  have "en_entry (em_store m1 ! a) = v" using touched_calm(1) [OF extend_touched [OF m1]] assms by (simp add: calm_def)
  then show ?thesis using assms m1 by (simp add: ExpiryMap_Find_def find_view Let_def)
qed

lemma pinned_find:
  assumes "pinned m k a v" "lock_ok m"
  shows "\<exists>m'. ExpiryMap_Find M now m k = Inr (SuccessExecutionResult, Some v, m')"
  using assms pinnedD(1) [OF assms(1)] by (intro found_entry [of m k a]) (simp_all add: pinned_def)

text \<open>A callback is outstanding for a key that is erased and inserted anew.\<close>

lemma replaced_entry:
  assumes "lock_ok m" "view m k \<noteq> None"
  obtains m1 where "expiry_run M m [EvErase k, EvInsert now k v, EvDisable now k] = Inr m1"
    "lock_ok m1" "em_calls m1 = em_calls m" "view m1 k = Some (length (em_store m))"
    "length (em_store m1) = Suc (length (em_store m))" "en_entry (em_store m1 ! length (em_store m)) = v"
    "\<not> being_evicted (em_store m1 ! length (em_store m))" "\<not> is_evictable (em_store m1 ! length (em_store m))"
proof -
  define m0 where "m0 = snd (ExpiryMap_Erase M m k)"
  have m0: "expiry_step M m (EvErase k) = Inr m0" "view m0 k = None" "em_store m0 = em_store m" "em_calls m0 = em_calls m" "lock_ok m0"
    using find_erase [of "em_map m" k] assms(1)
    by (auto simp: m0_def ExpiryMap_Erase_def ConcurrentMap_Erase_def split: prod.splits if_splits)
  obtain m1 b wanted where i: "inserted now k v m0 m1" "ExpiryMap_Insert M now m0 (k, v) = Inr (SuccessExecutionResult, Some v, m1)"
    using insert_step [of now k v m0] m0(2) by metis
  note d = insertedD [OF i(1)]
  let ?a = "length (em_store m)"
  have m1: "view m1 k = Some ?a" "lock_ok m1" "em_store m1 ! ?a = AutoExpiryConcurrentMapEntry now v (em_lifetime m0)"
    using d m0 by (simp_all add: lock_ok_def)
  obtain m2 where m2: "extend_entry now (em_extend m1) m1 ?a = Inr m2" "lock_ok m2"
    using extend_entry_total [OF m1(2), of "em_extend m1" now ?a] by auto
  note t = touched_calm [OF extend_touched [OF m2(1)]]
  define m3 where "m3 = set_entry m2 ?a ((em_store m2 ! ?a)\<lparr>is_evictable := False\<rparr>)"
  have "expiry_step M m1 (EvDisable now k) = Inr m3"
    using m1 m2(1) by (simp add: ExpiryMap_DisableEviction_def set_evictable_def find_view Let_def m3_def AutoExpiryConcurrentMapEntry_def)
  then have "expiry_run M m [EvErase k, EvInsert now k v, EvDisable now k] = Inr m3" using m0(1) i(2) by simp
  moreover have "lock_ok m3" "em_calls m3 = em_calls m" "view m3 k = Some ?a" "length (em_store m3) = Suc ?a"
    "en_entry (em_store m3 ! ?a) = v" "\<not> being_evicted (em_store m3 ! ?a)" "\<not> is_evictable (em_store m3 ! ?a)"
    using m2(2) t d m0 m1 by (simp_all add: m3_def set_entry_def calm_def AutoExpiryConcurrentMapEntry_def lock_ok_def)
  ultimately show ?thesis by (rule that)
qed

lemma answer_erases:
  assumes "i < length (em_calls m)" "em_calls m ! i = (k, a)" "expiry_step M m (EvAnswer i True scheduled) = Inr m'"
  shows "view m' k = None"
proof -
  obtain r h where e: "ConcurrentMap_Erase M (em_map m) k = (r, h)" by fastforce
  then have "tbb_find M h k = None"
    using find_erase [of "em_map m" k] by (auto simp: ConcurrentMap_Erase_def split: prod.splits if_splits)
  then show ?thesis
    using assms e
    by (auto simp: OnRemoveEntryFromCacheLogged_def Let_def clear_evicted_def set_entry_def ScheduleGarbageCollection_def split: if_splits)
qed

end

interpretation al_expiry: expiry_backend "al_tbb :: (('k \<times> nat) list, 'k, nat) tbb_hash_map"
  by unfold_locales

section \<open>Properties\<close>

text \<open>
  C25: once a map has been started, whatever its users do, whenever the executor runs the
  collector, whatever it answers when it is asked to schedule it, and in whatever order and way
  the owner answers the deletion callbacks: the collector is never scheduled twice, nor while
  callbacks are outstanding, the counter of pending callbacks is the number of outstanding
  ones, and \<open>Stop\<close> finds a cancellation callback to call. If the executor accepted it each
  time, the collector is scheduled or callbacks are outstanding; if neither is the case, it is
  lost, and nothing that happens later brings it back. The map does not extend lifetimes on
  access, or its platform lets a thread take a shared lock again.
\<close>

theorem collector_scheduled_once:
  assumes "concurrent_hash_map M" "again \<or> \<not> extend_on_access"
  shows "\<exists>m. expiry_run M (snd (ExpiryMap_Run SuccessExecutionResult
             (AutoExpiryConcurrentMap M again lifetime extend_on_access block_eviction))) evs = Inr m \<and>
     em_gc m \<le> 1 \<and> (em_calls m \<noteq> [] \<longrightarrow> em_gc m = 0) \<and> em_pending m = length (em_calls m) \<and>
     ExpiryMap_Stop in_time m \<noteq> Inl ThrowsException \<and>
     (list_all accepts evs \<longrightarrow> em_gc m = 1 \<or> em_calls m \<noteq> []) \<and>
     (em_gc m = 0 \<and> em_calls m = [] \<longrightarrow>
        (\<exists>m'. expiry_run M m later = Inr m' \<and> em_gc m' = 0 \<and> em_calls m' = []))"
proof -
  have b: "expiry_backend M" using assms(1) by (rule expiry_backend.intro)
  let ?m0 = "snd (ExpiryMap_Run SuccessExecutionResult (AutoExpiryConcurrentMap M again lifetime extend_on_access block_eviction))"
  note start = expiry_backend.started_inv [OF b]
  obtain m where m: "expiry_run M ?m0 evs = Inr m" "expiry_backend.lock_ok m"
    using expiry_backend.run_total [OF b, of ?m0 evs] start(5) assms(2) by blast
  note inv = expiry_backend.run_sched [OF b start(1,2) m(1)]
  obtain m' where m': "expiry_run M m later = Inr m'"
    using expiry_backend.run_total [OF b m(2)] by blast
  have "\<not> expiry_backend.alive m \<longrightarrow> \<not> expiry_backend.alive m'"
    using expiry_backend.run_sched [OF b _ _ m'] inv by blast
  then show ?thesis
    using m(1) m' inv start(4) [of again lifetime extend_on_access block_eviction]
    by (auto simp: expiry_backend.sched_inv_def [OF b] expiry_backend.alive_def [OF b] ExpiryMap_Stop_def Let_def)
qed

theorem collector_scheduled_once_witness:
  "\<exists>m. expiry_run al_tbb (snd (ExpiryMap_Run SuccessExecutionResult
       (AutoExpiryConcurrentMap (al_tbb :: ((nat \<times> nat) list, nat, nat) tbb_hash_map) True 1 True False)))
       [EvInsert 0 1 (10 :: nat), EvInsert 0 2 20, EvCollect 2000000000 (\<lambda>_. False) SuccessExecutionResult, EvErase 1,
        EvAnswer 1 True SuccessExecutionResult, EvAnswer 0 False (FailureExecutionResult 7)] = Inr m \<and>
     em_gc m = 0 \<and> em_calls m = [] \<and> (\<exists>m'. expiry_run al_tbb m [EvFind 0 2, EvCollect 9 (\<lambda>_. False) SuccessExecutionResult] = Inr m' \<and> em_gc m' = 0)"
proof -
  let ?m0 = "snd (ExpiryMap_Run SuccessExecutionResult
       (AutoExpiryConcurrentMap (al_tbb :: ((nat \<times> nat) list, nat, nat) tbb_hash_map) True 1 True False))"
  let ?evs = "[EvInsert 0 1 (10 :: nat), EvInsert 0 2 20, EvCollect 2000000000 (\<lambda>_. False) SuccessExecutionResult, EvErase 1,
        EvAnswer 1 True SuccessExecutionResult, EvAnswer 0 False (FailureExecutionResult 7)]"
  let ?later = "[EvFind 0 2, EvCollect 9 (\<lambda>_. False) SuccessExecutionResult]"
  define lost where "lost = expiry_run al_tbb ?m0 ?evs"
  have "map_sum id (\<lambda>m. (em_gc m, em_calls m)) lost = Inr (0, [])" unfolding lost_def by code_simp
  moreover have "\<exists>m. lost = Inr m \<and> (em_gc m = 0 \<and> em_calls m = [] \<longrightarrow>
      (\<exists>m'. expiry_run al_tbb m ?later = Inr m' \<and> em_gc m' = 0))"
    using collector_scheduled_once [OF al_tbb.concurrent_hash_map_axioms, of True True 1 False ?evs False ?later]
    unfolding lost_def by blast
  ultimately show ?thesis unfolding lost_def [symmetric] by (elim exE conjE) (simp del: expiry_run.simps)
qed

text \<open>
  C26: an entry whose eviction was disabled stays, as long as no user erases entries. If the
  users have not erased any entry before, \<open>DisableEviction\<close> succeeds on a key, and the later
  operations, collector runs and deletion answers neither erase that key nor enable its
  eviction again, \<open>Find\<close> returns the value the entry had. The map does not extend lifetimes
  on access, or its platform lets a thread take a shared lock again. After an erase before,
  a late deletion answer can still remove the entry.
\<close>

theorem disabled_entry_survives:
  assumes "concurrent_hash_map M" "again \<or> \<not> extend_on_access" "\<forall>j. EvErase j \<notin> set before"
    "expiry_run M (snd (ExpiryMap_Run SuccessExecutionResult
       (AutoExpiryConcurrentMap M again lifetime extend_on_access block_eviction))) before = Inr m"
    "ExpiryMap_DisableEviction M now m k = Inr (r, m1)" "Successful r"
    "EvErase k \<notin> set after" "\<forall>t. EvEnable t k \<notin> set after"
  shows "\<exists>a m2 m3. tbb_find M (em_map m) k = Some a \<and> expiry_run M m1 after = Inr m2 \<and>
     ExpiryMap_Find M later m2 k = Inr (SuccessExecutionResult, Some (en_entry (em_store m ! a)), m3)"
proof -
  have b: "expiry_backend M" using assms(1) by (rule expiry_backend.intro)
  note start = expiry_backend.started_inv [OF b]
  have m: "expiry_backend.evict_inv M m" "expiry_backend.valid M m" "expiry_backend.sched_inv m"
    using expiry_backend.run_evict [OF b start(3,2) assms(3,4)] expiry_backend.run_sched [OF b start(1,2) assms(4)] by blast+
  have lm: "expiry_backend.lock_ok m"
    using expiry_backend.run_total [OF b, of _ before] start(5) assms(2,4) by (metis Inr_inject)
  have m1: "expiry_step M m (EvDisable now k) = Inr m1" using assms(5) by simp
  have lm1: "expiry_backend.lock_ok m1"
    using expiry_backend.step_total [OF b lm, of "EvDisable now k"] m1 by auto
  obtain a where a: "expiry_backend.pinned M m1 k a (en_entry (em_store m ! a))" "tbb_find M (em_map m) k = Some a"
    using expiry_backend.disable_pins [OF b m(1) assms(5,6)] by blast
  have s1: "expiry_backend.sched_inv m1" using expiry_backend.step_sched [OF b m(2,3) m1] by blast
  obtain m2 where m2: "expiry_run M m1 after = Inr m2" "expiry_backend.lock_ok m2"
    using expiry_backend.run_total [OF b lm1] by blast
  show ?thesis
    using expiry_backend.pinned_find [OF b expiry_backend.run_pinned [OF b a(1) s1 assms(7,8) m2(1)] m2(2), of later] a(2) m2(1)
    by blast
qed

theorem disabled_entry_survives_witness:
  "\<exists>m r m1 m2 m3. expiry_run al_tbb (snd (ExpiryMap_Run SuccessExecutionResult
         (AutoExpiryConcurrentMap (al_tbb :: ((nat \<times> nat) list, nat, nat) tbb_hash_map) True 1 True False)))
         [EvInsert 0 1 (10 :: nat), EvInsert 0 2 20] = Inr m \<and>
     ExpiryMap_DisableEviction al_tbb 0 m 1 = Inr (r, m1) \<and>
     expiry_run al_tbb m1 [EvCollect 2000000000 (\<lambda>_. False) SuccessExecutionResult, EvAnswer 0 True SuccessExecutionResult] = Inr m2 \<and>
     ExpiryMap_Find al_tbb 3000000000 m2 1 = Inr (SuccessExecutionResult, Some 10, m3)"
proof -
  let ?m0 = "snd (ExpiryMap_Run SuccessExecutionResult
         (AutoExpiryConcurrentMap (al_tbb :: ((nat \<times> nat) list, nat, nat) tbb_hash_map) True 1 True False))"
  let ?before = "[EvInsert 0 1 (10 :: nat), EvInsert 0 2 20]"
  let ?after = "[EvCollect 2000000000 (\<lambda>_. False) SuccessExecutionResult, EvAnswer 0 True SuccessExecutionResult] :: (nat, nat) expiry_event list"
  define started where "started = expiry_run al_tbb ?m0 ?before"
  have "map_sum id (\<lambda>m. (tbb_find al_tbb (em_map m) 1, en_entry (em_store m ! 0),
      map_sum id (\<lambda>(r, _). Successful r) (ExpiryMap_DisableEviction al_tbb 0 m 1))) started = Inr (Some 0, 10, Inr True)"
    unfolding started_def by code_simp
  then obtain m where s: "started = Inr m" "tbb_find al_tbb (em_map m) 1 = Some 0" "en_entry (em_store m ! 0) = 10"
    "map_sum id (\<lambda>(r, _). Successful r) (ExpiryMap_DisableEviction al_tbb 0 m 1) = Inr True"
    by (cases started) simp_all
  from s(4) obtain r m1 where d: "ExpiryMap_DisableEviction al_tbb 0 m 1 = Inr (r, m1)" "Successful r"
    by (cases "ExpiryMap_DisableEviction al_tbb 0 m 1") auto
  note m = s(1) [unfolded started_def] s(2,3) d
  have "\<exists>a m2 m3. tbb_find al_tbb (em_map m) 1 = Some a \<and> expiry_run al_tbb m1 ?after = Inr m2 \<and>
     ExpiryMap_Find al_tbb 3000000000 m2 1 = Inr (SuccessExecutionResult, Some (en_entry (em_store m ! a)), m3)"
    by (rule disabled_entry_survives [OF al_tbb.concurrent_hash_map_axioms _ _ m(1,4,5)]) simp_all
  then obtain a m2 m3 where a: "tbb_find al_tbb (em_map m) 1 = Some a" "expiry_run al_tbb m1 ?after = Inr m2"
    "ExpiryMap_Find al_tbb 3000000000 m2 1 = Inr (SuccessExecutionResult, Some (en_entry (em_store m ! a)), m3)"
    by (elim exE conjE)
  have "en_entry (em_store m ! a) = 10" using a(1) m(2,3) by simp
  then show ?thesis using m(1,4) a(2,3) by metis
qed

text \<open>
  C30: in every state in which the deletion callback of a key is outstanding, if the key is
  erased and inserted again and the eviction of the new entry is disabled, the entry is found
  with its value, and is gone as soon as the owner of the map answers the old callback: the
  callback erases by key, so it removes the new entry, though that one has not expired and
  must not be evicted.
\<close>

theorem late_callback_erases_new_entry:
  assumes "concurrent_hash_map M" "em_again m \<or> \<not> em_extend m"
    "i < length (em_calls m)" "em_calls m ! i = (k, a)" "tbb_find M (em_map m) k \<noteq> None"
  shows "\<exists>m1 m2 m3. expiry_run M m [EvErase k, EvInsert now k v, EvDisable now k] = Inr m1 \<and>
     ExpiryMap_Find M t m1 k = Inr (SuccessExecutionResult, Some v, m2) \<and>
     expiry_step M m1 (EvAnswer i True scheduled) = Inr m3 \<and>
     ExpiryMap_Find M t m3 k = Inr (FailureExecutionResult SC_CONCURRENT_MAP_ENTRY_DOES_NOT_EXIST, None, m3)"
proof -
  have b: "expiry_backend M" using assms(1) by (rule expiry_backend.intro)
  have ok: "expiry_backend.lock_ok m" using assms(2) by (simp add: expiry_backend.lock_ok_def [OF b])
  obtain m1 where m1: "expiry_run M m [EvErase k, EvInsert now k v, EvDisable now k] = Inr m1"
    "expiry_backend.lock_ok m1" "em_calls m1 = em_calls m" "tbb_find M (em_map m1) k = Some (length (em_store m))"
    "length (em_store m1) = Suc (length (em_store m))" "en_entry (em_store m1 ! length (em_store m)) = v"
    "\<not> being_evicted (em_store m1 ! length (em_store m))"
    by (rule expiry_backend.replaced_entry [OF b ok assms(5)])
  obtain m2 where "ExpiryMap_Find M t m1 k = Inr (SuccessExecutionResult, Some v, m2)"
    using expiry_backend.found_entry [OF b m1(4,7,6) m1(2)] m1(5) by auto
  moreover obtain m3 where m3: "expiry_step M m1 (EvAnswer i True scheduled) = Inr m3" by simp
  moreover have "tbb_find M (em_map m3) k = None"
    using expiry_backend.answer_erases [OF b _ _ m3, of k a] m1(3) assms(3,4) by simp
  ultimately show ?thesis
    using m1(1) by (simp add: ExpiryMap_Find_def expiry_backend.find_view [OF b])
qed

theorem late_callback_erases_new_entry_witness:
  "\<exists>m m1 m2 m3. expiry_run al_tbb (snd (ExpiryMap_Run SuccessExecutionResult
         (AutoExpiryConcurrentMap (al_tbb :: ((nat \<times> nat) list, nat, nat) tbb_hash_map) True 1 True True)))
         [EvInsert 0 7 (10 :: nat), EvCollect 2000000000 (\<lambda>_. False) SuccessExecutionResult] = Inr m \<and>
     expiry_run al_tbb m [EvErase 7, EvInsert 2000000000 7 20, EvDisable 2000000000 7] = Inr m1 \<and>
     ExpiryMap_Find al_tbb 2000000000 m1 7 = Inr (SuccessExecutionResult, Some 20, m2) \<and>
     expiry_step al_tbb m1 (EvAnswer 0 True SuccessExecutionResult) = Inr m3 \<and>
     ExpiryMap_Find al_tbb 2000000000 m3 7 = Inr (FailureExecutionResult SC_CONCURRENT_MAP_ENTRY_DOES_NOT_EXIST, None, m3)"
proof -
  let ?run = "expiry_run al_tbb (snd (ExpiryMap_Run SuccessExecutionResult
         (AutoExpiryConcurrentMap (al_tbb :: ((nat \<times> nat) list, nat, nat) tbb_hash_map) True 1 True True)))
         [EvInsert 0 7 (10 :: nat), EvCollect 2000000000 (\<lambda>_. False) SuccessExecutionResult]"
  have "map_sum id (\<lambda>m. (em_again m, em_calls m, tbb_find al_tbb (em_map m) 7)) ?run = Inr (True, [(7, 0)], Some 0)"
    by code_simp
  then have "\<exists>m. ?run = Inr m \<and> em_again m \<and> em_calls m = [(7, 0)] \<and> tbb_find al_tbb (em_map m) 7 = Some 0"
    by (cases ?run) (simp_all del: expiry_run.simps)
  then obtain m where m: "?run = Inr m" "em_again m" "em_calls m = [(7, 0)]" "tbb_find al_tbb (em_map m) 7 = Some 0"
    by (elim exE conjE)
  have "\<exists>m1 m2 m3. expiry_run al_tbb m [EvErase 7, EvInsert 2000000000 7 20, EvDisable 2000000000 7] = Inr m1 \<and>
     ExpiryMap_Find al_tbb 2000000000 m1 7 = Inr (SuccessExecutionResult, Some 20, m2) \<and>
     expiry_step al_tbb m1 (EvAnswer 0 True SuccessExecutionResult) = Inr m3 \<and>
     ExpiryMap_Find al_tbb 2000000000 m3 7 = Inr (FailureExecutionResult SC_CONCURRENT_MAP_ENTRY_DOES_NOT_EXIST, None, m3)"
    by (rule late_callback_erases_new_entry [OF al_tbb.concurrent_hash_map_axioms]) (use m(2-4) in simp_all)
  then show ?thesis using m(1) by blast
qed

end
