(* ===== verification/Single_Executor.thy ===== *)
theory Single_Executor
  imports Concurrent_Containers
begin

text \<open>
  One worker thread with a queue of normal and a queue of high priority tasks:
  cc/core/async_executor/src/async_task.h and single_thread_async_executor.cc. The threads
  that call the executor, the worker and the thread that stops it interleave: an event is
  one stretch of one thread between two points where another thread can get in.
\<close>

section \<open>Tasks\<close>

text \<open>\<open>OtherPriority\<close> is a value outside the enumeration, which an \<open>enum class\<close> can hold.\<close>

datatype AsyncPriority = Normal | High | Urgent | OtherPriority

record 'o AsyncTask =
  async_operation :: 'o
  execution_timestamp :: Timestamp
  is_cancelled :: bool

definition make_AsyncTask :: "'o \<Rightarrow> Timestamp \<Rightarrow> 'o AsyncTask" where
  "make_AsyncTask operation timestamp =
     \<lparr>async_operation = operation, execution_timestamp = timestamp, is_cancelled = False\<rparr>"

definition GetExecutionTimestamp :: "'o AsyncTask \<Rightarrow> Timestamp" where
  "GetExecutionTimestamp t = execution_timestamp t"

text \<open>The operations that executing a task performs.\<close>

definition AsyncTask_Execute :: "'o AsyncTask \<Rightarrow> 'o list" where
  "AsyncTask_Execute t = (if is_cancelled t then [] else [async_operation t])"

definition AsyncTask_Cancel :: "'o AsyncTask \<Rightarrow> bool \<times> 'o AsyncTask" where
  "AsyncTask_Cancel t = (if is_cancelled t then (False, t) else (True, t\<lparr>is_cancelled := True\<rparr>))"

definition AsyncTask_IsCancelled :: "'o AsyncTask \<Rightarrow> bool" where
  "AsyncTask_IsCancelled t = is_cancelled t"

definition AsyncTaskCompareGreater :: "'o AsyncTask \<Rightarrow> 'o AsyncTask \<Rightarrow> bool" where
  "AsyncTaskCompareGreater lhs rhs \<longleftrightarrow> GetExecutionTimestamp lhs > GetExecutionTimestamp rhs"

lemmas AsyncTask_defs = make_AsyncTask_def GetExecutionTimestamp_def AsyncTask_Execute_def
  AsyncTask_Cancel_def AsyncTask_IsCancelled_def AsyncTaskCompareGreater_def

section \<open>Limits and error codes\<close>

definition kMaxThreadCount :: size_t where
  "kMaxThreadCount = 10000"

definition kMaxQueueCap :: size_t where
  "kMaxQueueCap = 4294967295"

definition SC_ASYNC_EXECUTOR_INVALID_QUEUE_CAP :: StatusCode where
  "SC_ASYNC_EXECUTOR_INVALID_QUEUE_CAP = MakeErrorCode 0x0006 0x0001"

definition SC_ASYNC_EXECUTOR_INVALID_THREAD_COUNT :: StatusCode where
  "SC_ASYNC_EXECUTOR_INVALID_THREAD_COUNT = MakeErrorCode 0x0006 0x0002"

definition SC_ASYNC_EXECUTOR_EXCEEDING_QUEUE_CAP :: StatusCode where
  "SC_ASYNC_EXECUTOR_EXCEEDING_QUEUE_CAP = MakeErrorCode 0x0006 0x0003"

definition SC_ASYNC_EXECUTOR_NOT_INITIALIZED :: StatusCode where
  "SC_ASYNC_EXECUTOR_NOT_INITIALIZED = MakeErrorCode 0x0006 0x0004"

definition SC_ASYNC_EXECUTOR_ALREADY_RUNNING :: StatusCode where
  "SC_ASYNC_EXECUTOR_ALREADY_RUNNING = MakeErrorCode 0x0006 0x0005"

definition SC_ASYNC_EXECUTOR_NOT_RUNNING :: StatusCode where
  "SC_ASYNC_EXECUTOR_NOT_RUNNING = MakeErrorCode 0x0006 0x0006"

definition SC_ASYNC_EXECUTOR_INVALID_PRIORITY_TYPE :: StatusCode where
  "SC_ASYNC_EXECUTOR_INVALID_PRIORITY_TYPE = MakeErrorCode 0x0006 0x0007"

section \<open>The executor\<close>

text \<open>
  A worker is spawned by \<open>Run\<close>, then loops, executes a task with the lock released, and in
  the end exits. \<open>nx_accepted\<close> and \<open>nx_executed\<close> record what was enqueued and what
  was run, \<open>nx_callers\<close> the calls of \<open>Schedule\<close> between their checks and the
  enqueueing.
\<close>

datatype 'o worker = Spawned | Looping | Busy AsyncPriority "'o AsyncTask" | Exited

record ('q, 'o) normal_executor =
  nx_running :: bool
  nx_started :: bool
  nx_stopped :: bool
  nx_queue_cap :: size_t
  nx_drop :: bool
  nx_affinity :: "size_t option"
  nx_normal :: "'q option"
  nx_high :: "'q option"
  nx_thread_id :: nat
  nx_workers :: "'o worker list"
  nx_callers :: "(AsyncPriority \<times> 'o) list"
  nx_accepted :: "(AsyncPriority \<times> 'o) list"
  nx_executed :: "(AsyncPriority \<times> 'o) list"

definition SingleThreadAsyncExecutor :: "size_t \<Rightarrow> bool \<Rightarrow> size_t option \<Rightarrow> ('q, 'o) normal_executor" where
  "SingleThreadAsyncExecutor queue_cap drop_tasks_on_stop affinity_cpu_number =
     \<lparr>nx_running = False, nx_started = False, nx_stopped = False, nx_queue_cap = queue_cap,
      nx_drop = drop_tasks_on_stop, nx_affinity = affinity_cpu_number, nx_normal = None, nx_high = None,
      nx_thread_id = 0, nx_workers = [], nx_callers = [], nx_accepted = [], nx_executed = []\<rparr>"

type_synonym ('q, 'o) task_queue = "('q, 'o AsyncTask) tbb_bounded_queue"

definition Normal_Init ::
  "('q, 'o) task_queue \<Rightarrow> ('q, 'o) normal_executor \<Rightarrow> ExecutionResult \<times> ('q, 'o) normal_executor" where
  "Normal_Init B x =
     (if nx_queue_cap x \<le> 0 \<or> nx_queue_cap x > kMaxQueueCap
      then (FailureExecutionResult SC_ASYNC_EXECUTOR_INVALID_QUEUE_CAP, x)
      else (SuccessExecutionResult,
            x\<lparr>nx_normal := Some (ConcurrentQueue B (unat (nx_queue_cap x))),
              nx_high := Some (ConcurrentQueue B (unat (nx_queue_cap x)))\<rparr>))"

text \<open>\<open>thread_id\<close> is the id the new thread gets.\<close>

definition Normal_Run ::
  "nat \<Rightarrow> ('q, 'o) normal_executor \<Rightarrow> ExecutionResult \<times> ('q, 'o) normal_executor" where
  "Normal_Run thread_id x =
     (if nx_running x then (FailureExecutionResult SC_ASYNC_EXECUTOR_ALREADY_RUNNING, x)
      else if nx_normal x = None \<or> nx_high x = None
      then (FailureExecutionResult SC_ASYNC_EXECUTOR_NOT_INITIALIZED, x)
      else (SuccessExecutionResult,
            x\<lparr>nx_running := True, nx_workers := nx_workers x @ [Spawned], nx_thread_id := thread_id\<rparr>))"

text \<open>
  One turn of the loop of \<open>StartWorker\<close> with the lock held, after the waiting returned,
  which it also does on a timeout. When the loop is left, the thread sets the flag
  \<open>worker_thread_stopped_\<close> and ends.
\<close>

definition StartWorker_turn ::
  "('q, 'o) task_queue \<Rightarrow> ('q, 'o) normal_executor \<Rightarrow> 'o worker \<times> ('q, 'o) normal_executor" where
  "StartWorker_turn B x =
     (let normal = the (nx_normal x); high = the (nx_high x)
      in if ConcurrentQueue_Size B normal = 0 \<and> ConcurrentQueue_Size B high = 0 then
           if \<not> nx_running x then (Exited, x\<lparr>nx_stopped := True\<rparr>) else (Looping, x)
         else case ConcurrentQueue_TryDequeue B high of
                (r, task, high') \<Rightarrow>
                  if Successful r then (Busy High (the task), x\<lparr>nx_high := Some high'\<rparr>)
                  else case ConcurrentQueue_TryDequeue B normal of
                         (r, task, normal') \<Rightarrow>
                           if Successful r
                           then (Busy Normal (the task), x\<lparr>nx_high := Some high', nx_normal := Some normal'\<rparr>)
                           else (Looping, x\<lparr>nx_high := Some high', nx_normal := Some normal'\<rparr>))"

text \<open>The loops of \<open>Stop\<close> that empty a queue; each turn takes an element.\<close>

fun drop_all :: "('q, 'o) task_queue \<Rightarrow> nat \<Rightarrow> 'q \<Rightarrow> 'q" where
  "drop_all B 0 q = q"
| "drop_all B (Suc n) q =
     (case ConcurrentQueue_TryDequeue B q of (r, task, q') \<Rightarrow> if Successful r then drop_all B n q' else q')"

definition drop_queue :: "('q, 'o) task_queue \<Rightarrow> 'q \<Rightarrow> 'q" where
  "drop_queue B q = drop_all B (Suc (ConcurrentQueue_Size B q)) q"

text \<open>\<open>Stop\<close> until it releases the lock, and the condition its last loop waits for.\<close>

definition Normal_Stop ::
  "('q, 'o) task_queue \<Rightarrow> ('q, 'o) normal_executor \<Rightarrow> ExecutionResult \<times> ('q, 'o) normal_executor" where
  "Normal_Stop B x =
     (if \<not> nx_running x then (FailureExecutionResult SC_ASYNC_EXECUTOR_NOT_RUNNING, x)
      else let x1 = x\<lparr>nx_running := False\<rparr>
           in (SuccessExecutionResult,
               if nx_drop x1
               then x1\<lparr>nx_normal := map_option (drop_queue B) (nx_normal x1),
                       nx_high := map_option (drop_queue B) (nx_high x1)\<rparr>
               else x1))"

definition Normal_Stop_returns :: "('q, 'o) normal_executor \<Rightarrow> bool" where
  "Normal_Stop_returns x \<longleftrightarrow> nx_started x \<and> nx_stopped x"

text \<open>\<open>Schedule\<close>: the checks, which take no lock, and the rest.\<close>

definition Normal_Schedule_checks :: "('q, 'o) normal_executor \<Rightarrow> AsyncPriority \<Rightarrow> ExecutionResult" where
  "Normal_Schedule_checks x priority =
     (if \<not> nx_running x then FailureExecutionResult SC_ASYNC_EXECUTOR_NOT_RUNNING
      else if priority \<noteq> Normal \<and> priority \<noteq> High
      then FailureExecutionResult SC_ASYNC_EXECUTOR_INVALID_PRIORITY_TYPE
      else SuccessExecutionResult)"

definition Normal_Schedule_enqueue ::
  "('q, 'o) task_queue \<Rightarrow> Timestamp \<Rightarrow> ('q, 'o) normal_executor \<Rightarrow> 'o \<Rightarrow> AsyncPriority \<Rightarrow>
   ExecutionResult \<times> ('q, 'o) normal_executor" where
  "Normal_Schedule_enqueue B now x work priority =
     (let task = make_AsyncTask work now;
          (execution_result, x1) =
            (if priority = Normal
             then let (r, q) = ConcurrentQueue_TryEnqueue B (the (nx_normal x)) task in (r, x\<lparr>nx_normal := Some q\<rparr>)
             else let (r, q) = ConcurrentQueue_TryEnqueue B (the (nx_high x)) task in (r, x\<lparr>nx_high := Some q\<rparr>))
      in if \<not> Successful execution_result
         then (RetryExecutionResult SC_ASYNC_EXECUTOR_EXCEEDING_QUEUE_CAP, x1)
         else (SuccessExecutionResult, x1\<lparr>nx_accepted := nx_accepted x1 @ [(priority, work)]\<rparr>))"

definition Normal_Schedule ::
  "('q, 'o) task_queue \<Rightarrow> Timestamp \<Rightarrow> ('q, 'o) normal_executor \<Rightarrow> 'o \<Rightarrow> AsyncPriority \<Rightarrow>
   ExecutionResult \<times> ('q, 'o) normal_executor" where
  "Normal_Schedule B now x work priority =
     (let r = Normal_Schedule_checks x priority
      in if \<not> Successful r then (r, x) else Normal_Schedule_enqueue B now x work priority)"

definition Normal_GetThreadId :: "('q, 'o) normal_executor \<Rightarrow> nat ExecutionResultOr" where
  "Normal_GetThreadId x =
     (if \<not> nx_running x then HoldsResult (FailureExecutionResult SC_ASYNC_EXECUTOR_NOT_RUNNING)
      else HoldsValue (nx_thread_id x))"

section \<open>Interleavings\<close>

datatype 'o normal_event =
    NxCall AsyncPriority 'o
  | NxEnqueue Timestamp nat
  | NxStart nat
  | NxTurn nat
  | NxFinish nat
  | NxStop

fun normal_step :: "('q, 'o) task_queue \<Rightarrow> ('q, 'o) normal_executor \<Rightarrow> 'o normal_event \<Rightarrow> ('q, 'o) normal_executor" where
  "normal_step B x (NxCall priority work) =
     (if Successful (Normal_Schedule_checks x priority)
      then x\<lparr>nx_callers := nx_callers x @ [(priority, work)]\<rparr> else x)"
| "normal_step B x (NxEnqueue now i) =
     (if i < length (nx_callers x)
      then snd (Normal_Schedule_enqueue B now
             (x\<lparr>nx_callers := take i (nx_callers x) @ drop (Suc i) (nx_callers x)\<rparr>)
             (snd (nx_callers x ! i)) (fst (nx_callers x ! i)))
      else x)"
| "normal_step B x (NxStart i) =
     (if i < length (nx_workers x) \<and> nx_workers x ! i = Spawned
      then x\<lparr>nx_started := True, nx_workers := (nx_workers x)[i := Looping]\<rparr> else x)"
| "normal_step B x (NxTurn i) =
     (if i < length (nx_workers x) \<and> nx_workers x ! i = Looping
      then let (w, x1) = StartWorker_turn B x in x1\<lparr>nx_workers := (nx_workers x1)[i := w]\<rparr> else x)"
| "normal_step B x (NxFinish i) =
     (if i < length (nx_workers x)
      then case nx_workers x ! i of
             Busy p t \<Rightarrow> x\<lparr>nx_executed := nx_executed x @ map (Pair p) (AsyncTask_Execute t),
                          nx_workers := (nx_workers x)[i := Looping]\<rparr>
           | _ \<Rightarrow> x
      else x)"
| "normal_step B x NxStop = snd (Normal_Stop B x)"

definition normal_run ::
  "('q, 'o) task_queue \<Rightarrow> ('q, 'o) normal_executor \<Rightarrow> 'o normal_event list \<Rightarrow> ('q, 'o) normal_executor" where
  "normal_run B x evs = foldl (normal_step B) x evs"

section \<open>One worker\<close>

text \<open>The operations of one priority, and the one a worker is executing.\<close>

definition sel :: "AsyncPriority \<Rightarrow> (AsyncPriority \<times> 'o) list \<Rightarrow> 'o list" where
  "sel p xs = map snd (filter (\<lambda>(q, _). q = p) xs)"

lemma sel_simps [simp]:
  "sel p [] = []" "sel p (xs @ ys) = sel p xs @ sel p ys" "sel p [(q, y)] = (if q = p then [y] else [])"
  by (simp_all add: sel_def)

fun held :: "AsyncPriority \<Rightarrow> 'o worker \<Rightarrow> 'o list" where
  "held p (Busy q t) = (if q = p then [async_operation t] else [])"
| "held p _ = []"

fun fresh_worker :: "'o worker \<Rightarrow> bool" where
  "fresh_worker (Busy p t) \<longleftrightarrow> p \<in> {Normal, High} \<and> \<not> is_cancelled t"
| "fresh_worker _ \<longleftrightarrow> True"

locale normal_exec = bounded_queue B contents bq_capacity
  for B :: "('q, 'o AsyncTask) tbb_bounded_queue" and contents :: "'q \<Rightarrow> 'o AsyncTask list" and bq_capacity :: "'q \<Rightarrow> nat"
begin

abbreviation ops :: "'q \<Rightarrow> 'o list" where
  "ops q \<equiv> map async_operation (contents q)"

definition exec_inv :: "('q, 'o) normal_executor \<Rightarrow> 'o worker \<Rightarrow> 'q \<Rightarrow> 'q \<Rightarrow> bool" where
  "exec_inv x w normal high \<longleftrightarrow>
     nx_workers x = [w] \<and> nx_normal x = Some normal \<and> nx_high x = Some high \<and> \<not> nx_drop x \<and>
     sel Normal (nx_accepted x) = sel Normal (nx_executed x) @ held Normal w @ ops normal \<and>
     sel High (nx_accepted x) = sel High (nx_executed x) @ held High w @ ops high \<and>
     (\<forall>t \<in> set (contents normal) \<union> set (contents high). \<not> is_cancelled t) \<and> fresh_worker w \<and>
     fst ` set (nx_callers x) \<subseteq> {Normal, High} \<and>
     (nx_started x \<longleftrightarrow> w \<noteq> Spawned) \<and> (nx_stopped x \<longleftrightarrow> w = Exited) \<and> (w = Exited \<longrightarrow> \<not> nx_running x)"

lemma inv_enqueue:
  assumes "exec_inv x w normal high" "i < length (nx_callers x)"
  shows "\<exists>normal' high'. exec_inv (normal_step B x (NxEnqueue now i)) w normal' high'"
proof -
  obtain p work where c: "nx_callers x ! i = (p, work)" by fastforce
  then have "(p, work) \<in> set (nx_callers x)" using nth_mem [OF assms(2)] by simp
  then have p: "p = Normal \<or> p = High" using assms(1) by (auto simp: exec_inv_def)
  have "set (take i (nx_callers x) @ drop (Suc i) (nx_callers x)) \<subseteq> set (nx_callers x)"
    by (simp add: set_take_subset set_drop_subset)
  moreover have "fst ` set (nx_callers x) \<subseteq> {Normal, High}" using assms(1) by (simp add: exec_inv_def)
  ultimately have sub: "fst ` set (take i (nx_callers x) @ drop (Suc i) (nx_callers x)) \<subseteq> {Normal, High}" by blast
  let ?t = "make_AsyncTask work now"
  obtain rn qn where n: "ConcurrentQueue_TryEnqueue B normal ?t = (rn, qn)" by fastforce
  obtain rh qh where h: "ConcurrentQueue_TryEnqueue B high ?t = (rh, qh)" by fastforce
  note facts = rq.enq_elems [of normal ?t] rq.enq_success [of normal ?t]
    rq.enq_elems [of high ?t] rq.enq_success [of high ?t]
  show ?thesis
  proof (cases "p = Normal")
    case True
    then have "exec_inv (normal_step B x (NxEnqueue now i)) w qn high"
      using assms c n sub facts
      by (auto simp: exec_inv_def Normal_Schedule_enqueue_def Let_def make_AsyncTask_def split: if_splits)
    then show ?thesis by blast
  next
    case False
    then have "exec_inv (normal_step B x (NxEnqueue now i)) w normal qh"
      using assms c h sub facts p
      by (auto simp: exec_inv_def Normal_Schedule_enqueue_def Let_def make_AsyncTask_def split: if_splits)
    then show ?thesis by blast
  qed
qed

lemma inv_turn:
  assumes "exec_inv x Looping normal high"
  obtains w normal' high' where "exec_inv (normal_step B x (NxTurn 0)) w normal' high'"
    "length (contents normal') + length (contents high') = length (contents normal) + length (contents high) - 1"
    "contents normal = [] \<and> contents high = [] \<and> (w = Exited \<longleftrightarrow> \<not> nx_running x) \<and> (w = Looping \<longleftrightarrow> nx_running x) \<or>
     (\<exists>t. contents high \<noteq> [] \<and> w = Busy High t) \<or> (\<exists>t. contents high = [] \<and> contents normal \<noteq> [] \<and> w = Busy Normal t)"
proof (cases "contents high")
  case (Cons t ts)
  then obtain high' where "ConcurrentQueue_TryDequeue B high = (SuccessExecutionResult, Some t, high')" "contents high' = ts"
    using rq.deq_ok by blast
  then show ?thesis
    using that [of "Busy High t" normal high'] assms Cons
    by (auto simp: exec_inv_def StartWorker_turn_def)
next
  case Nil
  obtain r high' where h: "ConcurrentQueue_TryDequeue B high = (r, None, high')" "contents high' = []" "\<not> Successful r"
    using rq.deq_empty [OF Nil] by blast
  show ?thesis
  proof (cases "contents normal")
    case (Cons t ts)
    then obtain normal' where "ConcurrentQueue_TryDequeue B normal = (SuccessExecutionResult, Some t, normal')" "contents normal' = ts"
      using rq.deq_ok by blast
    then show ?thesis
      using that [of "Busy Normal t" normal' high'] assms Cons Nil h
      by (auto simp: exec_inv_def StartWorker_turn_def)
  next
    case n: Nil
    then show ?thesis
      using that [of "if nx_running x then Looping else Exited" normal high] assms Nil
      by (auto simp: exec_inv_def StartWorker_turn_def)
  qed
qed

lemma inv_step:
  assumes "exec_inv x w normal high"
  shows "\<exists>w normal high. exec_inv (normal_step B x ev) w normal high"
proof (cases ev)
  case (NxCall p work)
  then have "exec_inv (normal_step B x ev) w normal high"
    using assms by (auto simp: exec_inv_def Normal_Schedule_checks_def split: if_splits)
  then show ?thesis by blast
next
  case (NxEnqueue now i)
  then show ?thesis
    using assms inv_enqueue [OF assms, of i now] by (cases "i < length (nx_callers x)") auto
next
  case (NxStart i)
  then have "exec_inv (normal_step B x ev) (if i = 0 \<and> w = Spawned then Looping else w) normal high"
    using assms by (auto simp: exec_inv_def)
  then show ?thesis by blast
next
  case (NxTurn i)
  show ?thesis
  proof (cases "i = 0 \<and> w = Looping")
    case True
    then have "exec_inv x Looping normal high" using assms by simp
    then show ?thesis using inv_turn True NxTurn by metis
  next
    case False
    then have "normal_step B x ev = x" using assms NxTurn by (auto simp: exec_inv_def)
    then show ?thesis using assms by auto
  qed
next
  case (NxFinish i)
  then have "exec_inv (normal_step B x ev) (if i = 0 \<and> (\<exists>p t. w = Busy p t) then Looping else w) normal high"
    using assms by (cases w) (auto simp: exec_inv_def AsyncTask_Execute_def)
  then show ?thesis by blast
next
  case NxStop
  then have "exec_inv (normal_step B x ev) w normal high"
    using assms by (auto simp: exec_inv_def Normal_Stop_def Let_def)
  then show ?thesis by blast
qed

lemma inv_run: "exec_inv x w normal high \<Longrightarrow> \<exists>w normal high. exec_inv (normal_run B x evs) w normal high"
proof (induction evs arbitrary: x w normal high)
  case (Cons ev evs)
  obtain w' normal' high' where "exec_inv (normal_step B x ev) w' normal' high'" using inv_step [OF Cons.prems] by blast
  from Cons.IH [OF this] show ?case by (simp add: normal_run_def)
qed (auto simp: normal_run_def)

text \<open>After \<open>Stop\<close> the worker empties the queues and exits.\<close>

lemma turn_keeps:
  "nx_running (normal_step B x (NxTurn i)) = nx_running x"
  "nx_accepted (normal_step B x (NxTurn i)) = nx_accepted x"
  by (auto simp: StartWorker_turn_def Let_def split: prod.splits)

lemma finish_inv:
  assumes "exec_inv x (Busy p t) normal high"
  shows "exec_inv (normal_step B x (NxFinish 0)) Looping normal high"
  using assms by (auto simp: exec_inv_def AsyncTask_Execute_def)

lemma drain:
  assumes "exec_inv x Looping normal high" "\<not> nx_running x" "n = length (contents normal) + length (contents high)"
  shows "\<exists>normal' high'. exec_inv (normal_run B x (concat (replicate (Suc n) [NxTurn 0, NxFinish 0]))) Exited normal' high' \<and>
     contents normal' = [] \<and> contents high' = [] \<and>
     nx_accepted (normal_run B x (concat (replicate (Suc n) [NxTurn 0, NxFinish 0]))) = nx_accepted x"
  using assms
proof (induction n arbitrary: x normal high)
  case 0
  obtain w normal' high' where t: "exec_inv (normal_step B x (NxTurn 0)) w normal' high'"
    "contents normal = [] \<and> contents high = [] \<and> (w = Exited \<longleftrightarrow> \<not> nx_running x) \<and> (w = Looping \<longleftrightarrow> nx_running x) \<or>
     (\<exists>t. contents high \<noteq> [] \<and> w = Busy High t) \<or> (\<exists>t. contents high = [] \<and> contents normal \<noteq> [] \<and> w = Busy Normal t)"
    "length (contents normal') + length (contents high') = length (contents normal) + length (contents high) - 1"
    using inv_turn [OF 0(1)] by metis
  define x1 where "x1 = normal_step B x (NxTurn 0)"
  have x1: "exec_inv x1 Exited normal' high'" "nx_accepted x1 = nx_accepted x"
    using t(1,2) 0 turn_keeps(2) [of x 0] by (auto simp: x1_def)
  then have "normal_step B x1 (NxFinish 0) = x1" by (simp add: exec_inv_def)
  then have "normal_run B x (concat (replicate (Suc 0) [NxTurn 0, NxFinish 0])) = x1"
    by (simp add: normal_run_def x1_def del: normal_step.simps)
  then show ?case using x1 t(3) 0(3) by auto
next
  case (Suc n)
  obtain w normal' high' where t: "exec_inv (normal_step B x (NxTurn 0)) w normal' high'"
    "contents normal = [] \<and> contents high = [] \<and> (w = Exited \<longleftrightarrow> \<not> nx_running x) \<and> (w = Looping \<longleftrightarrow> nx_running x) \<or>
     (\<exists>t. contents high \<noteq> [] \<and> w = Busy High t) \<or> (\<exists>t. contents high = [] \<and> contents normal \<noteq> [] \<and> w = Busy Normal t)"
    "length (contents normal') + length (contents high') = length (contents normal) + length (contents high) - 1"
    using inv_turn [OF Suc.prems(1)] by metis
  define x1 where "x1 = normal_step B (normal_step B x (NxTurn 0)) (NxFinish 0)"
  obtain p t where w: "w = Busy p t" using t(2) Suc.prems(3) by auto
  have x1: "exec_inv x1 Looping normal' high'" using finish_inv t(1) w x1_def by blast
  have keep: "nx_running x1 = nx_running x" "nx_accepted x1 = nx_accepted x"
    using t(1) w turn_keeps [of x 0] by (simp_all add: x1_def exec_inv_def)
  have "normal_run B x (concat (replicate (Suc (Suc n)) [NxTurn 0, NxFinish 0])) =
      normal_run B x1 (concat (replicate (Suc n) [NxTurn 0, NxFinish 0]))"
    by (simp add: normal_run_def x1_def del: normal_step.simps)
  moreover have "\<not> nx_running x1" "n = length (contents normal') + length (contents high')"
    using t(3) Suc.prems(2,3) keep by simp_all
  ultimately show ?case using Suc.IH [OF x1] keep(2) by metis
qed

abbreviation started :: "nat \<Rightarrow> size_t \<Rightarrow> size_t option \<Rightarrow> ('q, 'o) normal_executor" where
  "started thread_id cap affinity \<equiv>
     snd (Normal_Run thread_id (snd (Normal_Init B (SingleThreadAsyncExecutor cap False affinity))))"

lemma started_inv:
  assumes "0 < cap" "cap \<le> kMaxQueueCap"
  shows "exec_inv (started tid cap affinity) Spawned (ConcurrentQueue B (unat cap)) (ConcurrentQueue B (unat cap))"
  using assms
  by (auto simp: exec_inv_def Normal_Run_def Normal_Init_def SingleThreadAsyncExecutor_def)

lemma stop_drains:
  assumes "exec_inv x w normal high" "\<not> nx_running x" "w \<noteq> Exited"
    "n = length (contents normal) + length (contents high)"
    "y = normal_run B x ([NxStart 0, NxFinish 0] @ concat (replicate (Suc n) [NxTurn 0, NxFinish 0]))"
  shows "\<exists>normal' high'. exec_inv y Exited normal' high' \<and> contents normal' = [] \<and> contents high' = [] \<and>
     nx_accepted y = nx_accepted x"
proof -
  let ?x = "normal_run B x [NxStart 0, NxFinish 0]"
  have "exec_inv ?x Looping normal high \<and> \<not> nx_running ?x \<and> nx_accepted ?x = nx_accepted x"
    using assms(1-3) by (cases w) (auto simp: normal_run_def exec_inv_def AsyncTask_Execute_def)
  moreover have "y = normal_run B ?x (concat (replicate (Suc n) [NxTurn 0, NxFinish 0]))"
    by (simp add: assms(5) normal_run_def)
  ultimately show ?thesis using drain [of ?x normal high n] assms(4) by simp
qed

end

interpretation list_exec: normal_exec "list_bq :: (nat \<times> 'o AsyncTask list, 'o AsyncTask) tbb_bounded_queue" snd fst
  by unfold_locales

section \<open>No worker left\<close>



section \<open>Properties\<close>

text \<open>
  C21: however calls, worker and \<open>Stop\<close> interleave, an executor that does not drop tasks and is run
  once neither repeats nor reorders the tasks of a priority, and drops none from its queues: the accepted
  ones are the executed ones, then the one in execution, then those that are still queued.
\<close>

theorem executor_keeps_order:
  assumes "bounded_queue B contents capacity" "0 < cap" "cap \<le> kMaxQueueCap"
    "x = normal_run B (snd (Normal_Run tid (snd (Normal_Init B (SingleThreadAsyncExecutor cap False affinity))))) evs"
  shows "\<exists>w normal high. nx_workers x = [w] \<and> nx_normal x = Some normal \<and> nx_high x = Some high \<and>
     sel Normal (nx_accepted x) = sel Normal (nx_executed x) @ held Normal w @ map async_operation (contents normal) \<and>
     sel High (nx_accepted x) = sel High (nx_executed x) @ held High w @ map async_operation (contents high)"
proof -
  have l: "normal_exec B contents capacity" using assms(1) by (rule normal_exec.intro)
  obtain w normal high where "normal_exec.exec_inv contents x w normal high"
    using normal_exec.inv_run [OF l normal_exec.started_inv [OF l assms(2,3)]] assms(4) by metis
  then show ?thesis unfolding normal_exec.exec_inv_def [OF l] by blast
qed

theorem executor_keeps_order_witness:
  "bounded_queue (list_bq :: (nat \<times> nat AsyncTask list, nat AsyncTask) tbb_bounded_queue) snd fst \<and>
   (let x = normal_run list_bq (snd (Normal_Run 7 (snd (Normal_Init list_bq (SingleThreadAsyncExecutor 2 False None)))))
          [NxCall Normal 1, NxEnqueue 0 0, NxStart 0, NxTurn 0, NxCall High 2, NxCall Normal (3 :: nat), NxEnqueue 0 1]
    in \<exists>w normal high. nx_workers x = [w] \<and> nx_normal x = Some normal \<and> nx_high x = Some high \<and>
     sel Normal (nx_accepted x) = sel Normal (nx_executed x) @ held Normal w @ map async_operation (snd normal) \<and>
     sel High (nx_accepted x) = sel High (nx_executed x) @ held High w @ map async_operation (snd high))"
  unfolding Let_def
  by (rule conjI [OF list_bq.bounded_queue_axioms executor_keeps_order [OF list_bq.bounded_queue_axioms _ _ refl]])
    (simp_all add: kMaxQueueCap_def)

text \<open>
  C24: \<open>Stop\<close> finishes. From any state of a started executor that does not drop tasks, after
  \<open>Stop\<close> and with no call of \<open>Schedule\<close> under way, one turn of the worker for each
  queued task and one more end the worker, every accepted task has then been executed, and
  the waiting loop of \<open>Stop\<close> returns.
\<close>

theorem executor_stop_drains:
  assumes "bounded_queue B contents capacity" "0 < cap" "cap \<le> kMaxQueueCap"
    "x = normal_run B (snd (Normal_Run tid (snd (Normal_Init B (SingleThreadAsyncExecutor cap False affinity))))) (evs @ [NxStop])"
    "nx_workers x \<noteq> [Exited]"
    "n = ConcurrentQueue_Size B (the (nx_normal x)) + ConcurrentQueue_Size B (the (nx_high x))"
    "y = normal_run B x ([NxStart 0, NxFinish 0] @ concat (replicate (Suc n) [NxTurn 0, NxFinish 0]))"
  shows "nx_workers y = [Exited] \<and> Normal_Stop_returns y \<and> nx_accepted y = nx_accepted x \<and>
     sel Normal (nx_executed y) = sel Normal (nx_accepted x) \<and> sel High (nx_executed y) = sel High (nx_accepted x)"
proof -
  have l: "normal_exec B contents capacity" using assms(1) by (rule normal_exec.intro)
  obtain w normal high where inv: "normal_exec.exec_inv contents x w normal high"
    using normal_exec.inv_run [OF l normal_exec.started_inv [OF l assms(2,3)]] assms(4) by metis
  have run: "\<not> nx_running x" by (simp add: assms(4) normal_run_def Normal_Stop_def Let_def)
  have w: "w \<noteq> Exited" "n = length (contents normal) + length (contents high)"
    using inv assms(5,6) bounded_queue.size_contents [OF assms(1)]
    by (auto simp: normal_exec.exec_inv_def [OF l] ConcurrentQueue_Size_def)
  obtain normal' high' where "normal_exec.exec_inv contents y Exited normal' high'" "contents normal' = []" "contents high' = []"
    "nx_accepted y = nx_accepted x"
    using normal_exec.stop_drains [OF l inv run w assms(7)] by blast
  then show ?thesis by (simp add: normal_exec.exec_inv_def [OF l] Normal_Stop_returns_def)
qed

theorem executor_stop_drains_witness:
  "let x = normal_run list_bq (snd (Normal_Run 7 (snd (Normal_Init list_bq (SingleThreadAsyncExecutor 2 False None)))))
          ([NxCall Normal 1, NxEnqueue 0 0, NxCall High (2 :: nat), NxEnqueue 0 0] @ [NxStop]);
       y = normal_run list_bq x ([NxStart 0, NxFinish 0] @ concat (replicate 3 [NxTurn 0, NxFinish 0]))
   in nx_workers y = [Exited] \<and> Normal_Stop_returns y \<and> nx_executed y = [(High, 2), (Normal, 1)]"
proof -
  define x where "x = normal_run list_bq (snd (Normal_Run 7 (snd (Normal_Init list_bq (SingleThreadAsyncExecutor 2 False None)))))
          ([NxCall Normal 1, NxEnqueue 0 0, NxCall High (2 :: nat), NxEnqueue 0 0] @ [NxStop])"
  define y where "y = normal_run list_bq x ([NxStart 0, NxFinish 0] @ concat (replicate 3 [NxTurn 0, NxFinish 0]))"
  have w: "nx_workers x = [Spawned]"
    and n: "ConcurrentQueue_Size list_bq (the (nx_normal x)) + ConcurrentQueue_Size list_bq (the (nx_high x)) = 2"
    unfolding x_def by code_simp+
  have y': "y = normal_run list_bq x ([NxStart 0, NxFinish 0] @ concat (replicate (Suc 2) [NxTurn 0, NxFinish 0]))"
    by (simp add: y_def numeral_3_eq_3 numeral_2_eq_2)
  have "nx_workers y = [Exited] \<and> Normal_Stop_returns y"
    using executor_stop_drains [OF list_bq.bounded_queue_axioms _ _ x_def _ n [symmetric] y'] w
    by (simp add: kMaxQueueCap_def)
  moreover have "nx_executed y = [(High, 2), (Normal, 1)]" unfolding y_def x_def by code_simp
  ultimately show ?thesis by (simp only: Let_def x_def [symmetric] y_def [symmetric])
qed



text \<open>
  The flags that \<open>Stop\<close> waits for are never reset: once a worker has left, \<open>Stop\<close> returns without waiting for the worker of a later
  \<open>Run\<close>.
\<close>

lemma stop_after_restart_returns:
  assumes "Normal_Stop_returns x"
  shows "Normal_Stop_returns (normal_run B (snd (Normal_Run thread_id x)) evs)"
proof -
  have "Normal_Stop_returns (normal_step B x ev)" if "Normal_Stop_returns x" for x ev
    using that
    by (cases ev) (auto simp: Normal_Stop_returns_def Normal_Stop_def Normal_Schedule_enqueue_def StartWorker_turn_def Let_def
        split: prod.splits worker.splits)
  moreover have "Normal_Stop_returns (snd (Normal_Run thread_id x))" using assms by (simp add: Normal_Run_def Normal_Stop_returns_def)
  ultimately show ?thesis
    unfolding normal_run_def by (induction evs arbitrary: x rule: rev_induct) simp_all
qed

end
