(* ===== verification/Priority_Executor.thy ===== *)
theory Priority_Executor
  imports Single_Executor
begin

text \<open>
  One worker thread with a queue of tasks ordered by the time they are due:
  cc/core/async_executor/src/single_thread_priority_async_executor.cc. A task is shared
  between the queue and the callback that cancels it, so tasks live in a store and the queue
  holds their addresses. Which of several tasks with the least timestamp
  \<open>std::priority_queue\<close> has on top is not specified; the choice is the parameter \<open>pick\<close>,
  which is given the timestamps in the queue.
\<close>

definition kInfiniteWaitDurationNs :: nat where
  "kInfiniteWaitDurationNs = 87600 * 3600 * 1000000000"

definition UINT64_MAX :: Timestamp where
  "UINT64_MAX = - 1"

lemma UINT64_MAX_ge [simp]: "(t :: Timestamp) \<le> UINT64_MAX"
  by (simp add: UINT64_MAX_def)

text \<open>
  A waiting worker wakes up at its deadline at the latest. \<open>px_callers\<close> are the calls of
  \<open>ScheduleFor\<close> between their check and the lock, \<open>px_executed\<close> the tasks whose
  operation was run, with the time at which the worker took them.
\<close>

datatype prio_worker = PxSpawned | PxWaiting nat | PxBusy nat Timestamp | PxExited

record 'o priority_executor =
  px_running :: bool
  px_started :: bool
  px_stopped :: bool
  px_update_wait_time :: bool
  px_next :: Timestamp
  px_queue_cap :: size_t
  px_drop :: bool
  px_affinity :: "size_t option"
  px_queue :: "nat list option"
  px_tasks :: "'o AsyncTask list"
  px_thread_id :: nat
  px_workers :: "prio_worker list"
  px_callers :: "('o \<times> Timestamp) list"
  px_executed :: "(nat \<times> Timestamp) list"

definition SingleThreadPriorityAsyncExecutor :: "size_t \<Rightarrow> bool \<Rightarrow> size_t option \<Rightarrow> 'o priority_executor" where
  "SingleThreadPriorityAsyncExecutor queue_cap drop_tasks_on_stop affinity_cpu_number =
     \<lparr>px_running = False, px_started = False, px_stopped = False, px_update_wait_time = False, px_next = UINT64_MAX,
      px_queue_cap = queue_cap, px_drop = drop_tasks_on_stop, px_affinity = affinity_cpu_number, px_queue = None,
      px_tasks = [], px_thread_id = 0, px_workers = [], px_callers = [], px_executed = []\<rparr>"

definition Priority_Init :: "'o priority_executor \<Rightarrow> ExecutionResult \<times> 'o priority_executor" where
  "Priority_Init x =
     (if px_queue_cap x \<le> 0 \<or> px_queue_cap x > kMaxQueueCap
      then (FailureExecutionResult SC_ASYNC_EXECUTOR_INVALID_QUEUE_CAP, x)
      else (SuccessExecutionResult, x\<lparr>px_queue := Some []\<rparr>))"

definition Priority_Run :: "nat \<Rightarrow> 'o priority_executor \<Rightarrow> ExecutionResult \<times> 'o priority_executor" where
  "Priority_Run thread_id x =
     (if px_running x then (FailureExecutionResult SC_ASYNC_EXECUTOR_ALREADY_RUNNING, x)
      else if px_queue x = None then (FailureExecutionResult SC_ASYNC_EXECUTOR_NOT_INITIALIZED, x)
      else (SuccessExecutionResult,
            x\<lparr>px_running := True, px_workers := px_workers x @ [PxSpawned], px_thread_id := thread_id\<rparr>))"

text \<open>\<open>top\<close> and \<open>pop\<close> of the priority queue.\<close>

definition timestamps :: "'o AsyncTask list \<Rightarrow> nat list \<Rightarrow> Timestamp list" where
  "timestamps ts q = map (\<lambda>a. GetExecutionTimestamp (ts ! a)) q"

definition queue_top :: "(Timestamp list \<Rightarrow> nat) \<Rightarrow> 'o AsyncTask list \<Rightarrow> nat list \<Rightarrow> nat" where
  "queue_top pick ts q = q ! pick (timestamps ts q)"

definition queue_pop :: "(Timestamp list \<Rightarrow> nat) \<Rightarrow> 'o AsyncTask list \<Rightarrow> nat list \<Rightarrow> nat list" where
  "queue_pop pick ts q = (let i = pick (timestamps ts q) in take i q @ drop (Suc i) q)"

text \<open>The loop that discards cancelled tasks from the top; each turn takes an element.\<close>

fun discard_cancelled :: "(Timestamp list \<Rightarrow> nat) \<Rightarrow> 'o AsyncTask list \<Rightarrow> nat \<Rightarrow> nat list \<Rightarrow> nat list" where
  "discard_cancelled pick ts 0 q = q"
| "discard_cancelled pick ts (Suc n) q =
     (if q \<noteq> [] \<and> AsyncTask_IsCancelled (ts ! queue_top pick ts q)
      then discard_cancelled pick ts n (queue_pop pick ts q) else q)"

text \<open>
  The waiting ends when its condition holds at time \<open>now\<close> or the deadline has passed.
  Then one turn of the loop follows with the lock held, up to the next waiting or to the
  release of the lock for the execution; \<open>now\<close> is then the time the loop reads. The deadline is
  counted from that time too: the moment that passes until \<open>wait_for\<close> reads the clock again is left out.
\<close>

definition wait_over :: "Timestamp \<Rightarrow> 'o priority_executor \<Rightarrow> nat \<Rightarrow> bool" where
  "wait_over now x deadline \<longleftrightarrow>
     \<not> px_running x \<or> px_update_wait_time x \<or> now > px_next x \<or> deadline \<le> unat now"

text \<open>A duration is signed: what does not fit is negative, and a wait for it ends at once.\<close>

definition wait_nanoseconds :: "Timestamp \<Rightarrow> nat" where
  "wait_nanoseconds duration = (if sint duration < 0 then 0 else unat duration)"

definition Priority_StartWorker_turn ::
  "(Timestamp list \<Rightarrow> nat) \<Rightarrow> Timestamp \<Rightarrow> 'o priority_executor \<Rightarrow> prio_worker \<times> 'o priority_executor" where
  "Priority_StartWorker_turn pick current_timestamp x =
     (let x1 = (if px_update_wait_time x then x\<lparr>px_update_wait_time := False\<rparr> else x);
          q = discard_cancelled pick (px_tasks x1) (length (the (px_queue x1))) (the (px_queue x1));
          x2 = x1\<lparr>px_queue := Some q\<rparr>
      in if length q = 0 then
           if \<not> px_running x2 then (PxExited, x2\<lparr>px_stopped := True\<rparr>)
           else (PxWaiting (unat current_timestamp + kInfiniteWaitDurationNs), x2\<lparr>px_next := UINT64_MAX\<rparr>)
         else let t = queue_top pick (px_tasks x2) q;
                  next = GetExecutionTimestamp (px_tasks x2 ! t);
                  x3 = x2\<lparr>px_next := next\<rparr>
              in if current_timestamp < next
                 then (PxWaiting (unat current_timestamp + wait_nanoseconds (next - current_timestamp)), x3)
                 else (PxBusy t current_timestamp, x3\<lparr>px_queue := Some (queue_pop pick (px_tasks x3) q)\<rparr>))"

text \<open>\<open>Stop\<close> until it releases the lock, and the condition its last loop waits for.\<close>

definition Priority_Stop :: "'o priority_executor \<Rightarrow> ExecutionResult \<times> 'o priority_executor" where
  "Priority_Stop x =
     (if \<not> px_running x then (FailureExecutionResult SC_ASYNC_EXECUTOR_NOT_RUNNING, x)
      else let x1 = x\<lparr>px_running := False\<rparr>
           in (SuccessExecutionResult, if px_drop x1 then x1\<lparr>px_queue := Some []\<rparr> else x1))"

definition Priority_Stop_returns :: "'o priority_executor \<Rightarrow> bool" where
  "Priority_Stop_returns x \<longleftrightarrow> px_started x \<and> px_stopped x"

text \<open>
  \<open>ScheduleFor\<close>: the check, which takes no lock, and the rest. The cancellation callback
  is given by the address of the task it cancels.
\<close>

definition Priority_ScheduleFor_check :: "'o priority_executor \<Rightarrow> ExecutionResult" where
  "Priority_ScheduleFor_check x =
     (if \<not> px_running x then FailureExecutionResult SC_ASYNC_EXECUTOR_NOT_RUNNING else SuccessExecutionResult)"

definition Priority_ScheduleFor_push ::
  "'o priority_executor \<Rightarrow> 'o \<Rightarrow> Timestamp \<Rightarrow> ExecutionResult \<times> nat option \<times> 'o priority_executor" where
  "Priority_ScheduleFor_push x work timestamp =
     (let q = the (px_queue x)
      in if length q \<ge> unat (px_queue_cap x)
         then (RetryExecutionResult SC_ASYNC_EXECUTOR_EXCEEDING_QUEUE_CAP, None, x)
         else let task = length (px_tasks x);
                  x1 = x\<lparr>px_tasks := px_tasks x @ [make_AsyncTask work timestamp], px_queue := Some (q @ [task])\<rparr>;
                  x2 = (if timestamp < px_next x1 then x1\<lparr>px_next := timestamp, px_update_wait_time := True\<rparr> else x1)
              in (SuccessExecutionResult, Some task, x2))"

definition Priority_ScheduleFor_cancellable ::
  "'o priority_executor \<Rightarrow> 'o \<Rightarrow> Timestamp \<Rightarrow> ExecutionResult \<times> nat option \<times> 'o priority_executor" where
  "Priority_ScheduleFor_cancellable x work timestamp =
     (let r = Priority_ScheduleFor_check x
      in if \<not> Successful r then (r, None, x) else Priority_ScheduleFor_push x work timestamp)"

definition Priority_ScheduleFor ::
  "'o priority_executor \<Rightarrow> 'o \<Rightarrow> Timestamp \<Rightarrow> ExecutionResult \<times> 'o priority_executor" where
  "Priority_ScheduleFor x work timestamp =
     (case Priority_ScheduleFor_cancellable x work timestamp of (r, _, x') \<Rightarrow> (r, x'))"

definition Priority_GetThreadId :: "'o priority_executor \<Rightarrow> nat ExecutionResultOr" where
  "Priority_GetThreadId x =
     (if \<not> px_running x then HoldsResult (FailureExecutionResult SC_ASYNC_EXECUTOR_NOT_RUNNING)
      else HoldsValue (px_thread_id x))"

section \<open>Interleavings\<close>

text \<open>
  \<open>PxCancel\<close> calls the cancellation callback of a task. A task holds its mutex while it
  executes, so executing is one event.
\<close>

datatype 'o priority_event =
    PxCall 'o Timestamp
  | PxPush nat
  | PxCancel nat
  | PxStart Timestamp nat
  | PxTurn Timestamp Timestamp nat
  | PxFinish nat
  | PxStop

fun priority_step ::
  "(Timestamp list \<Rightarrow> nat) \<Rightarrow> 'o priority_executor \<Rightarrow> 'o priority_event \<Rightarrow> 'o priority_executor" where
  "priority_step pick x (PxCall work timestamp) =
     (if Successful (Priority_ScheduleFor_check x)
      then x\<lparr>px_callers := px_callers x @ [(work, timestamp)]\<rparr> else x)"
| "priority_step pick x (PxPush i) =
     (if i < length (px_callers x)
      then snd (snd (Priority_ScheduleFor_push
             (x\<lparr>px_callers := take i (px_callers x) @ drop (Suc i) (px_callers x)\<rparr>)
             (fst (px_callers x ! i)) (snd (px_callers x ! i))))
      else x)"
| "priority_step pick x (PxCancel a) =
     (if a < length (px_tasks x)
      then x\<lparr>px_tasks := (px_tasks x)[a := snd (AsyncTask_Cancel (px_tasks x ! a))]\<rparr> else x)"
| "priority_step pick x (PxStart now i) =
     (if i < length (px_workers x) \<and> px_workers x ! i = PxSpawned
      then x\<lparr>px_started := True, px_workers := (px_workers x)[i := PxWaiting (unat now + kInfiniteWaitDurationNs)]\<rparr>
      else x)"
| "priority_step pick x (PxTurn wake now i) =
     (if i < length (px_workers x)
      then case px_workers x ! i of
             PxWaiting deadline \<Rightarrow>
               if wait_over wake x deadline
               then let (w, x1) = Priority_StartWorker_turn pick now x in x1\<lparr>px_workers := (px_workers x1)[i := w]\<rparr>
               else x
           | _ \<Rightarrow> x
      else x)"
| "priority_step pick x (PxFinish i) =
     (if i < length (px_workers x)
      then case px_workers x ! i of
             PxBusy a taken \<Rightarrow>
               x\<lparr>px_executed := px_executed x @ map (\<lambda>_. (a, taken)) (AsyncTask_Execute (px_tasks x ! a)),
                 px_workers := (px_workers x)[i := PxWaiting 0]\<rparr>
           | _ \<Rightarrow> x
      else x)"
| "priority_step pick x PxStop = snd (Priority_Stop x)"

definition priority_run ::
  "(Timestamp list \<Rightarrow> nat) \<Rightarrow> 'o priority_executor \<Rightarrow> 'o priority_event list \<Rightarrow> 'o priority_executor" where
  "priority_run pick x evs = foldl (priority_step pick) x evs"

lemmas priority_model_defs = priority_run_def Priority_Run_def Priority_Init_def SingleThreadPriorityAsyncExecutor_def
  kMaxQueueCap_def UINT64_MAX_def kInfiniteWaitDurationNs_def Priority_ScheduleFor_check_def Priority_ScheduleFor_push_def
  Priority_StartWorker_turn_def Priority_Stop_def wait_over_def queue_top_def queue_pop_def timestamps_def AsyncTask_defs

section \<open>The priority queue\<close>

locale priority_queue =
  fixes pick :: "Timestamp list \<Rightarrow> nat"
  assumes pick_less: "q \<noteq> [] \<Longrightarrow> pick q < length q"
    and pick_min: "i < length q \<Longrightarrow> q ! pick q \<le> q ! i"
begin

lemma top_mem: "q \<noteq> [] \<Longrightarrow> queue_top pick ts q \<in> set q"
  using pick_less [of "timestamps ts q"] by (auto simp: queue_top_def timestamps_def)

lemma top_min: "b \<in> set q \<Longrightarrow> execution_timestamp (ts ! queue_top pick ts q) \<le> execution_timestamp (ts ! b)"
proof -
  assume "b \<in> set q"
  then obtain i where i: "i < length q" "q ! i = b" by (auto simp: in_set_conv_nth)
  then have "pick (timestamps ts q) < length q"
    using pick_less [of "timestamps ts q"] by (cases q) (auto simp: timestamps_def)
  then show ?thesis
    using pick_min [of i "timestamps ts q"] i by (simp add: timestamps_def queue_top_def GetExecutionTimestamp_def)
qed

lemma pop_set:
  assumes "q \<noteq> []" "distinct q"
  shows "set (queue_pop pick ts q) = set q - {queue_top pick ts q}" "distinct (queue_pop pick ts q)"
    "length (queue_pop pick ts q) = length q - 1"
proof -
  have i: "pick (timestamps ts q) < length q" using pick_less [of "timestamps ts q"] assms(1) by (simp add: timestamps_def)
  show "set (queue_pop pick ts q) = set q - {queue_top pick ts q}" "distinct (queue_pop pick ts q)"
    using erase_nth_set [OF assms(2) i] by (simp_all add: queue_pop_def queue_top_def Let_def)
  show "length (queue_pop pick ts q) = length q - 1" using i by (simp add: queue_pop_def Let_def)
qed

lemma discard_spec:
  assumes "distinct q" "length q \<le> n" "q' = discard_cancelled pick ts n q"
  shows "distinct q' \<and> set q' \<subseteq> set q \<and> length q' \<le> length q \<and> (\<forall>a \<in> set q - set q'. is_cancelled (ts ! a)) \<and>
     (q' = [] \<or> \<not> is_cancelled (ts ! queue_top pick ts q'))"
  using assms
proof (induction n arbitrary: q)
  case (Suc n)
  show ?case
  proof (cases "q \<noteq> [] \<and> is_cancelled (ts ! queue_top pick ts q)")
    case True
    let ?q = "queue_pop pick ts q"
    have "distinct q' \<and> set q' \<subseteq> set ?q \<and> length q' \<le> length ?q \<and> (\<forall>a \<in> set ?q - set q'. is_cancelled (ts ! a)) \<and>
     (q' = [] \<or> \<not> is_cancelled (ts ! queue_top pick ts q'))"
      using Suc.prems True pop_set [of q ts] by (intro Suc.IH) (simp_all add: AsyncTask_IsCancelled_def)
    then show ?thesis using pop_set [of q ts] Suc.prems(1) True by auto
  next
    case False
    then have "q' = q" using Suc.prems by (auto simp: AsyncTask_IsCancelled_def)
    then show ?thesis using Suc.prems(1) False by auto
  qed
qed simp

text \<open>What a turn of the worker does.\<close>

lemma turn_spec:
  assumes "px_queue x = Some q" "distinct q"
  obtains q1 where "distinct q1" "set q1 \<subseteq> set q" "length q1 \<le> length q" "\<forall>a \<in> set q - set q1. is_cancelled (px_tasks x ! a)"
    "Priority_StartWorker_turn pick now x =
       (let a = queue_top pick (px_tasks x) q1; due = execution_timestamp (px_tasks x ! a); x1 = x\<lparr>px_update_wait_time := False\<rparr>
        in if q1 = [] then
             if px_running x
             then (PxWaiting (unat now + kInfiniteWaitDurationNs), x1\<lparr>px_queue := Some [], px_next := UINT64_MAX\<rparr>)
             else (PxExited, x1\<lparr>px_queue := Some [], px_stopped := True\<rparr>)
           else if now < due then (PxWaiting (unat now + wait_nanoseconds (due - now)), x1\<lparr>px_queue := Some q1, px_next := due\<rparr>)
           else (PxBusy a now, x1\<lparr>px_queue := Some (queue_pop pick (px_tasks x) q1), px_next := due\<rparr>))"
proof -
  define q1 where "q1 = discard_cancelled pick (px_tasks x) (length q) q"
  note d = discard_spec [OF assms(2) order_refl q1_def]
  define x1 where "x1 = (if px_update_wait_time x then x\<lparr>px_update_wait_time := False\<rparr> else x)"
  have x1: "x1 = x\<lparr>px_update_wait_time := False\<rparr>" by (simp add: x1_def)
  show ?thesis
    by (rule that [of q1])
      (use d assms(1) in \<open>simp_all add: Priority_StartWorker_turn_def Let_def x1_def [symmetric] x1
          q1_def [symmetric] GetExecutionTimestamp_def\<close>)
qed

section \<open>One worker\<close>

text \<open>The addresses in the queue, the worker's own, and the executed ones partition the tasks not cancelled.\<close>

fun worker_ok :: "'o priority_executor \<Rightarrow> nat list \<Rightarrow> prio_worker \<Rightarrow> bool" where
  "worker_ok x q PxSpawned \<longleftrightarrow> px_update_wait_time x \<or> px_next x = UINT64_MAX"
| "worker_ok x q (PxWaiting d) \<longleftrightarrow> px_update_wait_time x \<or> d \<le> unat (px_next x) \<or> px_next x = UINT64_MAX"
| "worker_ok x q (PxBusy a t) \<longleftrightarrow> a < length (px_tasks x) \<and> a \<notin> set q \<and> a \<notin> fst ` set (px_executed x) \<and>
     execution_timestamp (px_tasks x ! a) \<le> t"
| "worker_ok x q PxExited \<longleftrightarrow> \<not> px_running x"

definition prio_inv :: "'o priority_executor \<Rightarrow> prio_worker \<Rightarrow> nat list \<Rightarrow> bool" where
  "prio_inv x w q \<longleftrightarrow>
     px_workers x = [w] \<and> px_queue x = Some q \<and> distinct q \<and> length q \<le> unat (px_queue_cap x) \<and>
     (\<forall>a \<in> set q. a < length (px_tasks x) \<and> px_next x \<le> execution_timestamp (px_tasks x ! a) \<and>
        a \<notin> fst ` set (px_executed x)) \<and>
     distinct (map fst (px_executed x)) \<and>
     (\<forall>(a, t) \<in> set (px_executed x). a < length (px_tasks x) \<and> execution_timestamp (px_tasks x ! a) \<le> t) \<and>
     worker_ok x q w \<and> (px_started x \<longleftrightarrow> w \<noteq> PxSpawned) \<and> (px_stopped x \<longleftrightarrow> w = PxExited)"

definition kept :: "'o priority_executor \<Rightarrow> prio_worker \<Rightarrow> nat list \<Rightarrow> bool" where
  "kept x w q \<longleftrightarrow> (\<forall>a < length (px_tasks x). a \<in> set q \<or> (\<exists>t. w = PxBusy a t) \<or> a \<in> fst ` set (px_executed x) \<or>
     is_cancelled (px_tasks x ! a))"

lemma inv_push:
  assumes "prio_inv x w q"
  obtains q' where "prio_inv (snd (snd (Priority_ScheduleFor_push x work timestamp))) w q'"
    "kept x w q \<Longrightarrow> kept (snd (snd (Priority_ScheduleFor_push x work timestamp))) w q'"
proof (cases "length q \<ge> unat (px_queue_cap x)")
  case True
  then show ?thesis using that [of q] assms by (simp add: Priority_ScheduleFor_push_def prio_inv_def)
next
  case False
  let ?x = "snd (snd (Priority_ScheduleFor_push x work timestamp))"
  have "prio_inv ?x w (q @ [length (px_tasks x)])"
    using assms False
    by (cases w) (auto simp: Priority_ScheduleFor_push_def prio_inv_def Let_def nth_append make_AsyncTask_def not_le
        intro: order_trans order_less_imp_le)
  moreover have "kept ?x w (q @ [length (px_tasks x)])" if "kept x w q"
    using that assms False
    by (auto simp: Priority_ScheduleFor_push_def prio_inv_def kept_def Let_def nth_append less_Suc_eq)
  ultimately show ?thesis using that by blast
qed

lemma inv_turn:
  assumes inv: "prio_inv x (PxWaiting d) q" and over: "wait_over wake x d"
  obtains w q' where "prio_inv (priority_step pick x (PxTurn wake now 0)) w q'"
    "kept x (PxWaiting d) q \<Longrightarrow> kept (priority_step pick x (PxTurn wake now 0)) w q'"
    "px_tasks (priority_step pick x (PxTurn wake now 0)) = px_tasks x"
    "px_running (priority_step pick x (PxTurn wake now 0)) = px_running x"
    "set q' \<subseteq> set q"
    "(\<forall>a \<in> set q. is_cancelled (px_tasks x ! a) \<or> now < execution_timestamp (px_tasks x ! a)) \<and> length q' \<le> length q \<and>
       (w = PxExited \<and> \<not> px_running x \<and> q' = [] \<or>
        (\<exists>d. w = PxWaiting d) \<and> (px_running x \<or> q' \<noteq> []) \<and> (\<forall>a \<in> set q'. now < execution_timestamp (px_tasks x ! a))) \<or>
     (\<exists>a. w = PxBusy a now \<and> a \<in> set q \<and> length q' < length q \<and>
        (\<forall>b \<in> set q'. execution_timestamp (px_tasks x ! a) \<le> execution_timestamp (px_tasks x ! b)))"
proof -
  let ?y = "priority_step pick x (PxTurn wake now 0)"
  have q: "px_queue x = Some q" "distinct q" "px_workers x = [PxWaiting d]" using inv by (simp_all add: prio_inv_def)
  obtain q1 where q1: "distinct q1" "set q1 \<subseteq> set q" "length q1 \<le> length q" "\<forall>a \<in> set q - set q1. is_cancelled (px_tasks x ! a)"
    "Priority_StartWorker_turn pick now x =
       (let a = queue_top pick (px_tasks x) q1; due = execution_timestamp (px_tasks x ! a); x1 = x\<lparr>px_update_wait_time := False\<rparr>
        in if q1 = [] then
             if px_running x
             then (PxWaiting (unat now + kInfiniteWaitDurationNs), x1\<lparr>px_queue := Some [], px_next := UINT64_MAX\<rparr>)
             else (PxExited, x1\<lparr>px_queue := Some [], px_stopped := True\<rparr>)
           else if now < due then (PxWaiting (unat now + wait_nanoseconds (due - now)), x1\<lparr>px_queue := Some q1, px_next := due\<rparr>)
           else (PxBusy a now, x1\<lparr>px_queue := Some (queue_pop pick (px_tasks x) q1), px_next := due\<rparr>))"
    by (rule turn_spec [OF q(1,2), of now])
  define a where "a = queue_top pick (px_tasks x) q1"
  have y: "?y = (case Priority_StartWorker_turn pick now x of (w, x1) \<Rightarrow> x1\<lparr>px_workers := [w]\<rparr>)"
    if "px_workers (snd (Priority_StartWorker_turn pick now x)) = [PxWaiting d]"
    using q(3) over that by (simp add: split_beta)
  note turn = q1(5) [unfolded Let_def, folded a_def]
  consider "q1 = []" "\<not> px_running x" | "q1 = []" "px_running x" | "q1 \<noteq> []" "now < execution_timestamp (px_tasks x ! a)"
    | "q1 \<noteq> []" "\<not> now < execution_timestamp (px_tasks x ! a)" by blast
  then show ?thesis
  proof cases
    case 1
    have "?y = x\<lparr>px_update_wait_time := False, px_queue := Some [], px_stopped := True, px_workers := [PxExited]\<rparr>"
      using y turn 1 q(3) by simp
    then show ?thesis
      using that [of PxExited "[]"] inv 1 q1(4) by (auto simp: prio_inv_def kept_def)
  next
    case 2
    have "?y = x\<lparr>px_update_wait_time := False, px_queue := Some [], px_next := UINT64_MAX,
        px_workers := [PxWaiting (unat now + kInfiniteWaitDurationNs)]\<rparr>"
      using y turn 2 q(3) by simp
    then show ?thesis
      using that [of "PxWaiting (unat now + kInfiniteWaitDurationNs)" "[]"] inv 2 q1(4) by (auto simp: prio_inv_def kept_def)
  next
    case 3
    let ?w = "PxWaiting (unat now + wait_nanoseconds (execution_timestamp (px_tasks x ! a) - now))"
    have "unat now + wait_nanoseconds (execution_timestamp (px_tasks x ! a) - now) \<le> unat (execution_timestamp (px_tasks x ! a))"
      using 3(2) by (simp add: wait_nanoseconds_def unat_sub word_less_nat_alt order_less_imp_le word_le_nat_alt)
    note early = this
    have y': "?y = x\<lparr>px_update_wait_time := False, px_queue := Some q1, px_next := execution_timestamp (px_tasks x ! a),
        px_workers := [?w]\<rparr>"
      using y turn 3 q(3) by simp
    have min: "execution_timestamp (px_tasks x ! a) \<le> execution_timestamp (px_tasks x ! b)" if "b \<in> set q1" for b
      using top_min [OF that] by (simp add: a_def)
    have "prio_inv ?y ?w q1"
      unfolding y' using inv q1(1-3) min early by (auto simp: prio_inv_def)
    moreover have "kept ?y ?w q1" if "kept x (PxWaiting d) q"
      using that q1(4) unfolding y' kept_def by auto
    moreover have "now < execution_timestamp (px_tasks x ! b)" if "b \<in> set q1" for b using min [OF that] 3(2) by simp
    ultimately show ?thesis using that [of ?w q1] q1(2-4) 3(1) y' by auto
  next
    case 4
    let ?q = "queue_pop pick (px_tasks x) q1"
    have y': "?y = x\<lparr>px_update_wait_time := False, px_queue := Some ?q, px_next := execution_timestamp (px_tasks x ! a),
        px_workers := [PxBusy a now]\<rparr>"
      using y turn 4 q(3) by simp
    have a: "a \<in> set q1" "set ?q = set q1 - {a}" "distinct ?q" "length ?q = length q1 - 1"
      using top_mem [OF 4(1)] pop_set [OF 4(1) q1(1)] by (simp_all add: a_def)
    have min: "execution_timestamp (px_tasks x ! a) \<le> execution_timestamp (px_tasks x ! b)" if "b \<in> set q1" for b
      using top_min [OF that] by (simp add: a_def)
    have "prio_inv ?y (PxBusy a now) ?q"
      unfolding y' using inv q1(1-3) min a 4(2) by (auto simp: prio_inv_def)
    moreover have "kept ?y (PxBusy a now) ?q" if "kept x (PxWaiting d) q"
      using that q1(4) a(2) unfolding y' kept_def by auto
    moreover have "length ?q < length q" using a(4) q1(3) 4(1) by (cases q1) auto
    ultimately show ?thesis using that [of "PxBusy a now" ?q] q1(2) a(1,2) min y' by auto
  qed
qed

lemma cancel_flags:
  fixes ts :: "'o AsyncTask list"
  shows "execution_timestamp ((ts[a := snd (AsyncTask_Cancel (ts ! a))]) ! b) = execution_timestamp (ts ! b)"
  "is_cancelled (ts ! b) \<Longrightarrow> is_cancelled ((ts[a := snd (AsyncTask_Cancel (ts ! a))]) ! b)"
  by (cases "b = a"; cases "b < length ts"; simp add: AsyncTask_Cancel_def list_update_beyond not_less)
    (cases "b = a"; cases "b < length ts"; simp add: AsyncTask_Cancel_def list_update_beyond not_less)

lemma inv_step:
  assumes "prio_inv x w q"
  shows "\<exists>w' q'. prio_inv (priority_step pick x ev) w' q' \<and>
     (\<not> px_drop x \<longrightarrow> kept x w q \<longrightarrow> kept (priority_step pick x ev) w' q')"
proof (cases ev)
  case (PxCall work ts)
  then have "prio_inv (priority_step pick x ev) w q \<and> (kept x w q \<longrightarrow> kept (priority_step pick x ev) w q)"
    using assms by (cases w) (auto simp: prio_inv_def kept_def)
  then show ?thesis by blast
next
  case (PxPush i)
  have "prio_inv (x\<lparr>px_callers := c\<rparr>) w q \<and> (kept x w q \<longrightarrow> kept (x\<lparr>px_callers := c\<rparr>) w q)" for c
    using assms by (cases w) (simp_all add: prio_inv_def kept_def)
  then show ?thesis
    using PxPush assms inv_push [of "x\<lparr>px_callers := take i (px_callers x) @ drop (Suc i) (px_callers x)\<rparr>" w q
        "fst (px_callers x ! i)" "snd (px_callers x ! i)"]
    by (cases "i < length (px_callers x)") (auto, blast)
next
  case (PxCancel a)
  then have "prio_inv (priority_step pick x ev) w q \<and> (kept x w q \<longrightarrow> kept (priority_step pick x ev) w q)"
    using assms by (cases w) (auto simp: prio_inv_def kept_def cancel_flags)
  then show ?thesis by blast
next
  case (PxStart now i)
  let ?w = "if i = 0 \<and> w = PxSpawned then PxWaiting (unat now + kInfiniteWaitDurationNs) else w"
  have "prio_inv (priority_step pick x ev) ?w q \<and> (kept x w q \<longrightarrow> kept (priority_step pick x ev) ?w q)"
    using assms PxStart by (cases w) (auto simp: prio_inv_def kept_def)
  then show ?thesis by blast
next
  case (PxTurn wake now i)
  show ?thesis
  proof (cases "i = 0 \<and> (\<exists>d. w = PxWaiting d \<and> wait_over wake x d)")
    case True
    then obtain d where d: "i = 0" "w = PxWaiting d" "wait_over wake x d" by blast
    then have "prio_inv x (PxWaiting d) q" using assms by simp
    from inv_turn [OF this d(3), of now] show ?thesis unfolding PxTurn d(1,2) by metis
  next
    case False
    then have "priority_step pick x ev = x" using assms PxTurn by (cases w) (auto simp: prio_inv_def)
    then show ?thesis using assms by auto
  qed
next
  case (PxFinish i)
  let ?w = "if i = 0 \<and> (\<exists>a t. w = PxBusy a t) then PxWaiting 0 else w"
  have "prio_inv (priority_step pick x ev) ?w q \<and> (kept x w q \<longrightarrow> kept (priority_step pick x ev) ?w q)"
    using assms PxFinish by (cases w) (auto simp: prio_inv_def kept_def AsyncTask_Execute_def)
  then show ?thesis by blast
next
  case PxStop
  have "prio_inv (priority_step pick x ev) w (if px_running x \<and> px_drop x then [] else q) \<and>
      (\<not> px_drop x \<longrightarrow> kept x w q \<longrightarrow> kept (priority_step pick x ev) w (if px_running x \<and> px_drop x then [] else q))"
    using assms PxStop by (cases w) (auto simp: prio_inv_def kept_def Priority_Stop_def Let_def)
  then show ?thesis by blast
qed

lemma turn_keeps:
  "px_tasks (snd (Priority_StartWorker_turn pick now x)) = px_tasks x"
  "px_executed (snd (Priority_StartWorker_turn pick now x)) = px_executed x"
  "px_drop (snd (Priority_StartWorker_turn pick now x)) = px_drop x"
  by (simp_all add: Priority_StartWorker_turn_def Let_def)

lemma drop_keeps: "px_drop (priority_step pick x ev) = px_drop x"
proof (cases ev)
  case (PxTurn wake now i)
  then show ?thesis by (simp add: split_beta turn_keeps split: prio_worker.split)
next
  case (PxFinish i)
  then show ?thesis by (simp split: prio_worker.split)
qed (simp_all add: Priority_ScheduleFor_push_def Priority_Stop_def Let_def)

lemma inv_run:
  "prio_inv x w q \<Longrightarrow> \<exists>w' q'. prio_inv (priority_run pick x evs) w' q' \<and>
     (\<not> px_drop x \<longrightarrow> kept x w q \<longrightarrow> kept (priority_run pick x evs) w' q')"
proof (induction evs arbitrary: x w q)
  case (Cons ev evs)
  obtain w1 q1 where 1: "prio_inv (priority_step pick x ev) w1 q1"
    "\<not> px_drop x \<longrightarrow> kept x w q \<longrightarrow> kept (priority_step pick x ev) w1 q1"
    using inv_step [OF Cons.prems] by blast
  from Cons.IH [OF 1(1)] show ?case using 1(2) drop_keeps [of x ev] by (auto simp: priority_run_def)
qed (auto simp: priority_run_def)

text \<open>A cancelled task stays cancelled and is not executed any more.\<close>

lemma cancelled_step:
  assumes "a < length (px_tasks x)" "is_cancelled (px_tasks x ! a)" "a \<notin> fst ` set (px_executed x)"
  shows "a < length (px_tasks (priority_step pick x ev)) \<and> is_cancelled (px_tasks (priority_step pick x ev) ! a) \<and>
    a \<notin> fst ` set (px_executed (priority_step pick x ev))"
proof (cases ev)
  case (PxCancel b)
  then show ?thesis using assms cancel_flags(2) by auto
next
  case (PxTurn wake now i)
  then show ?thesis using assms by (simp add: split_beta turn_keeps split: prio_worker.split)
next
  case (PxFinish i)
  then show ?thesis using assms by (auto simp: AsyncTask_Execute_def split: prio_worker.split)
qed (use assms in \<open>auto simp: Priority_ScheduleFor_push_def Priority_Stop_def Let_def nth_append\<close>)

lemma cancelled_run:
  assumes "a < length (px_tasks x)" "is_cancelled (px_tasks x ! a)" "a \<notin> fst ` set (px_executed x)"
  shows "a \<notin> fst ` set (px_executed (priority_run pick x evs))"
  using assms
proof (induction evs arbitrary: x)
  case (Cons ev evs)
  show ?case using Cons.IH [of "priority_step pick x ev"] cancelled_step [OF Cons.prems, of ev] by (simp add: priority_run_def)
qed (simp add: priority_run_def)

text \<open>After \<open>Stop\<close>, once every task is due, the worker empties the queue and exits.\<close>

lemma exited_stays:
  "px_workers x = [PxExited] \<Longrightarrow> priority_run pick x (concat (replicate n [PxTurn now now 0, PxFinish 0])) = x"
  by (induction n) (simp_all add: priority_run_def)

lemma drain_turn:
  assumes "prio_inv x (PxWaiting d) q" "kept x (PxWaiting d) q" "\<not> px_running x"
    "\<forall>a \<in> set q. execution_timestamp (px_tasks x ! a) \<le> now" "y = priority_step pick x (PxTurn now now 0)"
  obtains w q' where "prio_inv y w q'" "kept y w q'" "px_tasks y = px_tasks x" "px_running y = px_running x" "set q' \<subseteq> set q"
    "w = PxExited \<and> q' = [] \<or> (\<exists>a. w = PxBusy a now \<and> length q' < length q)"
proof -
  have over: "wait_over now x d" using assms(3) by (simp add: wait_over_def)
  show ?thesis
  proof (rule inv_turn [OF assms(1) over, of now, folded assms(5)])
    fix w q'
    assume t: "prio_inv y w q'" "kept x (PxWaiting d) q \<Longrightarrow> kept y w q'" "px_tasks y = px_tasks x" "px_running y = px_running x"
      "set q' \<subseteq> set q"
      and out: "(\<forall>a \<in> set q. is_cancelled (px_tasks x ! a) \<or> now < execution_timestamp (px_tasks x ! a)) \<and> length q' \<le> length q \<and>
       (w = PxExited \<and> \<not> px_running x \<and> q' = [] \<or>
        (\<exists>d. w = PxWaiting d) \<and> (px_running x \<or> q' \<noteq> []) \<and> (\<forall>a \<in> set q'. now < execution_timestamp (px_tasks x ! a))) \<or>
     (\<exists>a. w = PxBusy a now \<and> a \<in> set q \<and> length q' < length q \<and>
        (\<forall>b \<in> set q'. execution_timestamp (px_tasks x ! a) \<le> execution_timestamp (px_tasks x ! b)))"
    have "\<not> (q' \<noteq> [] \<and> (\<forall>a \<in> set q'. now < execution_timestamp (px_tasks x ! a)))"
      using t(5) assms(4) by (cases q') (auto simp: not_less)
    then show ?thesis using that [OF t(1) t(2) [OF assms(2)] t(3,4,5)] out assms(3) by blast
  qed
qed

lemma drain:
  assumes "prio_inv x (PxWaiting d) q" "kept x (PxWaiting d) q" "\<not> px_running x" "length q \<le> n"
    "\<forall>a \<in> set q. execution_timestamp (px_tasks x ! a) \<le> now"
  shows "\<exists>y. y = priority_run pick x (concat (replicate (Suc n) [PxTurn now now 0, PxFinish 0])) \<and>
    prio_inv y PxExited [] \<and> kept y PxExited [] \<and> px_tasks y = px_tasks x"
  using assms
proof (induction n arbitrary: x d q)
  case 0
  define y where "y = priority_step pick x (PxTurn now now 0)"
  obtain w q' where t: "prio_inv y w q'" "kept y w q'" "px_tasks y = px_tasks x"
    "w = PxExited \<and> q' = [] \<or> (\<exists>a. w = PxBusy a now \<and> length q' < length q)"
    by (rule drain_turn [OF 0(1-3,5) y_def])
  then have "w = PxExited" "q' = []" using 0(4) by auto
  moreover from this have "priority_step pick y (PxFinish 0) = y" using t(1) by (simp add: prio_inv_def)
  ultimately show ?case using t by (simp add: priority_run_def y_def [symmetric] del: priority_step.simps)
next
  case (Suc n)
  define y where "y = priority_step pick x (PxTurn now now 0)"
  define z where "z = priority_step pick y (PxFinish 0)"
  obtain w q' where t: "prio_inv y w q'" "kept y w q'" "px_tasks y = px_tasks x" "px_running y = px_running x" "set q' \<subseteq> set q"
    "w = PxExited \<and> q' = [] \<or> (\<exists>a. w = PxBusy a now \<and> length q' < length q)"
    by (rule drain_turn [OF Suc.prems(1-3,5) y_def])
  have run: "priority_run pick x (concat (replicate (Suc (Suc n)) [PxTurn now now 0, PxFinish 0])) =
      priority_run pick z (concat (replicate (Suc n) [PxTurn now now 0, PxFinish 0]))"
    by (simp add: priority_run_def y_def z_def del: priority_step.simps)
  show ?case
  proof (cases "w = PxExited")
    case True
    then have "z = y" "px_workers y = [PxExited]" using t(1) by (simp_all add: z_def prio_inv_def)
    then show ?thesis using run exited_stays [of y "Suc n" now] t True by auto
  next
    case False
    then obtain a where a: "w = PxBusy a now" "length q' < length q" using t(6) by blast
    have "prio_inv z (PxWaiting 0) q' \<and> kept z (PxWaiting 0) q' \<and> px_tasks z = px_tasks y \<and> px_running z = px_running y"
      using t(1,2) a(1) by (auto simp: z_def prio_inv_def kept_def AsyncTask_Execute_def)
    then show ?thesis
      using Suc.IH [of z 0 q'] run t(3,4,5) a(2) Suc.prems(3,4,5) by auto
  qed
qed

abbreviation started :: "nat \<Rightarrow> size_t \<Rightarrow> bool \<Rightarrow> size_t option \<Rightarrow> 'o priority_executor" where
  "started thread_id cap dropping affinity \<equiv>
     snd (Priority_Run thread_id (snd (Priority_Init (SingleThreadPriorityAsyncExecutor cap dropping affinity))))"

lemma started_inv:
  assumes "0 < cap" "cap \<le> kMaxQueueCap"
  shows "prio_inv (started tid cap dropping affinity) PxSpawned []" "kept (started tid cap dropping affinity) PxSpawned []"
    "px_drop (started tid cap dropping affinity) = dropping"
  using assms
  by (auto simp: prio_inv_def kept_def Priority_Run_def Priority_Init_def SingleThreadPriorityAsyncExecutor_def)

end

text \<open>The first of the least timestamps.\<close>

fun first_min :: "Timestamp list \<Rightarrow> nat" where
  "first_min [] = 0"
| "first_min [t] = 0"
| "first_min (t # u # ts) = (if t \<le> (u # ts) ! first_min (u # ts) then 0 else Suc (first_min (u # ts)))"

lemma first_min_less: "q \<noteq> [] \<Longrightarrow> first_min q < length q"
  by (induction q rule: first_min.induct) auto

lemma first_min_min: "i < length q \<Longrightarrow> q ! first_min q \<le> q ! i"
proof (induction q arbitrary: i rule: first_min.induct)
  case (3 t u ts)
  show ?case
  proof (cases i)
    case (Suc j)
    then have "(u # ts) ! first_min (u # ts) \<le> (u # ts) ! j" using 3 by simp
    then show ?thesis using Suc by auto
  qed auto
qed simp_all

interpretation first_min: priority_queue first_min
  by unfold_locales (simp_all add: first_min_less first_min_min)

section \<open>Properties\<close>

text \<open>
  C23: however calls, cancellations, worker and \<open>Stop\<close> interleave, the queue of a started
  executor stays within its bound, no task is executed before it is due or twice, and
  none is lost: unless the executor drops tasks, each is queued, with the worker, executed
  or cancelled. A task cancelled before it was executed is never executed.
\<close>

theorem timed_tasks_run_once:
  assumes "priority_queue pick" "0 < cap" "cap \<le> kMaxQueueCap"
    "x = priority_run pick (snd (Priority_Run tid (snd (Priority_Init
           (SingleThreadPriorityAsyncExecutor cap dropping affinity))))) evs"
  shows "\<exists>w q. px_workers x = [w] \<and> px_queue x = Some q \<and> length q \<le> unat (px_queue_cap x) \<and>
     distinct (map fst (px_executed x)) \<and>
     (\<forall>(a, t) \<in> set (px_executed x). execution_timestamp (px_tasks x ! a) \<le> t) \<and>
     (\<not> dropping \<longrightarrow> (\<forall>a < length (px_tasks x). a \<in> set q \<or> (\<exists>t. w = PxBusy a t) \<or>
        a \<in> fst ` set (px_executed x) \<or> is_cancelled (px_tasks x ! a))) \<and>
     (\<forall>a later. a < length (px_tasks x) \<longrightarrow> a \<notin> fst ` set (px_executed x) \<longrightarrow>
        a \<notin> fst ` set (px_executed (priority_run pick x (PxCancel a # later))))"
proof -
  have l: "priority_queue pick" by (rule assms(1))
  note st = priority_queue.started_inv [OF l assms(2,3), of tid dropping affinity]
  obtain w q where inv: "priority_queue.prio_inv x w q" "\<not> dropping \<longrightarrow> priority_queue.kept x w q"
    using priority_queue.inv_run [OF l st(1), of evs] st(2,3) assms(4) by auto
  have cancel: "a \<notin> fst ` set (px_executed (priority_run pick x (PxCancel a # later)))"
    if "a < length (px_tasks x)" "a \<notin> fst ` set (px_executed x)" for a later
    using priority_queue.cancelled_run [OF l, of a "priority_step pick x (PxCancel a)" later] that
    by (simp add: priority_run_def AsyncTask_Cancel_def)
  have "\<forall>(a, t) \<in> set (px_executed x). execution_timestamp (px_tasks x ! a) \<le> t"
    using inv(1) by (auto simp: priority_queue.prio_inv_def [OF l])
  then show ?thesis
    using inv cancel unfolding priority_queue.prio_inv_def [OF l] priority_queue.kept_def [OF l] by blast
qed

theorem timed_tasks_run_once_witness:
  "priority_queue first_min \<and>
   (let x = priority_run first_min (snd (Priority_Run 7 (snd (Priority_Init
          (SingleThreadPriorityAsyncExecutor 3 False None)))))
          [PxCall (10 :: nat) 50, PxPush 0, PxCall 11 20, PxPush 0, PxStart 0 0, PxTurn 30 30 0, PxFinish 0]
    in px_executed x = [(1, 30)] \<and> execution_timestamp (px_tasks x ! 1) \<le> 30 \<and>
       0 \<notin> fst ` set (px_executed (priority_run first_min x [PxCancel 0, PxTurn 90 90 0, PxFinish 0])))"
proof -
  define x where "x = priority_run first_min (snd (Priority_Run 7 (snd (Priority_Init
          (SingleThreadPriorityAsyncExecutor 3 False None)))))
          [PxCall (10 :: nat) 50, PxPush 0, PxCall 11 20, PxPush 0, PxStart 0 0, PxTurn 30 30 0, PxFinish 0]"
  have x: "px_executed x = [(1, 30)]" "length (px_tasks x) = 2" unfolding x_def by (simp_all add: priority_model_defs)
  have "(\<forall>(a, t) \<in> set (px_executed x). execution_timestamp (px_tasks x ! a) \<le> t) \<and>
     (\<forall>a later. a < length (px_tasks x) \<longrightarrow> a \<notin> fst ` set (px_executed x) \<longrightarrow>
        a \<notin> fst ` set (px_executed (priority_run first_min x (PxCancel a # later))))"
    using timed_tasks_run_once [OF first_min.priority_queue_axioms _ _ x_def] by (auto simp: kMaxQueueCap_def)
  then show ?thesis
    using x first_min.priority_queue_axioms unfolding x_def [symmetric] Let_def by simp
qed

text \<open>
  C22: the worker of a started executor never oversleeps. While it waits, with a task in the
  queue that is not cancelled and has become due, its waiting is over, because it was
  signalled or because its timeout has run out; and when it goes on it takes a task that is
  due no later than any task it leaves in the queue.
\<close>

theorem worker_never_oversleeps:
  assumes "priority_queue pick" "0 < cap" "cap \<le> kMaxQueueCap"
    "x = priority_run pick (snd (Priority_Run tid (snd (Priority_Init
           (SingleThreadPriorityAsyncExecutor cap dropping affinity))))) evs"
    "px_workers x = [PxWaiting deadline]" "px_queue x = Some q" "a \<in> set q" "\<not> is_cancelled (px_tasks x ! a)"
    "execution_timestamp (px_tasks x ! a) \<le> now" "execution_timestamp (px_tasks x ! a) \<noteq> UINT64_MAX"
    "y = priority_step pick x (PxTurn now now 0)"
  shows "wait_over now x deadline \<and>
     (\<exists>b q'. px_workers y = [PxBusy b now] \<and> b \<in> set q \<and> px_queue y = Some q' \<and>
        (\<forall>c \<in> set q'. execution_timestamp (px_tasks x ! b) \<le> execution_timestamp (px_tasks x ! c)))"
proof -
  have l: "priority_queue pick" by (rule assms(1))
  have inv: "priority_queue.prio_inv x (PxWaiting deadline) q"
    using priority_queue.inv_run [OF l priority_queue.started_inv(1) [OF l assms(2,3)], of tid dropping affinity evs]
      assms(4,5,6) by (auto simp: priority_queue.prio_inv_def [OF l])
  have next_le: "px_next x \<le> execution_timestamp (px_tasks x ! a)"
    using inv assms(7) by (simp add: priority_queue.prio_inv_def [OF l])
  have "px_next x \<noteq> UINT64_MAX" using next_le assms(10) UINT64_MAX_ge order_antisym by metis
  then have "px_update_wait_time x \<or> deadline \<le> unat (px_next x)"
    using inv by (simp add: priority_queue.prio_inv_def [OF l] priority_queue.worker_ok.simps [OF l])
  moreover have "unat (px_next x) \<le> unat now" using next_le assms(9) by (simp add: word_le_nat_alt)
  ultimately have over: "wait_over now x deadline" by (auto simp: wait_over_def)
  show ?thesis
  proof (rule priority_queue.inv_turn [OF l inv over, of now, folded assms(11)])
    fix w q'
    assume t: "priority_queue.prio_inv y w q'"
      and out: "(\<forall>a \<in> set q. is_cancelled (px_tasks x ! a) \<or> now < execution_timestamp (px_tasks x ! a)) \<and> length q' \<le> length q \<and>
       (w = PxExited \<and> \<not> px_running x \<and> q' = [] \<or>
        (\<exists>d. w = PxWaiting d) \<and> (px_running x \<or> q' \<noteq> []) \<and> (\<forall>a \<in> set q'. now < execution_timestamp (px_tasks x ! a))) \<or>
     (\<exists>a. w = PxBusy a now \<and> a \<in> set q \<and> length q' < length q \<and>
        (\<forall>b \<in> set q'. execution_timestamp (px_tasks x ! a) \<le> execution_timestamp (px_tasks x ! b)))"
    have "\<not> (is_cancelled (px_tasks x ! a) \<or> now < execution_timestamp (px_tasks x ! a))" using assms(8,9) by (simp add: not_less)
    then show ?thesis using out t over assms(7) unfolding priority_queue.prio_inv_def [OF l] by blast
  qed
qed

theorem worker_never_oversleeps_witness:
  "let x = priority_run first_min (snd (Priority_Run 7 (snd (Priority_Init
          (SingleThreadPriorityAsyncExecutor 3 False None)))))
          [PxStart 0 0, PxTurn 1 1 0, PxCall (10 :: nat) 50, PxPush 0, PxCall 11 20, PxPush 0]
   in wait_over 60 x 315360000000000000 \<and>
      px_workers (priority_step first_min x (PxTurn 60 60 0)) = [PxBusy 1 60]"
proof -
  define x where "x = priority_run first_min (snd (Priority_Run 7 (snd (Priority_Init
          (SingleThreadPriorityAsyncExecutor 3 False None)))))
          [PxStart 0 0, PxTurn 1 1 0, PxCall (10 :: nat) 50, PxPush 0, PxCall 11 20, PxPush 0]"
  have x: "px_workers x = [PxWaiting 315360000000000000]" "px_queue x = Some [0, 1]"
    "\<not> is_cancelled (px_tasks x ! 0)" "execution_timestamp (px_tasks x ! 0) = 50"
    "px_workers (priority_step first_min x (PxTurn 60 60 0)) = [PxBusy 1 60]"
    unfolding x_def by (simp_all add: priority_model_defs)
  have "wait_over 60 x 315360000000000000"
    using worker_never_oversleeps [OF first_min.priority_queue_axioms _ _ x_def x(1,2), of 0 60] x(3,4)
    by (simp add: kMaxQueueCap_def UINT64_MAX_def)
  then show ?thesis using x(5) unfolding x_def [symmetric] Let_def by simp
qed

text \<open>
  C34: \<open>Stop\<close> of the priority executor finishes. Once all queued tasks of an executor
  that does not drop tasks are due, one turn of the worker for each queued task and one more
  end it; every task has then been executed or was cancelled, and \<open>Stop\<close> returns.
\<close>

theorem timed_stop_drains:
  assumes "priority_queue pick" "0 < cap" "cap \<le> kMaxQueueCap"
    "x = priority_run pick (snd (Priority_Run tid (snd (Priority_Init
           (SingleThreadPriorityAsyncExecutor cap False affinity))))) (evs @ [PxStop])"
    "px_workers x \<noteq> [PxExited]" "px_queue x = Some q" "\<forall>a \<in> set q. execution_timestamp (px_tasks x ! a) \<le> now"
    "y = priority_run pick x ([PxStart now 0, PxFinish 0] @ concat (replicate (Suc (length q)) [PxTurn now now 0, PxFinish 0]))"
  shows "px_workers y = [PxExited] \<and> Priority_Stop_returns y \<and>
     (\<forall>a < length (px_tasks x). a \<in> fst ` set (px_executed y) \<or> is_cancelled (px_tasks x ! a))"
proof -
  have l: "priority_queue pick" by (rule assms(1))
  note st = priority_queue.started_inv [OF l assms(2,3), of tid False affinity]
  obtain w where inv: "priority_queue.prio_inv x w q" "priority_queue.kept x w q"
    using priority_queue.inv_run [OF l st(1), of "evs @ [PxStop]"] st(2,3) assms(4,6)
    by (auto simp: priority_queue.prio_inv_def [OF l])
  have run: "\<not> px_running x" by (simp add: assms(4) priority_run_def Priority_Stop_def Let_def)
  let ?x = "priority_run pick x [PxStart now 0, PxFinish 0]"
  have "\<exists>d. priority_queue.prio_inv ?x (PxWaiting d) q \<and> priority_queue.kept ?x (PxWaiting d) q \<and> \<not> px_running ?x \<and> px_tasks ?x = px_tasks x"
    using inv run assms(5)
    by (cases w) (auto simp: priority_run_def priority_queue.prio_inv_def [OF l] priority_queue.kept_def [OF l]
        priority_queue.worker_ok.simps [OF l] AsyncTask_Execute_def)
  then obtain d where d: "priority_queue.prio_inv ?x (PxWaiting d) q" "priority_queue.kept ?x (PxWaiting d) q" "\<not> px_running ?x"
    "px_tasks ?x = px_tasks x" by blast
  have "y = priority_run pick ?x (concat (replicate (Suc (length q)) [PxTurn now now 0, PxFinish 0]))"
    by (simp add: assms(8) priority_run_def)
  then have "priority_queue.prio_inv y PxExited []" "priority_queue.kept y PxExited []" "px_tasks y = px_tasks x"
    using priority_queue.drain [OF l d(1-3) order_refl, of now] assms(7) d(4) by auto
  then show ?thesis
    by (auto simp: priority_queue.prio_inv_def [OF l] priority_queue.kept_def [OF l] Priority_Stop_returns_def)
qed

theorem timed_stop_drains_witness:
  "let x = priority_run first_min (snd (Priority_Run 7 (snd (Priority_Init
          (SingleThreadPriorityAsyncExecutor 3 False None)))))
          ([PxStart 0 0, PxCall (10 :: nat) 50, PxPush 0, PxCall 11 20, PxPush 0] @ [PxStop]);
       y = priority_run first_min x ([PxStart 60 0, PxFinish 0] @ concat (replicate (Suc (length [0, 1 :: nat])) [PxTurn 60 60 0, PxFinish 0]))
   in px_queue x = Some [0, 1] \<and> px_workers y = [PxExited] \<and> Priority_Stop_returns y"
proof -
  define x where "x = priority_run first_min (snd (Priority_Run 7 (snd (Priority_Init
          (SingleThreadPriorityAsyncExecutor 3 False None)))))
          ([PxStart 0 0, PxCall (10 :: nat) 50, PxPush 0, PxCall 11 20, PxPush 0] @ [PxStop])"
  have x: "px_workers x \<noteq> [PxExited]" "px_queue x = Some [0, 1]"
    "\<forall>a \<in> set [0, 1]. execution_timestamp (px_tasks x ! a) \<le> 60"
    unfolding x_def by (simp_all add: priority_model_defs)
  show ?thesis
    using timed_stop_drains [OF first_min.priority_queue_axioms _ _ x_def x refl] x(2)
    unfolding x_def [symmetric] Let_def by (simp add: kMaxQueueCap_def)
qed

end
