(* ===== verification/Async_Executor.thy ===== *)
theory Async_Executor
  imports Priority_Executor
begin

text \<open>
  The thread pool: cc/core/async_executor/src/async_executor.h and async_executor.cc. It
  owns a pool of normal and a pool of priority executors, spreads the tasks over them, and
  can send a task to the executors that share the CPU of the calling worker. Executors are
  shared pointers into the pools, so a pointer is an index; the executors of one index
  belong together.
\<close>

section \<open>State\<close>

text \<open>A value outside the enumeration is \<open>OtherScheme\<close> and \<open>OtherPool\<close>.\<close>

datatype TaskLoadBalancingScheme = RoundRobinGlobal | RoundRobinPerThread | Random | OtherScheme

datatype TaskExecutorPoolType = UrgentPool | NotUrgentPool | OtherPool

datatype AsyncExecutorAffinitySetting = NonAffinitized | AffinitizedToCallingAsyncExecutor

definition SC_ASYNC_EXECUTOR_INVALID_LOAD_BALANCING_TYPE :: StatusCode where
  "SC_ASYNC_EXECUTOR_INVALID_LOAD_BALANCING_TYPE = MakeErrorCode 0x0006 0x0008"

definition SC_ASYNC_EXECUTOR_INVALID_TASK_POOL_TYPE :: StatusCode where
  "SC_ASYNC_EXECUTOR_INVALID_TASK_POOL_TYPE = MakeErrorCode 0x0006 0x0009"

record ('q, 'o) async_executor =
  ae_running :: bool
  ae_thread_count :: size_t
  ae_queue_cap :: size_t
  ae_drop :: bool
  ae_urgent :: "'o priority_executor list"
  ae_normal :: "('q, 'o) normal_executor list"
  ae_thread_id_to_executor :: "nat \<rightharpoonup> nat"
  ae_scheme :: TaskLoadBalancingScheme


section \<open>Lifecycle\<close>





text \<open>
  The loop of \<open>Stop\<close>. Stopping an executor waits for its worker; what the worker does
  meanwhile is given by \<open>settled\<close>.
\<close>

fun Stop_loop ::
  "('q, 'o) task_queue \<Rightarrow> ('o priority_executor \<Rightarrow> 'o priority_executor) \<Rightarrow>
   (('q, 'o) normal_executor \<Rightarrow> ('q, 'o) normal_executor) \<Rightarrow> nat \<Rightarrow> nat \<Rightarrow> ('q, 'o) async_executor \<Rightarrow>
   ExecutionResult \<times> ('q, 'o) async_executor" where
  "Stop_loop B settled_urgent settled_normal 0 i e = (SuccessExecutionResult, e)"
| "Stop_loop B settled_urgent settled_normal (Suc n) i e =
     (let (r1, urgent) = Priority_Stop (ae_urgent e ! i)
      in if \<not> Successful r1 then (r1, e)
         else let e1 = e\<lparr>ae_urgent := (ae_urgent e)[i := settled_urgent urgent]\<rparr>;
                  (r2, normal) = Normal_Stop B (ae_normal e1 ! i)
              in if \<not> Successful r2 then (r2, e1)
                 else Stop_loop B settled_urgent settled_normal n (Suc i)
                        (e1\<lparr>ae_normal := (ae_normal e1)[i := settled_normal normal]\<rparr>))"

definition AsyncExecutor_Stop ::
  "('q, 'o) task_queue \<Rightarrow> ('o priority_executor \<Rightarrow> 'o priority_executor) \<Rightarrow>
   (('q, 'o) normal_executor \<Rightarrow> ('q, 'o) normal_executor) \<Rightarrow> ('q, 'o) async_executor \<Rightarrow>
   ExecutionResult \<times> ('q, 'o) async_executor" where
  "AsyncExecutor_Stop B settled_urgent settled_normal e =
     (if \<not> ae_running e then (FailureExecutionResult SC_ASYNC_EXECUTOR_NOT_RUNNING, e)
      else Stop_loop B settled_urgent settled_normal (unat (ae_thread_count e)) 0 (e\<lparr>ae_running := False\<rparr>))"

section \<open>Choosing an executor\<close>

text \<open>
  The counters are static variables, two of them for each calling thread. \<open>random\<close> is the
  number the generator yields. The pool is given by its size, the result is an index.
\<close>

record task_counters =
  tc_urgent :: u64
  tc_not_urgent :: u64
  tc_urgent_thread_local :: "nat \<Rightarrow> u64"
  tc_not_urgent_thread_local :: "nat \<Rightarrow> u64"

definition pool_index :: "u64 \<Rightarrow> nat \<Rightarrow> cpp_fault + nat ExecutionResultOr" where
  "pool_index n pool_size = (if pool_size = 0 then Inl UndefinedBehaviour else Inr (HoldsValue (unat n mod pool_size)))"

definition PickTaskExecutor ::
  "AsyncExecutorAffinitySetting \<Rightarrow> nat \<Rightarrow> (nat \<rightharpoonup> nat) \<Rightarrow> nat \<Rightarrow> TaskExecutorPoolType \<Rightarrow> TaskLoadBalancingScheme \<Rightarrow>
   u64 \<Rightarrow> task_counters \<Rightarrow> (cpp_fault + nat ExecutionResultOr) \<times> task_counters" where
  "PickTaskExecutor affinity caller thread_id_to_executor pool_size pool_type scheme random c =
     (case (if affinity = AffinitizedToCallingAsyncExecutor then thread_id_to_executor caller else None) of
        Some i \<Rightarrow> (Inr (HoldsValue i), c)
      | None \<Rightarrow>
          if scheme = RoundRobinPerThread then
            (case pool_type of
               UrgentPool \<Rightarrow>
                 (pool_index (tc_urgent_thread_local c caller) pool_size,
                  c\<lparr>tc_urgent_thread_local := (tc_urgent_thread_local c)(caller := tc_urgent_thread_local c caller + 1)\<rparr>)
             | NotUrgentPool \<Rightarrow>
                 (pool_index (tc_not_urgent_thread_local c caller) pool_size,
                  c\<lparr>tc_not_urgent_thread_local :=
                      (tc_not_urgent_thread_local c)(caller := tc_not_urgent_thread_local c caller + 1)\<rparr>)
             | OtherPool \<Rightarrow> (Inr (HoldsResult (FailureExecutionResult SC_ASYNC_EXECUTOR_INVALID_TASK_POOL_TYPE)), c))
          else if scheme = Random then (pool_index random pool_size, c)
          else if scheme = RoundRobinGlobal then
            (case pool_type of
               UrgentPool \<Rightarrow> (pool_index (tc_urgent c) pool_size, c\<lparr>tc_urgent := tc_urgent c + 1\<rparr>)
             | NotUrgentPool \<Rightarrow> (pool_index (tc_not_urgent c) pool_size, c\<lparr>tc_not_urgent := tc_not_urgent c + 1\<rparr>)
             | OtherPool \<Rightarrow> (Inr (HoldsResult (FailureExecutionResult SC_ASYNC_EXECUTOR_INVALID_TASK_POOL_TYPE)), c))
          else (Inr (HoldsResult (FailureExecutionResult SC_ASYNC_EXECUTOR_INVALID_LOAD_BALANCING_TYPE)), c))"

section \<open>Scheduling\<close>

text \<open>
  The calling thread, the number the random generator yields and the time are given. The
  result of \<open>ScheduleFor\<close> has the address of the task that the cancellation callback
  cancels, with the index of its executor.
\<close>

definition AsyncExecutor_Schedule_affinity ::
  "('q, 'o) task_queue \<Rightarrow> nat \<Rightarrow> u64 \<Rightarrow> Timestamp \<Rightarrow> ('q, 'o) async_executor \<Rightarrow> task_counters \<Rightarrow>
   'o \<Rightarrow> AsyncPriority \<Rightarrow> AsyncExecutorAffinitySetting \<Rightarrow>
   cpp_fault + ExecutionResult \<times> ('q, 'o) async_executor \<times> task_counters" where
  "AsyncExecutor_Schedule_affinity B caller random now e c work priority affinity =
     (if \<not> ae_running e then Inr (FailureExecutionResult SC_ASYNC_EXECUTOR_NOT_RUNNING, e, c)
      else if priority = Urgent then
        let (picked, c1) = PickTaskExecutor affinity caller (ae_thread_id_to_executor e) (length (ae_urgent e))
              UrgentPool (ae_scheme e) random c
        in bindE picked (\<lambda>p. case p of
             HoldsResult r \<Rightarrow> Inr (r, e, c1)
           | HoldsValue i \<Rightarrow>
               let task = make_AsyncTask work now;
                   (r, urgent) = Priority_ScheduleFor (ae_urgent e ! i) work (GetExecutionTimestamp task)
               in Inr (r, e\<lparr>ae_urgent := (ae_urgent e)[i := urgent]\<rparr>, c1))
      else if priority = Normal \<or> priority = High then
        let (picked, c1) = PickTaskExecutor affinity caller (ae_thread_id_to_executor e) (length (ae_normal e))
              NotUrgentPool (ae_scheme e) random c
        in bindE picked (\<lambda>p. case p of
             HoldsResult r \<Rightarrow> Inr (r, e, c1)
           | HoldsValue i \<Rightarrow>
               let (r, normal) = Normal_Schedule B now (ae_normal e ! i) work priority
               in Inr (r, e\<lparr>ae_normal := (ae_normal e)[i := normal]\<rparr>, c1))
      else Inr (FailureExecutionResult SC_ASYNC_EXECUTOR_INVALID_PRIORITY_TYPE, e, c))"

definition AsyncExecutor_Schedule ::
  "('q, 'o) task_queue \<Rightarrow> nat \<Rightarrow> u64 \<Rightarrow> Timestamp \<Rightarrow> ('q, 'o) async_executor \<Rightarrow> task_counters \<Rightarrow>
   'o \<Rightarrow> AsyncPriority \<Rightarrow> cpp_fault + ExecutionResult \<times> ('q, 'o) async_executor \<times> task_counters" where
  "AsyncExecutor_Schedule B caller random now e c work priority =
     AsyncExecutor_Schedule_affinity B caller random now e c work priority NonAffinitized"

definition AsyncExecutor_ScheduleFor_cancellable ::
  "nat \<Rightarrow> u64 \<Rightarrow> ('q, 'o) async_executor \<Rightarrow> task_counters \<Rightarrow> 'o \<Rightarrow> Timestamp \<Rightarrow> AsyncExecutorAffinitySetting \<Rightarrow>
   cpp_fault + ExecutionResult \<times> (nat \<times> nat) option \<times> ('q, 'o) async_executor \<times> task_counters" where
  "AsyncExecutor_ScheduleFor_cancellable caller random e c work timestamp affinity =
     (if \<not> ae_running e then Inr (FailureExecutionResult SC_ASYNC_EXECUTOR_NOT_RUNNING, None, e, c)
      else let (picked, c1) = PickTaskExecutor affinity caller (ae_thread_id_to_executor e) (length (ae_urgent e))
                 UrgentPool (ae_scheme e) random c
           in bindE picked (\<lambda>p. case p of
                HoldsResult r \<Rightarrow> Inr (r, None, e, c1)
              | HoldsValue i \<Rightarrow>
                  let (r, cancel, urgent) = Priority_ScheduleFor_cancellable (ae_urgent e ! i) work timestamp
                  in Inr (r, map_option (Pair i) cancel, e\<lparr>ae_urgent := (ae_urgent e)[i := urgent]\<rparr>, c1)))"

definition AsyncExecutor_ScheduleFor_affinity ::
  "nat \<Rightarrow> u64 \<Rightarrow> ('q, 'o) async_executor \<Rightarrow> task_counters \<Rightarrow> 'o \<Rightarrow> Timestamp \<Rightarrow> AsyncExecutorAffinitySetting \<Rightarrow>
   cpp_fault + ExecutionResult \<times> ('q, 'o) async_executor \<times> task_counters" where
  "AsyncExecutor_ScheduleFor_affinity caller random e c work timestamp affinity =
     bindE (AsyncExecutor_ScheduleFor_cancellable caller random e c work timestamp affinity)
       (\<lambda>(r, _, e1, c1). Inr (r, e1, c1))"

definition AsyncExecutor_ScheduleFor ::
  "nat \<Rightarrow> u64 \<Rightarrow> ('q, 'o) async_executor \<Rightarrow> task_counters \<Rightarrow> 'o \<Rightarrow> Timestamp \<Rightarrow>
   cpp_fault + ExecutionResult \<times> ('q, 'o) async_executor \<times> task_counters" where
  "AsyncExecutor_ScheduleFor caller random e c work timestamp =
     AsyncExecutor_ScheduleFor_affinity caller random e c work timestamp NonAffinitized"

definition AsyncExecutor_ScheduleFor_callback ::
  "nat \<Rightarrow> u64 \<Rightarrow> ('q, 'o) async_executor \<Rightarrow> task_counters \<Rightarrow> 'o \<Rightarrow> Timestamp \<Rightarrow>
   cpp_fault + ExecutionResult \<times> (nat \<times> nat) option \<times> ('q, 'o) async_executor \<times> task_counters" where
  "AsyncExecutor_ScheduleFor_callback caller random e c work timestamp =
     AsyncExecutor_ScheduleFor_cancellable caller random e c work timestamp NonAffinitized"

section \<open>Starting the pool\<close>










section \<open>Round robin\<close>

text \<open>Consecutive numbers hit every residue equally often.\<close>

lemma count_upt: "count_list [0..<n] j = (if j < n then 1 else 0)"
  by (induction n) auto

lemma count_period: "j < n \<Longrightarrow> count_list (map (\<lambda>i. (c + i) mod n) [0..<n]) j = (1 :: nat)"
proof (induction c)
  case 0
  have "map (\<lambda>i. (0 + i) mod n) [0..<n] = [0..<n]" by (rule map_idI) auto
  then show ?case using 0 by (simp only: count_upt if_True)
next
  case (Suc c)
  have "map (\<lambda>i. (Suc c + i) mod n) [0..<n] = map (\<lambda>i. (c + i) mod n) [Suc 0..<Suc n]"
    by (simp add: map_Suc_upt [symmetric] del: upt_Suc)
  also have "\<dots> = map (\<lambda>i. (c + i) mod n) [Suc 0..<n] @ [c mod n]"
    using Suc.prems by simp
  finally have 1: "map (\<lambda>i. (Suc c + i) mod n) [0..<n] = map (\<lambda>i. (c + i) mod n) [Suc 0..<n] @ [c mod n]" .
  have 2: "map (\<lambda>i. (c + i) mod n) [0..<n] = c mod n # map (\<lambda>i. (c + i) mod n) [Suc 0..<n]"
    using Suc.prems by (simp add: upt_conv_Cons)
  show ?case using Suc.IH [OF Suc.prems] unfolding 1 2 by (auto split: if_splits)
qed

lemma count_residues: "j < n \<Longrightarrow> count_list (map (\<lambda>i. (c + i) mod n) [0..<m * n]) j = m"
proof (induction m)
  case (Suc m)
  let ?f = "\<lambda>i. (c + i) mod n"
  have upt: "[0..<Suc m * n] = [0..<m * n] @ map (\<lambda>i. m * n + i) [0..<n]"
    by (rule nth_equalityI) (simp_all add: nth_append)
  have "(c + (m * n + i)) mod n = (c + i) mod n" for i
    by (metis mod_mult_self3 add.left_commute)
  then have shift: "map ?f (map (\<lambda>i. m * n + i) [0..<n]) = map ?f [0..<n]" by simp
  have "map ?f [0..<Suc m * n] = map ?f [0..<m * n] @ map ?f [0..<n]" unfolding upt map_append shift ..
  then show ?case using Suc.IH [OF Suc.prems] count_period [OF Suc.prems, of c] by (simp del: mult_Suc)
qed simp

text \<open>Calls in the order in which they take their number, each with its thread and its random number.\<close>

fun pick_many ::
  "(nat \<rightharpoonup> nat) \<Rightarrow> nat \<Rightarrow> TaskExecutorPoolType \<Rightarrow> (nat \<times> u64) list \<Rightarrow> task_counters \<Rightarrow>
   (cpp_fault + nat ExecutionResultOr) list" where
  "pick_many threads n pool [] c = []"
| "pick_many threads n pool ((caller, random) # calls) c =
     (let (picked, c1) = PickTaskExecutor NonAffinitized caller threads n pool RoundRobinGlobal random c
      in picked # pick_many threads n pool calls c1)"

fun counter_of :: "TaskExecutorPoolType \<Rightarrow> task_counters \<Rightarrow> u64" where
  "counter_of UrgentPool c = tc_urgent c"
| "counter_of _ c = tc_not_urgent c"

lemma pick_many_numbers:
  assumes "n \<noteq> 0" "pool \<noteq> OtherPool" "unat (counter_of pool c) + length calls \<le> 2 ^ 64"
  shows "pick_many threads n pool calls c =
     map (\<lambda>i. Inr (HoldsValue ((unat (counter_of pool c) + i) mod n))) [0..<length calls]"
  using assms(3)
proof (induction calls arbitrary: c)
  case (Cons call calls)
  obtain caller random where call: "call = (caller, random)" by fastforce
  obtain c1 where pick: "PickTaskExecutor NonAffinitized caller threads n pool RoundRobinGlobal random c =
      (Inr (HoldsValue (unat (counter_of pool c) mod n)), c1)" and c1: "counter_of pool c1 = counter_of pool c + 1"
    using assms(1,2) by (cases pool) (auto simp: PickTaskExecutor_def pool_index_def)
  show ?case
  proof (cases calls)
    case (Cons _ _)
    then have "unat (counter_of pool c1) = Suc (unat (counter_of pool c))"
      using Cons.prems by (simp add: c1 unat_word_ariths)
    moreover from this have "pick_many threads n pool calls c1 =
       map (\<lambda>i. Inr (HoldsValue ((unat (counter_of pool c1) + i) mod n))) [0..<length calls]"
      using Cons.prems by (intro Cons.IH) simp
    ultimately show ?thesis
      by (simp add: call pick map_Suc_upt [symmetric] upt_conv_Cons del: upt_Suc)
  qed (simp add: call pick)
qed simp

lemma count_inj: "inj f \<Longrightarrow> count_list (map f xs) (f x) = count_list xs x"
  by (induction xs) (auto dest: injD)

section \<open>Properties\<close>

text \<open>
  Global round robin is fair. Whichever threads call, as many calls as a multiple of the
  size of a pool choose each executor of the pool equally often, as long as the counter does
  not wrap around.
\<close>

theorem round_robin_fair:
  assumes "j < n" "pool \<noteq> OtherPool" "length calls = m * n" "unat (counter_of pool c) + m * n \<le> 2 ^ 64"
  shows "count_list (pick_many threads n pool calls c) (Inr (HoldsValue j)) = m"
proof -
  let ?f = "\<lambda>i. Inr (HoldsValue i) :: cpp_fault + nat ExecutionResultOr"
  have "inj ?f" by (simp add: inj_on_def)
  moreover have "pick_many threads n pool calls c = map ?f (map (\<lambda>i. (unat (counter_of pool c) + i) mod n) [0..<m * n])"
    using pick_many_numbers [of n pool c calls threads] assms by simp
  ultimately show ?thesis
    using count_inj [of ?f "map (\<lambda>i. (unat (counter_of pool c) + i) mod n) [0..<m * n]" j] count_residues [OF assms(1)]
    by simp
qed

theorem round_robin_fair_witness:
  "let c = \<lparr>tc_urgent = 7, tc_not_urgent = 0, tc_urgent_thread_local = (\<lambda>_. 0), tc_not_urgent_thread_local = (\<lambda>_. 0)\<rparr>
   in count_list (pick_many (\<lambda>_. None) 3 UrgentPool [(1, 0), (2, 5), (1, 9), (1, 1), (4, 4), (2, 0)] c) (Inr (HoldsValue 2)) = 2"
  unfolding Let_def by (rule round_robin_fair) simp_all



end
