(* ===== verification/Uuid.thy ===== *)
theory Uuid
  imports Error_Codes
begin

text \<open>
  Universally unique identifiers and their text form: cc/core/common/uuid/src/uuid.h and
  uuid.cc.
\<close>

record Uuid =
  high :: u64
  low :: u64

definition kHexMap :: string where
  "kHexMap = ''0123456789ABCDEF''"

definition Uuid_equal :: "Uuid \<Rightarrow> Uuid \<Rightarrow> bool" where
  "Uuid_equal a b \<longleftrightarrow> high a = high b \<and> low a = low b"

text \<open>The order compares the high halves only.\<close>

definition Uuid_less :: "Uuid \<Rightarrow> Uuid \<Rightarrow> bool" where
  "Uuid_less a b \<longleftrightarrow> high a < high b"

definition UuidCompare_hash :: "Uuid \<Rightarrow> size_t" where
  "UuidCompare_hash u = high u XOR low u"

text \<open>
  The clock of \<open>GenerateUuid\<close> is an atomic counter that is read and incremented, the
  low half is drawn at random.
\<close>

definition GenerateUuid :: "u64 \<Rightarrow> u64 \<Rightarrow> Uuid \<times> u64" where
  "GenerateUuid current_clock random = (\<lparr>high = current_clock, low = random\<rparr>, current_clock + 1)"

definition AppendHex :: "u64 \<Rightarrow> string \<Rightarrow> string" where
  "AppendHex byte s =
     s @ [kHexMap ! unat (drop_bit 4 byte)] @ [kHexMap ! unat (byte AND 0x0F)]"

definition Uuid_ToString :: "Uuid \<Rightarrow> string" where
  "Uuid_ToString u =
     (let h = high u; l = low u;
          s = AppendHex (drop_bit 56 h AND 0xFF) [];
          s = AppendHex (drop_bit 48 h AND 0xFF) s;
          s = AppendHex (drop_bit 40 h AND 0xFF) s;
          s = AppendHex (drop_bit 32 h AND 0xFF) s;
          s = s @ ''-'';
          s = AppendHex (drop_bit 24 h AND 0xFF) s;
          s = AppendHex (drop_bit 16 h AND 0xFF) s;
          s = s @ ''-'';
          s = AppendHex (drop_bit 8 h AND 0xFF) s;
          s = AppendHex (h AND 0xFF) s;
          s = s @ ''-'';
          s = AppendHex (drop_bit 56 l AND 0xFF) s;
          s = AppendHex (drop_bit 48 l AND 0xFF) s;
          s = s @ ''-'';
          s = AppendHex (drop_bit 40 l AND 0xFF) s;
          s = AppendHex (drop_bit 32 l AND 0xFF) s;
          s = AppendHex (drop_bit 24 l AND 0xFF) s;
          s = AppendHex (drop_bit 16 l AND 0xFF) s;
          s = AppendHex (drop_bit 8 l AND 0xFF) s
      in AppendHex (l AND 0xFF) s)"

definition isxdigit :: "char \<Rightarrow> bool" where
  "isxdigit c \<longleftrightarrow> c \<in> set ''0123456789abcdefABCDEF''"

definition islower :: "char \<Rightarrow> bool" where
  "islower c \<longleftrightarrow> c \<in> set ''abcdefghijklmnopqrstuvwxyz''"

fun index_of :: "'a \<Rightarrow> 'a list \<Rightarrow> nat" where
  "index_of x [] = 0"
| "index_of x (y # ys) = (if x = y then 0 else Suc (index_of x ys))"

text \<open>
  \<open>istrstream >> std::hex >> byte\<close> on two characters that are capital hexadecimal digits
  or dashes: a leading dash is a sign, a second dash ends the number, and where there is no
  number the result is 0. The \<open>int\<close> is then converted to \<open>uint64_t\<close>.
\<close>

definition ReadHex :: "string \<Rightarrow> nat \<Rightarrow> u64" where
  "ReadHex s offset =
     (let a = s ! offset; b = s ! (offset + 1); digit = \<lambda>c. of_nat (index_of c kHexMap)
      in if a = CHR ''-'' then if b = CHR ''-'' then 0 else - digit b
         else if b = CHR ''-'' then digit a
         else 16 * digit a + digit b)"

definition SC_UUID_INVALID_STRING :: u64 where
  "SC_UUID_INVALID_STRING = MakeErrorCode 0x0011 0x0001"

definition valid_uuid_char :: "char \<Rightarrow> bool" where
  "valid_uuid_char c \<longleftrightarrow> c = CHR ''-'' \<or> (isxdigit c \<and> \<not> islower c)"

definition Uuid_FromString :: "string \<Rightarrow> Uuid \<Rightarrow> ExecutionResult \<times> Uuid" where
  "Uuid_FromString s uuid =
     (if length s \<noteq> 36 then (FailureExecutionResult SC_UUID_INVALID_STRING, uuid)
      else if s ! 8 \<noteq> CHR ''-'' \<or> s ! 13 \<noteq> CHR ''-'' \<or> s ! 18 \<noteq> CHR ''-'' \<or> s ! 23 \<noteq> CHR ''-''
      then (FailureExecutionResult SC_UUID_INVALID_STRING, uuid)
      else if \<not> list_all valid_uuid_char s then (FailureExecutionResult SC_UUID_INVALID_STRING, uuid)
      else (SuccessExecutionResult,
        \<lparr>high = high uuid OR push_bit 56 (ReadHex s 0) OR push_bit 48 (ReadHex s 2) OR
                push_bit 40 (ReadHex s 4) OR push_bit 32 (ReadHex s 6) OR
                push_bit 24 (ReadHex s 9) OR push_bit 16 (ReadHex s 11) OR
                push_bit 8 (ReadHex s 14) OR ReadHex s 16,
         low = low uuid OR push_bit 56 (ReadHex s 19) OR push_bit 48 (ReadHex s 21) OR
                push_bit 40 (ReadHex s 24) OR push_bit 32 (ReadHex s 26) OR
                push_bit 24 (ReadHex s 28) OR push_bit 16 (ReadHex s 30) OR
                push_bit 8 (ReadHex s 32) OR ReadHex s 34\<rparr>))"

section \<open>Bytes and digits\<close>

lemma kHexMap_all:
  "\<forall>i \<in> set [0..<16]. index_of (kHexMap ! i) kHexMap = i \<and> kHexMap ! i \<noteq> CHR ''-'' \<and> valid_uuid_char (kHexMap ! i)"
  by (simp add: upt_rec kHexMap_def valid_uuid_char_def isxdigit_def islower_def)

lemma hex_digit:
  assumes "i < 16"
  shows "index_of (kHexMap ! i) kHexMap = i" "kHexMap ! i \<noteq> CHR ''-''" "valid_uuid_char (kHexMap ! i)"
  using kHexMap_all assms by simp_all

text \<open>The two digits of a byte and their value.\<close>

definition hex_pair :: "u64 \<Rightarrow> string" where
  "hex_pair b = [kHexMap ! unat (drop_bit 4 b), kHexMap ! unat (b AND 0x0F)]"

lemma byte_digits:
  fixes w :: u64
  assumes "w < 256"
  shows "unat (drop_bit 4 w) < 16" "unat (w AND 0x0F) < 16"
    "16 * of_nat (unat (drop_bit 4 w)) + of_nat (unat (w AND 0x0F)) = w"
proof -
  have w: "unat w < 256" using assms by (simp add: word_less_nat_alt)
  have hi: "unat (drop_bit 4 w) = unat w div 16"
    by (simp add: drop_bit_eq_div unat_div_distrib)
  have "w AND 0x0F = take_bit 4 w" by (simp add: take_bit_eq_mask mask_eq_exp_minus_1)
  then have lo: "unat (w AND 0x0F) = unat w mod 16"
    by (simp add: take_bit_eq_mod unat_mod_distrib)
  show "unat (drop_bit 4 w) < 16" "unat (w AND 0x0F) < 16" using w hi lo by simp_all
  have "(16 * of_nat (unat w div 16) + of_nat (unat w mod 16) :: u64) = of_nat (16 * (unat w div 16) + unat w mod 16)"
    by (simp only: of_nat_add of_nat_mult of_nat_numeral)
  also have "\<dots> = w" by (simp only: mult_div_mod_eq) simp
  finally show "16 * of_nat (unat (drop_bit 4 w)) + of_nat (unat (w AND 0x0F)) = w" unfolding hi lo .
qed

lemma hex_pair_valid:
  assumes "w < 256"
  shows "list_all valid_uuid_char (hex_pair w)"
  using byte_digits [OF assms] by (simp add: hex_pair_def hex_digit)

lemma ReadHex_pair:
  assumes "w < 256" "s ! k = hex_pair w ! 0" "s ! (k + 1) = hex_pair w ! 1"
  shows "ReadHex s k = w"
  using assms byte_digits [OF assms(1)] by (simp add: ReadHex_def hex_pair_def hex_digit Let_def)

lemma byte_less: "(w :: u64) AND 0xFF < 256"
proof -
  have "(0xFF :: u64) = mask 8" by (simp add: mask_eq_exp_minus_1)
  then show ?thesis using and_mask_less' [of 8 w] by (simp add: word_size)
qed

lemma bit_byte:
  "bit (push_bit k (drop_bit k w AND 0xFF)) n \<longleftrightarrow> n < 64 \<and> k \<le> n \<and> n < k + 8 \<and> bit (w :: u64) n"
proof -
  have m: "(0xFF :: u64) = mask 8" by (simp add: mask_eq_exp_minus_1)
  show ?thesis
    unfolding m by (auto simp: bit_push_bit_iff bit_and_iff bit_drop_bit_eq bit_mask_iff dest: bit_imp_le_length)
qed

lemma bytes_join:
  fixes w :: u64
  shows "v OR push_bit 56 (drop_bit 56 w AND 0xFF) OR push_bit 48 (drop_bit 48 w AND 0xFF) OR
     push_bit 40 (drop_bit 40 w AND 0xFF) OR push_bit 32 (drop_bit 32 w AND 0xFF) OR
     push_bit 24 (drop_bit 24 w AND 0xFF) OR push_bit 16 (drop_bit 16 w AND 0xFF) OR
     push_bit 8 (drop_bit 8 w AND 0xFF) OR (w AND 0xFF) = v OR w" (is "?l = ?r")
proof (rule bit_word_eqI)
  fix n assume n: "n < LENGTH(64)"
  have "bit (w AND 0xFF) n \<longleftrightarrow> n < 8 \<and> bit w n"
    using bit_byte [of 0 w n] n by simp
  then show "bit ?l n = bit ?r n"
    using n by (simp only: bit_or_iff bit_byte) (simp, linarith)
qed

lemma AppendHex_pair: "AppendHex b s = s @ hex_pair b"
  by (simp add: AppendHex_def hex_pair_def)

lemma ToString_pairs:
  "Uuid_ToString u =
     hex_pair (drop_bit 56 (high u) AND 0xFF) @ hex_pair (drop_bit 48 (high u) AND 0xFF) @
     hex_pair (drop_bit 40 (high u) AND 0xFF) @ hex_pair (drop_bit 32 (high u) AND 0xFF) @ ''-'' @
     hex_pair (drop_bit 24 (high u) AND 0xFF) @ hex_pair (drop_bit 16 (high u) AND 0xFF) @ ''-'' @
     hex_pair (drop_bit 8 (high u) AND 0xFF) @ hex_pair (high u AND 0xFF) @ ''-'' @
     hex_pair (drop_bit 56 (low u) AND 0xFF) @ hex_pair (drop_bit 48 (low u) AND 0xFF) @ ''-'' @
     hex_pair (drop_bit 40 (low u) AND 0xFF) @ hex_pair (drop_bit 32 (low u) AND 0xFF) @
     hex_pair (drop_bit 24 (low u) AND 0xFF) @ hex_pair (drop_bit 16 (low u) AND 0xFF) @
     hex_pair (drop_bit 8 (low u) AND 0xFF) @ hex_pair (low u AND 0xFF)"
  by (simp add: Uuid_ToString_def AppendHex_pair Let_def)

lemma length_hex_pair [simp]: "length (hex_pair b) = 2"
  by (simp add: hex_pair_def)

section \<open>Properties\<close>

text \<open>
  C37: The text of an identifier parses to the identifier: \<open>FromString\<close> accepts it and adds
  its bits to the target, so a fresh target becomes the identifier and a target in use keeps
  its own bits as well.
\<close>

theorem uuid_text_roundtrip:
  "length (Uuid_ToString u) = 36 \<and>
   Uuid_FromString (Uuid_ToString u) v =
     (SuccessExecutionResult, \<lparr>high = high v OR high u, low = low v OR low u\<rparr>)"
proof -
  define s where "s = Uuid_ToString u"
  have len: "length s = 36" by (simp add: s_def ToString_pairs)
  have dash: "s ! 8 = CHR ''-''" "s ! 13 = CHR ''-''" "s ! 18 = CHR ''-''" "s ! 23 = CHR ''-''"
    by (simp_all add: s_def ToString_pairs nth_append)
  have valid: "list_all valid_uuid_char s"
    by (simp add: s_def ToString_pairs hex_pair_valid byte_less)
      (simp add: valid_uuid_char_def)
  have "s ! k = hex_pair w ! 0 \<Longrightarrow> s ! (k + 1) = hex_pair w ! 1 \<Longrightarrow> w < 256 \<Longrightarrow> ReadHex s k = w" for k w
    by (rule ReadHex_pair)
  then have read: "ReadHex s 0 = drop_bit 56 (high u) AND 0xFF" "ReadHex s 2 = drop_bit 48 (high u) AND 0xFF"
    "ReadHex s 4 = drop_bit 40 (high u) AND 0xFF" "ReadHex s 6 = drop_bit 32 (high u) AND 0xFF"
    "ReadHex s 9 = drop_bit 24 (high u) AND 0xFF" "ReadHex s 11 = drop_bit 16 (high u) AND 0xFF"
    "ReadHex s 14 = drop_bit 8 (high u) AND 0xFF" "ReadHex s 16 = high u AND 0xFF"
    "ReadHex s 19 = drop_bit 56 (low u) AND 0xFF" "ReadHex s 21 = drop_bit 48 (low u) AND 0xFF"
    "ReadHex s 24 = drop_bit 40 (low u) AND 0xFF" "ReadHex s 26 = drop_bit 32 (low u) AND 0xFF"
    "ReadHex s 28 = drop_bit 24 (low u) AND 0xFF" "ReadHex s 30 = drop_bit 16 (low u) AND 0xFF"
    "ReadHex s 32 = drop_bit 8 (low u) AND 0xFF" "ReadHex s 34 = low u AND 0xFF"
    by (simp_all add: byte_less s_def ToString_pairs nth_append hex_pair_def)
  show ?thesis
    unfolding s_def [symmetric] Uuid_FromString_def read bytes_join using len dash valid by simp
qed

text \<open>
  \<open>FromString\<close> skips dashes wherever they are: 36 dashes are accepted as an identifier,
  and the target keeps the value it had before the call.
\<close>

theorem uuid_dashes_accepted:
  "Uuid_FromString (replicate 36 CHR ''-'') v = (SuccessExecutionResult, v)"
  by (simp add: Uuid_FromString_def ReadHex_def valid_uuid_char_def list_all_iff)

end
