(* ===== verification/Byte_Memory.thy ===== *)
theory Byte_Memory
  imports Prelude
begin

text \<open>
  Bytes in memory, shared by the serializers: overwriting a range, the bytes found at an
  offset, and the little-endian layout of an integer, which is what a \<open>memcpy\<close> of an
  integer reads and writes on the supported platforms.
\<close>

section \<open>Ranges\<close>

definition put :: "u8 list \<Rightarrow> nat \<Rightarrow> u8 list \<Rightarrow> u8 list" where
  "put mem n bs = take n mem @ bs @ drop (n + length bs) mem"

definition bytes_at :: "u8 list \<Rightarrow> nat \<Rightarrow> u8 list \<Rightarrow> bool" where
  "bytes_at mem n bs \<longleftrightarrow> n + length bs \<le> length mem \<and> take (length bs) (drop n mem) = bs"

lemma length_put [simp]: "n + length bs \<le> length mem \<Longrightarrow> length (put mem n bs) = length mem"
  by (simp add: put_def)

lemma put_Nil [simp]: "put mem n [] = mem"
  by (simp add: put_def)

lemma nth_put:
  assumes "n + length bs \<le> length mem" "i < length mem"
  shows "put mem n bs ! i = (if n \<le> i \<and> i < n + length bs then bs ! (i - n) else mem ! i)"
  using assms by (auto simp: put_def nth_append min_def)

lemma put_Cons:
  assumes "n + length (b # bs) \<le> length mem"
  shows "put mem n (b # bs) = put (mem[n := b]) (Suc n) bs"
proof -
  have "take (Suc n) (mem[n := b]) = take n mem @ [b]"
    using assms by (simp add: take_Suc_conv_app_nth)
  moreover have "drop (Suc n + length bs) (mem[n := b]) = drop (n + length (b # bs)) mem"
    by simp
  ultimately show ?thesis by (simp add: put_def)
qed

lemma put_append:
  assumes "n + length (xs @ ys) \<le> length mem"
  shows "put mem n (xs @ ys) = put (put mem n xs) (n + length xs) ys"
  using assms by (intro nth_equalityI) (auto simp: nth_put nth_append)

lemma bytes_at_nth:
  "bytes_at mem n bs \<longleftrightarrow> n + length bs \<le> length mem \<and> (\<forall>i < length bs. mem ! (n + i) = bs ! i)"
  by (auto simp: bytes_at_def list_eq_iff_nth_eq)

lemma bytes_at_put: "n + length bs \<le> length mem \<Longrightarrow> bytes_at (put mem n bs) n bs"
  by (simp add: bytes_at_nth nth_put)

lemma bytes_at_put_other:
  assumes "bytes_at mem n bs" "m + length cs \<le> length mem" "m + length cs \<le> n \<or> n + length bs \<le> m"
  shows "bytes_at (put mem m cs) n bs"
  using assms by (auto simp: bytes_at_nth nth_put)

lemma bytes_at_append:
  "bytes_at mem n (xs @ ys) \<longleftrightarrow> bytes_at mem n xs \<and> bytes_at mem (n + length xs) ys"
proof -
  have "(\<forall>i < length (xs @ ys). mem ! (n + i) = (xs @ ys) ! i) \<longleftrightarrow>
      (\<forall>i < length xs. mem ! (n + i) = xs ! i) \<and> (\<forall>i < length ys. mem ! (n + length xs + i) = ys ! i)"
    (is "?l \<longleftrightarrow> ?r")
  proof
    assume ?l
    have "mem ! (n + length xs + i) = ys ! i" if "i < length ys" for i
      using \<open>?l\<close> [rule_format, of "length xs + i"] that by (simp add: add.assoc)
    then show ?r using \<open>?l\<close> by (auto simp: nth_append)
  next
    assume r: ?r
    show ?l
    proof (intro allI impI)
      fix i assume "i < length (xs @ ys)"
      then show "mem ! (n + i) = (xs @ ys) ! i"
        using r [THEN conjunct1, rule_format, of i] r [THEN conjunct2, rule_format, of "i - length xs"]
        by (auto simp: nth_append)
    qed
  qed
  then show ?thesis by (auto simp: bytes_at_nth)
qed

lemma bytes_at_Nil [simp]: "bytes_at mem n [] \<longleftrightarrow> n \<le> length mem"
  by (simp add: bytes_at_def)

lemma bytes_at_length: "bytes_at mem n bs \<Longrightarrow> n + length bs \<le> length mem"
  by (simp add: bytes_at_def)

lemma bytes_at_Cons:
  "bytes_at mem n (b # bs) \<longleftrightarrow> n < length mem \<and> mem ! n = b \<and> bytes_at mem (Suc n) bs"
  using bytes_at_append [of mem n "[b]" bs] by (auto simp: bytes_at_nth)

section \<open>Little-endian integers\<close>

definition le_bytes :: "nat \<Rightarrow> 'a::len word \<Rightarrow> u8 list" where
  "le_bytes n w = map (\<lambda>i. ucast (drop_bit (8 * i) w)) [0..<n]"

fun le_word :: "u8 list \<Rightarrow> 'a::len word" where
  "le_word [] = 0"
| "le_word (b # bs) = ucast b OR push_bit 8 (le_word bs)"

lemma length_le_bytes [simp]: "length (le_bytes n w) = n"
  by (simp add: le_bytes_def)

lemma bit_le_word:
  "bit (le_word bs :: 'a::len word) k \<longleftrightarrow> k < LENGTH('a) \<and> k div 8 < length bs \<and> bit (bs ! (k div 8)) (k mod 8)"
proof (induction bs arbitrary: k)
  case (Cons b bs)
  show ?case
  proof (cases "k < 8")
    case True
    then show ?thesis by (simp add: bit_or_iff bit_push_bit_iff bit_ucast_iff)
  next
    case False
    then have "k div 8 = Suc ((k - 8) div 8)" "k mod 8 = (k - 8) mod 8"
      by (simp_all add: le_div_geq le_mod_geq)
    moreover have "\<not> bit b k" using False bit_imp_le_length [of b k] by auto
    ultimately show ?thesis
      using False by (auto simp: bit_or_iff bit_push_bit_iff bit_ucast_iff Cons.IH)
  qed
qed simp

lemma le_word_le_bytes [simp]:
  assumes "LENGTH('a::len) = 8 * n"
  shows "le_word (le_bytes n (w :: 'a word)) = w"
proof (rule bit_word_eqI)
  fix k assume k: "k < LENGTH('a)"
  then have "k div 8 < n" using assms by (simp add: less_mult_imp_div_less mult.commute)
  then show "bit (le_word (le_bytes n w) :: 'a word) k = bit w k"
    using k by (simp add: bit_le_word le_bytes_def bit_ucast_iff bit_drop_bit_eq)
qed

end
