(* ===== verification/Serialization.thy ===== *)
theory Serialization
  imports Uuid Byte_Memory
begin

text \<open>
  Byte buffers and the serialization of integers, identifiers, versions and protobuf
  messages: \<open>BytesBuffer\<close> and \<open>Version\<close> of cc/core/interface/type_def.h and
  cc/core/common/serialization/src/serialization.h. Protobuf is a parameter: the size, the
  encoding and the parser of a message.
\<close>

section \<open>Buffers\<close>

text \<open>
  The vector is shared and may be null; \<open>length\<close> is the used prefix and \<open>capacity\<close>
  the allocated size.
\<close>

record BytesBuffer =
  by_bytes :: "u8 list option"
  by_length :: size_t
  by_capacity :: size_t

definition BytesBuffer_sized :: "size_t \<Rightarrow> BytesBuffer" where
  "BytesBuffer_sized n = \<lparr>by_bytes = Some (replicate (unat n) 0), by_length = 0, by_capacity = n\<rparr>"

definition BytesBuffer_string :: "u8 list \<Rightarrow> BytesBuffer" where
  "BytesBuffer_string s =
     \<lparr>by_bytes = Some s, by_length = of_nat (length s), by_capacity = of_nat (length s)\<rparr>"

definition BytesBuffer_prefix :: "BytesBuffer \<Rightarrow> size_t \<Rightarrow> cpp_fault + BytesBuffer" where
  "BytesBuffer_prefix b n = assertE (n \<le> by_capacity b) (Inr (b\<lparr>by_length := n\<rparr>))"

definition BytesBuffer_ToString :: "BytesBuffer \<Rightarrow> cpp_fault + u8 list" where
  "BytesBuffer_ToString b =
     (case by_bytes b of
        None \<Rightarrow> Inl UndefinedBehaviour
      | Some v \<Rightarrow> if unat (by_length b) \<le> length v then Inr (take (unat (by_length b)) v)
                  else Inl UndefinedBehaviour)"

definition BytesBuffer_Reset :: "BytesBuffer \<Rightarrow> BytesBuffer" where
  "BytesBuffer_Reset b = \<lparr>by_bytes = None, by_length = 0, by_capacity = 0\<rparr>"

record Version =
  major :: u64
  minor :: u64

text \<open>\<open>memcpy\<close> to and from the vector: outside of it the behaviour is undefined.\<close>

definition memcpy_to :: "BytesBuffer \<Rightarrow> size_t \<Rightarrow> u8 list \<Rightarrow> cpp_fault + BytesBuffer" where
  "memcpy_to b offset bs =
     (case by_bytes b of
        None \<Rightarrow> Inl UndefinedBehaviour
      | Some v \<Rightarrow> if unat offset + length bs \<le> length v
                  then Inr (b\<lparr>by_bytes := Some (put v (unat offset) bs)\<rparr>) else Inl UndefinedBehaviour)"

definition memcpy_from :: "BytesBuffer \<Rightarrow> size_t \<Rightarrow> nat \<Rightarrow> cpp_fault + u8 list" where
  "memcpy_from b offset n =
     (case by_bytes b of
        None \<Rightarrow> Inl UndefinedBehaviour
      | Some v \<Rightarrow> if unat offset + n \<le> length v then Inr (take n (drop (unat offset) v))
                  else Inl UndefinedBehaviour)"

section \<open>Errors\<close>

definition SC_SERIALIZATION_BUFFER_NOT_WRITABLE :: StatusCode where
  "SC_SERIALIZATION_BUFFER_NOT_WRITABLE = MakeErrorCode 0x000B 0x0001"

definition SC_SERIALIZATION_BUFFER_NOT_READABLE :: StatusCode where
  "SC_SERIALIZATION_BUFFER_NOT_READABLE = MakeErrorCode 0x000B 0x0002"

definition SC_SERIALIZATION_PROTO_SERIALIZATION_FAILED :: StatusCode where
  "SC_SERIALIZATION_PROTO_SERIALIZATION_FAILED = MakeErrorCode 0x000B 0x0003"

definition SC_SERIALIZATION_PROTO_DESERIALIZATION_FAILED :: StatusCode where
  "SC_SERIALIZATION_PROTO_DESERIALIZATION_FAILED = MakeErrorCode 0x000B 0x0004"

definition SC_SERIALIZATION_INVALID_SERIALIZATION_TYPE :: StatusCode where
  "SC_SERIALIZATION_INVALID_SERIALIZATION_TYPE = MakeErrorCode 0x000B 0x0005"

definition SC_SERIALIZATION_VERSION_IS_INVALID :: StatusCode where
  "SC_SERIALIZATION_VERSION_IS_INVALID = MakeErrorCode 0x000B 0x0006"

section \<open>Integers\<close>

text \<open>
  A serializer returns its result, \<open>bytes_serialized\<close> and the buffer; a deserializer its
  result, \<open>bytes_deserialized\<close> and the value.
\<close>

type_synonym ser_result = "cpp_fault + ExecutionResult \<times> size_t \<times> BytesBuffer"
type_synonym 'a deser_result = "cpp_fault + ExecutionResult \<times> size_t \<times> 'a"

definition sizeof_word :: "'a::len word \<Rightarrow> nat" where
  "sizeof_word w = LENGTH('a) div 8"

definition Serialize_integral :: "BytesBuffer \<Rightarrow> size_t \<Rightarrow> 'a::len word \<Rightarrow> ser_result" where
  "Serialize_integral b buffer_offset value =
     (let size_of_object_in_bytes = of_nat (sizeof_word value)
      in if buffer_offset + size_of_object_in_bytes > by_capacity b
         then Inr (FailureExecutionResult SC_SERIALIZATION_BUFFER_NOT_WRITABLE, 0, b)
         else bindE (memcpy_to b buffer_offset (le_bytes (sizeof_word value) value)) (\<lambda>b'.
                Inr (SuccessExecutionResult, size_of_object_in_bytes, b')))"

text \<open>\<open>T\<close> not integral: nothing is touched.\<close>

definition Serialize_other :: "BytesBuffer \<Rightarrow> size_t \<Rightarrow> ser_result" where
  "Serialize_other b bytes_serialized =
     Inr (FailureExecutionResult SC_SERIALIZATION_INVALID_SERIALIZATION_TYPE, bytes_serialized, b)"

definition Deserialize_integral :: "BytesBuffer \<Rightarrow> size_t \<Rightarrow> 'a::len word \<Rightarrow> 'a word deser_result" where
  "Deserialize_integral b buffer_offset value =
     (let size_of_object_in_bytes = of_nat (sizeof_word value)
      in if buffer_offset + size_of_object_in_bytes > by_length b
         then Inr (FailureExecutionResult SC_SERIALIZATION_BUFFER_NOT_READABLE, 0, value)
         else bindE (memcpy_from b buffer_offset (sizeof_word value)) (\<lambda>bs.
                Inr (SuccessExecutionResult, size_of_object_in_bytes, le_word bs)))"

definition Deserialize_other :: "size_t \<Rightarrow> 'a \<Rightarrow> 'a deser_result" where
  "Deserialize_other bytes_deserialized value =
     Inr (FailureExecutionResult SC_SERIALIZATION_INVALID_SERIALIZATION_TYPE, bytes_deserialized, value)"

section \<open>Identifiers and versions\<close>

text \<open>
  Both write two 64-bit integers one after the other; the parts are written and read with
  the routines above, whose failures are passed on.
\<close>

definition Serialize_Uuid :: "BytesBuffer \<Rightarrow> size_t \<Rightarrow> Uuid \<Rightarrow> ser_result" where
  "Serialize_Uuid b buffer_offset value =
     (let size_of_object_in_bytes = 2 * 8
      in if buffer_offset + size_of_object_in_bytes > by_capacity b
         then Inr (FailureExecutionResult SC_SERIALIZATION_BUFFER_NOT_WRITABLE, 0, b)
         else bindE (Serialize_integral b buffer_offset (high value)) (\<lambda>(r, n, b1).
                if \<not> Successful r then Inr (r, n, b1)
                else bindE (Serialize_integral b1 (buffer_offset + n) (low value)) (\<lambda>(r, n, b2).
                  if \<not> Successful r then Inr (r, n, b2)
                  else Inr (SuccessExecutionResult, size_of_object_in_bytes, b2))))"

definition Deserialize_Uuid :: "BytesBuffer \<Rightarrow> size_t \<Rightarrow> Uuid \<Rightarrow> Uuid deser_result" where
  "Deserialize_Uuid b buffer_offset value =
     (let size_of_object_in_bytes = 2 * 8
      in if buffer_offset + size_of_object_in_bytes > by_length b
         then Inr (FailureExecutionResult SC_SERIALIZATION_BUFFER_NOT_READABLE, 0, value)
         else bindE (Deserialize_integral b buffer_offset (high value)) (\<lambda>(r, n, h).
                let value1 = value\<lparr>high := h\<rparr>
                in if \<not> Successful r then Inr (r, n, value1)
                else bindE (Deserialize_integral b (buffer_offset + n) (low value1)) (\<lambda>(r, n, l).
                  let value2 = value1\<lparr>low := l\<rparr>
                  in if \<not> Successful r then Inr (r, n, value2)
                  else Inr (SuccessExecutionResult, size_of_object_in_bytes, value2))))"

definition Serialize_Version :: "BytesBuffer \<Rightarrow> size_t \<Rightarrow> Version \<Rightarrow> ser_result" where
  "Serialize_Version b buffer_offset value =
     (let size_of_object_in_bytes = 2 * 8
      in if buffer_offset + size_of_object_in_bytes > by_capacity b
         then Inr (FailureExecutionResult SC_SERIALIZATION_BUFFER_NOT_WRITABLE, 0, b)
         else bindE (Serialize_integral b buffer_offset (major value)) (\<lambda>(r, n, b1).
                if \<not> Successful r then Inr (r, n, b1)
                else bindE (Serialize_integral b1 (buffer_offset + n) (minor value)) (\<lambda>(r, n, b2).
                  if \<not> Successful r then Inr (r, n, b2)
                  else Inr (SuccessExecutionResult, size_of_object_in_bytes, b2))))"

definition Deserialize_Version :: "BytesBuffer \<Rightarrow> size_t \<Rightarrow> Version \<Rightarrow> Version deser_result" where
  "Deserialize_Version b buffer_offset value =
     (let size_of_object_in_bytes = 2 * 8
      in if buffer_offset + size_of_object_in_bytes > by_length b
         then Inr (FailureExecutionResult SC_SERIALIZATION_BUFFER_NOT_READABLE, 0, value)
         else bindE (Deserialize_integral b buffer_offset (major value)) (\<lambda>(r, n, h).
                let value1 = value\<lparr>major := h\<rparr>
                in if \<not> Successful r then Inr (r, n, value1)
                else bindE (Deserialize_integral b (buffer_offset + n) (minor value1)) (\<lambda>(r, n, l).
                  let value2 = value1\<lparr>minor := l\<rparr>
                  in if \<not> Successful r then Inr (r, n, value2)
                  else Inr (SuccessExecutionResult, size_of_object_in_bytes, value2))))"

section \<open>Messages\<close>

record 'm proto_ops =
  ByteSizeLong :: "'m \<Rightarrow> u64"
  SerializeToArray :: "'m \<Rightarrow> u8 list option"
  ParseFromArray :: "u8 list \<Rightarrow> 'm option"
  proto_version :: "'m \<Rightarrow> Version"

definition CalculateSerializationByteSize :: "'m proto_ops \<Rightarrow> 'm \<Rightarrow> ExecutionResult \<times> size_t" where
  "CalculateSerializationByteSize P m = (SuccessExecutionResult, 8 + ByteSizeLong P m)"

definition SerializeProtoMessage :: "'m proto_ops \<Rightarrow> BytesBuffer \<Rightarrow> size_t \<Rightarrow> 'm \<Rightarrow> ser_result" where
  "SerializeProtoMessage P b buffer_offset value =
     (let size_of_serialized_proto = ByteSizeLong P value
      in if buffer_offset + size_of_serialized_proto > by_capacity b
         then Inr (FailureExecutionResult SC_SERIALIZATION_BUFFER_NOT_WRITABLE, 0, b)
         else case SerializeToArray P value of
                None \<Rightarrow> Inr (FailureExecutionResult SC_SERIALIZATION_PROTO_SERIALIZATION_FAILED, 0, b)
              | Some bs \<Rightarrow> bindE (memcpy_to b buffer_offset bs) (\<lambda>b'.
                  Inr (SuccessExecutionResult, size_of_serialized_proto, b')))"

definition DeserializeProtoMessage ::
  "'m proto_ops \<Rightarrow> BytesBuffer \<Rightarrow> size_t \<Rightarrow> size_t \<Rightarrow> 'm \<Rightarrow> 'm deser_result" where
  "DeserializeProtoMessage P b buffer_offset message_length value =
     (if buffer_offset + message_length > by_length b
      then Inr (FailureExecutionResult SC_SERIALIZATION_BUFFER_NOT_READABLE, 0, value)
      else if by_length b = 0
      then Inr (FailureExecutionResult SC_SERIALIZATION_PROTO_DESERIALIZATION_FAILED, 0, value)
      else bindE (memcpy_from b buffer_offset (unat message_length)) (\<lambda>bs.
             case ParseFromArray P bs of
               None \<Rightarrow> Inr (FailureExecutionResult SC_SERIALIZATION_PROTO_DESERIALIZATION_FAILED, 0, value)
             | Some m \<Rightarrow> Inr (SuccessExecutionResult, ByteSizeLong P m, m)))"

definition DeserializeProtoString :: "'m proto_ops \<Rightarrow> u8 list \<Rightarrow> 'm \<Rightarrow> 'm deser_result" where
  "DeserializeProtoString P proto_message value =
     (if length proto_message = 0
      then Inr (FailureExecutionResult SC_SERIALIZATION_PROTO_DESERIALIZATION_FAILED, 0, value)
      else case ParseFromArray P proto_message of
             None \<Rightarrow> Inr (FailureExecutionResult SC_SERIALIZATION_PROTO_DESERIALIZATION_FAILED, 0, value)
           | Some m \<Rightarrow> Inr (SuccessExecutionResult, of_nat (length proto_message), m))"

definition ValidateVersion :: "'m proto_ops \<Rightarrow> 'm \<Rightarrow> Version \<Rightarrow> ExecutionResult" where
  "ValidateVersion P m supported_version =
     (if major (proto_version P m) \<noteq> major supported_version \<or> minor (proto_version P m) \<noteq> minor supported_version
      then FailureExecutionResult SC_SERIALIZATION_VERSION_IS_INVALID
      else SuccessExecutionResult)"

definition Serialize_Message :: "'m proto_ops \<Rightarrow> BytesBuffer \<Rightarrow> size_t \<Rightarrow> 'm \<Rightarrow> ser_result" where
  "Serialize_Message P b buffer_offset value =
     (let size_of_object_size_block = 8;
          size_of_serialized_proto = ByteSizeLong P value
      in if buffer_offset + size_of_object_size_block + size_of_serialized_proto > by_capacity b
         then Inr (FailureExecutionResult SC_SERIALIZATION_BUFFER_NOT_WRITABLE, 0, b)
         else bindE (Serialize_integral b buffer_offset size_of_serialized_proto) (\<lambda>(r, n, b1).
                if \<not> Successful r then Inr (r, n, b1)
                else case SerializeToArray P value of
                  None \<Rightarrow> Inr (FailureExecutionResult SC_SERIALIZATION_PROTO_SERIALIZATION_FAILED, n, b1)
                | Some bs \<Rightarrow> bindE (memcpy_to b1 (buffer_offset + n) bs) (\<lambda>b2.
                    Inr (SuccessExecutionResult, size_of_object_size_block + size_of_serialized_proto, b2))))"

definition Deserialize_Message :: "'m proto_ops \<Rightarrow> BytesBuffer \<Rightarrow> size_t \<Rightarrow> 'm \<Rightarrow> 'm deser_result" where
  "Deserialize_Message P b buffer_offset value =
     (let size_of_object_size_block = 8
      in if buffer_offset + size_of_object_size_block > by_length b
         then Inr (FailureExecutionResult SC_SERIALIZATION_BUFFER_NOT_READABLE, 0, value)
         else bindE (Deserialize_integral b buffer_offset 0) (\<lambda>(r, n, size_of_serialized_proto :: u64).
           if \<not> Successful r then Inr (r, n, value)
           else if buffer_offset + size_of_object_size_block + size_of_serialized_proto > by_length b
           then Inr (FailureExecutionResult SC_SERIALIZATION_BUFFER_NOT_READABLE, n, value)
           else let total = size_of_object_size_block + size_of_serialized_proto
           in if size_of_serialized_proto = 0 then Inr (SuccessExecutionResult, total, value)
           else bindE (memcpy_from b (buffer_offset + n) (unat size_of_serialized_proto)) (\<lambda>bs.
             case ParseFromArray P bs of
               None \<Rightarrow> Inr (FailureExecutionResult SC_SERIALIZATION_PROTO_DESERIALIZATION_FAILED, n, value)
             | Some m \<Rightarrow> Inr (SuccessExecutionResult, total, m))))"

section \<open>Inside the buffer\<close>

definition buffer_ok :: "BytesBuffer \<Rightarrow> bool" where
  "buffer_ok b \<longleftrightarrow>
     (case by_bytes b of None \<Rightarrow> False | Some v \<Rightarrow> length v = unat (by_capacity b)) \<and> by_length b \<le> by_capacity b"

lemma buffer_okE:
  assumes "buffer_ok b"
  obtains v where "by_bytes b = Some v" "length v = unat (by_capacity b)" "unat (by_length b) \<le> length v"
  using assms by (auto simp: buffer_ok_def word_le_nat_alt split: option.splits)

lemma unat_offset:
  fixes off :: size_t
  assumes "unat off + k < 2 ^ 64"
  shows "unat (off + of_nat k) = unat off + k"
proof -
  have "off + of_nat k = of_nat (unat off + k)" by simp
  then show ?thesis using assms by (simp add: unat_of_nat take_bit_nat_eq_self del: of_nat_add)
qed

lemma fits_le:
  fixes off :: size_t
  assumes "unat off + k \<le> unat c"
  shows "unat (off + of_nat k) = unat off + k" "off + of_nat k \<le> c"
proof -
  have "unat c < 2 ^ 64" using unsigned_less [of c] by simp
  then show u: "unat (off + of_nat k) = unat off + k" using assms by (intro unat_offset) simp
  show "off + of_nat k \<le> c" using assms u by (simp add: word_le_nat_alt)
qed

lemma too_long:
  fixes off :: size_t
  assumes "unat off + k < 2 ^ 64" "unat c < unat off + k"
  shows "c < off + of_nat k"
  using assms unat_offset [OF assms(1)] by (simp add: word_less_nat_alt)

lemma Serialize_integral_ok:
  fixes w :: "'a::len word"
  assumes "by_bytes b = Some v" "length v = unat (by_capacity b)" "unat off + sizeof_word w \<le> length v"
  shows "Serialize_integral b off w =
    Inr (SuccessExecutionResult, of_nat (sizeof_word w),
         b\<lparr>by_bytes := Some (put v (unat off) (le_bytes (sizeof_word w) w))\<rparr>)"
  using assms fits_le(2) [of off "sizeof_word w" "by_capacity b"]
  by (simp add: Serialize_integral_def memcpy_to_def Let_def)

lemma Deserialize_integral_ok:
  fixes w :: "'a::len word"
  assumes "by_bytes b = Some v" "unat off + sizeof_word w \<le> unat (by_length b)"
    "bytes_at v (unat off) (le_bytes (sizeof_word w) w)" "LENGTH('a) = 8 * sizeof_word w"
  shows "Deserialize_integral b off (w0 :: 'a word) = Inr (SuccessExecutionResult, of_nat (sizeof_word w), w)"
proof -
  have "sizeof_word w0 = sizeof_word w" by (simp add: sizeof_word_def)
  moreover have "take (sizeof_word w) (drop (unat off) v) = le_bytes (sizeof_word w) w"
    "unat off + sizeof_word w \<le> length v"
    using assms(3) by (simp_all add: bytes_at_def)
  ultimately show ?thesis
    using assms(1,4) fits_le(2) [OF assms(2)]
    by (simp add: Deserialize_integral_def memcpy_from_def Let_def)
qed

lemma sizeof_u64 [simp]: "sizeof_word (w :: u64) = 8"
  by (simp add: sizeof_word_def)

text \<open>The image of a pair of 64-bit integers.\<close>

definition pair_image :: "u64 \<Rightarrow> u64 \<Rightarrow> u8 list" where
  "pair_image a b = le_bytes 8 a @ le_bytes 8 b"

lemma length_pair_image [simp]: "length (pair_image a b) = 16"
  by (simp add: pair_image_def)

lemma offset_8:
  fixes off c :: size_t
  assumes "unat off + 8 \<le> unat c"
  shows "unat (off + 8) = unat off + 8"
  using fits_le(1) [OF assms] by simp

lemma Serialize_pair:
  assumes "by_bytes b = Some v" "length v = unat (by_capacity b)" "unat off + 16 \<le> length v"
  shows "Serialize_integral b off x = Inr (SuccessExecutionResult, 8, b\<lparr>by_bytes := Some (put v (unat off) (le_bytes 8 x))\<rparr>)"
    and "Serialize_integral (b\<lparr>by_bytes := Some (put v (unat off) (le_bytes 8 x))\<rparr>) (off + 8) y =
      Inr (SuccessExecutionResult, 8, b\<lparr>by_bytes := Some (put v (unat off) (pair_image x y))\<rparr>)"
    and "\<not> by_capacity b < off + 16"
proof -
  have c: "unat off + 8 \<le> unat (by_capacity b)" "unat off + 16 \<le> unat (by_capacity b)" using assms by simp_all
  show "Serialize_integral b off x = Inr (SuccessExecutionResult, 8, b\<lparr>by_bytes := Some (put v (unat off) (le_bytes 8 x))\<rparr>)"
    using assms Serialize_integral_ok [of b v off x] by simp
  have "put v (unat off) (pair_image x y) = put (put v (unat off) (le_bytes 8 x)) (unat off + 8) (le_bytes 8 y)"
    using assms(3) by (simp add: pair_image_def put_append)
  then show "Serialize_integral (b\<lparr>by_bytes := Some (put v (unat off) (le_bytes 8 x))\<rparr>) (off + 8) y =
      Inr (SuccessExecutionResult, 8, b\<lparr>by_bytes := Some (put v (unat off) (pair_image x y))\<rparr>)"
    using assms offset_8 [OF c(1)]
      Serialize_integral_ok [of "b\<lparr>by_bytes := Some (put v (unat off) (le_bytes 8 x))\<rparr>" _ "off + 8" y]
    by simp
  show "\<not> by_capacity b < off + 16" using fits_le(2) [OF c(2)] by simp
qed

lemma Deserialize_pair:
  assumes "by_bytes b = Some v" "unat off + 16 \<le> unat (by_length b)" "bytes_at v (unat off) (pair_image x y)"
  shows "Deserialize_integral b off (x0 :: u64) = Inr (SuccessExecutionResult, 8, x)"
    and "Deserialize_integral b (off + 8) (y0 :: u64) = Inr (SuccessExecutionResult, 8, y)"
    and "\<not> by_length b < off + 16"
proof -
  have c: "unat off + 8 \<le> unat (by_length b)" "unat off + 16 \<le> unat (by_length b)" using assms by simp_all
  have at: "bytes_at v (unat off) (le_bytes 8 x)" "bytes_at v (unat off + 8) (le_bytes 8 y)"
    using assms(3) by (simp_all add: pair_image_def bytes_at_append)
  show "Deserialize_integral b off (x0 :: u64) = Inr (SuccessExecutionResult, 8, x)"
    using Deserialize_integral_ok [OF assms(1), of off x x0] c at by simp
  show "Deserialize_integral b (off + 8) (y0 :: u64) = Inr (SuccessExecutionResult, 8, y)"
    using Deserialize_integral_ok [OF assms(1), of "off + 8" y y0] c at offset_8 [OF c(1)] by simp
  show "\<not> by_length b < off + 16" using fits_le(2) [OF c(2)] by simp
qed

section \<open>Protobuf\<close>

text \<open>
  What is relied on: a message that can be encoded has the size it announces, parses back
  to itself, and only the default message is encoded by no bytes.
\<close>

locale protobuf =
  fixes P :: "'m proto_ops" and default_message :: 'm
  assumes announced_size: "SerializeToArray P m = Some bs \<Longrightarrow> ByteSizeLong P m = of_nat (length bs) \<and> length bs < 2 ^ 31"
    and parse_serialized: "SerializeToArray P m = Some bs \<Longrightarrow> ParseFromArray P bs = Some m"
    and empty_default: "SerializeToArray P m = Some [] \<Longrightarrow> m = default_message"
begin

definition message_image :: "u8 list \<Rightarrow> u8 list" where
  "message_image bs = le_bytes 8 (of_nat (length bs) :: u64) @ bs"

lemma message_roundtrip:
  assumes m: "SerializeToArray P m = Some bs" and v: "by_bytes b = Some v" "length v = unat (by_capacity b)"
    and fit: "unat off + 8 + length bs \<le> length v"
  shows "Serialize_Message P b off m =
      Inr (SuccessExecutionResult, 8 + ByteSizeLong P m, b\<lparr>by_bytes := Some (put v (unat off) (message_image bs))\<rparr>)"
    and "by_bytes b' = Some (put v (unat off) (message_image bs)) \<Longrightarrow> unat off + 8 + length bs \<le> unat (by_length b') \<Longrightarrow>
      Deserialize_Message P b' off default_message = Inr (SuccessExecutionResult, 8 + ByteSizeLong P m, m)"
proof -
  let ?n = "of_nat (length bs) :: u64"
  have sz: "ByteSizeLong P m = ?n" "length bs < 2 ^ 31" using announced_size [OF m] by auto
  have un: "unat ?n = length bs" using sz(2) by (simp add: unat_of_nat take_bit_nat_eq_self)
  let ?v = "put v (unat off) (message_image bs)"
  have img: "?v = put (put v (unat off) (le_bytes 8 ?n)) (unat off + 8) bs" "length (message_image bs) = 8 + length bs"
    using fit by (simp_all add: message_image_def put_append)
  have sum: "off + 8 + ?n = off + of_nat (8 + length bs)" by simp
  have c: "unat off + 8 \<le> unat (by_capacity b)" "unat off + (8 + length bs) \<le> unat (by_capacity b)"
    using v fit by simp_all
  have o8: "unat (off + 8) = unat off + 8" by (rule offset_8 [OF c(1)])
  have "Serialize_integral b off ?n = Inr (SuccessExecutionResult, 8, b\<lparr>by_bytes := Some (put v (unat off) (le_bytes 8 ?n))\<rparr>)"
    using v fit Serialize_integral_ok [of b v off ?n] by simp
  then show "Serialize_Message P b off m =
      Inr (SuccessExecutionResult, 8 + ByteSizeLong P m, b\<lparr>by_bytes := Some ?v\<rparr>)"
    using m fit img o8 fits_le(2) [OF c(2)]
    by (simp add: Serialize_Message_def Let_def sz(1) sum memcpy_to_def del: of_nat_add)
  assume b': "by_bytes b' = Some ?v" "unat off + 8 + length bs \<le> unat (by_length b')"
  have c': "unat off + 8 \<le> unat (by_length b')" "unat off + (8 + length bs) \<le> unat (by_length b')" using b'(2) by simp_all
  have "bytes_at ?v (unat off) (message_image bs)" using fit img(2) by (intro bytes_at_put) simp
  then have at: "bytes_at ?v (unat off) (le_bytes 8 ?n)" "bytes_at ?v (unat off + 8) bs"
    by (simp_all add: message_image_def bytes_at_append)
  have "Deserialize_integral b' off (0 :: u64) = Inr (SuccessExecutionResult, 8, ?n)"
    using Deserialize_integral_ok [OF b'(1), of off ?n 0] c'(1) at(1) by simp
  moreover have "memcpy_from b' (off + 8) (length bs) = Inr bs"
    using at(2) b'(1) o8 by (simp add: memcpy_from_def bytes_at_def)
  moreover have "?n = 0 \<longleftrightarrow> bs = []" 
  proof
    assume "?n = 0"
    then have "unat ?n = 0" by (simp only: unsigned_0)
    then show "bs = []" using un by simp
  qed simp
  ultimately show "Deserialize_Message P b' off default_message = Inr (SuccessExecutionResult, 8 + ByteSizeLong P m, m)"
    using parse_serialized [OF m] empty_default [of m] m fits_le(2) [OF c'(1)] fits_le(2) [OF c'(2)] un
    by (auto simp add: Deserialize_Message_def Let_def sz(1) sum not_less simp del: of_nat_add)
qed

end

text \<open>A stand-in for protobuf: a message that is a field of bytes.\<close>

definition bytes_proto :: "u8 list proto_ops" where
  "bytes_proto =
     \<lparr>ByteSizeLong = (\<lambda>m. of_nat (length m)),
      SerializeToArray = (\<lambda>m. if length m < 2 ^ 31 then Some m else None),
      ParseFromArray = Some, proto_version = (\<lambda>_. \<lparr>major = 1, minor = 0\<rparr>)\<rparr>"

interpretation bytes_proto: protobuf bytes_proto "[]"
  by unfold_locales (auto simp: bytes_proto_def split: if_splits)

section \<open>Properties\<close>

text \<open>
  C27: A message that fits behind the offset is written with its size in front, takes the
  number of bytes \<open>CalculateSerializationByteSize\<close> announces, changes no other byte, and is
  read back from every prefix of the buffer that holds it.
\<close>

theorem message_bytes_roundtrip:
  assumes "protobuf P default_message" and "buffer_ok b" and "SerializeToArray P m = Some bs"
    and "unat off + 8 + length bs \<le> unat (by_capacity b)"
  shows "\<exists>b'. Serialize_Message P b off m = Inr (SuccessExecutionResult, 8 + ByteSizeLong P m, b') \<and>
     CalculateSerializationByteSize P m = (SuccessExecutionResult, 8 + ByteSizeLong P m) \<and>
     (\<forall>len. unat off + 8 + length bs \<le> unat len \<longrightarrow>
        Deserialize_Message P (b'\<lparr>by_length := len\<rparr>) off default_message =
          Inr (SuccessExecutionResult, 8 + ByteSizeLong P m, m)) \<and>
     (\<forall>i < unat (by_capacity b). i < unat off \<or> unat off + 8 + length bs \<le> i \<longrightarrow>
        the (by_bytes b') ! i = the (by_bytes b) ! i)"
proof -
  obtain v where v: "by_bytes b = Some v" "length v = unat (by_capacity b)"
    using buffer_okE [OF assms(2)] by metis
  have fit: "unat off + 8 + length bs \<le> length v" using assms(4) v(2) by simp
  let ?img = "le_bytes 8 (of_nat (length bs) :: u64) @ bs"
  let ?b = "b\<lparr>by_bytes := Some (put v (unat off) ?img)\<rparr>"
  note rt = protobuf.message_roundtrip [OF assms(1,3) v fit, unfolded protobuf.message_image_def [OF assms(1)]]
  have "the (by_bytes ?b) ! i = the (by_bytes b) ! i"
    if "i < unat (by_capacity b)" "i < unat off \<or> unat off + 8 + length bs \<le> i" for i
    using that v fit by (auto simp: nth_put)
  moreover have "Deserialize_Message P (?b\<lparr>by_length := len\<rparr>) off default_message =
      Inr (SuccessExecutionResult, 8 + ByteSizeLong P m, m)" if "unat off + 8 + length bs \<le> unat len" for len
    using that by (intro rt(2)) simp_all
  ultimately show ?thesis
    using rt(1) by (intro exI [of _ ?b]) (simp add: CalculateSerializationByteSize_def)
qed

theorem message_bytes_roundtrip_witness:
  "\<exists>b'. Serialize_Message bytes_proto (BytesBuffer_sized 16) 4 [7, 8] = Inr (SuccessExecutionResult, 10, b') \<and>
     Deserialize_Message bytes_proto (b'\<lparr>by_length := 14\<rparr>) 4 [] = Inr (SuccessExecutionResult, 10, [7, 8])"
proof -
  have "buffer_ok (BytesBuffer_sized 16)" by (simp add: buffer_ok_def BytesBuffer_sized_def)
  moreover have "SerializeToArray bytes_proto [7, 8] = Some [7, 8]" "ByteSizeLong bytes_proto [7, 8] = 2"
    by (simp_all add: bytes_proto_def)
  ultimately show ?thesis
    using message_bytes_roundtrip [OF bytes_proto.protobuf_axioms, of "BytesBuffer_sized 16" "[7, 8]" "[7, 8]" 4]
    by (auto simp: BytesBuffer_sized_def)
qed

text \<open>
  C36: Identifiers and versions are 16 bytes. As long as the offset is not within 16 bytes of
  the largest \<open>size_t\<close>, writing one either succeeds inside the buffer, and reading it from a
  prefix that holds it gives it back, or fails with the buffer untouched; it never writes
  outside of the buffer.
\<close>

theorem pair_bytes_roundtrip:
  assumes "buffer_ok b" and "unat off + 16 < 2 ^ 64"
  shows "(unat off + 16 \<le> unat (by_capacity b) \<longrightarrow>
       (\<exists>b'. Serialize_Uuid b off u = Inr (SuccessExecutionResult, 16, b') \<and> buffer_ok b' \<and>
          (\<forall>len u0. unat off + 16 \<le> unat len \<longrightarrow>
             Deserialize_Uuid (b'\<lparr>by_length := len\<rparr>) off u0 = Inr (SuccessExecutionResult, 16, u))) \<and>
       (\<exists>b'. Serialize_Version b off w = Inr (SuccessExecutionResult, 16, b') \<and> buffer_ok b' \<and>
          (\<forall>len w0. unat off + 16 \<le> unat len \<longrightarrow>
             Deserialize_Version (b'\<lparr>by_length := len\<rparr>) off w0 = Inr (SuccessExecutionResult, 16, w)))) \<and>
     (unat (by_capacity b) < unat off + 16 \<longrightarrow>
       Serialize_Uuid b off u = Inr (FailureExecutionResult SC_SERIALIZATION_BUFFER_NOT_WRITABLE, 0, b) \<and>
       Serialize_Version b off w = Inr (FailureExecutionResult SC_SERIALIZATION_BUFFER_NOT_WRITABLE, 0, b))"
proof (intro conjI impI)
  obtain v where v: "by_bytes b = Some v" "length v = unat (by_capacity b)"
    using buffer_okE [OF assms(1)] by metis
  { assume "unat off + 16 \<le> unat (by_capacity b)"
    then have fit: "unat off + 16 \<le> length v" using v(2) by simp
    note w = Serialize_pair [OF v fit]
    have ok: "buffer_ok (b\<lparr>by_bytes := Some (put v (unat off) (pair_image x y))\<rparr>)" for x y
      using assms(1) v fit by (simp add: buffer_ok_def)
    have at: "bytes_at (put v (unat off) (pair_image x y)) (unat off) (pair_image x y)" for x y
      using fit by (intro bytes_at_put) simp
    note r = Deserialize_pair [OF _ _ at]
    let ?b = "b\<lparr>by_bytes := Some (put v (unat off) (pair_image (high u) (low u)))\<rparr>"
    have "Serialize_Uuid b off u = Inr (SuccessExecutionResult, 16, ?b)"
      using w by (simp add: Serialize_Uuid_def Let_def)
    moreover have "Deserialize_Uuid (?b\<lparr>by_length := len\<rparr>) off u0 = Inr (SuccessExecutionResult, 16, u)"
      if "unat off + 16 \<le> unat len" for len u0
      using r [of "?b\<lparr>by_length := len\<rparr>"] that by (simp add: Deserialize_Uuid_def Let_def)
    ultimately show "\<exists>b'. Serialize_Uuid b off u = Inr (SuccessExecutionResult, 16, b') \<and> buffer_ok b' \<and>
          (\<forall>len u0. unat off + 16 \<le> unat len \<longrightarrow>
             Deserialize_Uuid (b'\<lparr>by_length := len\<rparr>) off u0 = Inr (SuccessExecutionResult, 16, u))"
      using ok by blast
    let ?b = "b\<lparr>by_bytes := Some (put v (unat off) (pair_image (major w) (minor w)))\<rparr>"
    have "Serialize_Version b off w = Inr (SuccessExecutionResult, 16, ?b)"
      using w by (simp add: Serialize_Version_def Let_def)
    moreover have "Deserialize_Version (?b\<lparr>by_length := len\<rparr>) off w0 = Inr (SuccessExecutionResult, 16, w)"
      if "unat off + 16 \<le> unat len" for len w0
      using r [of "?b\<lparr>by_length := len\<rparr>"] that by (simp add: Deserialize_Version_def Let_def)
    ultimately show "\<exists>b'. Serialize_Version b off w = Inr (SuccessExecutionResult, 16, b') \<and> buffer_ok b' \<and>
          (\<forall>len w0. unat off + 16 \<le> unat len \<longrightarrow>
             Deserialize_Version (b'\<lparr>by_length := len\<rparr>) off w0 = Inr (SuccessExecutionResult, 16, w))"
      using ok by blast }
  { assume "unat (by_capacity b) < unat off + 16"
    then have "by_capacity b < off + 16" using too_long [OF assms(2), of "by_capacity b"] by simp
    then show "Serialize_Uuid b off u = Inr (FailureExecutionResult SC_SERIALIZATION_BUFFER_NOT_WRITABLE, 0, b)"
      "Serialize_Version b off w = Inr (FailureExecutionResult SC_SERIALIZATION_BUFFER_NOT_WRITABLE, 0, b)"
      by (simp_all add: Serialize_Uuid_def Serialize_Version_def) }
qed

theorem pair_bytes_roundtrip_witness:
  "\<exists>b'. Serialize_Uuid (BytesBuffer_sized 20) 3 \<lparr>high = 1, low = 2\<rparr> = Inr (SuccessExecutionResult, 16, b') \<and>
     Deserialize_Uuid (b'\<lparr>by_length := 19\<rparr>) 3 \<lparr>high = 0, low = 0\<rparr> = Inr (SuccessExecutionResult, 16, \<lparr>high = 1, low = 2\<rparr>)"
proof -
  have "buffer_ok (BytesBuffer_sized 20)" by (simp add: buffer_ok_def BytesBuffer_sized_def)
  from pair_bytes_roundtrip [OF this, of 3 "\<lparr>high = 1, low = 2\<rparr>" "\<lparr>major = 0, minor = 0\<rparr>"]
  show ?thesis by (auto simp: BytesBuffer_sized_def)
qed

text \<open>
  The check of the offset wraps around: an offset within 8 bytes of the largest
  \<open>size_t\<close> passes it for a 64-bit integer and the bytes are copied outside of the vector.
\<close>

theorem serialize_offset_wraps:
  assumes "buffer_ok b" and "2 ^ 64 \<le> unat off + 8" and "8 \<le> unat (by_capacity b)"
  shows "Serialize_integral b off (x :: u64) = Inl UndefinedBehaviour"
proof -
  obtain v where v: "by_bytes b = Some v" "length v = unat (by_capacity b)"
    using buffer_okE [OF assms(1)] by metis
  have u: "unat off < 2 ^ 64" "unat (by_capacity b) < 2 ^ 64" using unsigned_less [of off] unsigned_less [of "by_capacity b"] by simp_all
  have "off + 8 = of_nat (unat off + 8)" by simp
  also have "\<dots> = of_nat (unat off + 8 - 2 ^ 64)"
    using assms(2) by (simp add: of_nat_diff)
  finally have "unat (off + 8) = unat off + 8 - 2 ^ 64"
    using u(1) by (simp add: unat_of_nat take_bit_nat_eq_self)
  then have "unat (off + 8) \<le> unat (by_capacity b)" using assms(3) u(1) by linarith
  then have "\<not> by_capacity b < off + 8" by (simp add: word_less_nat_alt)
  moreover have "\<not> unat off + 8 \<le> length v" using assms(2) v(2) u by linarith
  ultimately show ?thesis
    using v by (simp add: Serialize_integral_def memcpy_to_def Let_def)
qed

theorem serialize_offset_wraps_witness:
  "Serialize_integral (BytesBuffer_sized 16) 0xFFFFFFFFFFFFFFF8 (1 :: u64) = Inl UndefinedBehaviour"
proof -
  have "buffer_ok (BytesBuffer_sized 16)" by (simp add: buffer_ok_def BytesBuffer_sized_def)
  from serialize_offset_wraps [OF this, of "0xFFFFFFFFFFFFFFF8" 1] show ?thesis
    by (simp add: BytesBuffer_sized_def)
qed

end
