(* ===== verification/Wasm_Serdes.thy ===== *)
theory Wasm_Serdes
  imports Byte_Memory
begin

text \<open>
  How Roma passes strings and lists of strings through the linear memory of a WASM module:
  cc/roma/wasm/src/serializer.cc, deserializer.cc and wasm_types.h. The memory is the list
  of its bytes and \<open>mem_size\<close> its length; offsets are \<open>size_t\<close>, pointers stored in
  the memory are 32 bits wide, and all comparisons wrap around as in the source.
\<close>

section \<open>Writing\<close>

definition mem_size :: "u8 list \<Rightarrow> size_t" where
  "mem_size mem = of_nat (length mem)"

definition UINT32_MAX :: u32 where
  "UINT32_MAX = 0xFFFFFFFF"

definition ComputeMemorySizeFor :: "u8 list \<Rightarrow> size_t" where
  "ComputeMemorySizeFor s = of_nat (length s) + 4 + 4"

definition ComputeMemorySizeForList :: "u8 list list \<Rightarrow> size_t" where
  "ComputeMemorySizeForList list =
     foldl (\<lambda>size s. size + ComputeMemorySizeFor s) 0 list + of_nat (length list) * 4 + (4 + 4)"

definition WriteUint8 :: "u8 list \<Rightarrow> size_t \<Rightarrow> u8 \<Rightarrow> bool \<times> u8 list" where
  "WriteUint8 mem offset input =
     (if offset \<ge> mem_size mem then (False, mem) else (True, mem[unat offset := input]))"

definition WriteUint16 :: "u8 list \<Rightarrow> size_t \<Rightarrow> u16 \<Rightarrow> bool \<times> u8 list" where
  "WriteUint16 mem offset input =
     (if offset + 1 \<ge> mem_size mem then (False, mem)
      else let (worked, mem1) = WriteUint8 mem offset (ucast input)
           in if worked then WriteUint8 mem1 (offset + 1) (ucast (drop_bit 8 input)) else (False, mem1))"

definition WriteUint32 :: "u8 list \<Rightarrow> size_t \<Rightarrow> u32 \<Rightarrow> bool \<times> u8 list" where
  "WriteUint32 mem offset input =
     (if offset + 3 \<ge> mem_size mem then (False, mem)
      else let (worked, mem1) = WriteUint16 mem offset (ucast input)
           in if worked then WriteUint16 mem1 (offset + 2) (ucast (drop_bit 16 input)) else (False, mem1))"

fun WriteRawString_loop :: "u8 list \<Rightarrow> size_t \<Rightarrow> u8 list \<Rightarrow> bool \<times> u8 list" where
  "WriteRawString_loop mem local_offset [] = (True, mem)"
| "WriteRawString_loop mem local_offset (c # str) =
     (let (worked, mem1) = WriteUint8 mem local_offset c
      in if worked then WriteRawString_loop mem1 (local_offset + 1) str else (False, mem1))"

definition WriteRawString :: "u8 list \<Rightarrow> size_t \<Rightarrow> u8 list \<Rightarrow> bool \<times> u8 list" where
  "WriteRawString mem offset str =
     (if offset + of_nat (length str) - 1 \<ge> mem_size mem then (False, mem)
      else WriteRawString_loop mem offset str)"

definition WriteCustomString :: "u8 list \<Rightarrow> size_t \<Rightarrow> u8 list \<Rightarrow> u32 \<times> u8 list" where
  "WriteCustomString mem offset str =
     (let (worked, mem1) = WriteRawString mem offset str
      in if \<not> worked then (UINT32_MAX, mem1)
         else let struct_offset = offset + of_nat (length str);
                  (worked, mem2) = WriteUint32 mem1 struct_offset (ucast offset);
                  (worked, mem3) =
                    (if worked then WriteUint32 mem2 (struct_offset + 4) (of_nat (length str))
                     else (False, mem2))
              in if \<not> worked then (UINT32_MAX, mem3) else (ucast struct_offset, mem3))"

fun WriteList_strings ::
  "u8 list \<Rightarrow> size_t \<Rightarrow> u8 list list \<Rightarrow> u32 list option \<times> size_t \<times> u8 list" where
  "WriteList_strings mem offset [] = (Some [], offset, mem)"
| "WriteList_strings mem offset (str # list) =
     (let (str_ptr, mem1) = WriteCustomString mem offset str
      in if str_ptr = UINT32_MAX then (None, offset, mem1)
         else let (ptrs, offset', mem2) = WriteList_strings mem1 (offset + ComputeMemorySizeFor str) list
              in (map_option (\<lambda>ps. str_ptr # ps) ptrs, offset', mem2))"

fun WriteList_ptrs :: "u8 list \<Rightarrow> size_t \<Rightarrow> u32 list \<Rightarrow> bool \<times> size_t \<times> u8 list" where
  "WriteList_ptrs mem offset [] = (True, offset, mem)"
| "WriteList_ptrs mem offset (p # ptrs) =
     (let (worked, mem1) = WriteUint32 mem offset p
      in if worked then WriteList_ptrs mem1 (offset + 4) ptrs else (False, offset, mem1))"

definition WriteCustomListOfString :: "u8 list \<Rightarrow> size_t \<Rightarrow> u8 list list \<Rightarrow> u32 \<times> u8 list" where
  "WriteCustomListOfString mem offset list =
     (case WriteList_strings mem offset list of
        (None, _, mem1) \<Rightarrow> (UINT32_MAX, mem1)
      | (Some string_ptrs, ptr_to_array, mem1) \<Rightarrow>
          (case WriteList_ptrs mem1 ptr_to_array string_ptrs of
             (False, _, mem2) \<Rightarrow> (UINT32_MAX, mem2)
           | (True, struct_offset, mem2) \<Rightarrow>
               (let (worked, mem3) = WriteUint32 mem2 struct_offset (ucast ptr_to_array);
                    (worked, mem4) =
                      (if worked then WriteUint32 mem3 (struct_offset + 4) (of_nat (length string_ptrs))
                       else (False, mem3))
                in if \<not> worked then (UINT32_MAX, mem4) else (ucast struct_offset, mem4))))"

section \<open>Reading\<close>

definition ReadUint8 :: "u8 list \<Rightarrow> size_t \<Rightarrow> u8" where
  "ReadUint8 mem offset = (if offset \<ge> mem_size mem then 0 else mem ! unat offset)"

definition ReadUint16 :: "u8 list \<Rightarrow> size_t \<Rightarrow> u16" where
  "ReadUint16 mem offset =
     (if offset + 1 \<ge> mem_size mem then 0
      else ucast (ReadUint8 mem offset) OR push_bit 8 (ucast (ReadUint8 mem (offset + 1))))"

definition ReadUint32 :: "u8 list \<Rightarrow> size_t \<Rightarrow> u32" where
  "ReadUint32 mem offset =
     (if offset + 3 \<ge> mem_size mem then 0
      else ucast (ReadUint16 mem offset) OR push_bit 16 (ucast (ReadUint16 mem (offset + 2))))"

fun ReadRawString_loop :: "u8 list \<Rightarrow> size_t \<Rightarrow> u8 list \<Rightarrow> nat \<Rightarrow> nat \<Rightarrow> u8 list" where
  "ReadRawString_loop mem local_offset str i 0 = str"
| "ReadRawString_loop mem local_offset str i (Suc n) =
     ReadRawString_loop mem (local_offset + 1) (str[i := ReadUint8 mem local_offset]) (Suc i) n"

text \<open>\<open>str\<close> is the caller's array of \<open>char\<close>, returned as it is left.\<close>

definition ReadRawString :: "u8 list \<Rightarrow> size_t \<Rightarrow> u8 list \<Rightarrow> size_t \<Rightarrow> u8 list" where
  "ReadRawString mem offset str str_len =
     (if offset + str_len - 1 \<ge> mem_size mem then str[0 := 0]
      else ReadRawString_loop mem offset str 0 (unat str_len))"

text \<open>
  The temporary string is empty, so that it starts with its terminator, and memory is reserved for the string
  it is to take: the first byte decides whether anything was read. The characters are written past its
  size, which the language leaves undefined; \<open>reserved\<close> says whether the implementation of
  \<open>std::string\<close> lets the memory it has reserved be used.
\<close>

definition ReadCustomString :: "bool \<Rightarrow> u8 list \<Rightarrow> size_t \<Rightarrow> cpp_fault + u8 list" where
  "ReadCustomString reserved mem offset =
     (if offset + 7 \<ge> mem_size mem then Inr []
      else let str_data_ptr = ReadUint32 mem offset;
               str_data_len = ReadUint32 mem (offset + 4)
           in if ucast (str_data_ptr + str_data_len - 1) \<ge> mem_size mem then Inr []
              else if str_data_len \<noteq> 0 \<and> \<not> reserved then Inl UndefinedBehaviour
              else let temp_buffer = ReadRawString mem (ucast str_data_ptr)
                         (replicate (unat str_data_len + 1) 0) (ucast str_data_len)
                   in Inr (if temp_buffer ! 0 = 0 then [] else take (unat str_data_len) temp_buffer))"

fun ReadList_loop :: "bool \<Rightarrow> u8 list \<Rightarrow> size_t \<Rightarrow> nat \<Rightarrow> u8 list list \<Rightarrow> cpp_fault + u8 list list" where
  "ReadList_loop reserved mem offset 0 output = Inr output"
| "ReadList_loop reserved mem offset (Suc n) output =
     (if offset + 3 \<ge> mem_size mem then Inr []
      else let str_ptr = ReadUint32 mem offset
           in bindE (ReadCustomString reserved mem (ucast str_ptr)) (\<lambda>str.
                ReadList_loop reserved mem (offset + 4) n (output @ [str])))"

definition ReadCustomListOfString :: "bool \<Rightarrow> u8 list \<Rightarrow> size_t \<Rightarrow> u8 list list \<Rightarrow> cpp_fault + u8 list list" where
  "ReadCustomListOfString reserved mem offset output =
     (if offset + 7 \<ge> mem_size mem then Inr []
      else let ptr_to_list = ReadUint32 mem offset;
               list_length = ReadUint32 mem (offset + 4)
           in if ucast (ptr_to_list + list_length - 1) \<ge> mem_size mem then Inr []
              else ReadList_loop reserved mem (ucast ptr_to_list) (unat list_length) output)"

section \<open>Bounds checks inside the memory\<close>

text \<open>Offsets that lie in a memory smaller than 4 GiB do not wrap around.\<close>

lemma size_le [simp]:
  assumes "length mem < 2 ^ 32" "n < 2 ^ 63"
  shows "mem_size mem \<le> of_nat n \<longleftrightarrow> length mem \<le> n"
  using assms by (simp add: mem_size_def word_of_nat_less_eq_iff take_bit_nat_eq_self)

lemma unat_small [simp]: "n < 2 ^ 63 \<Longrightarrow> unat (of_nat n :: u64) = n"
  by (simp add: unat_of_nat take_bit_nat_eq_self)

lemma of_nat_add_numeral:
  "(of_nat n :: 'a::len word) + numeral k = of_nat (n + numeral k)" "(of_nat n :: 'a::len word) + 1 = of_nat (n + 1)"
  by simp_all

lemma of_nat_pred: "0 < n \<Longrightarrow> (of_nat n :: 'a::len word) - 1 = of_nat (n - 1)"
  by (simp add: of_nat_diff)

lemma of_nat_add_pred:
  assumes "0 < n + m"
  shows "(of_nat n :: 'a::len word) + of_nat m - 1 = of_nat (n + m - 1)"
  using of_nat_pred [OF assms] by (simp only: of_nat_add)

lemma ucast_of_nat32 [simp]:
  "n < 2 ^ 32 \<Longrightarrow> ucast (of_nat n :: u64) = (of_nat n :: u32)"
  "n < 2 ^ 32 \<Longrightarrow> ucast (of_nat n :: u32) = (of_nat n :: u64)"
  by (auto intro!: word_unat_eq_iff [THEN iffD2] simp: unsigned_ucast_eq unat_of_nat take_bit_nat_eq_self)

lemma WriteUint8_ok:
  "length mem < 2 ^ 32 \<Longrightarrow> n < length mem \<Longrightarrow> WriteUint8 mem (of_nat n) b = (True, mem[n := b])"
  by (simp add: WriteUint8_def)

lemma le_bytes_2: "le_bytes 2 (v :: 'a::len word) = [ucast v, ucast (drop_bit 8 v)]"
  by (simp add: le_bytes_def numeral_2_eq_2 upt_rec)

lemma le_bytes_4:
  "le_bytes 4 (v :: u32) = le_bytes 2 (ucast v :: u16) @ le_bytes 2 (ucast (drop_bit 16 v) :: u16)"
  by (simp add: le_bytes_def upt_rec eval_nat_numeral)
    (auto intro!: bit_word_eqI simp: bit_ucast_iff bit_drop_bit_eq)

lemma WriteUint16_ok:
  assumes "length mem < 2 ^ 32" "n + 2 \<le> length mem"
  shows "WriteUint16 mem (of_nat n) v = (True, put mem n (le_bytes 2 v))"
proof -
  have "put mem n (le_bytes 2 v) = mem[n := ucast v, Suc n := ucast (drop_bit 8 v)]"
    using assms by (simp add: le_bytes_2 put_Cons)
  then show ?thesis
    using assms WriteUint8_ok [of "mem[n := ucast v]" "n + 1"]
    by (simp add: WriteUint16_def WriteUint8_ok of_nat_add_numeral del: of_nat_add of_nat_Suc)
qed

lemma WriteUint32_ok:
  assumes "length mem < 2 ^ 32" "n + 4 \<le> length mem"
  shows "WriteUint32 mem (of_nat n) v = (True, put mem n (le_bytes 4 v))"
  using assms put_append [of n "le_bytes 2 (ucast v :: u16)" "le_bytes 2 (ucast (drop_bit 16 v) :: u16)" mem]
  by (simp add: WriteUint32_def WriteUint16_ok of_nat_add_numeral le_bytes_4 del: of_nat_add of_nat_Suc)

lemma ReadUint8_at:
  "length mem < 2 ^ 32 \<Longrightarrow> n < length mem \<Longrightarrow> ReadUint8 mem (of_nat n) = mem ! n"
  by (simp add: ReadUint8_def)

lemma ReadUint16_at:
  assumes "length mem < 2 ^ 32" "bytes_at mem n (le_bytes 2 v)"
  shows "ReadUint16 mem (of_nat n) = v"
proof -
  have m: "n + 1 < length mem" "mem ! n = ucast v" "mem ! (n + 1) = ucast (drop_bit 8 v)"
    using assms(2) by (auto simp: le_bytes_2 bytes_at_Cons)
  have "ucast (ucast v :: u8) OR push_bit 8 (ucast (ucast (drop_bit 8 v) :: u8)) = v"
    using le_word_le_bytes [of 2 v] by (simp add: le_bytes_2)
  then show ?thesis
    using assms(1) m by (simp add: ReadUint16_def ReadUint8_at of_nat_add_numeral del: of_nat_add of_nat_Suc)
qed

lemma ReadUint32_at:
  assumes "length mem < 2 ^ 32" "bytes_at mem n (le_bytes 4 v)"
  shows "ReadUint32 mem (of_nat n) = v"
proof -
  have b: "bytes_at mem n (le_bytes 2 (ucast v :: u16))" "bytes_at mem (n + 2) (le_bytes 2 (ucast (drop_bit 16 v) :: u16))"
    "n + 3 < length mem"
    using assms(2) bytes_at_length [OF assms(2)] by (auto simp: le_bytes_4 bytes_at_append)
  have "ucast (ucast v :: u16) OR push_bit 16 (ucast (ucast (drop_bit 16 v) :: u16)) = v"
    by (rule bit_word_eqI) (auto simp: bit_or_iff bit_push_bit_iff bit_ucast_iff bit_drop_bit_eq)
  then show ?thesis
    using assms(1) b ReadUint16_at [OF assms(1)]
    by (simp add: ReadUint32_def of_nat_add_numeral del: of_nat_add of_nat_Suc)
qed

lemma WriteRawString_loop_ok:
  "length mem < 2 ^ 32 \<Longrightarrow> n + length str \<le> length mem \<Longrightarrow>
   WriteRawString_loop mem (of_nat n) str = (True, put mem n str)"
proof (induction str arbitrary: mem n)
  case (Cons c str)
  have "WriteRawString_loop (mem[n := c]) (of_nat (Suc n)) str = (True, put (mem[n := c]) (Suc n) str)"
    using Cons.prems by (intro Cons.IH) simp_all
  moreover have "put mem n (c # str) = put (mem[n := c]) (Suc n) str"
    using Cons.prems by (intro put_Cons) simp
  ultimately show ?case
    using Cons.prems by (simp add: WriteUint8_ok add.commute)
qed simp

lemma WriteRawString_ok:
  assumes "length mem < 2 ^ 32" "n + length str \<le> length mem" "0 < n \<or> str \<noteq> []"
  shows "WriteRawString mem (of_nat n) str = (True, put mem n str)"
proof -
  have pos: "0 < n + length str" using assms(3) by auto
  have "(of_nat n :: size_t) + of_nat (length str) - 1 = of_nat (n + length str - 1)"
    using of_nat_add_pred [OF pos] .
  moreover have "\<not> length mem \<le> n + length str - 1" using assms(2) pos by linarith
  ultimately show ?thesis
    using assms by (simp add: WriteRawString_def WriteRawString_loop_ok)
qed

lemma ReadRawString_loop_at:
  "length mem < 2 ^ 32 \<Longrightarrow> bytes_at mem n s \<Longrightarrow> i + length s \<le> length str \<Longrightarrow>
   ReadRawString_loop mem (of_nat n) str i (length s) = put str i s"
proof (induction s arbitrary: n i str)
  case (Cons c s)
  have "ReadRawString_loop mem (of_nat (Suc n)) (str[i := c]) (Suc i) (length s) = put (str[i := c]) (Suc i) s"
    using Cons.prems by (intro Cons.IH) (simp_all add: bytes_at_Cons)
  moreover have "put str i (c # s) = put (str[i := c]) (Suc i) s"
    using Cons.prems by (intro put_Cons) simp
  moreover have "ReadUint8 mem (of_nat n) = c"
    using Cons.prems by (simp add: ReadUint8_at bytes_at_Cons)
  ultimately show ?case by (simp add: add.commute)
qed simp

section \<open>The layout\<close>

text \<open>What a string and a list of strings look like in memory, from offset \<open>n\<close> on.\<close>

definition str_image :: "nat \<Rightarrow> u8 list \<Rightarrow> u8 list" where
  "str_image n s = s @ le_bytes 4 (of_nat n :: u32) @ le_bytes 4 (of_nat (length s) :: u32)"

fun strs_image :: "nat \<Rightarrow> u8 list list \<Rightarrow> u8 list" where
  "strs_image n [] = []"
| "strs_image n (s # ss) = str_image n s @ strs_image (n + length s + 8) ss"

fun str_ptrs :: "nat \<Rightarrow> u8 list list \<Rightarrow> nat list" where
  "str_ptrs n [] = []"
| "str_ptrs n (s # ss) = (n + length s) # str_ptrs (n + length s + 8) ss"

definition ptrs_image :: "nat list \<Rightarrow> u8 list" where
  "ptrs_image ps = concat (map (\<lambda>p. le_bytes 4 (of_nat p :: u32)) ps)"

definition list_image :: "nat \<Rightarrow> u8 list list \<Rightarrow> u8 list" where
  "list_image n ss =
     strs_image n ss @ ptrs_image (str_ptrs n ss) @
     le_bytes 4 (of_nat (n + length (strs_image n ss)) :: u32) @ le_bytes 4 (of_nat (length ss) :: u32)"

lemma length_str_image [simp]: "length (str_image n s) = length s + 8"
  by (simp add: str_image_def)

lemma length_strs_image: "length (strs_image n ss) = sum_list (map (\<lambda>s. length s + 8) ss)"
  by (induction ss arbitrary: n) simp_all

lemma length_str_ptrs [simp]: "length (str_ptrs n ss) = length ss"
  by (induction ss arbitrary: n) simp_all

lemma ptrs_image_simps [simp]:
  "ptrs_image [] = []" "ptrs_image (p # ps) = le_bytes 4 (of_nat p :: u32) @ ptrs_image ps"
  by (simp_all add: ptrs_image_def)

lemma length_ptrs_image [simp]: "length (ptrs_image ps) = 4 * length ps"
  by (induction ps) simp_all

definition list_bytes :: "u8 list list \<Rightarrow> nat" where
  "list_bytes ss = sum_list (map (\<lambda>s. length s + 8) ss) + 4 * length ss + 8"

lemma length_list_image: "length (list_image n ss) = list_bytes ss"
  by (simp add: list_image_def length_strs_image list_bytes_def)

lemma ComputeMemorySizeForList_bytes: "ComputeMemorySizeForList ss = of_nat (list_bytes ss)"
proof -
  have "foldl (\<lambda>size s. size + ComputeMemorySizeFor s) a ss = a + of_nat (sum_list (map (\<lambda>s. length s + 8) ss))" for a
    by (induction ss arbitrary: a) (simp_all add: ComputeMemorySizeFor_def)
  then show ?thesis by (simp add: ComputeMemorySizeForList_def list_bytes_def)
qed

lemma WriteCustomString_ok:
  assumes "length mem < 2 ^ 32" "n + length s + 8 \<le> length mem" "0 < n \<or> s \<noteq> []"
  shows "WriteCustomString mem (of_nat n) s = (of_nat (n + length s), put mem n (str_image n s))"
proof -
  let ?m1 = "put mem n s"
  let ?m2 = "put ?m1 (n + length s) (le_bytes 4 (of_nat n :: u32))"
  let ?m3 = "put ?m2 (n + length s + 4) (le_bytes 4 (of_nat (length s) :: u32))"
  have all: "put mem n (str_image n s) = ?m3"
    using assms(2) unfolding str_image_def by (simp add: put_append)
  have "WriteRawString mem (of_nat n) s = (True, ?m1)" using assms by (intro WriteRawString_ok) simp_all
  moreover have "WriteUint32 ?m1 (of_nat (n + length s)) (of_nat n) = (True, ?m2)"
    using assms by (intro WriteUint32_ok) simp_all
  moreover have "WriteUint32 ?m2 (of_nat (n + length s + 4)) (of_nat (length s)) = (True, ?m3)"
    using assms by (intro WriteUint32_ok) simp_all
  moreover have "(of_nat n :: size_t) + of_nat (length s) = of_nat (n + length s)"
    "(of_nat (n + length s) :: size_t) + 4 = of_nat (n + length s + 4)" by simp_all
  moreover have "(ucast (of_nat n :: size_t) :: u32) = of_nat n" "(ucast (of_nat (n + length s) :: size_t) :: u32) = of_nat (n + length s)"
    using assms(1,2) by (intro ucast_of_nat32; simp)+
  ultimately show ?thesis unfolding all WriteCustomString_def Let_def by (simp only: prod.case if_True simp_thms if_False)
qed

lemma of_nat_below_max:
  assumes "n + 8 < 2 ^ 32"
  shows "(of_nat n :: u32) \<noteq> UINT32_MAX"
proof
  assume "(of_nat n :: u32) = UINT32_MAX"
  then have "unat (of_nat n :: u32) = 4294967295" by (simp add: UINT32_MAX_def)
  then show False using assms by (simp add: unat_of_nat take_bit_nat_eq_self)
qed

lemma WriteList_strings_ok:
  "length mem < 2 ^ 32 \<Longrightarrow> n + length (strs_image n ss) \<le> length mem \<Longrightarrow> 0 < n \<or> ss = [] \<or> hd ss \<noteq> [] \<Longrightarrow>
   WriteList_strings mem (of_nat n) ss =
     (Some (map of_nat (str_ptrs n ss)), of_nat (n + length (strs_image n ss)), put mem n (strs_image n ss))"
proof (induction ss arbitrary: mem n)
  case (Cons s ss)
  let ?n = "n + length s + 8"
  have str: "WriteCustomString mem (of_nat n) s = (of_nat (n + length s), put mem n (str_image n s))"
    using Cons.prems by (intro WriteCustomString_ok) simp_all
  have next_off: "(of_nat n :: size_t) + ComputeMemorySizeFor s = of_nat ?n"
    by (simp add: ComputeMemorySizeFor_def)
  have "WriteList_strings (put mem n (str_image n s)) (of_nat ?n) ss =
     (Some (map of_nat (str_ptrs ?n ss)), of_nat (?n + length (strs_image ?n ss)),
      put (put mem n (str_image n s)) ?n (strs_image ?n ss))"
    using Cons.prems by (intro Cons.IH) simp_all
  moreover have "put mem n (strs_image n (s # ss)) = put (put mem n (str_image n s)) ?n (strs_image ?n ss)"
    using Cons.prems by (simp add: put_append add.assoc)
  moreover have "(of_nat (n + length s) :: u32) \<noteq> UINT32_MAX"
    using Cons.prems by (intro of_nat_below_max) simp
  ultimately show ?case
    unfolding WriteList_strings.simps str next_off by (simp add: add.assoc)
qed simp

lemma WriteList_ptrs_ok:
  "length mem < 2 ^ 32 \<Longrightarrow> n + 4 * length ps \<le> length mem \<Longrightarrow>
   WriteList_ptrs mem (of_nat n) (map of_nat ps) = (True, of_nat (n + 4 * length ps), put mem n (ptrs_image ps))"
proof (induction ps arbitrary: mem n)
  case (Cons p ps)
  let ?m = "put mem n (le_bytes 4 (of_nat p :: u32))"
  have "WriteUint32 mem (of_nat n) (of_nat p) = (True, ?m)"
    using Cons.prems by (intro WriteUint32_ok) simp_all
  moreover have "WriteList_ptrs ?m (of_nat (n + 4)) (map of_nat ps) =
      (True, of_nat (n + 4 + 4 * length ps), put ?m (n + 4) (ptrs_image ps))"
    using Cons.prems by (intro Cons.IH) simp_all
  moreover have "put mem n (ptrs_image (p # ps)) = put ?m (n + 4) (ptrs_image ps)"
    using Cons.prems put_append [of n "le_bytes 4 (of_nat p :: u32)" "ptrs_image ps" mem] by simp
  moreover have "(of_nat n :: size_t) + 4 = of_nat (n + 4)" by simp
  ultimately show ?case by (simp del: of_nat_add add: algebra_simps)
qed simp

lemma WriteCustomListOfString_ok:
  assumes "length mem < 2 ^ 32" "n + list_bytes ss \<le> length mem" "0 < n \<or> ss = [] \<or> hd ss \<noteq> []"
  shows "WriteCustomListOfString mem (of_nat n) ss =
    (of_nat (n + list_bytes ss - 8), put mem n (list_image n ss))"
proof -
  define a where "a = n + length (strs_image n ss)"
  define e where "e = a + 4 * length ss"
  have e: "e + 8 = n + list_bytes ss" "e + 8 \<le> length mem" "a < 2 ^ 32"
    using assms(1,2) by (simp_all add: a_def e_def length_strs_image list_bytes_def)
  let ?m1 = "put mem n (strs_image n ss)"
  let ?m2 = "put ?m1 a (ptrs_image (str_ptrs n ss))"
  let ?m3 = "put ?m2 e (le_bytes 4 (of_nat a :: u32))"
  let ?m4 = "put ?m3 (e + 4) (le_bytes 4 (of_nat (length ss) :: u32))"
  have len: "length ?m1 = length mem" "length ?m2 = length mem" "length ?m3 = length mem"
    using e by (simp_all add: a_def e_def)
  have "put mem n (list_image n ss) = ?m4"
    using e(2) by (simp add: list_image_def put_append a_def e_def add.assoc length_strs_image)
  moreover have "WriteList_strings mem (of_nat n) ss = (Some (map of_nat (str_ptrs n ss)), of_nat a, ?m1)"
    using assms e WriteList_strings_ok [of mem n ss] by (simp add: a_def e_def)
  moreover have "WriteList_ptrs ?m1 (of_nat a) (map of_nat (str_ptrs n ss)) = (True, of_nat e, ?m2)"
    using assms(1) e len(1) WriteList_ptrs_ok [of ?m1 a "str_ptrs n ss"] by (simp add: e_def)
  moreover have "WriteUint32 ?m2 (of_nat e) (of_nat a) = (True, ?m3)"
    using assms(1) e len by (intro WriteUint32_ok) simp_all
  moreover have "WriteUint32 ?m3 (of_nat (e + 4)) (of_nat (length ss)) = (True, ?m4)"
    using assms(1) e len by (intro WriteUint32_ok) simp_all
  moreover have "(of_nat e :: size_t) + 4 = of_nat (e + 4)" by simp
  moreover have "(ucast (of_nat a :: size_t) :: u32) = of_nat a" "(ucast (of_nat e :: size_t) :: u32) = of_nat e"
    using assms(1) e by (intro ucast_of_nat32; simp)+
  moreover have "n + list_bytes ss - 8 = e" using e(1) by linarith
  ultimately show ?thesis
    by (simp add: WriteCustomListOfString_def Let_def del: of_nat_add)
qed

lemma ReadRawString_at:
  assumes "length mem < 2 ^ 32" "bytes_at mem n s" "0 < length s" "length s \<le> length str"
  shows "ReadRawString mem (of_nat n) str (of_nat (length s)) = put str 0 s"
proof -
  have b: "n + length s \<le> length mem" using bytes_at_length [OF assms(2)] .
  have eq: "(of_nat n :: size_t) + of_nat (length s) - 1 = of_nat (n + length s - 1)"
    by (rule of_nat_add_pred) (use assms(3) in simp)
  have "\<not> length mem \<le> n + length s - 1" using b assms(3) by linarith
  then have "\<not> mem_size mem \<le> of_nat n + of_nat (length s) - 1"
    unfolding eq using assms(1) b by simp
  then show ?thesis
    using assms b ReadRawString_loop_at [OF assms(1,2), of 0 str] by (simp add: ReadRawString_def)
qed

lemma ReadCustomString_fields:
  assumes mem: "length mem < 2 ^ 32" and at: "bytes_at mem n (str_image n s)"
  shows "ReadUint32 mem (of_nat (n + length s)) = of_nat n" "ReadUint32 mem (of_nat (n + length s + 4)) = of_nat (length s)"
    "n + length s + 8 \<le> length mem" "bytes_at mem n s"
    "(ucast (of_nat n :: u32) :: size_t) = of_nat n" "(ucast (of_nat (length s) :: u32) :: size_t) = of_nat (length s)"
    "unat (of_nat (length s) :: u32) = length s"
proof -
  show b: "n + length s + 8 \<le> length mem" using bytes_at_length [OF at] by simp
  have "bytes_at mem (n + length s) (le_bytes 4 (of_nat n :: u32))"
    "bytes_at mem (n + length s + 4) (le_bytes 4 (of_nat (length s) :: u32))" and s: "bytes_at mem n s"
    using at by (simp_all add: str_image_def bytes_at_append)
  then show "ReadUint32 mem (of_nat (n + length s)) = of_nat n"
    "ReadUint32 mem (of_nat (n + length s + 4)) = of_nat (length s)"
    using ReadUint32_at [OF mem] by blast+
  show "bytes_at mem n s" by (rule s)
  show "(ucast (of_nat n :: u32) :: size_t) = of_nat n" "(ucast (of_nat (length s) :: u32) :: size_t) = of_nat (length s)"
    "unat (of_nat (length s) :: u32) = length s"
    using mem b by (simp_all add: unat_of_nat take_bit_nat_eq_self)
qed

lemma ReadCustomString_found:
  assumes mem: "length mem < 2 ^ 32" and at: "bytes_at mem n (str_image n s)" and ne: "s \<noteq> []"
  shows "ReadCustomString reserved mem (of_nat (n + length s)) =
    (if reserved then Inr (if s ! 0 = 0 then [] else s) else Inl UndefinedBehaviour)"
proof -
  note f = ReadCustomString_fields [OF mem at] and b = ReadCustomString_fields(3) [OF mem at]
  have off: "(of_nat (n + length s) :: size_t) + 7 = of_nat (n + length s + 7)"
    "(of_nat (n + length s) :: size_t) + 4 = of_nat (n + length s + 4)" by simp_all
  have pos: "0 < length s" using ne by simp
  have "(of_nat n :: u32) + of_nat (length s) - 1 = of_nat (n + length s - 1)"
    by (rule of_nat_add_pred) (use pos in simp)
  moreover have "(ucast (of_nat (n + length s - 1) :: u32) :: size_t) = of_nat (n + length s - 1)"
    using mem b by (intro ucast_of_nat32) simp
  moreover have "\<not> length mem \<le> n + length s - 1" using b pos by linarith
  ultimately have go: "\<not> mem_size mem \<le> ucast ((of_nat n :: u32) + of_nat (length s) - 1)"
    using mem b by simp
  have len: "(of_nat (length s) :: u32) \<noteq> 0" using f(7) pos by (metis neq0_conv unat_0)
  have "ReadRawString mem (of_nat n) (replicate (length s + 1) 0) (of_nat (length s)) = put (replicate (length s + 1) 0) 0 s"
    using pos by (intro ReadRawString_at [OF mem f(4)]) simp_all
  moreover have "put (replicate (length s + 1) 0) 0 s = s @ [0]"
    by (simp add: put_def replicate_append_same [symmetric])
  ultimately show ?thesis
    using mem b pos go len unfolding ReadCustomString_def off f(1,2) Let_def f(5-7) by (simp add: nth_append del: of_nat_add)
qed

lemma ReadCustomString_at:
  assumes mem: "length mem < 2 ^ 32" and at: "bytes_at mem n (str_image n s)" and nul: "s = [] \<or> hd s \<noteq> 0"
  shows "ReadCustomString True mem (of_nat (n + length s)) = Inr s"
proof (cases "s = []")
  case True
  have off: "(of_nat (n + length s) :: size_t) + 7 = of_nat (n + length s + 7)"
    "(of_nat (n + length s) :: size_t) + 4 = of_nat (n + length s + 4)" by simp_all
  show ?thesis
    unfolding ReadCustomString_def off ReadCustomString_fields(1,2) [OF mem at] Let_def ReadCustomString_fields(5-7) [OF mem at]
    using True by (simp add: ReadRawString_def)
next
  case False
  then show ?thesis using ReadCustomString_found [OF mem at False, of True] nul by (simp add: hd_conv_nth)
qed

lemma strings_at:
  assumes "length mem < 2 ^ 32"
  shows "bytes_at mem n (strs_image n ss) \<Longrightarrow> \<forall>s \<in> set ss. s = [] \<or> hd s \<noteq> 0 \<Longrightarrow>
    list_all2 (\<lambda>p s. p < 2 ^ 32 \<and> ReadCustomString True mem (of_nat p) = Inr s) (str_ptrs n ss) ss"
proof (induction ss arbitrary: n)
  case (Cons s ss)
  then have at: "bytes_at mem n (str_image n s)" "bytes_at mem (n + length s + 8) (strs_image (n + length s + 8) ss)"
    by (simp_all add: bytes_at_append add.assoc)
  moreover have "ReadCustomString True mem (of_nat (n + length s)) = Inr s"
    using Cons.prems(2) by (intro ReadCustomString_at [OF assms at(1)]) simp
  ultimately show ?case
    using Cons.IH [OF at(2)] Cons.prems(2) bytes_at_length [OF at(1)] assms by simp
qed simp

lemma ReadList_loop_at:
  assumes mem: "length mem < 2 ^ 32"
  shows "list_all2 (\<lambda>p s. p < 2 ^ 32 \<and> ReadCustomString True mem (of_nat p) = Inr s) ps ss \<Longrightarrow>
    bytes_at mem n (ptrs_image ps) \<Longrightarrow> ReadList_loop True mem (of_nat n) (length ss) out = Inr (out @ ss)"
proof (induction ps ss arbitrary: n out rule: list_all2_induct)
  case (Cons p ps s ss)
  then have at: "bytes_at mem n (le_bytes 4 (of_nat p :: u32))" "bytes_at mem (n + 4) (ptrs_image ps)"
    by (simp_all add: bytes_at_append)
  have "ReadUint32 mem (of_nat n) = of_nat p" by (rule ReadUint32_at [OF mem at(1)])
  moreover have "(ucast (of_nat p :: u32) :: size_t) = of_nat p" using Cons by (intro ucast_of_nat32) simp
  moreover have "(of_nat n :: size_t) + 4 = of_nat (n + 4)" "(of_nat n :: size_t) + 3 = of_nat (n + 3)" by simp_all
  moreover have "n + 4 \<le> length mem" using bytes_at_length [OF at(1)] by simp
  ultimately show ?case
    using mem Cons by (simp add: Cons.IH [OF at(2)] Let_def del: of_nat_add)
qed simp

lemma ReadCustomListOfString_at:
  assumes mem: "length mem < 2 ^ 32" and at: "bytes_at mem n (list_image n ss)"
    and nul: "\<forall>s \<in> set ss. s = [] \<or> hd s \<noteq> 0"
  shows "ReadCustomListOfString True mem (of_nat (n + list_bytes ss - 8)) [] = Inr ss"
proof -
  define a where "a = n + length (strs_image n ss)"
  define e where "e = a + 4 * length ss"
  have e: "n + list_bytes ss - 8 = e" "e + 8 \<le> length mem"
    using bytes_at_length [OF at] by (simp_all add: a_def e_def length_strs_image list_bytes_def length_list_image)
  have b: "bytes_at mem n (strs_image n ss)" "bytes_at mem a (ptrs_image (str_ptrs n ss))"
    "bytes_at mem e (le_bytes 4 (of_nat a :: u32))" "bytes_at mem (e + 4) (le_bytes 4 (of_nat (length ss) :: u32))"
    using at by (simp_all add: list_image_def bytes_at_append a_def e_def add.assoc)
  have r: "ReadUint32 mem (of_nat e) = of_nat a" "ReadUint32 mem (of_nat (e + 4)) = of_nat (length ss)"
    using ReadUint32_at [OF mem] b by blast+
  have off: "(of_nat e :: size_t) + 7 = of_nat (e + 7)" "(of_nat e :: size_t) + 4 = of_nat (e + 4)" by simp_all
  have ae: "a + 4 * length ss + 8 \<le> length mem" using e(2) by (simp add: e_def)
  have cast: "(ucast (of_nat a :: u32) :: size_t) = of_nat a" "unat (of_nat (length ss) :: u32) = length ss"
    using mem ae by (simp_all add: unat_of_nat take_bit_nat_eq_self)
  have loop: "ReadList_loop True mem (of_nat a) (length ss) [] = Inr ss"
    using ReadList_loop_at [OF mem strings_at [OF mem b(1) nul] b(2)] by simp
  show ?thesis
  proof (cases "ss = []")
    case True
    then show ?thesis using loop unfolding e(1) ReadCustomListOfString_def off r Let_def cast by simp
  next
    case False
    then have pos: "0 < length ss" by simp
    have "(of_nat a :: u32) + of_nat (length ss) - 1 = of_nat (a + length ss - 1)"
      by (rule of_nat_add_pred) (use pos in simp)
    moreover have "(ucast (of_nat (a + length ss - 1) :: u32) :: size_t) = of_nat (a + length ss - 1)"
      using mem ae by (intro ucast_of_nat32) simp
    moreover have "\<not> length mem \<le> a + length ss - 1" using ae pos by linarith
    ultimately have "\<not> mem_size mem \<le> ucast ((of_nat a :: u32) + of_nat (length ss) - 1)"
      using mem ae by simp
    then show ?thesis
      using mem e(2) loop unfolding e(1) ReadCustomListOfString_def off r Let_def cast by (simp del: of_nat_add)
  qed
qed

section \<open>Properties\<close>

text \<open>
  C28: A list of strings written into a WASM memory below 4 GiB reads back unchanged, if the
  computed size fits behind the offset, there are fewer than \<open>2 ^ 20\<close> strings of less than 4 GiB, no string starts with a
  NUL byte, a list written at offset 0 does not begin with an empty string, and \<open>std::string\<close> lets the memory it has reserved be
  used; and the bytes outside the computed range are untouched.
\<close>

theorem wasm_list_roundtrip:
  assumes "length mem < 2 ^ 32" and "unat offset + unat (ComputeMemorySizeForList list) \<le> length mem"
    and "\<forall>s \<in> set list. length s < 2 ^ 32" and "length list < 2 ^ 20"
    and "\<forall>s \<in> set list. s = [] \<or> hd s \<noteq> 0" and "0 < offset \<or> list = [] \<or> hd list \<noteq> []"
  shows "\<exists>ptr mem'. WriteCustomListOfString mem offset list = (ptr, mem') \<and> ptr \<noteq> UINT32_MAX \<and>
     ReadCustomListOfString True mem' (ucast ptr) [] = Inr list \<and> length mem' = length mem \<and>
     take (unat offset) mem' = take (unat offset) mem \<and>
     drop (unat offset + unat (ComputeMemorySizeForList list)) mem' =
       drop (unat offset + unat (ComputeMemorySizeForList list)) mem"
proof -
  define n where "n = unat offset"
  have off: "offset = of_nat n" by (simp add: n_def)
  have "list_bytes list \<le> length list * (2 ^ 32 + 8 + 4) + 8"
    using assms(3) by (induction list) (auto simp: list_bytes_def)
  also have "\<dots> < 2 ^ 64" using assms(4) by simp
  finally have size: "unat (ComputeMemorySizeForList list) = list_bytes list"
    by (simp add: ComputeMemorySizeForList_bytes unat_of_nat take_bit_nat_eq_self)
  have fits: "n + list_bytes list \<le> length mem" using assms(2) by (simp add: n_def size)
  have n0: "0 < n \<or> list = [] \<or> hd list \<noteq> []" using assms(6) by (auto simp: n_def unat_gt_0)
  let ?mem = "put mem n (list_image n list)"
  let ?p = "n + list_bytes list - 8"
  have w: "WriteCustomListOfString mem offset list = (of_nat ?p, ?mem)"
    unfolding off by (rule WriteCustomListOfString_ok [OF assms(1) fits n0])
  have len: "n + length (list_image n list) \<le> length mem" using fits by (simp add: length_list_image)
  have "ReadCustomListOfString True ?mem (of_nat ?p) [] = Inr list"
    using assms(1,5) len by (intro ReadCustomListOfString_at bytes_at_put) simp_all
  moreover have "?p + 8 < 2 ^ 32" using fits assms(1) by (simp add: list_bytes_def)
  moreover have "(ucast (of_nat ?p :: u32) :: size_t) = of_nat ?p" using calculation(2) by (intro ucast_of_nat32) simp
  moreover have "(of_nat ?p :: u32) \<noteq> UINT32_MAX" by (rule of_nat_below_max [OF calculation(2)])
  moreover have "take n ?mem = take n mem" "drop (n + list_bytes list) ?mem = drop (n + list_bytes list) mem"
    using fits by (simp_all add: put_def length_list_image)
  ultimately show ?thesis
    unfolding size n_def [symmetric] using w len by simp
qed

theorem wasm_list_roundtrip_witness:
  "\<exists>ptr mem'. WriteCustomListOfString (replicate 40 0) 1 [[72, 105], []] = (ptr, mem') \<and>
     ReadCustomListOfString True mem' (ucast ptr) [] = Inr [[72, 105], []]"
proof -
  have size: "unat (ComputeMemorySizeForList [[72, 105], []]) = 34"
    by (simp add: ComputeMemorySizeForList_def ComputeMemorySizeFor_def)
  show ?thesis
    using wasm_list_roundtrip [of "replicate 40 0" 1 "[[72, 105], []]"] by (auto simp: size)
qed

text \<open>
  An empty string cannot be written at offset 0 of a memory, whatever its size: the
  bounds check subtracts one from zero and wraps around. A string with a leading NUL byte
  is written but read back as the empty string. Reading any string that is not empty writes past the size of the temporary
  string.
\<close>

theorem wasm_string_limits:
  assumes "length mem < 2 ^ 32" "bytes_at mem n (str_image n s)" "s \<noteq> []"
  shows "WriteCustomString mem' 0 [] = (UINT32_MAX, mem') \<and>
   (hd s = 0 \<longrightarrow> ReadCustomString True mem (of_nat (n + length s)) = Inr []) \<and>
   ReadCustomString False mem (of_nat (n + length s)) = Inl UndefinedBehaviour"
proof -
  have "mem_size mem' \<le> - 1" by simp
  then have "WriteCustomString mem' 0 [] = (UINT32_MAX, mem')"
    by (simp add: WriteCustomString_def WriteRawString_def)
  then show ?thesis using ReadCustomString_found [OF assms] assms(3) by (simp add: hd_conv_nth)
qed

theorem wasm_string_limits_witness:
  "ReadCustomString True [0, 65, 0, 0, 0, 0, 2, 0, 0, 0] 2 = Inr [] \<and>
   ReadCustomString False [0, 65, 0, 0, 0, 0, 2, 0, 0, 0] 2 = Inl UndefinedBehaviour"
proof -
  have at: "bytes_at [0, 65, 0, 0, 0, 0, 2, 0, 0, 0] 0 (str_image 0 [0, 65])"
    by code_simp
  show ?thesis using wasm_string_limits [OF _ at, of "[]"] by simp
qed

end
