(* ===== verification/Async_Context.thy ===== *)
theory Async_Context
  imports Concurrent_Containers Uuid "HOL-Library.Multiset"
begin

text \<open>
  The contexts that carry an asynchronous operation through the system:
  cc/core/interface/async_context.h and cc/core/interface/streaming_context.h. A callback is
  named by a value of type \<open>'c\<close>; calling it is an entry of a list of calls. The flags and
  the queue of a streaming context are behind shared pointers, so every copy of the context
  sees the same ones.
\<close>

section \<open>AsyncContext\<close>

definition kZeroUuid :: Uuid where
  "kZeroUuid = \<lparr>high = 0, low = 0\<rparr>"

definition kAsyncContextExpirationDurationInSeconds :: TimeDuration where
  "kAsyncContextExpirationDurationInSeconds = 90"

record ('q, 'p, 'c) AsyncContext =
  ac_parent_activity_id :: Uuid
  ac_activity_id :: Uuid
  ac_correlation_id :: Uuid
  ac_request :: "'q option"
  ac_response :: "'p option"
  ac_result :: ExecutionResult
  ac_callback :: "'c option"
  ac_retry_count :: size_t
  ac_expiration_time :: Timestamp

text \<open>The constructors; the new activity id and the time are given.\<close>

definition make_AsyncContext ::
  "Timestamp \<Rightarrow> Uuid \<Rightarrow> 'q option \<Rightarrow> 'c option \<Rightarrow> Uuid \<Rightarrow> Uuid \<Rightarrow> ('q, 'p, 'c) AsyncContext" where
  "make_AsyncContext now generated request callback parent_activity_id correlation_id =
     \<lparr>ac_parent_activity_id = parent_activity_id, ac_activity_id = generated, ac_correlation_id = correlation_id,
      ac_request = request, ac_response = None, ac_result = FailureExecutionResult SC_UNKNOWN,
      ac_callback = callback, ac_retry_count = 0,
      ac_expiration_time = now + kAsyncContextExpirationDurationInSeconds * 1000000000\<rparr>"

definition AsyncContext_of_request ::
  "Timestamp \<Rightarrow> Uuid \<Rightarrow> 'q option \<Rightarrow> 'c option \<Rightarrow> ('q, 'p, 'c) AsyncContext" where
  "AsyncContext_of_request now generated request callback =
     make_AsyncContext now generated request callback kZeroUuid kZeroUuid"

definition AsyncContext_of_parent_id ::
  "Timestamp \<Rightarrow> Uuid \<Rightarrow> 'q option \<Rightarrow> 'c option \<Rightarrow> Uuid \<Rightarrow> ('q, 'p, 'c) AsyncContext" where
  "AsyncContext_of_parent_id now generated request callback parent_activity_id =
     make_AsyncContext now generated request callback parent_activity_id kZeroUuid"

definition AsyncContext_of_parent ::
  "Timestamp \<Rightarrow> Uuid \<Rightarrow> 'q option \<Rightarrow> 'c option \<Rightarrow> ('q2, 'p2, 'c2) AsyncContext \<Rightarrow> ('q, 'p, 'c) AsyncContext" where
  "AsyncContext_of_parent now generated request callback parent_context =
     make_AsyncContext now generated request callback (ac_activity_id parent_context) (ac_correlation_id parent_context)"

text \<open>The callbacks that finishing a context calls, with the context they get.\<close>

definition AsyncContext_Finish :: "('q, 'p, 'c) AsyncContext \<Rightarrow> ('c \<times> ('q, 'p, 'c) AsyncContext) list" where
  "AsyncContext_Finish context =
     (case ac_callback context of None \<Rightarrow> [] | Some callback \<Rightarrow> [(callback, context)])"

text \<open>
  \<open>FinishContext\<close> on an executor, whose \<open>Schedule\<close> answers \<open>scheduled\<close>: the calls
  made at once, and the copy of the context the executor will finish.
\<close>

definition FinishContext_on ::
  "ExecutionResult \<Rightarrow> ExecutionResult \<Rightarrow> ('q, 'p, 'c) AsyncContext \<Rightarrow>
   ('c \<times> ('q, 'p, 'c) AsyncContext) list \<times> ('q, 'p, 'c) AsyncContext option" where
  "FinishContext_on scheduled outcome context =
     (let context1 = context\<lparr>ac_result := outcome\<rparr>
      in if \<not> Successful scheduled then (AsyncContext_Finish context1, None) else ([], Some context1))"

definition FinishContext ::
  "ExecutionResult \<Rightarrow> ('q, 'p, 'c) AsyncContext \<Rightarrow> ('c \<times> ('q, 'p, 'c) AsyncContext) list" where
  "FinishContext outcome context = AsyncContext_Finish (context\<lparr>ac_result := outcome\<rparr>)"

section \<open>Streaming contexts\<close>

definition SC_STREAMING_CONTEXT_DONE :: StatusCode where
  "SC_STREAMING_CONTEXT_DONE = MakeErrorCode 0x001A 0x0001"

definition SC_STREAMING_CONTEXT_CANCELLED :: StatusCode where
  "SC_STREAMING_CONTEXT_CANCELLED = MakeErrorCode 0x001A 0x0002"

text \<open>What the copies of a streaming context share.\<close>

record 'h stream =
  sm_is_marked_done :: bool
  sm_is_cancelled :: bool
  sm_queue :: 'h

definition make_stream :: "('h, 'm) tbb_bounded_queue \<Rightarrow> nat \<Rightarrow> 'h stream" where
  "make_stream B max_num_outstanding =
     \<lparr>sm_is_marked_done = False, sm_is_cancelled = False, sm_queue = ConcurrentQueue B max_num_outstanding\<rparr>"

definition ConsumerStreamingContext :: "('h, 'm) tbb_bounded_queue \<Rightarrow> nat \<Rightarrow> 'h stream" where
  "ConsumerStreamingContext B max_num_outstanding_responses = make_stream B max_num_outstanding_responses"

definition ProducerStreamingContext :: "('h, 'm) tbb_bounded_queue \<Rightarrow> nat \<Rightarrow> 'h stream" where
  "ProducerStreamingContext B max_num_outstanding_requests = make_stream B max_num_outstanding_requests"

definition MarkDone :: "'h stream \<Rightarrow> 'h stream" where
  "MarkDone s = s\<lparr>sm_is_marked_done := True\<rparr>"

definition IsMarkedDone :: "'h stream \<Rightarrow> bool" where
  "IsMarkedDone s = sm_is_marked_done s"

definition TryCancel :: "'h stream \<Rightarrow> 'h stream" where
  "TryCancel s = s\<lparr>sm_is_cancelled := True\<rparr>"

definition IsCancelled :: "'h stream \<Rightarrow> bool" where
  "IsCancelled s = sm_is_cancelled s"

text \<open>Pushing and getting messages are the same code for responses and for requests.\<close>

definition stream_check :: "'h stream \<Rightarrow> ExecutionResult" where
  "stream_check s =
     (if IsMarkedDone s then FailureExecutionResult SC_STREAMING_CONTEXT_DONE
      else if IsCancelled s then FailureExecutionResult SC_STREAMING_CONTEXT_CANCELLED
      else SuccessExecutionResult)"

definition stream_enqueue :: "('h, 'm) tbb_bounded_queue \<Rightarrow> 'h stream \<Rightarrow> 'm \<Rightarrow> ExecutionResult \<times> 'h stream" where
  "stream_enqueue B s message =
     (let (r, q) = ConcurrentQueue_TryEnqueue B (sm_queue s) message in (r, s\<lparr>sm_queue := q\<rparr>))"

definition stream_push :: "('h, 'm) tbb_bounded_queue \<Rightarrow> 'h stream \<Rightarrow> 'm \<Rightarrow> ExecutionResult \<times> 'h stream" where
  "stream_push B s message =
     (if \<not> Successful (stream_check s) then (stream_check s, s) else stream_enqueue B s message)"

definition stream_get :: "('h, 'm) tbb_bounded_queue \<Rightarrow> 'h stream \<Rightarrow> 'm option \<times> 'h stream" where
  "stream_get B s =
     (case ConcurrentQueue_TryDequeue B (sm_queue s) of
        (r, message, q) \<Rightarrow> (if \<not> Successful r then None else message, s\<lparr>sm_queue := q\<rparr>))"

definition TryPushResponse :: "('h, 'm) tbb_bounded_queue \<Rightarrow> 'h stream \<Rightarrow> 'm \<Rightarrow> ExecutionResult \<times> 'h stream" where
  "TryPushResponse = stream_push"

definition TryGetNextResponse :: "('h, 'm) tbb_bounded_queue \<Rightarrow> 'h stream \<Rightarrow> 'm option \<times> 'h stream" where
  "TryGetNextResponse = stream_get"

definition TryPushRequest :: "('h, 'm) tbb_bounded_queue \<Rightarrow> 'h stream \<Rightarrow> 'm \<Rightarrow> ExecutionResult \<times> 'h stream" where
  "TryPushRequest = stream_push"

definition TryGetNextRequest :: "('h, 'm) tbb_bounded_queue \<Rightarrow> 'h stream \<Rightarrow> 'm option \<times> 'h stream" where
  "TryGetNextRequest = stream_get"

text \<open>
  The process callback of a consumer gets the context and whether the operation is finished.
  It takes the place of the callback in the record. An empty callback that is called throws.
\<close>

definition ProcessNextMessage ::
  "('q, 'p, 'c) AsyncContext \<Rightarrow> cpp_fault + ('c \<times> ('q, 'p, 'c) AsyncContext \<times> bool) list" where
  "ProcessNextMessage context =
     (case ac_callback context of
        None \<Rightarrow> Inl ThrowsException
      | Some process_callback \<Rightarrow> Inr [(process_callback, context, False)])"

definition ConsumerStreamingContext_Finish ::
  "('q, 'p, 'c) AsyncContext \<Rightarrow> ('c \<times> ('q, 'p, 'c) AsyncContext \<times> bool) list" where
  "ConsumerStreamingContext_Finish context =
     (case ac_callback context of
        None \<Rightarrow> [] | Some process_callback \<Rightarrow> [(process_callback, context, True)])"

definition FinishStreamingContext ::
  "ExecutionResult \<Rightarrow> ExecutionResult \<Rightarrow> ('q, 'p, 'c) AsyncContext \<Rightarrow> 'h stream \<Rightarrow>
   ('c \<times> ('q, 'p, 'c) AsyncContext \<times> bool) list \<times> ('q, 'p, 'c) AsyncContext option \<times> 'h stream" where
  "FinishStreamingContext scheduled outcome context s =
     (let context1 = context\<lparr>ac_result := outcome\<rparr>; s1 = MarkDone s
      in if \<not> Successful scheduled then (ConsumerStreamingContext_Finish context1, None, s1)
         else ([], Some context1, s1))"

section \<open>Runs of a stream\<close>

text \<open>
  Producers and consumers work on the same stream at once. A push looks at the flags and
  enqueues later, with no lock in between, so the two are separate events; the messages whose
  push has passed its check and not yet enqueued wait in \<open>ss_pushing\<close>. The messages accepted
  and the messages received so far go along.
\<close>

record ('h, 'm) stream_sys =
  ss_accepted :: "'m list"
  ss_received :: "'m list"
  ss_pushing :: "'m list"
  ss_stream :: "'h stream"

datatype 'm stream_op = PushChecks 'm | PushEnqueues nat | StreamGet | StreamDone | StreamCancel

fun stream_step ::
  "('h, 'm) tbb_bounded_queue \<Rightarrow> ('h, 'm) stream_sys \<Rightarrow> 'm stream_op \<Rightarrow> ('h, 'm) stream_sys" where
  "stream_step B x (PushChecks m) =
     (if Successful (stream_check (ss_stream x)) then x\<lparr>ss_pushing := ss_pushing x @ [m]\<rparr> else x)"
| "stream_step B x (PushEnqueues i) =
     (if i < length (ss_pushing x)
      then let m = ss_pushing x ! i; (r, s1) = stream_enqueue B (ss_stream x) m
           in x\<lparr>ss_accepted := (if Successful r then ss_accepted x @ [m] else ss_accepted x),
                ss_pushing := take i (ss_pushing x) @ drop (Suc i) (ss_pushing x), ss_stream := s1\<rparr>
      else x)"
| "stream_step B x StreamGet =
     (let (m, s1) = stream_get B (ss_stream x)
      in x\<lparr>ss_received := (case m of None \<Rightarrow> ss_received x | Some y \<Rightarrow> ss_received x @ [y]), ss_stream := s1\<rparr>)"
| "stream_step B x StreamDone = x\<lparr>ss_stream := MarkDone (ss_stream x)\<rparr>"
| "stream_step B x StreamCancel = x\<lparr>ss_stream := TryCancel (ss_stream x)\<rparr>"

definition stream_run ::
  "('h, 'm) tbb_bounded_queue \<Rightarrow> ('h, 'm) stream_sys \<Rightarrow> 'm stream_op list \<Rightarrow> ('h, 'm) stream_sys" where
  "stream_run B x ops = foldl (stream_step B) x ops"

definition new_stream_sys :: "'h stream \<Rightarrow> ('h, 'm) stream_sys" where
  "new_stream_sys s = \<lparr>ss_accepted = [], ss_received = [], ss_pushing = [], ss_stream = s\<rparr>"

text \<open>A push that nothing interrupts is its two events in a row.\<close>

lemma push_uninterrupted:
  "stream_run B x [PushChecks m, PushEnqueues (length (ss_pushing x))] =
     (let (r, s1) = stream_push B (ss_stream x) m
      in x\<lparr>ss_accepted := (if Successful r then ss_accepted x @ [m] else ss_accepted x), ss_stream := s1\<rparr>)"
  by (simp add: stream_run_def stream_push_def split_beta Let_def)

lemma received_grows: "length (ss_received x) \<le> length (ss_received (stream_run B x ops))"
proof (induction ops arbitrary: x)
  case (Cons op ops)
  have "length (ss_received x) \<le> length (ss_received (stream_step B x op))"
    by (cases op) (auto simp: split_beta Let_def split: option.splits)
  then show ?case using Cons.IH [of "stream_step B x op"] by (simp add: stream_run_def)
qed (simp add: stream_run_def)

text \<open>Once a stream is marked done, only the pushes that have passed their check can add a message.\<close>

lemma done_step:
  assumes "sm_is_marked_done (ss_stream x)"
  shows "sm_is_marked_done (ss_stream (stream_step B x op))"
    "\<exists>ms. ss_accepted (stream_step B x op) = ss_accepted x @ ms \<and>
       mset ms + mset (ss_pushing (stream_step B x op)) \<subseteq># mset (ss_pushing x)"
proof -
  show "sm_is_marked_done (ss_stream (stream_step B x op))"
    using assms by (cases op) (auto simp: stream_enqueue_def stream_get_def MarkDone_def TryCancel_def split_beta Let_def)
  show "\<exists>ms. ss_accepted (stream_step B x op) = ss_accepted x @ ms \<and>
       mset ms + mset (ss_pushing (stream_step B x op)) \<subseteq># mset (ss_pushing x)"
  proof (cases op)
    case (PushEnqueues i)
    show ?thesis
    proof (cases "i < length (ss_pushing x)")
      case True
      then have "mset (ss_pushing x) = add_mset (ss_pushing x ! i) (mset (take i (ss_pushing x) @ drop (Suc i) (ss_pushing x)))"
        by (metis id_take_nth_drop mset.simps(2) mset_append union_mset_add_mset_right)
      then show ?thesis using True
        by (cases "Successful (fst (stream_enqueue B (ss_stream x) (ss_pushing x ! i)))")
          (auto simp: PushEnqueues split_beta Let_def)
    qed (simp add: PushEnqueues)
  qed (use assms in \<open>auto simp: stream_check_def IsMarkedDone_def split_beta Let_def\<close>)
qed

lemma done_run:
  assumes "sm_is_marked_done (ss_stream x)"
  shows "\<exists>ms. ss_accepted (stream_run B x ops) = ss_accepted x @ ms \<and> mset ms \<subseteq># mset (ss_pushing x)"
  using assms
proof (induction ops arbitrary: x)
  case (Cons op ops)
  obtain ms where ms: "ss_accepted (stream_step B x op) = ss_accepted x @ ms"
    "mset ms + mset (ss_pushing (stream_step B x op)) \<subseteq># mset (ss_pushing x)"
    using done_step(2) [OF Cons.prems] by blast
  obtain ms' where "ss_accepted (stream_run B (stream_step B x op) ops) = ss_accepted (stream_step B x op) @ ms'"
    "mset ms' \<subseteq># mset (ss_pushing (stream_step B x op))"
    using Cons.IH [OF done_step(1) [OF Cons.prems]] by blast
  moreover from this(2) ms(2) have "mset (ms @ ms') \<subseteq># mset (ss_pushing x)"
    by (simp add: subset_mset.add_left_mono [THEN subset_mset.order_trans])
  ultimately show ?case using ms(1) by (intro exI [of _ "ms @ ms'"]) (simp add: stream_run_def)
qed (simp add: stream_run_def)

locale message_stream = bounded_queue B contents bq_capacity
  for B :: "('h, 'm) tbb_bounded_queue" and contents :: "'h \<Rightarrow> 'm list" and bq_capacity :: "'h \<Rightarrow> nat"
begin

definition stream_inv :: "nat \<Rightarrow> ('h, 'm) stream_sys \<Rightarrow> bool" where
  "stream_inv n x \<longleftrightarrow> ss_accepted x = ss_received x @ contents (sm_queue (ss_stream x)) \<and>
     length (contents (sm_queue (ss_stream x))) \<le> n \<and> bq_capacity (sm_queue (ss_stream x)) = n"

lemma step_inv:
  assumes inv: "stream_inv n x"
  shows "stream_inv n (stream_step B x op)"
proof (cases op)
  case (PushEnqueues i)
  let ?q = "sm_queue (ss_stream x)" and ?m = "ss_pushing x ! i"
  show ?thesis
    using inv rq.enq_success [of ?q ?m] rq.enq_elems [of ?q ?m] rq.enq_bound [of ?q ?m]
    by (auto simp: PushEnqueues stream_inv_def stream_enqueue_def split_beta Let_def)
next
  case StreamGet
  let ?q = "sm_queue (ss_stream x)"
  show ?thesis
    using inv rq.deq_value [of ?q] rq.deq_success [of ?q] rq.deq_elems [of ?q] rq.deq_bound [of ?q]
    by (cases "contents ?q") (auto simp: StreamGet stream_inv_def stream_get_def split_beta Let_def split: option.splits)
qed (use inv in \<open>simp_all add: stream_inv_def MarkDone_def TryCancel_def\<close>)

lemma run_inv: "stream_inv n x \<Longrightarrow> stream_inv n (stream_run B x ops)"
  by (induction ops arbitrary: x) (simp_all add: stream_run_def step_inv)

lemma start_inv: "stream_inv n (new_stream_sys (ConsumerStreamingContext B n))"
  by (simp add: stream_inv_def new_stream_sys_def ConsumerStreamingContext_def make_stream_def rq.make_elems rq.make_bound)

lemma nothing_left:
  assumes "fst (TryGetNextResponse B s) = None"
  shows "contents (sm_queue s) = []"
  using assms rq.deq_value [of "sm_queue s"] rq.deq_success [of "sm_queue s"]
  by (auto simp: TryGetNextResponse_def stream_get_def split_beta split: if_splits list.splits)

lemma drained:
  assumes inv: "stream_inv n x" and x: "IsMarkedDone (ss_stream x)" "fst (TryGetNextResponse B (ss_stream x)) = None"
    "ss_pushing x = []"
  shows "ss_accepted (stream_run B x later) = ss_received x" "ss_received (stream_run B x later) = ss_received x"
proof -
  have rec: "ss_accepted x = ss_received x" using inv nothing_left [OF x(2)] by (simp add: stream_inv_def)
  have "sm_is_marked_done (ss_stream x)" using x(1) by (simp add: IsMarkedDone_def)
  from done_run [OF this, of B later] x(3) show acc: "ss_accepted (stream_run B x later) = ss_received x"
    by (simp add: rec)
  have "ss_received x = ss_received (stream_run B x later) @ contents (sm_queue (ss_stream (stream_run B x later)))"
    using run_inv [OF inv, of later] acc by (simp add: stream_inv_def)
  then show "ss_received (stream_run B x later) = ss_received x"
    using received_grows [of x B later] by (metis append_eq_append_conv append_Nil2 le_antisym length_append le_add1)
qed

end

interpretation list_stream: message_stream "list_bq :: (nat \<times> 'm list, 'm) tbb_bounded_queue" snd fst
  by unfold_locales

section \<open>Properties\<close>

text \<open>
  C32: however producers, consumers and the ends of a stream interleave, a streaming context
  delivers what it accepted, in order and once, and never holds more than its bound. Once it
  is marked done, the only messages it still accepts are those of pushes that had looked at
  the flags before; and when there is none of these and a consumer gets no message, all
  messages have been received and no later operation changes that. The documentation leaves
  out the pushes under way: such a push still succeeds after the consumer has seen the end.
\<close>

theorem stream_delivers_everything:
  assumes "bounded_queue B contents capacity"
    "x = stream_run B (new_stream_sys (ConsumerStreamingContext B n)) ops"
  shows "ss_accepted x = ss_received x @ contents (sm_queue (ss_stream x)) \<and>
     length (contents (sm_queue (ss_stream x))) \<le> n \<and>
     (IsMarkedDone (ss_stream x) \<longrightarrow>
       (\<exists>ms. ss_accepted (stream_run B x later) = ss_accepted x @ ms \<and> mset ms \<subseteq># mset (ss_pushing x)) \<and>
       (ss_pushing x = [] \<and> fst (TryGetNextResponse B (ss_stream x)) = None \<longrightarrow>
          ss_accepted (stream_run B x later) = ss_received x \<and> ss_received (stream_run B x later) = ss_received x))"
proof -
  have l: "message_stream B contents capacity" using assms(1) by (rule message_stream.intro)
  have inv: "message_stream.stream_inv contents capacity n x"
    unfolding assms(2) by (rule message_stream.run_inv [OF l message_stream.start_inv [OF l]])
  show ?thesis
    using inv message_stream.drained [OF l inv] done_run [of x B later]
    by (auto simp: message_stream.stream_inv_def [OF l] IsMarkedDone_def)
qed

theorem stream_delivers_everything_witness:
  "let x = stream_run list_bq (new_stream_sys (ConsumerStreamingContext list_bq 2))
         [PushChecks 5, PushChecks (6 :: nat), PushEnqueues 1, StreamGet, StreamDone, PushEnqueues 0, PushChecks 8, StreamGet]
   in ss_accepted x = [6, 5] \<and> IsMarkedDone (ss_stream x) \<and>
      ss_received (stream_run list_bq x [PushChecks 9, PushEnqueues 0, StreamGet]) = [6, 5]"
proof -
  let ?x = "stream_run list_bq (new_stream_sys (ConsumerStreamingContext list_bq 2))
         [PushChecks 5, PushChecks (6 :: nat), PushEnqueues 1, StreamGet, StreamDone, PushEnqueues 0, PushChecks 8, StreamGet]"
  obtain x where x: "x = ?x" by simp
  have "ss_accepted ?x = [6, 5] \<and> ss_received ?x = [6, 5] \<and> ss_pushing ?x = [] \<and> IsMarkedDone (ss_stream ?x) \<and>
      fst (TryGetNextResponse list_bq (ss_stream ?x)) = None"
    by code_simp
  then show ?thesis
    using stream_delivers_everything [OF list_bq.bounded_queue_axioms x, of "[PushChecks 9, PushEnqueues 0, StreamGet]"]
    unfolding x [symmetric] Let_def by auto
qed

end
