(* ===== verification/Operation_Dispatcher.thy ===== *)
theory Operation_Dispatcher
  imports Async_Context "HOL-Library.Log_Nat"
begin

text \<open>
  Retrying of asynchronous operations: cc/core/common/operation_dispatcher/src/retry_strategy.h
  and operation_dispatcher.h. The target of an operation, the executor and the clock are
  given by what they do on each attempt; an attempt has the retry count of its context.
\<close>

section \<open>Retry strategy\<close>

datatype RetryStrategyType = Linear | Exponential

record RetryStrategy =
  retry_strategy_type :: RetryStrategyType
  delay_duration_ms :: TimeDuration
  maximum_allowed_retry_count :: size_t

definition RetryStrategyOptions :: "RetryStrategyType \<Rightarrow> TimeDuration \<Rightarrow> size_t \<Rightarrow> RetryStrategy" where
  "RetryStrategyOptions strategy delay maximum =
     \<lparr>retry_strategy_type = strategy, delay_duration_ms = delay, maximum_allowed_retry_count = maximum\<rparr>"

text \<open>
  The exponential strategy computes in \<open>double\<close>: the delay is rounded to 53 significant
  bits, the product with a power of two below \<open>2 ^ 1024\<close> is exact. Converting a number that
  does not fit back to an integer has no meaning in C++.
\<close>

definition round_double :: "nat \<Rightarrow> nat" where
  "round_double x =
     (if x < 2 ^ 53 then x
      else let e = 2 ^ (floorlog 2 x - 53); q = x div e; r = x mod e
           in if 2 * r < e \<or> 2 * r = e \<and> even q then q * e else Suc q * e)"

definition GetBackOffDurationInMilliseconds :: "RetryStrategy \<Rightarrow> size_t \<Rightarrow> cpp_fault + TimeDuration" where
  "GetBackOffDurationInMilliseconds s retry_count =
     (if retry_count = 0 then Inr 0
      else case retry_strategy_type s of
             Linear \<Rightarrow> Inr (retry_count * delay_duration_ms s)
           | Exponential \<Rightarrow>
               (let n = unat (retry_count - 1); ms = 2 ^ n * round_double (unat (delay_duration_ms s))
                in if n \<ge> 1024 \<or> ms \<ge> 2 ^ 64 then Inl UndefinedBehaviour else Inr (of_nat ms)))"

definition GetMaximumAllowedRetryCount :: "RetryStrategy \<Rightarrow> size_t" where
  "GetMaximumAllowedRetryCount s = maximum_allowed_retry_count s"

text \<open>
  \<open>duration_cast\<close> from milliseconds to nanoseconds, both of which count in a signed
  64-bit integer; an overflow has no meaning.
\<close>

definition ms_to_ns :: "TimeDuration \<Rightarrow> cpp_fault + TimeDuration" where
  "ms_to_ns ms =
     (let ns = sint ms * 1000000
      in if ns < - (2 ^ 63) \<or> ns \<ge> 2 ^ 63 then Inl UndefinedBehaviour else Inr (word_of_int ns))"

definition SC_DISPATCHER_EXHAUSTED_RETRIES :: StatusCode where
  "SC_DISPATCHER_EXHAUSTED_RETRIES = MakeErrorCode 0x0009 0x0001"

definition SC_DISPATCHER_OPERATION_EXPIRED :: StatusCode where
  "SC_DISPATCHER_OPERATION_EXPIRED = MakeErrorCode 0x0009 0x0002"

definition SC_DISPATCHER_NOT_ENOUGH_TIME_REMAINED_FOR_OPERATION :: StatusCode where
  "SC_DISPATCHER_NOT_ENOUGH_TIME_REMAINED_FOR_OPERATION = MakeErrorCode 0x0009 0x0003"

section \<open>Dispatching\<close>

text \<open>
  What the outside does on the attempt with a given retry count: the answer of the
  target function, the messages it hands to a consumer, the results with which it finishes
  the context or a copy of it, which may be none or several, before or after it answers, the
  time the dispatcher reads and the answer of the executor's \<open>ScheduleFor\<close>.
\<close>

record outside =
  target :: "size_t \<Rightarrow> ExecutionResult"
  messages :: "size_t \<Rightarrow> nat"
  finishes :: "size_t \<Rightarrow> ExecutionResult list"
  clock :: "size_t \<Rightarrow> Timestamp"
  schedule_for :: "size_t \<Rightarrow> ExecutionResult"

text \<open>
  What can be seen: a call of the target, at once or scheduled for a time, a call of the
  original callback for the end, with the result of the context, or for a message.
\<close>

datatype dispatch_event =
    TargetNow size_t
  | TargetAt size_t Timestamp
  | OriginalCallback size_t ExecutionResult
  | OriginalCallbackMessage size_t

text \<open>
  \<open>DispatchWithRetry\<close> up to the point where it runs or schedules the operation or
  finishes the context: \<open>Inl\<close> the result it finishes with, \<open>Inr\<close> when the operation runs.
\<close>

definition DispatchWithRetry_decide ::
  "RetryStrategy \<Rightarrow> outside \<Rightarrow> Timestamp \<Rightarrow> size_t \<Rightarrow> cpp_fault + (ExecutionResult + dispatch_event)" where
  "DispatchWithRetry_decide s out expiration_time retry_count =
     (if retry_count = 0 then Inr (Inr (TargetNow retry_count))
      else bindE (GetBackOffDurationInMilliseconds s retry_count) (\<lambda>back_off_duration_ms.
        if retry_count \<ge> GetMaximumAllowedRetryCount s
        then Inr (Inl (FailureExecutionResult SC_DISPATCHER_EXHAUSTED_RETRIES))
        else let current_time = clock out retry_count
             in if expiration_time \<le> current_time
                then Inr (Inl (FailureExecutionResult SC_DISPATCHER_OPERATION_EXPIRED))
                else bindE (ms_to_ns back_off_duration_ms) (\<lambda>back_off_duration_ns.
                  if expiration_time - current_time \<le> back_off_duration_ns
                  then Inr (Inl (FailureExecutionResult SC_DISPATCHER_NOT_ENOUGH_TIME_REMAINED_FOR_OPERATION))
                  else let execution_result = schedule_for out retry_count
                       in if \<not> Successful execution_result then Inr (Inl execution_result)
                          else Inr (Inr (TargetAt retry_count (current_time + back_off_duration_ns))))))"

text \<open>
  The wrapped callback sends a context that wants a retry back to \<open>DispatchWithRetry\<close>
  with the next retry count and passes every other one on. \<open>DispatchWithRetry\<close> finishes
  a context by calling the wrapped callback. On an attempt it is called once for each time
  the target finishes the context, and by the operation when the target's answer is not a
  success; each of these calls is for a context with the retry count of the attempt.
  Messages of a consumer are passed on.
\<close>

definition attempt_results :: "outside \<Rightarrow> size_t \<Rightarrow> ExecutionResult list" where
  "attempt_results out retry_count =
     (let execution_result = target out retry_count
      in finishes out retry_count @ (if \<not> Successful execution_result then [execution_result] else []))"

function DispatchWithRetry ::
  "RetryStrategy \<Rightarrow> outside \<Rightarrow> Timestamp \<Rightarrow> size_t \<Rightarrow> cpp_fault + dispatch_event list" where
  "DispatchWithRetry s out expiration_time retry_count =
     (case DispatchWithRetry_decide s out expiration_time retry_count of
        Inl fault \<Rightarrow> Inl fault
      | Inr (Inl r) \<Rightarrow>
          if status r = Retry then DispatchWithRetry s out expiration_time (retry_count + 1)
          else Inr [OriginalCallback retry_count r]
      | Inr (Inr call) \<Rightarrow>
          let results = attempt_results out retry_count;
              passed = replicate (messages out retry_count)
                         (OriginalCallbackMessage retry_count)
          in bindE (if list_ex (\<lambda>r. status r = Retry) results
                    then DispatchWithRetry s out expiration_time (retry_count + 1) else Inr [])
               (\<lambda>again. Inr (call # passed @
                  concat (map (\<lambda>r. if status r = Retry then again else [OriginalCallback retry_count r]) results))))"
  by pat_completeness auto

lemma decide_retry:
  assumes "DispatchWithRetry_decide s out ex n = Inr d" "\<forall>r. d = Inl r \<longrightarrow> status r = Retry"
  shows "n = 0 \<or> n < maximum_allowed_retry_count s"
  using assms
  by (auto simp: DispatchWithRetry_decide_def bindE_Inr_iff GetMaximumAllowedRetryCount_def not_le
      FailureExecutionResult_def split: if_splits)

lemma next_retry_count:
  assumes "n = 0 \<or> n < (m :: size_t)"
  shows "unat (n + 1) = Suc (unat n)" "2 ^ 64 - unat (n + 1) < (2 ^ 64 - unat n :: nat)"
proof -
  have "unat m < 2 ^ 64" using unsigned_less [of m] by simp
  then have "Suc (unat n) < 2 ^ 64" using assms by (auto simp: word_less_nat_alt)
  then show "unat (n + 1) = Suc (unat n)" by (simp add: unat_word_ariths)
  then show "2 ^ 64 - unat (n + 1) < (2 ^ 64 - unat n :: nat)"
    using \<open>Suc (unat n) < 2 ^ 64\<close> by linarith
qed

termination DispatchWithRetry
proof (relation "measure (\<lambda>(s, out, ex, n). 2 ^ 64 - unat n)", goal_cases)
  case (2 s out ex n d r)
  then have "n = 0 \<or> n < maximum_allowed_retry_count s" using decide_retry [of s out ex n d] by auto
  then show ?case using next_retry_count(2) by simp
next
  case (3 s out ex n d call results passed)
  then have "n = 0 \<or> n < maximum_allowed_retry_count s" using decide_retry [of s out ex n d] by auto
  then show ?case using next_retry_count(2) by simp
qed simp

text \<open>The wrapped callback calls the original one without looking whether it is empty.\<close>

definition original_called :: "'c option \<Rightarrow> dispatch_event list \<Rightarrow> cpp_fault + dispatch_event list" where
  "original_called original_callback evs =
     (if original_callback = None \<and>
         list_ex (\<lambda>e. case e of OriginalCallback _ _ \<Rightarrow> True | OriginalCallbackMessage _ \<Rightarrow> True | _ \<Rightarrow> False) evs
      then Inl ThrowsException else Inr evs)"

definition Dispatch :: "RetryStrategy \<Rightarrow> outside \<Rightarrow> ('q, 'p, 'c) AsyncContext \<Rightarrow> cpp_fault + dispatch_event list" where
  "Dispatch s out async_context =
     bindE (DispatchWithRetry s (out\<lparr>messages := \<lambda>_. 0\<rparr>) (ac_expiration_time async_context) (ac_retry_count async_context))
       (original_called (ac_callback async_context))"

definition DispatchProducerStreaming ::
  "RetryStrategy \<Rightarrow> outside \<Rightarrow> ('q, 'p, 'c) AsyncContext \<Rightarrow> cpp_fault + dispatch_event list" where
  "DispatchProducerStreaming s out producer_streaming_context =
     bindE (DispatchWithRetry s (out\<lparr>messages := \<lambda>_. 0\<rparr>)
         (ac_expiration_time producer_streaming_context) (ac_retry_count producer_streaming_context))
       (original_called (ac_callback producer_streaming_context))"

definition DispatchConsumerStreaming ::
  "RetryStrategy \<Rightarrow> outside \<Rightarrow> ('q, 'p, 'c) AsyncContext \<Rightarrow> cpp_fault + dispatch_event list" where
  "DispatchConsumerStreaming s out consumer_streaming_context =
     bindE (DispatchWithRetry s out
         (ac_expiration_time consumer_streaming_context) (ac_retry_count consumer_streaming_context))
       (original_called (ac_callback consumer_streaming_context))"

lemma original_called_simps [simp]: "original_called (Some callback) evs = Inr evs"
  by (simp add: original_called_def)

declare DispatchWithRetry.simps [simp del]

text \<open>
  What the interfaces ask of a target: it finishes a context it has accepted exactly once,
  and does not finish one it refuses.
\<close>

definition finishes_accepted_once :: "outside \<Rightarrow> bool" where
  "finishes_accepted_once out \<longleftrightarrow>
     (\<forall>n. if Successful (target out n) then length (finishes out n) = 1 else finishes out n = [])"

lemma attempt_result:
  assumes "finishes_accepted_once out"
  obtains r where "attempt_results out n = [r]"
proof -
  have "length (attempt_results out n) = 1"
    using assms by (simp add: finishes_accepted_once_def attempt_results_def Let_def split: if_splits)
  then show ?thesis using that by (metis One_nat_def length_0_conv length_Suc_conv)
qed

section \<open>What a dispatched operation does\<close>

fun target_call :: "dispatch_event \<Rightarrow> size_t list" where
  "target_call (TargetNow c) = [c]"
| "target_call (TargetAt c t) = [c]"
| "target_call (OriginalCallback c r) = []"
| "target_call (OriginalCallbackMessage c) = []"

definition target_calls :: "dispatch_event list \<Rightarrow> size_t list" where
  "target_calls evs = concat (map target_call evs)"

definition ends_once :: "dispatch_event list \<Rightarrow> bool" where
  "ends_once evs \<longleftrightarrow> (\<exists>pre k r. evs = pre @ [OriginalCallback k r] \<and> status r \<noteq> Retry \<and>
     (\<forall>k r. OriginalCallback k r \<notin> set pre))"

lemma ends_once_simps:
  "ends_once [OriginalCallback k r] \<longleftrightarrow> status r \<noteq> Retry"
  "\<forall>k r. OriginalCallback k r \<notin> set xs \<Longrightarrow> ends_once evs \<Longrightarrow> ends_once (xs @ evs)"
proof -
  show "ends_once [OriginalCallback k r] \<longleftrightarrow> status r \<noteq> Retry" by (auto simp: ends_once_def)
  assume "\<forall>k r. OriginalCallback k r \<notin> set xs" "ends_once evs"
  then obtain pre k r where "xs @ evs = (xs @ pre) @ [OriginalCallback k r]" "status r \<noteq> Retry"
    "\<forall>k r. OriginalCallback k r \<notin> set (xs @ pre)" by (auto simp: ends_once_def)
  then show "ends_once (xs @ evs)" unfolding ends_once_def by blast
qed

text \<open>What the decision to run the operation says about the call.\<close>

lemma decide_call_cases:
  assumes "DispatchWithRetry_decide s out ex n = Inr (Inr call)"
  shows "n = 0 \<and> call = TargetNow n \<or>
     (\<exists>ms ns. n \<noteq> 0 \<and> GetBackOffDurationInMilliseconds s n = Inr ms \<and> ms_to_ns ms = Inr ns \<and> clock out n < ex \<and>
        ns < ex - clock out n \<and> call = TargetAt n (clock out n + ns))"
proof (cases "n = 0")
  case True
  then show ?thesis using assms by (simp add: DispatchWithRetry_decide_def)
next
  case False
  then obtain ms where ms: "GetBackOffDurationInMilliseconds s n = Inr ms"
    using assms by (auto simp: DispatchWithRetry_decide_def bindE_Inr_iff)
  then have 1: "\<not> ex \<le> clock out n"
    using assms False by (auto simp: DispatchWithRetry_decide_def Let_def split: if_splits)
  then obtain ns where ns: "ms_to_ns ms = Inr ns"
    using assms False ms by (auto simp: DispatchWithRetry_decide_def Let_def bindE_Inr_iff split: if_splits)
  then have "\<not> ex - clock out n \<le> ns" "call = TargetAt n (clock out n + ns)"
    using assms False ms 1 by (auto simp: DispatchWithRetry_decide_def Let_def split: if_splits)
  then show ?thesis using False ms ns 1 by (simp add: not_le)
qed

definition delayed :: "RetryStrategy \<Rightarrow> outside \<Rightarrow> size_t \<Rightarrow> Timestamp \<Rightarrow> bool" where
  "delayed s out c t \<longleftrightarrow> c \<noteq> 0 \<and> (\<exists>ms ns. GetBackOffDurationInMilliseconds s c = Inr ms \<and> ms_to_ns ms = Inr ns \<and>
     t = clock out c + ns)"

lemma decide_call:
  assumes "DispatchWithRetry_decide s out ex n = Inr (Inr call)"
  shows "target_call call = [n]" "call \<noteq> OriginalCallback k r" "call = TargetAt c t \<Longrightarrow> t < ex \<and> clock out c \<le> t \<and> delayed s out c t"
proof -
  show "target_call call = [n]" "call \<noteq> OriginalCallback k r" using decide_call_cases [OF assms] by auto
  assume "call = TargetAt c t"
  then obtain ns where ns: "clock out n < ex" "ns < ex - clock out n" "t = clock out n + ns" "c = n"
    and del: "delayed s out c t"
    using decide_call_cases [OF assms] by (auto simp: delayed_def)
  have "unat (ex - clock out n) = unat ex - unat (clock out n)"
    using ns(1) by (simp add: unat_sub order_less_imp_le)
  then have "unat ns < unat ex - unat (clock out n)" "unat (clock out n) < unat ex"
    using ns(1,2) by (simp_all add: word_less_nat_alt)
  moreover have "unat ex < 2 ^ 64" using unsigned_less [of ex] by simp
  ultimately have "unat t = unat (clock out n) + unat ns" "unat t < unat ex"
    using ns(3) by (simp_all add: unat_word_ariths)
  then show "t < ex \<and> clock out c \<le> t \<and> delayed s out c t" using ns(4) del by (simp add: word_less_nat_alt word_le_nat_alt)
qed

definition well_dispatched :: "RetryStrategy \<Rightarrow> outside \<Rightarrow> Timestamp \<Rightarrow> size_t \<Rightarrow> dispatch_event list \<Rightarrow> bool" where
  "well_dispatched s out ex n evs \<longleftrightarrow> ends_once evs \<and> sorted_wrt (<) (target_calls evs) \<and>
     (\<forall>c \<in> set (target_calls evs). n \<le> c \<and> (c = 0 \<or> c < maximum_allowed_retry_count s)) \<and>
     (\<forall>c t. TargetAt c t \<in> set evs \<longrightarrow> t < ex \<and> clock out c \<le> t \<and> delayed s out c t)"

lemma well_dispatched_callback: "status r \<noteq> Retry \<Longrightarrow> well_dispatched s out ex n [OriginalCallback n r]"
  by (simp add: well_dispatched_def ends_once_simps target_calls_def)

lemma well_dispatched_next:
  assumes "n = 0 \<or> n < maximum_allowed_retry_count s" "well_dispatched s out ex (n + 1) evs"
  shows "well_dispatched s out ex n evs" "\<forall>c \<in> set (target_calls evs). n < c"
proof -
  have "n < n + 1" using next_retry_count(1) [OF assms(1)] by (simp add: word_less_nat_alt)
  then show "\<forall>c \<in> set (target_calls evs). n < c" using assms(2) by (auto simp: well_dispatched_def)
  then show "well_dispatched s out ex n evs" using assms(2) by (auto simp: well_dispatched_def)
qed

lemma well_dispatched_call:
  assumes "DispatchWithRetry_decide s out ex n = Inr (Inr call)" "well_dispatched s out ex n evs"
    "\<forall>c \<in> set (target_calls evs). n < c"
    "passed = replicate m (OriginalCallbackMessage n)"
  shows "well_dispatched s out ex n (call # passed @ evs)"
proof -
  have n: "n = 0 \<or> n < maximum_allowed_retry_count s" using decide_retry [OF assms(1)] by simp
  have "target_calls (call # passed @ evs) = n # target_calls evs"
    using decide_call(1) [OF assms(1)] by (induction m) (simp_all add: target_calls_def assms(4))
  moreover have "ends_once ((call # passed) @ evs)"
    using assms(2,4) decide_call(2) [OF assms(1)] by (intro ends_once_simps(2)) (auto simp: well_dispatched_def)
  ultimately show ?thesis
    using n assms(2,3,4) decide_call(3) [OF assms(1)] by (auto simp: well_dispatched_def)
qed

lemma dispatch_well:
  "DispatchWithRetry s out ex n = Inr evs \<Longrightarrow> finishes_accepted_once out \<Longrightarrow> well_dispatched s out ex n evs"
proof (induction s out ex n arbitrary: evs rule: DispatchWithRetry.induct)
  case (1 s out ex n)
  obtain d where d: "DispatchWithRetry_decide s out ex n = Inr d"
    using "1.prems"(1) by (subst (asm) DispatchWithRetry.simps) (auto split: sum.splits)
  show ?case
  proof (cases d)
    case (Inl r)
    show ?thesis
    proof (cases "status r = Retry")
      case True
      then have "DispatchWithRetry s out ex (n + 1) = Inr evs"
        using "1.prems"(1) d Inl by (subst (asm) DispatchWithRetry.simps) simp
      then have "well_dispatched s out ex (n + 1) evs" using "1.IH"(1) d Inl True "1.prems"(2) by simp
      moreover have "n = 0 \<or> n < maximum_allowed_retry_count s" using decide_retry [OF d] Inl True by simp
      ultimately show ?thesis by (rule well_dispatched_next(1) [rotated])
    next
      case False
      then have "evs = [OriginalCallback n r]"
        using "1.prems"(1) d Inl by (subst (asm) DispatchWithRetry.simps) simp
      then show ?thesis using well_dispatched_callback [OF False] by simp
    qed
  next
    case (Inr call)
    obtain r where r: "attempt_results out n = [r]" by (rule attempt_result [OF "1.prems"(2)])
    define passed where "passed = replicate (messages out n) (OriginalCallbackMessage n)"
    obtain evs1 where evs1: "(if status r = Retry then DispatchWithRetry s out ex (n + 1) else Inr [OriginalCallback n r]) = Inr evs1"
      "evs = call # passed @ evs1"
      using "1.prems"(1) d Inr unfolding passed_def
      by (subst (asm) DispatchWithRetry.simps) (auto simp: Let_def bindE_Inr_iff r split: if_splits)
    have n: "n = 0 \<or> n < maximum_allowed_retry_count s" using decide_retry [OF d] Inr by simp
    have "well_dispatched s out ex n evs1 \<and> (\<forall>c \<in> set (target_calls evs1). n < c)"
    proof (cases "status r = Retry")
      case True
      then have "DispatchWithRetry s out ex (n + 1) = Inr evs1" using evs1(1) by simp
      then have "well_dispatched s out ex (n + 1) evs1" using "1.IH"(2) [OF d Inr refl refl] True "1.prems"(2) by (simp add: r)
      then show ?thesis using well_dispatched_next [OF n] by blast
    next
      case False
      then have "evs1 = [OriginalCallback n r]" using evs1(1) by simp
      then show ?thesis using well_dispatched_callback [OF False] by (simp add: target_calls_def)
    qed
    then show ?thesis
      using well_dispatched_call [of s out ex n call evs1 passed] d Inr evs1(2) unfolding passed_def by blast
  qed
qed

lemma dispatch_first:
  assumes "DispatchWithRetry s out ex 0 = Inr evs"
  shows "hd (target_calls evs) = 0"
proof -
  have "DispatchWithRetry_decide s out ex 0 = Inr (Inr (TargetNow 0))" by (simp add: DispatchWithRetry_decide_def)
  then obtain rest where "evs = TargetNow 0 # rest"
    using assms by (subst (asm) DispatchWithRetry.simps) (simp only: Let_def bindE_Inr_iff sum.case, blast)
  then show ?thesis by (simp add: target_calls_def)
qed

section \<open>Back-off without overflow\<close>

definition backoff_factor :: "RetryStrategy \<Rightarrow> size_t \<Rightarrow> nat" where
  "backoff_factor s n = (case retry_strategy_type s of Linear \<Rightarrow> unat n | Exponential \<Rightarrow> 2 ^ (unat n - 1))"

lemma ms_to_ns_value:
  assumes "x * 1000000 < 2 ^ 63"
  shows "ms_to_ns (of_nat x) = Inr (of_nat (x * 1000000))"
proof -
  have "sint (of_nat x :: 64 word) = int x"
    using assms by (simp add: signed_of_nat signed_take_bit_int_eq_self)
  then have "ms_to_ns (of_nat x) = Inr (word_of_int (int x * 1000000))"
    using assms by (simp add: ms_to_ns_def Let_def)
  moreover have "(word_of_int (int x * 1000000) :: 64 word) = of_nat (x * 1000000)" by simp
  ultimately show ?thesis by (simp only:)
qed

lemma backoff_value:
  assumes "n \<noteq> 0" "backoff_factor s n * unat (delay_duration_ms s) * 1000000 < 2 ^ 63"
    "retry_strategy_type s = Exponential \<Longrightarrow> n \<le> 1024"
  shows "GetBackOffDurationInMilliseconds s n = Inr (of_nat (backoff_factor s n * unat (delay_duration_ms s))) \<and>
    ms_to_ns (of_nat (backoff_factor s n * unat (delay_duration_ms s))) =
      Inr (of_nat (backoff_factor s n * unat (delay_duration_ms s) * 1000000))"
proof -
  let ?d = "unat (delay_duration_ms s)"
  let ?v = "backoff_factor s n * ?d"
  have v: "?v * 1000000 < 2 ^ 63" using assms(2) by simp
  have "0 < backoff_factor s n" using assms(1) by (auto simp: backoff_factor_def unat_gt_0 split: RetryStrategyType.split)
  then have le: "?d \<le> ?v" by simp
  have small: "x < 2 ^ 53" if "x * 1000000 < 2 ^ 63" for x :: nat using that by simp
  have d: "?d < 2 ^ 53" by (rule le_less_trans [OF le small [OF v]])
  have ms: "GetBackOffDurationInMilliseconds s n = Inr (of_nat ?v)"
  proof (cases "retry_strategy_type s")
    case Linear
    then show ?thesis using assms(1) by (simp add: GetBackOffDurationInMilliseconds_def backoff_factor_def)
  next
    case Exponential
    have "unat (n - 1) = unat n - 1" using assms(1) by (simp add: unat_minus_one)
    moreover have "unat n \<le> 1024" using assms(3) [OF Exponential] by (simp add: word_le_nat_alt)
    then have "\<not> 1024 \<le> unat n - 1" using assms(1) by (simp add: unat_gt_0 not_le less_diff_conv2 Suc_le_eq)
    moreover have "2 ^ (unat n - 1) * ?d < 2 ^ 64" using small [OF v] Exponential by (simp add: backoff_factor_def)
    ultimately show ?thesis
      using assms(1) d Exponential
      by (simp add: GetBackOffDurationInMilliseconds_def backoff_factor_def round_double_def Let_def)
  qed
  then show ?thesis using ms_to_ns_value [OF v] by blast
qed

definition backoff_bounded :: "RetryStrategy \<Rightarrow> bool" where
  "backoff_bounded s \<longleftrightarrow>
     (let most = max 1 (maximum_allowed_retry_count s)
      in backoff_factor s most * unat (delay_duration_ms s) * 1000000 < 2 ^ 63 \<and>
         (retry_strategy_type s = Exponential \<longrightarrow> most \<le> 1024))"

lemma backoff_bounded_at:
  assumes "backoff_bounded s" "n \<noteq> 0" "n \<le> max 1 (maximum_allowed_retry_count s)"
  shows "backoff_factor s n * unat (delay_duration_ms s) * 1000000 < 2 ^ 63 \<and> (retry_strategy_type s = Exponential \<longrightarrow> n \<le> 1024)"
proof -
  let ?most = "max 1 (maximum_allowed_retry_count s)"
  have "unat n \<le> unat ?most" using assms(3) by (simp only: word_le_nat_alt)
  then have "backoff_factor s n \<le> backoff_factor s ?most"
    by (auto simp: backoff_factor_def split: RetryStrategyType.split)
  then have "backoff_factor s n * unat (delay_duration_ms s) * 1000000 \<le>
      backoff_factor s ?most * unat (delay_duration_ms s) * 1000000" by simp
  then show ?thesis using assms unfolding backoff_bounded_def Let_def
    by (meson le_less_trans order_trans)
qed

lemma dispatch_no_fault:
  assumes "backoff_bounded s"
  shows "n \<le> max 1 (maximum_allowed_retry_count s) \<Longrightarrow> \<exists>evs. DispatchWithRetry s out ex n = Inr evs"
  using assms
proof (induction s out ex n rule: DispatchWithRetry.induct)
  case (1 s out ex n)
  let ?most = "max 1 (maximum_allowed_retry_count s)"
  have "\<exists>d. DispatchWithRetry_decide s out ex n = Inr d"
  proof (cases "n = 0")
    case True
    then show ?thesis by (simp add: DispatchWithRetry_decide_def)
  next
    case False
    note b = backoff_bounded_at [OF "1.prems"(2) False "1.prems"(1)]
    have "GetBackOffDurationInMilliseconds s n = Inr (of_nat (backoff_factor s n * unat (delay_duration_ms s))) \<and>
      ms_to_ns (of_nat (backoff_factor s n * unat (delay_duration_ms s))) =
        Inr (of_nat (backoff_factor s n * unat (delay_duration_ms s) * 1000000))"
      using b by (intro backoff_value [OF False]) simp_all
    then show ?thesis using False by (simp add: DispatchWithRetry_decide_def Let_def)
  qed
  then obtain d where d: "DispatchWithRetry_decide s out ex n = Inr d" ..
  have step: "n + 1 \<le> ?most" if "n = 0 \<or> n < maximum_allowed_retry_count s"
  proof (cases "n = 0")
    case False
    then have "n < maximum_allowed_retry_count s" using that by simp
    then have "n + 1 \<le> maximum_allowed_retry_count s"
      using next_retry_count(1) [OF that] by (simp add: word_less_nat_alt word_le_nat_alt)
    then show ?thesis by (rule order_trans) simp
  qed simp
  show ?case
  proof (cases d)
    case (Inl r)
    have "\<exists>evs. DispatchWithRetry s out ex (n + 1) = Inr evs" if "status r = Retry"
      using "1.IH"(1) d Inl that step decide_retry [OF d] "1.prems"(2) by simp
    then show ?thesis using d Inl by (subst DispatchWithRetry.simps) auto
  next
    case (Inr call)
    have "\<exists>evs. DispatchWithRetry s out ex (n + 1) = Inr evs" if "list_ex (\<lambda>r. status r = Retry) (attempt_results out n)"
      using "1.IH"(2) [OF d Inr refl refl] that step decide_retry [OF d] Inr "1.prems"(2) by simp
    then show ?thesis using d Inr by (subst DispatchWithRetry.simps) (auto simp: Let_def)
  qed
qed

section \<open>Properties\<close>

text \<open>
  C31: a dispatched operation comes to an end, whatever the executor and the clock do and
  whatever results it is given, if the target finishes each context it accepts once and none
  that it refuses, the longest back-off fits into a signed 64-bit number of nanoseconds and
  the context has a callback.
  The dispatcher never faults; its original callback is told of the end exactly once, last
  and never with a result that asks for a retry; the target is called with strictly
  increasing retry counts, at most as often as the maximal retry count says, but at least
  once; and every retry is scheduled for a time before the context expires.
\<close>

theorem dispatch_ends_once:
  assumes "ac_retry_count context = 0" "ac_callback context \<noteq> None" "finishes_accepted_once out" "backoff_bounded s"
    "run \<in> {Dispatch s out context, DispatchProducerStreaming s out context, DispatchConsumerStreaming s out context}"
  shows "\<exists>evs. run = Inr evs \<and>
     (\<exists>pre k r. evs = pre @ [OriginalCallback k r] \<and> status r \<noteq> Retry \<and>
       (\<forall>k r. OriginalCallback k r \<notin> set pre)) \<and>
     sorted_wrt (<) (target_calls evs) \<and> hd (target_calls evs) = 0 \<and>
     length (target_calls evs) \<le> max 1 (unat (maximum_allowed_retry_count s)) \<and>
     (\<forall>c t. TargetAt c t \<in> set evs \<longrightarrow> t < ac_expiration_time context)"
proof -
  have same: "bindE m (original_called (ac_callback context)) = m" for m
    using assms(2) by (cases m) auto
  obtain out1 where out1: "run = DispatchWithRetry s out1 (ac_expiration_time context) 0" "finishes_accepted_once out1"
  proof (rule that)
    show "run = DispatchWithRetry s (if run = DispatchConsumerStreaming s out context then out else out\<lparr>messages := \<lambda>_. 0\<rparr>)
        (ac_expiration_time context) 0"
      using assms(1,5) by (auto simp: Dispatch_def DispatchProducerStreaming_def DispatchConsumerStreaming_def same)
  qed (use assms(3) in \<open>simp add: finishes_accepted_once_def\<close>)
  obtain evs where d: "DispatchWithRetry s out1 (ac_expiration_time context) 0 = Inr evs"
    using dispatch_no_fault [OF assms(4), of 0 out1 "ac_expiration_time context"] by auto
  then have well: "well_dispatched s out1 (ac_expiration_time context) 0 evs" using out1(2) by (rule dispatch_well)
  then have sorted: "sorted_wrt (<) (target_calls evs)" by (simp add: well_dispatched_def)
  have "distinct (map unat (target_calls evs))"
    using sorted by (simp add: distinct_map strict_sorted_iff inj_on_def word_eq_iff_unsigned [where 'a = nat])
  moreover have "set (map unat (target_calls evs)) \<subseteq> {..<max 1 (unat (maximum_allowed_retry_count s))}"
    using well by (auto simp: well_dispatched_def word_less_nat_alt)
  ultimately have "length (target_calls evs) \<le> max 1 (unat (maximum_allowed_retry_count s))"
    using card_mono [of "{..<max 1 (unat (maximum_allowed_retry_count s))}" "set (map unat (target_calls evs))"]
      distinct_card [of "map unat (target_calls evs)"] by simp
  moreover have "hd (target_calls evs) = 0"
    by (rule dispatch_first [OF d])
  ultimately show ?thesis using well sorted d out1(1) unfolding well_dispatched_def ends_once_def by blast
qed

definition example_strategy :: RetryStrategy where
  "example_strategy = RetryStrategyOptions Linear 10 3"

definition example_outside :: outside where
  "example_outside = \<lparr>target = \<lambda>_. SuccessExecutionResult, messages = \<lambda>n. if n = 0 then 1 else 0,
     finishes = \<lambda>_. [RetryExecutionResult 5], clock = \<lambda>n. 1000 + n, schedule_for = \<lambda>_. SuccessExecutionResult\<rparr>"

definition example_context :: "(nat, nat, nat) AsyncContext" where
  "example_context = AsyncContext_of_request 1000 kZeroUuid (Some 1) (Some 0)"

theorem dispatch_ends_once_witness:
  "\<exists>evs. DispatchConsumerStreaming example_strategy example_outside example_context = Inr evs \<and>
     target_calls evs = [0, 1, 2] \<and> length (target_calls evs) \<le> max 1 (unat (maximum_allowed_retry_count example_strategy)) \<and>
     last evs = OriginalCallback 3 (FailureExecutionResult SC_DISPATCHER_EXHAUSTED_RETRIES)"
proof -
  let ?evs = "[TargetNow 0, OriginalCallbackMessage 0, TargetAt 1 10001001, TargetAt 2 20001002,
    OriginalCallback 3 (FailureExecutionResult SC_DISPATCHER_EXHAUSTED_RETRIES)]"
  have d: "DispatchConsumerStreaming example_strategy example_outside example_context = Inr ?evs"
    by code_simp
  have c: "ac_retry_count example_context = 0" "ac_callback example_context \<noteq> None" by code_simp+
  have f: "finishes_accepted_once example_outside" by (simp add: finishes_accepted_once_def example_outside_def)
  have b: "backoff_bounded example_strategy"
    by (simp add: backoff_bounded_def backoff_factor_def example_strategy_def RetryStrategyOptions_def)
  show ?thesis
    using dispatch_ends_once [OF c f b, of "DispatchConsumerStreaming example_strategy example_outside example_context"] d
    by (simp add: target_calls_def)
qed

text \<open>
  C33: As long as the longest back-off fits into a signed 64-bit number of nanoseconds, the target finishes each
  context it accepts once and none that it refuses, and the context has a callback, no computation of the dispatcher overflows, and a retry is scheduled for exactly the time read
  plus the retry count times the delay, or for the exponential strategy the delay doubled for each retry after the first.
\<close>

theorem dispatch_backoff_exact:
  assumes "backoff_bounded s" "ac_retry_count context = 0" "finishes_accepted_once out" "ac_callback context \<noteq> None"
  shows "\<exists>evs. Dispatch s out context = Inr evs \<and>
     (\<forall>c t. TargetAt c t \<in> set evs \<longrightarrow>
        unat t = unat (clock out c) +
          (case retry_strategy_type s of Linear \<Rightarrow> unat c | Exponential \<Rightarrow> 2 ^ (unat c - 1)) *
            unat (delay_duration_ms s) * 1000000)"
proof -
  let ?out = "out\<lparr>messages := \<lambda>_. 0\<rparr>"
  obtain evs where d: "DispatchWithRetry s ?out (ac_expiration_time context) 0 = Inr evs"
    using dispatch_no_fault [OF assms(1), of 0 ?out "ac_expiration_time context"] by auto
  have f: "finishes_accepted_once ?out" using assms(3) by (simp add: finishes_accepted_once_def)
  have "unat t = unat (clock out c) + backoff_factor s c * unat (delay_duration_ms s) * 1000000"
    if "TargetAt c t \<in> set evs" for c t
  proof -
    have t: "t < ac_expiration_time context" "clock out c \<le> t" "delayed s ?out c t"
      using dispatch_well [OF d f] that by (auto simp: well_dispatched_def)
    have "c \<in> set (target_calls evs)" using that by (force simp: target_calls_def)
    then have c: "c \<noteq> 0" "c \<le> max 1 (maximum_allowed_retry_count s)"
      using dispatch_well [OF d f] t(3) by (auto simp: well_dispatched_def delayed_def le_max_iff_disj)
    define v where "v = backoff_factor s c * unat (delay_duration_ms s) * 1000000"
    have v: "v < 2 ^ 63" "t = clock out c + of_nat v"
      using backoff_bounded_at [OF assms(1) c] backoff_value [OF c(1), of s] t(3) by (auto simp: delayed_def v_def)
    have "unat (clock out c) < 2 ^ 64" using unsigned_less [of "clock out c"] by simp
    have m: "unat t = (unat (clock out c) + v) mod 2 ^ 64"
      using v by (simp add: unat_word_ariths unat_of_nat take_bit_eq_mod mod_simps)
    have "unat (clock out c) + v < 2 ^ 64"
    proof (rule ccontr)
      assume "\<not> unat (clock out c) + v < 2 ^ 64"
      moreover have "unat (clock out c) + v - 2 ^ 64 < 2 ^ 64"
        using v(1) \<open>unat (clock out c) < 2 ^ 64\<close> by simp
      ultimately have "unat t = unat (clock out c) + v - 2 ^ 64" using m by (simp add: le_mod_geq)
      then show False using t(2) v(1) \<open>\<not> unat (clock out c) + v < 2 ^ 64\<close> by (simp add: word_le_nat_alt)
    qed
    then show ?thesis using m by (simp add: v_def)
  qed
  then show ?thesis using d assms(2,4) unfolding Dispatch_def backoff_factor_def by auto
qed

theorem dispatch_backoff_exact_witness:
  "backoff_bounded example_strategy \<and>
   (\<exists>evs. Dispatch example_strategy example_outside example_context = Inr evs \<and>
      (\<forall>t. TargetAt 2 t \<in> set evs \<longrightarrow> unat t = unat (clock example_outside 2) + 2 * 10 * 1000000))"
proof -
  have b: "backoff_bounded example_strategy"
    by (simp add: backoff_bounded_def backoff_factor_def example_strategy_def RetryStrategyOptions_def)
  have c: "ac_retry_count example_context = 0" "ac_callback example_context \<noteq> None" by code_simp+
  have f: "finishes_accepted_once example_outside" by (simp add: finishes_accepted_once_def example_outside_def)
  show ?thesis using dispatch_backoff_exact [OF b c(1) f c(2)] b
    by (auto simp: example_strategy_def RetryStrategyOptions_def)
qed

end
