(* ===== verification/Base64.thy ===== *)
theory Base64
  imports Error_Codes
begin

text \<open>
  Base64 with results: cc/core/utils/src/base64.cc. The coding itself is done by the crypto
  library, which is a parameter; the locale states what its documentation promises, and it is
  interpreted on the alphabet and padding of RFC 4648.
\<close>

section \<open>Operations\<close>

definition SC_CORE_UTILS_INVALID_INPUT :: StatusCode where
  "SC_CORE_UTILS_INVALID_INPUT = MakeErrorCode 0x0014 0x0001"

definition SC_CORE_UTILS_INVALID_BASE64_ENCODING_LENGTH :: StatusCode where
  "SC_CORE_UTILS_INVALID_BASE64_ENCODING_LENGTH = MakeErrorCode 0x0014 0x0002"

text \<open>
  The length functions give the size of the buffer to provide, the coding functions what
  they write there; \<open>None\<close> is a returned 0. \<open>EVP_EncodeBlock\<close> returns the number of
  characters written, without the NUL behind them.
\<close>

record evp =
  EVP_EncodedLength :: "nat \<Rightarrow> nat option"
  EVP_EncodeBlock :: "string \<Rightarrow> string"
  EVP_DecodedLength :: "nat \<Rightarrow> nat option"
  EVP_DecodeBase64 :: "nat \<Rightarrow> string \<Rightarrow> string option"

text \<open>The second component is the out-parameter, which keeps its value on a failure.\<close>

definition Base64Decode :: "evp \<Rightarrow> string \<Rightarrow> string \<Rightarrow> ExecutionResult \<times> string" where
  "Base64Decode ssl encoded decoded =
     (if length encoded mod 4 \<noteq> 0
      then (FailureExecutionResult SC_CORE_UTILS_INVALID_BASE64_ENCODING_LENGTH, decoded)
      else case EVP_DecodedLength ssl (length encoded) of
             None \<Rightarrow> (FailureExecutionResult SC_CORE_UTILS_INVALID_INPUT, decoded)
           | Some required_len \<Rightarrow>
               (case EVP_DecodeBase64 ssl required_len encoded of
                  None \<Rightarrow> (FailureExecutionResult SC_CORE_UTILS_INVALID_INPUT, decoded)
                | Some out \<Rightarrow> (SuccessExecutionResult, out)))"

definition Base64Encode :: "evp \<Rightarrow> string \<Rightarrow> string \<Rightarrow> ExecutionResult \<times> string" where
  "Base64Encode ssl decoded encoded =
     (case EVP_EncodedLength ssl (length decoded) of
        None \<Rightarrow> (FailureExecutionResult SC_CORE_UTILS_INVALID_INPUT, encoded)
      | Some required_len \<Rightarrow>
          let out = EVP_EncodeBlock ssl decoded
          in if length out = 0 then (FailureExecutionResult SC_CORE_UTILS_INVALID_INPUT, encoded)
             else (SuccessExecutionResult, out))"

definition PadBase64Encoding :: "string \<Rightarrow> string ExecutionResultOr" where
  "PadBase64Encoding encoded =
     (if length encoded mod 4 = 0 then HoldsValue encoded
      else if length encoded mod 4 = 2 then HoldsValue (encoded @ ''=='')
      else if length encoded mod 4 = 3 then HoldsValue (encoded @ ''='')
      else HoldsResult (FailureExecutionResult SC_CORE_UTILS_INVALID_BASE64_ENCODING_LENGTH))"

section \<open>What the crypto library promises\<close>

locale base64_coder =
  fixes ssl :: evp
  assumes encoded_length: "\<exists>n. EVP_EncodedLength ssl (length s) = Some n \<and> length (EVP_EncodeBlock ssl s) < n"
    and encode_block: "length (EVP_EncodeBlock ssl s) = (length s + 2) div 3 * 4"
    and decoded_length: "n mod 4 = 0 \<Longrightarrow> EVP_DecodedLength ssl n = Some (n div 4 * 3)"
    and decode_encode: "EVP_DecodeBase64 ssl ((length s + 2) div 3 * 3) (EVP_EncodeBlock ssl s) = Some s"
begin

lemma encode_ok: "Base64Encode ssl s e = (if s = [] then (FailureExecutionResult SC_CORE_UTILS_INVALID_INPUT, e)
    else (SuccessExecutionResult, EVP_EncodeBlock ssl s))"
  using encoded_length [of s] encode_block [of s]
  by (cases s) (auto simp: Base64Encode_def simp del: length_0_conv)

lemma decode_ok: "Base64Decode ssl (EVP_EncodeBlock ssl s) d = (SuccessExecutionResult, s)"
  using decode_encode [of s] by (simp add: Base64Decode_def encode_block decoded_length)

text \<open>Padding restores what encoders that drop the padding left out.\<close>

lemma pad_ok:
  assumes "EVP_EncodeBlock ssl s = e @ pad" "pad \<in> {[], ''='', ''==''}"
  shows "PadBase64Encoding e = HoldsValue (EVP_EncodeBlock ssl s)"
proof -
  have "(length e + length pad) mod 4 = 0" using encode_block [of s] assms(1) by simp
  moreover have "pad = [] \<or> pad = ''='' \<or> pad = ''==''" using assms(2) by auto
  moreover have "(n + 1) mod 4 = 0 \<longleftrightarrow> n mod 4 = 3" "(n + 2) mod 4 = 0 \<longleftrightarrow> n mod 4 = 2" for n :: nat
    by presburger+
  ultimately show ?thesis
    using assms(1) unfolding PadBase64Encoding_def by (elim disjE) simp_all
qed

end

section \<open>The coding of RFC 4648\<close>

definition b64_char :: "nat \<Rightarrow> char" where
  "b64_char v = char_of (if v < 26 then v + 65 else if v < 52 then v + 71 else if v < 62 then v - 4
     else if v = 62 then 43 else 47)"

definition b64_value :: "char \<Rightarrow> nat option" where
  "b64_value c = (let n = (of_char c :: nat)
     in if 65 \<le> n \<and> n \<le> 90 then Some (n - 65) else if 97 \<le> n \<and> n \<le> 122 then Some (n - 71)
        else if 48 \<le> n \<and> n \<le> 57 then Some (n + 4) else if n = 43 then Some 62 else if n = 47 then Some 63 else None)"

lemma b64_value_char [simp]: "v < 64 \<Longrightarrow> b64_value (b64_char v) = Some v" "b64_char v \<noteq> CHR ''=''"
proof -
  show "v < 64 \<Longrightarrow> b64_value (b64_char v) = Some v" by (auto simp: b64_value_def b64_char_def Let_def)
  have "(of_char (b64_char v) :: nat) \<noteq> of_char (CHR ''='')"
    by (auto simp: b64_char_def)
  then show "b64_char v \<noteq> CHR ''=''" by metis
qed

fun rfc_encode :: "string \<Rightarrow> string" where
  "rfc_encode [] = []"
| "rfc_encode [a] = (let x = of_char a in [b64_char (x div 4), b64_char (x mod 4 * 16), CHR ''='', CHR ''=''])"
| "rfc_encode [a, b] = (let x = of_char a; y = of_char b
     in [b64_char (x div 4), b64_char (x mod 4 * 16 + y div 16), b64_char (y mod 16 * 4), CHR ''=''])"
| "rfc_encode (a # b # c # s) = (let x = of_char a; y = of_char b; z = of_char c
     in b64_char (x div 4) # b64_char (x mod 4 * 16 + y div 16) # b64_char (y mod 16 * 4 + z div 64) # b64_char (z mod 64) #
        rfc_encode s)"

fun rfc_decode :: "string \<Rightarrow> string option" where
  "rfc_decode [] = Some []"
| "rfc_decode [p, q, r, s] =
     (case (b64_value p, b64_value q) of
        (Some p', Some q') \<Rightarrow>
          if r = CHR ''='' then (if s = CHR ''='' then Some [char_of (p' * 4 + q' div 16)] else None)
          else (case b64_value r of
                  None \<Rightarrow> None
                | Some r' \<Rightarrow>
                    if s = CHR ''='' then Some [char_of (p' * 4 + q' div 16), char_of (q' mod 16 * 16 + r' div 4)]
                    else map_option (\<lambda>s'. [char_of (p' * 4 + q' div 16), char_of (q' mod 16 * 16 + r' div 4),
                           char_of (r' mod 4 * 64 + s')]) (b64_value s))
      | _ \<Rightarrow> None)"
| "rfc_decode (p # q # r # s # rest) =
     (case (b64_value p, b64_value q, b64_value r, b64_value s) of
        (Some p', Some q', Some r', Some s') \<Rightarrow>
          map_option (\<lambda>t. char_of (p' * 4 + q' div 16) # char_of (q' mod 16 * 16 + r' div 4) # char_of (r' mod 4 * 64 + s') # t)
            (rfc_decode rest)
      | _ \<Rightarrow> None)"
| "rfc_decode _ = None"

lemma of_char_256: "(of_char c :: nat) < 256"
  by simp

lemma nat_split:
  assumes "x < m * (n :: nat)" "0 < n"
  obtains a b where "x = a * n + b" "b < n" "a < m"
  using assms that [of "x div n" "x mod n"] by (simp add: less_mult_imp_div_less)

lemma sextets:
  fixes x y z :: nat
  assumes "x < 256" "y < 256" "z < 256"
  shows "x div 4 < 64 \<and> x mod 4 * 16 + y div 16 < 64 \<and> y mod 16 * 4 + z div 64 < 64 \<and> x mod 4 * 16 < 64 \<and> y mod 16 * 4 < 64 \<and>
    x div 4 * 4 + (x mod 4 * 16 + y div 16) div 16 = x \<and> x div 4 * 4 + x mod 4 * 16 div 16 = x \<and>
    (x mod 4 * 16 + y div 16) mod 16 * 16 + (y mod 16 * 4 + z div 64) div 4 = y \<and>
    (x mod 4 * 16 + y div 16) mod 16 * 16 + (y mod 16 * 4) div 4 = y \<and>
    (y mod 16 * 4 + z div 64) mod 4 * 64 + z mod 64 = z"
proof -
  obtain a b where x: "x = a * 4 + b" "b < 4" "a < 64" using assms(1) by (auto intro: nat_split [of x 64 4])
  obtain c d where y: "y = c * 16 + d" "d < 16" "c < 16" using assms(2) by (auto intro: nat_split [of y 16 16])
  obtain e f where z: "z = e * 64 + f" "f < 64" "e < 4" using assms(3) by (auto intro: nat_split [of z 4 64])
  show ?thesis using x y z by simp
qed

lemma rfc_roundtrip: "rfc_decode (rfc_encode s) = Some s"
proof (induction s rule: rfc_encode.induct)
  case (4 a b c s)
  note q = sextets [OF of_char_256 [of a] of_char_256 [of b] of_char_256 [of c]]
  show ?case
  proof (cases "rfc_encode s")
    case Nil
    then have "s = []" by (cases s rule: rfc_encode.cases) (simp_all add: Let_def)
    then show ?thesis using q by (simp add: Let_def)
  next
    case (Cons e es)
    then show ?thesis using q 4 by (simp add: Let_def)
  qed
next
  case (2 a)
  then show ?case using sextets [OF of_char_256 [of a] of_char_256 [of a] of_char_256 [of a]] by (simp add: Let_def)
next
  case (3 a b)
  then show ?case using sextets [OF of_char_256 [of a] of_char_256 [of b] of_char_256 [of a]] by (simp add: Let_def)
qed simp

lemma rfc_length: "length (rfc_encode s) = (length s + 2) div 3 * 4"
proof (induction s rule: rfc_encode.induct)
  case (4 a b c s)
  have "(5 + n) div 3 = Suc (Suc (Suc n) div 3)" for n :: nat by presburger
  then show ?case using 4 by (simp add: Let_def)
qed (simp_all add: Let_def)

definition rfc4648 :: evp where
  "rfc4648 = \<lparr>EVP_EncodedLength = \<lambda>n. Some ((n + 2) div 3 * 4 + 1), EVP_EncodeBlock = rfc_encode,
     EVP_DecodedLength = \<lambda>n. if n mod 4 = 0 then Some (n div 4 * 3) else None, EVP_DecodeBase64 = \<lambda>_. rfc_decode\<rparr>"

interpretation rfc: base64_coder rfc4648
  by unfold_locales (simp_all add: rfc4648_def rfc_length rfc_roundtrip)

section \<open>Properties\<close>

text \<open>
  Encoding fails on the empty string and succeeds on every other one; what it gives is
  decoded to the same string, and an encoding whose padding was dropped is restored by
  \<open>PadBase64Encoding\<close>.
\<close>

theorem base64_roundtrip:
  assumes "base64_coder ssl" "Base64Encode ssl s e = (r, encoded)"
  shows "if s = [] then r = FailureExecutionResult SC_CORE_UTILS_INVALID_INPUT \<and> encoded = e
    else r = SuccessExecutionResult \<and> Base64Decode ssl encoded d = (SuccessExecutionResult, s) \<and>
      (\<forall>cut pad. encoded = cut @ pad \<and> pad \<in> {[], ''='', ''==''} \<longrightarrow> PadBase64Encoding cut = HoldsValue encoded)"
  using assms(2) base64_coder.encode_ok [OF assms(1), of s e] base64_coder.decode_ok [OF assms(1), of s d]
    base64_coder.pad_ok [OF assms(1), of s] by (cases "s = []") auto

theorem base64_roundtrip_witness:
  "Base64Encode rfc4648 ''Isabelle'' [] = (SuccessExecutionResult, ''SXNhYmVsbGU='') \<and>
   Base64Decode rfc4648 ''SXNhYmVsbGU='' [] = (SuccessExecutionResult, ''Isabelle'') \<and>
   PadBase64Encoding ''SXNhYmVsbGU'' = HoldsValue ''SXNhYmVsbGU=''"
proof -
  have e: "Base64Encode rfc4648 ''Isabelle'' [] = (SuccessExecutionResult, ''SXNhYmVsbGU='')" by code_simp
  have ne: "''Isabelle'' \<noteq> []" by simp
  note t = base64_roundtrip [OF rfc.base64_coder_axioms e, of "[]", unfolded if_not_P [OF ne]]
  have "''SXNhYmVsbGU='' = ''SXNhYmVsbGU'' @ ''=''" by simp
  then have "PadBase64Encoding ''SXNhYmVsbGU'' = HoldsValue ''SXNhYmVsbGU=''"
    using t by blast
  then show ?thesis using t e by simp
qed

end
