(* ===== verification/Private_Key_Client.thy ===== *)
theory Private_Key_Client
  imports Async_Context Base64 "HOL-Library.Char_ord" "HOL-Library.List_Lexorder"
begin

text \<open>
  Listing of private keys: cc/cpio/client_providers/private_key_client_provider/src/
  private_key_client_provider.cc and private_key_client_utils.cc. A private key is split
  over several endpoints; the client fetches every split, has it decrypted and puts the key
  together again. The key fetcher and the key management service answer some time after they
  were asked, in any order, so a listing is a state on which their callbacks are events.
\<close>

section \<open>Keys\<close>

datatype EncryptionKeyType = kUnknownEncryptionKeyType | kSinglePartyHybridKey | kMultiPartyHybridEvenKeysplit

text \<open>A shared pointer to a string that may be null is an option.\<close>

record KeyData =
  public_key_signature :: "string option"
  key_encryption_key_uri :: "string option"
  key_material :: "string option"

record EncryptionKey =
  ek_key_id :: "string option"
  resource_name :: "string option"
  encryption_key_type :: EncryptionKeyType
  public_keyset_handle :: "string option"
  public_key_material :: "string option"
  expiration_time_in_ms :: Timestamp
  creation_time_in_ms :: Timestamp
  key_data :: "KeyData list"

definition deref :: "'a option \<Rightarrow> cpp_fault + 'a" where
  "deref p = (case p of None \<Rightarrow> Inl UndefinedBehaviour | Some x \<Rightarrow> Inr x)"

record PrivateKeyVendingEndpoint =
  account_identity :: string
  service_region :: string
  private_key_vending_service_endpoint :: string
  gcp_private_key_vending_service_cloudfunction_url :: string
  gcp_wip_provider :: string

record PrivateKeyClientOptions =
  primary_private_key_vending_endpoint :: PrivateKeyVendingEndpoint
  secondary_private_key_vending_endpoints :: "PrivateKeyVendingEndpoint list"

record PrivateKeyFetchingRequest =
  key_vending_endpoint :: PrivateKeyVendingEndpoint
  fr_key_id :: "string option"
  fr_max_age_seconds :: u32

record ListPrivateKeysRequest =
  key_ids :: "string list"
  max_age_seconds :: u64

record DecryptRequest =
  dr_ciphertext :: string
  dr_key_resource_name :: string
  dr_account_identity :: string
  dr_kms_region :: string
  dr_gcp_wip_provider :: string

record 't PrivateKey =
  pk_key_id :: string
  pk_public_key :: string
  pk_private_key :: string
  pk_expiration_time :: 't
  pk_creation_time :: 't

datatype ListingMethod = kByKeyId | kByMaxAge

record DecryptResult =
  decrypt_result :: ExecutionResult
  dec_encryption_key :: EncryptionKey
  plaintext :: string

record ('f, 'd) KeysResultPerEndpoint =
  fetch_result_key_id_map :: 'f
  fetch_result :: ExecutionResult
  decrypt_result_key_id_map :: 'd

definition SC_PRIVATE_KEY_CLIENT_PROVIDER_KEY_DATA_NOT_FOUND :: StatusCode where
  "SC_PRIVATE_KEY_CLIENT_PROVIDER_KEY_DATA_NOT_FOUND = MakeErrorCode 0x0223 0x0001"

definition SC_PRIVATE_KEY_CLIENT_PROVIDER_SECRET_PIECE_SIZE_UNMATCHED :: StatusCode where
  "SC_PRIVATE_KEY_CLIENT_PROVIDER_SECRET_PIECE_SIZE_UNMATCHED = MakeErrorCode 0x0223 0x0002"

definition SC_PRIVATE_KEY_CLIENT_PROVIDER_UNMATCHED_ENDPOINTS_SPLITS :: StatusCode where
  "SC_PRIVATE_KEY_CLIENT_PROVIDER_UNMATCHED_ENDPOINTS_SPLITS = MakeErrorCode 0x0223 0x0003"

definition SC_PRIVATE_KEY_CLIENT_PROVIDER_INVALID_KEY_RESOURCE_NAME :: StatusCode where
  "SC_PRIVATE_KEY_CLIENT_PROVIDER_INVALID_KEY_RESOURCE_NAME = MakeErrorCode 0x0223 0x0004"

definition SC_PRIVATE_KEY_CLIENT_PROVIDER_INVALID_KEY_DATA_COUNT :: StatusCode where
  "SC_PRIVATE_KEY_CLIENT_PROVIDER_INVALID_KEY_DATA_COUNT = MakeErrorCode 0x0223 0x0006"

definition SC_PRIVATE_KEY_CLIENT_PROVIDER_CANNOT_CREATE_JSON_KEY_SET :: StatusCode where
  "SC_PRIVATE_KEY_CLIENT_PROVIDER_CANNOT_CREATE_JSON_KEY_SET = MakeErrorCode 0x0223 0x0007"

definition SC_PRIVATE_KEY_CLIENT_PROVIDER_CANNOT_READ_ENCRYPTED_KEY_SET :: StatusCode where
  "SC_PRIVATE_KEY_CLIENT_PROVIDER_CANNOT_READ_ENCRYPTED_KEY_SET = MakeErrorCode 0x0223 0x0008"

section \<open>PrivateKeyClientUtils\<close>

text \<open>
  The libraries: Tink's reader of JSON key sets, which may reject the text or the key set
  in it, Abseil's and the crypto library's base64, protobuf's timestamps, and whether the
  logger writes, which decides whether the arguments of a log statement are evaluated.
\<close>

record 't key_libs =
  JsonKeysetReader_New :: "string \<Rightarrow> bool"
  ReadEncrypted :: "string \<Rightarrow> string option"
  Base64Escape :: "string \<Rightarrow> string"
  evp_base64 :: evp
  MillisecondsToTimestamp :: "Timestamp \<Rightarrow> 't"
  logging :: bool

definition kKeyArnPrefixSize :: nat where
  "kKeyArnPrefixSize = 10"

text \<open>\<open>substr\<close> throws when the position is beyond the end.\<close>

definition substr_from :: "nat \<Rightarrow> string \<Rightarrow> cpp_fault + string" where
  "substr_from n s = (if length s < n then Inl ThrowsException else Inr (drop n s))"

fun GetKmsDecryptRequest_loop :: "KeyData list \<Rightarrow> DecryptRequest \<Rightarrow> cpp_fault + (ExecutionResult \<times> DecryptRequest)" where
  "GetKmsDecryptRequest_loop [] req =
     Inr (FailureExecutionResult SC_PRIVATE_KEY_CLIENT_PROVIDER_KEY_DATA_NOT_FOUND, req)"
| "GetKmsDecryptRequest_loop (d # ds) req =
     (case key_material d of
        Some material \<Rightarrow>
          if material = [] then GetKmsDecryptRequest_loop ds req
          else bindE (deref (key_encryption_key_uri d)) (\<lambda>uri.
            if length uri < kKeyArnPrefixSize
            then Inr (FailureExecutionResult SC_PRIVATE_KEY_CLIENT_PROVIDER_INVALID_KEY_RESOURCE_NAME, req)
            else bindE (substr_from kKeyArnPrefixSize uri) (\<lambda>name.
              Inr (SuccessExecutionResult, req\<lparr>dr_key_resource_name := name, dr_ciphertext := material\<rparr>)))
      | None \<Rightarrow> GetKmsDecryptRequest_loop ds req)"

definition GetKmsDecryptRequest ::
  "'t key_libs \<Rightarrow> EncryptionKey \<Rightarrow> DecryptRequest \<Rightarrow> cpp_fault + (ExecutionResult \<times> DecryptRequest)" where
  "GetKmsDecryptRequest libs key req =
     (case encryption_key_type key of
        kSinglePartyHybridKey \<Rightarrow>
          if length (key_data key) \<noteq> 1
          then Inr (FailureExecutionResult SC_PRIVATE_KEY_CLIENT_PROVIDER_INVALID_KEY_DATA_COUNT, req)
          else let d = hd (key_data key) in
            bindE (deref (key_material d)) (\<lambda>material.
              if \<not> JsonKeysetReader_New libs material
              then Inr (FailureExecutionResult SC_PRIVATE_KEY_CLIENT_PROVIDER_CANNOT_CREATE_JSON_KEY_SET, req)
              else case ReadEncrypted libs material of
                     None \<Rightarrow> Inr (FailureExecutionResult SC_PRIVATE_KEY_CLIENT_PROVIDER_CANNOT_READ_ENCRYPTED_KEY_SET, req)
                   | Some encrypted_keyset \<Rightarrow>
                       bindE (deref (key_encryption_key_uri d)) (\<lambda>uri.
                         bindE (substr_from kKeyArnPrefixSize uri) (\<lambda>name.
                           Inr (SuccessExecutionResult,
                             req\<lparr>dr_ciphertext := Base64Escape libs encrypted_keyset, dr_key_resource_name := name\<rparr>))))
      | kMultiPartyHybridEvenKeysplit \<Rightarrow> GetKmsDecryptRequest_loop (key_data key) req
      | kUnknownEncryptionKeyType \<Rightarrow>
          Inr (FailureExecutionResult SC_PRIVATE_KEY_CLIENT_PROVIDER_KEY_DATA_NOT_FOUND, req))"

definition StrToBytes :: "string \<Rightarrow> u8 list" where
  "StrToBytes s = map of_char s"

definition XOR_bytes :: "u8 list \<Rightarrow> u8 list \<Rightarrow> cpp_fault + u8 list" where
  "XOR_bytes arr1 arr2 =
     (if length arr2 < length arr1 then Inl UndefinedBehaviour
      else Inr (map (\<lambda>i. xor (arr1 ! i) (arr2 ! i)) [0..<length arr1]))"

fun ConstructPrivateKey_loop :: "u8 list \<Rightarrow> DecryptResult list \<Rightarrow> cpp_fault + u8 list ExecutionResultOr" where
  "ConstructPrivateKey_loop xor_secret [] = Inr (HoldsValue xor_secret)"
| "ConstructPrivateKey_loop xor_secret (d # ds) =
     (let next_piece = StrToBytes (plaintext d)
      in if length xor_secret \<noteq> length next_piece
         then Inr (HoldsResult (FailureExecutionResult SC_PRIVATE_KEY_CLIENT_PROVIDER_SECRET_PIECE_SIZE_UNMATCHED))
         else bindE (XOR_bytes xor_secret next_piece) (\<lambda>xor_secret. ConstructPrivateKey_loop xor_secret ds))"

definition BytesToStr :: "u8 list \<Rightarrow> string" where
  "BytesToStr bytes = map (\<lambda>b. char_of (unat b)) bytes"

text \<open>\<open>&xor_secret[0]\<close> of an empty vector has no meaning.\<close>

definition ConstructPrivateKey :: "'t key_libs \<Rightarrow> DecryptResult list \<Rightarrow> cpp_fault + 't PrivateKey ExecutionResultOr" where
  "ConstructPrivateKey libs decrypt_results =
     (case decrypt_results of
        [] \<Rightarrow> Inr (HoldsResult (FailureExecutionResult SC_PRIVATE_KEY_CLIENT_PROVIDER_KEY_DATA_NOT_FOUND))
      | d # ds \<Rightarrow>
          let key = dec_encryption_key d in
          bindE (deref (ek_key_id key)) (\<lambda>key_id.
          bindE (deref (public_key_material key)) (\<lambda>public_key.
          bindE (ConstructPrivateKey_loop (StrToBytes (plaintext d)) ds) (\<lambda>secret_or.
            case secret_or of
              HoldsResult r \<Rightarrow> Inr (HoldsResult r)
            | HoldsValue xor_secret \<Rightarrow>
                if xor_secret = [] then Inl UndefinedBehaviour
                else let (r, encoded_key) = Base64Encode (evp_base64 libs) (BytesToStr xor_secret) []
                     in if \<not> Successful r then Inr (HoldsResult r)
                        else Inr (HoldsValue \<lparr>pk_key_id = key_id, pk_public_key = public_key,
                               pk_private_key = encoded_key,
                               pk_expiration_time = MillisecondsToTimestamp libs (expiration_time_in_ms key),
                               pk_creation_time = MillisecondsToTimestamp libs (creation_time_in_ms key)\<rparr>)))))"

type_synonym ('f, 'd) maps =
  "('f, string, ExecutionResult) tbb_hash_map \<times> ('d, string, DecryptResult) tbb_hash_map"

text \<open>
  The out-parameter of \<open>Find\<close> keeps its default value when the key is missing, but is
  only read when it was found.
\<close>

definition endpoint_failure :: "('f, 'd) maps \<Rightarrow> ('f, 'd) KeysResultPerEndpoint \<Rightarrow> string \<Rightarrow> ExecutionResult" where
  "endpoint_failure M key_result key_id =
     (if \<not> Successful (fetch_result key_result) then fetch_result key_result
      else case snd (ConcurrentMap_Find (fst M) (fetch_result_key_id_map key_result) key_id) of
             Some fetched \<Rightarrow>
               if \<not> Successful fetched then fetched
               else (case snd (ConcurrentMap_Find (snd M) (decrypt_result_key_id_map key_result) key_id) of
                       Some decrypted \<Rightarrow> decrypt_result decrypted
                     | None \<Rightarrow> SuccessExecutionResult)
           | None \<Rightarrow>
               (case snd (ConcurrentMap_Find (snd M) (decrypt_result_key_id_map key_result) key_id) of
                  Some decrypted \<Rightarrow> decrypt_result decrypted
                | None \<Rightarrow> SuccessExecutionResult))"

fun ExtractAnyFailure :: "('f, 'd) maps \<Rightarrow> ('f, 'd) KeysResultPerEndpoint list \<Rightarrow> string \<Rightarrow> ExecutionResult" where
  "ExtractAnyFailure M [] key_id = SuccessExecutionResult"
| "ExtractAnyFailure M (key_result # keys_result) key_id =
     (let failure = endpoint_failure M key_result key_id
      in if \<not> Successful failure then failure else ExtractAnyFailure M keys_result key_id)"

fun ExtractSinglePartyKey :: "('f, 'd) maps \<Rightarrow> ('f, 'd) KeysResultPerEndpoint list \<Rightarrow> string \<Rightarrow> DecryptResult option" where
  "ExtractSinglePartyKey M [] key_id = None"
| "ExtractSinglePartyKey M (key_result # keys_result) key_id =
     (case snd (ConcurrentMap_Find (snd M) (decrypt_result_key_id_map key_result) key_id) of
        Some decrypted \<Rightarrow>
          if encryption_key_type (dec_encryption_key decrypted) = kSinglePartyHybridKey then Some decrypted
          else ExtractSinglePartyKey M keys_result key_id
      | None \<Rightarrow> ExtractSinglePartyKey M keys_result key_id)"

section \<open>State of a listing\<close>

record ('f, 'd) ListPrivateKeysStatus =
  result_list :: "('f, 'd) KeysResultPerEndpoint list"
  key_id_set :: "string set"
  listing_method :: ListingMethod
  call_count_per_endpoint :: u64
  total_key_split_count :: size_t
  finished_key_split_count :: size_t
  fetching_call_returned_count :: size_t
  got_failure :: bool

text \<open>
  A listing as a whole: the status, which all callbacks share, the calls that
  \<open>ListPrivateKeys\<close> has still to make, by call and endpoint index, the fetches that have
  not been answered, the callbacks of fetches that have counted themselves but not gone on,
  the callbacks that are going through the keys of a response, the decryptions that have not
  been answered, the callbacks of decryptions that have counted their split but not yet
  looked whether it was the last, with the key and the count they found, the calls that have
  finished their context and are about to return a failure, the calls of \<open>Finish\<close> on the
  context of the listing with its result and response, and what \<open>ListPrivateKeys\<close> returns.
\<close>

record ('f, 'd, 't) listing =
  ls_status :: "('f, 'd) ListPrivateKeysStatus"
  ls_to_fetch :: "(nat \<times> nat) list"
  ls_fetches :: "(nat \<times> PrivateKeyFetchingRequest) list"
  ls_entered :: "(nat \<times> PrivateKeyFetchingRequest) list"
  ls_to_decrypt :: "(nat \<times> PrivateKeyVendingEndpoint \<times> EncryptionKey list) list"
  ls_decrypts :: "(nat \<times> EncryptionKey \<times> DecryptRequest) list"
  ls_counted :: "(EncryptionKey option \<times> size_t) list"
  ls_refused :: "ExecutionResult list"
  ls_finishes :: "(ExecutionResult \<times> 't PrivateKey list option) list"
  ls_returned :: "ExecutionResult option"

record PrivateKeyClientProvider =
  private_key_client_options :: PrivateKeyClientOptions
  endpoint_list :: "PrivateKeyVendingEndpoint list"
  endpoint_count :: size_t

definition PrivateKeyClientProvider_Init ::
  "PrivateKeyClientProvider \<Rightarrow> ExecutionResult \<times> PrivateKeyClientProvider" where
  "PrivateKeyClientProvider_Init p =
     (let options = private_key_client_options p;
          endpoints = endpoint_list p @ [primary_private_key_vending_endpoint options] @
            secondary_private_key_vending_endpoints options
      in (SuccessExecutionResult, p\<lparr>endpoint_list := endpoints, endpoint_count := of_nat (length endpoints)\<rparr>))"

text \<open>The status before the first call is made, and the calls to make.\<close>

definition ListPrivateKeys ::
  "('f, 'd) maps \<Rightarrow> PrivateKeyClientProvider \<Rightarrow> ListPrivateKeysRequest \<Rightarrow> ('f, 'd, 't) listing" where
  "ListPrivateKeys M p request =
     (let method = (if key_ids request = [] then kByMaxAge else kByKeyId);
          endpoints = unat (endpoint_count p);
          calls = (if method = kByKeyId then length (key_ids request) else 1)
      in \<lparr>ls_status =
             \<lparr>result_list = replicate endpoints
                \<lparr>fetch_result_key_id_map = tbb_new (fst M), fetch_result = SuccessExecutionResult,
                 decrypt_result_key_id_map = tbb_new (snd M)\<rparr>,
              key_id_set = {}, listing_method = method, call_count_per_endpoint = of_nat calls,
              total_key_split_count = 0, finished_key_split_count = 0, fetching_call_returned_count = 0,
              got_failure = False\<rparr>,
          ls_to_fetch = List.product [0..<calls] [0..<endpoints],
          ls_fetches = [], ls_entered = [], ls_to_decrypt = [], ls_decrypts = [], ls_counted = [],
          ls_refused = [], ls_finishes = [],
          ls_returned = (if endpoints = 0 then Some SuccessExecutionResult else None)\<rparr>)"

text \<open>Only the first failure finishes the context.\<close>

definition finish_failed :: "ExecutionResult \<Rightarrow> ('f, 'd, 't) listing \<Rightarrow> ('f, 'd, 't) listing" where
  "finish_failed r ls =
     (if got_failure (ls_status ls) then ls
      else ls\<lparr>ls_status := (ls_status ls)\<lparr>got_failure := True\<rparr>, ls_finishes := ls_finishes ls @ [(r, None)]\<rparr>)"

text \<open>
  One round of the loops of \<open>ListPrivateKeys\<close>: \<open>answer\<close> is what \<open>FetchPrivateKey\<close>
  returns at once; \<open>finishes\<close> says whether a call that returns a failure finishes its
  context all the same, so that the callback runs as well, before or after the return.
\<close>

definition ListPrivateKeys_round ::
  "PrivateKeyClientProvider \<Rightarrow> ListPrivateKeysRequest \<Rightarrow> ExecutionResult \<Rightarrow> bool \<Rightarrow> ('f, 'd, 't) listing \<Rightarrow>
   ('f, 'd, 't) listing" where
  "ListPrivateKeys_round p request answer finishes ls =
     (case ls_to_fetch ls of
        [] \<Rightarrow> ls
      | (call_index, uri_index) # rest \<Rightarrow>
          let fetch = \<lparr>key_vending_endpoint = endpoint_list p ! uri_index,
                 fr_key_id = (if listing_method (ls_status ls) = kByKeyId then Some (key_ids request ! call_index) else None),
                 fr_max_age_seconds = (if listing_method (ls_status ls) = kByKeyId then 0 else ucast (max_age_seconds request))\<rparr>
          in if \<not> Successful answer \<and> finishes
             then ls\<lparr>ls_to_fetch := [], ls_fetches := ls_fetches ls @ [(uri_index, fetch)],
                     ls_refused := ls_refused ls @ [answer], ls_returned := Some answer\<rparr>
             else if \<not> Successful answer then finish_failed answer (ls\<lparr>ls_to_fetch := [], ls_returned := Some answer\<rparr>)
             else ls\<lparr>ls_to_fetch := rest, ls_fetches := ls_fetches ls @ [(uri_index, fetch)],
                     ls_returned := (if rest = [] then Some SuccessExecutionResult else None)\<rparr>)"

section \<open>The end of a listing\<close>

text \<open>
  The splits of a key from all endpoints: \<open>Inl\<close> the failure of the listing, \<open>Inr None\<close>
  when a split is missing. The log statement of a missing split reads the key the current
  callback is about, which is null when it stands for an endpoint without keys.
\<close>

definition log_unmatched :: "'t key_libs \<Rightarrow> EncryptionKey option \<Rightarrow> cpp_fault + unit" where
  "log_unmatched libs encryption_key =
     (if logging libs then bindE (deref encryption_key) (\<lambda>key. bindE (deref (ek_key_id key)) (\<lambda>_. Inr ())) else Inr ())"

fun OnDecrypt_splits ::
  "('f, 'd) maps \<Rightarrow> 't key_libs \<Rightarrow> EncryptionKey option \<Rightarrow> ListingMethod \<Rightarrow> size_t \<Rightarrow>
   ('f, 'd) KeysResultPerEndpoint list \<Rightarrow> string \<Rightarrow> cpp_fault + (ExecutionResult + DecryptResult list option)" where
  "OnDecrypt_splits M libs encryption_key method endpoints [] key_id = Inr (Inr (Some []))"
| "OnDecrypt_splits M libs encryption_key method endpoints (key_result # keys_result) key_id =
     (case snd (ConcurrentMap_Find (snd M) (decrypt_result_key_id_map key_result) key_id) of
        Some decrypted \<Rightarrow>
          if of_nat (length (key_data (dec_encryption_key decrypted))) \<noteq> endpoints
          then bindE (log_unmatched libs encryption_key) (\<lambda>_. Inr
            (if method = kByKeyId
             then Inl (FailureExecutionResult SC_PRIVATE_KEY_CLIENT_PROVIDER_UNMATCHED_ENDPOINTS_SPLITS)
             else Inr None))
          else bindE (OnDecrypt_splits M libs encryption_key method endpoints keys_result key_id) (\<lambda>splits.
            Inr (map_sum id (map_option (Cons decrypted)) splits))
      | None \<Rightarrow>
          bindE (log_unmatched libs encryption_key) (\<lambda>_. Inr
            (if method = kByKeyId
             then Inl (FailureExecutionResult SC_PRIVATE_KEY_CLIENT_PROVIDER_UNMATCHED_ENDPOINTS_SPLITS)
             else Inr None)))"

text \<open>The loop over the key ids: the result and the keys that are already in the response.\<close>

fun OnDecrypt_keys ::
  "('f, 'd) maps \<Rightarrow> 't key_libs \<Rightarrow> EncryptionKey option \<Rightarrow> ListingMethod \<Rightarrow> size_t \<Rightarrow>
   ('f, 'd) KeysResultPerEndpoint list \<Rightarrow> 't PrivateKey list \<Rightarrow> string list \<Rightarrow>
   cpp_fault + (ExecutionResult \<times> 't PrivateKey list)" where
  "OnDecrypt_keys M libs encryption_key method endpoints results keys [] = Inr (SuccessExecutionResult, keys)"
| "OnDecrypt_keys M libs encryption_key method endpoints results keys (key_id # ids) =
     bindE
       (case ExtractSinglePartyKey M results key_id of
          Some single_party_key \<Rightarrow> Inr (Inr (Some [single_party_key]))
        | None \<Rightarrow>
            let execution_result = ExtractAnyFailure M results key_id
            in if \<not> Successful execution_result then Inr (Inl execution_result)
               else OnDecrypt_splits M libs encryption_key method endpoints results key_id)
       (\<lambda>splits.
         case splits of
           Inl failure \<Rightarrow> Inr (failure, keys)
         | Inr None \<Rightarrow> OnDecrypt_keys M libs encryption_key method endpoints results keys ids
         | Inr (Some success_decrypt_result) \<Rightarrow>
             bindE (ConstructPrivateKey libs success_decrypt_result) (\<lambda>private_key_or.
               case private_key_or of
                 HoldsResult r \<Rightarrow> Inr (r, keys)
               | HoldsValue private_key \<Rightarrow>
                   OnDecrypt_keys M libs encryption_key method endpoints results (keys @ [private_key]) ids))"

section \<open>Callbacks\<close>

definition InsertDecryptResult ::
  "('d, string, DecryptResult) tbb_hash_map \<Rightarrow> 'd \<Rightarrow> EncryptionKey \<Rightarrow> ExecutionResult \<Rightarrow> string \<Rightarrow>
   cpp_fault + (ExecutionResult \<times> 'd)" where
  "InsertDecryptResult MD m key r text =
     bindE (deref (ek_key_id key)) (\<lambda>key_id.
       let (insert_result, _, m') =
             ConcurrentMap_Insert MD m (key_id, \<lparr>decrypt_result = r, dec_encryption_key = key, plaintext = text\<rparr>)
       in Inr (insert_result, m'))"

text \<open>The check for the end, with the number of splits that were finished before this one.\<close>

definition OnDecrypt_end ::
  "('f, 'd) maps \<Rightarrow> 't key_libs \<Rightarrow> size_t \<Rightarrow> EncryptionKey option \<Rightarrow> size_t \<Rightarrow> ('f, 'd, 't) listing \<Rightarrow>
   cpp_fault + ('f, 'd, 't) listing" where
  "OnDecrypt_end M libs endpoints encryption_key finished_key_split_count_prev ls =
     (let st = ls_status ls
      in if fetching_call_returned_count st = call_count_per_endpoint st * endpoints \<and>
            finished_key_split_count_prev = total_key_split_count st - 1
         then bindE (OnDecrypt_keys M libs encryption_key (listing_method st) endpoints (result_list st) []
                (sorted_list_of_set (key_id_set st)))
                (\<lambda>(r, keys). Inr (ls\<lparr>ls_finishes := ls_finishes ls @ [(r, Some keys)]\<rparr>))
         else Inr ls)"

text \<open>
  The callback of a decryption up to the point where it has counted its split: \<open>None\<close> when
  it returns early, otherwise the number of splits that were finished before.
\<close>

definition OnDecrypt_enter ::
  "('f, 'd) maps \<Rightarrow> ExecutionResult \<Rightarrow> string option \<Rightarrow> EncryptionKey option \<Rightarrow> nat \<Rightarrow>
   ('f, 'd, 't) listing \<Rightarrow> cpp_fault + (('f, 'd, 't) listing \<times> size_t option)" where
  "OnDecrypt_enter M r response encryption_key uri_index ls =
     (let st = ls_status ls
      in if got_failure st then Inr (ls, None)
         else case encryption_key of
           None \<Rightarrow> Inr (ls, Some (finished_key_split_count st - 1))
         | Some key \<Rightarrow>
             bindE (if Successful r then deref response else Inr []) (\<lambda>text.
             bindE (InsertDecryptResult (snd M) (decrypt_result_key_id_map (result_list st ! uri_index)) key r text)
               (\<lambda>(insert_result, m').
                 let st1 = st\<lparr>result_list := (result_list st)[uri_index :=
                             (result_list st ! uri_index)\<lparr>decrypt_result_key_id_map := m'\<rparr>]\<rparr>
                 in if \<not> Successful insert_result then Inr (finish_failed insert_result (ls\<lparr>ls_status := st1\<rparr>), None)
                    else Inr (ls\<lparr>ls_status := st1\<lparr>finished_key_split_count := finished_key_split_count st + 1\<rparr>\<rparr>,
                           Some (finished_key_split_count st)))))"

definition OnDecryptCallback ::
  "('f, 'd) maps \<Rightarrow> 't key_libs \<Rightarrow> size_t \<Rightarrow> ExecutionResult \<Rightarrow> string option \<Rightarrow> EncryptionKey option \<Rightarrow> nat \<Rightarrow>
   ('f, 'd, 't) listing \<Rightarrow> cpp_fault + ('f, 'd, 't) listing" where
  "OnDecryptCallback M libs endpoints r response encryption_key uri_index ls =
     bindE (OnDecrypt_enter M r response encryption_key uri_index ls) (\<lambda>(ls1, prev).
       case prev of
         None \<Rightarrow> Inr ls1
       | Some finished_key_split_count_prev \<Rightarrow>
           OnDecrypt_end M libs endpoints encryption_key finished_key_split_count_prev ls1)"

text \<open>The same callback, interrupted where it has counted its split.\<close>

definition OnDecrypt_interrupted ::
  "('f, 'd) maps \<Rightarrow> ExecutionResult \<Rightarrow> string option \<Rightarrow> EncryptionKey option \<Rightarrow> nat \<Rightarrow>
   ('f, 'd, 't) listing \<Rightarrow> cpp_fault + ('f, 'd, 't) listing" where
  "OnDecrypt_interrupted M r response encryption_key uri_index ls =
     bindE (OnDecrypt_enter M r response encryption_key uri_index ls) (\<lambda>(ls1, prev). Inr
       (case prev of
          None \<Rightarrow> ls1
        | Some finished_key_split_count_prev \<Rightarrow>
            ls1\<lparr>ls_counted := ls_counted ls1 @ [(encryption_key, finished_key_split_count_prev)]\<rparr>))"

text \<open>
  The callback of a fetch up to the point where it has counted itself; a listing that
  failed is left alone.
\<close>

definition OnFetch_enter :: "nat \<Rightarrow> ('f, 'd, 't) listing \<Rightarrow> ('f, 'd, 't) listing" where
  "OnFetch_enter i ls =
     (let fetch = ls_fetches ls ! i; st = ls_status ls;
          ls1 = ls\<lparr>ls_fetches := take i (ls_fetches ls) @ drop (Suc i) (ls_fetches ls)\<rparr>
      in if got_failure st then ls1
         else ls1\<lparr>ls_status := st\<lparr>fetching_call_returned_count := fetching_call_returned_count st + 1\<rparr>,
                  ls_entered := ls_entered ls @ [fetch]\<rparr>)"

text \<open>
  The rest of it, up to the loop over the keys of the response, or, when there are none, up
  to the call of \<open>OnDecryptCallback\<close> without a key, which the flag asks for.
\<close>

definition OnFetch_proceed ::
  "('f, 'd) maps \<Rightarrow> nat \<Rightarrow> ExecutionResult \<Rightarrow> EncryptionKey list option \<Rightarrow>
   ('f, 'd, 't) listing \<Rightarrow> cpp_fault + (('f, 'd, 't) listing \<times> bool)" where
  "OnFetch_proceed M j execution_result response ls =
     (let (uri_index, request) = ls_entered ls ! j;
          ls1 = ls\<lparr>ls_entered := take j (ls_entered ls) @ drop (Suc j) (ls_entered ls)\<rparr>;
          st = ls_status ls; per_endpoint = result_list st ! uri_index
      in bindE
           (if listing_method st = kByKeyId
            then bindE (deref (fr_key_id request)) (\<lambda>key_id.
              let (insert_result, _, m') =
                    ConcurrentMap_Insert (fst M) (fetch_result_key_id_map per_endpoint) (key_id, execution_result);
                  st1 = st\<lparr>result_list := (result_list st)[uri_index := per_endpoint\<lparr>fetch_result_key_id_map := m'\<rparr>]\<rparr>
              in if \<not> Successful insert_result then Inr (Inl (finish_failed insert_result (ls1\<lparr>ls_status := st1\<rparr>)))
                 else Inr (Inr (ls1\<lparr>ls_status := st1\<lparr>key_id_set := insert key_id (key_id_set st)\<rparr>\<rparr>)))
            else Inr (Inr (ls1\<lparr>ls_status := st\<lparr>result_list := (result_list st)[uri_index :=
                   per_endpoint\<lparr>fetch_result := execution_result\<rparr>]\<rparr>\<rparr>)))
           (\<lambda>stored.
             case stored of
               Inl ls2 \<Rightarrow> Inr (ls2, False)
             | Inr ls2 \<Rightarrow>
                 if \<not> Successful execution_result then Inr (ls2, True)
                 else bindE (deref response) (\<lambda>encryption_keys.
                   if encryption_keys = [] then Inr (ls2, True)
                   else Inr (ls2\<lparr>
                     ls_status := (ls_status ls2)\<lparr>total_key_split_count :=
                       total_key_split_count (ls_status ls2) + of_nat (length encryption_keys)\<rparr>,
                     ls_to_decrypt := ls_to_decrypt ls2 @ [(uri_index, key_vending_endpoint request, encryption_keys)]\<rparr>, False))))"

definition OnFetchPrivateKeyCallback ::
  "('f, 'd) maps \<Rightarrow> 't key_libs \<Rightarrow> size_t \<Rightarrow> nat \<Rightarrow> ExecutionResult \<Rightarrow> EncryptionKey list option \<Rightarrow>
   ('f, 'd, 't) listing \<Rightarrow> cpp_fault + ('f, 'd, 't) listing" where
  "OnFetchPrivateKeyCallback M libs endpoints i execution_result response ls =
     (let ls1 = OnFetch_enter i ls
      in if got_failure (ls_status ls) then Inr ls1
         else bindE (OnFetch_proceed M (length (ls_entered ls)) execution_result response ls1) (\<lambda>(ls2, without_key).
                if without_key
                then OnDecryptCallback M libs endpoints SuccessExecutionResult None None (fst (ls_fetches ls ! i)) ls2
                else Inr ls2))"

text \<open>The second part of a callback that was interrupted, and that is interrupted again.\<close>

definition OnFetch_resume ::
  "('f, 'd) maps \<Rightarrow> nat \<Rightarrow> ExecutionResult \<Rightarrow> EncryptionKey list option \<Rightarrow>
   ('f, 'd, 't) listing \<Rightarrow> cpp_fault + ('f, 'd, 't) listing" where
  "OnFetch_resume M j execution_result response ls =
     bindE (OnFetch_proceed M j execution_result response ls) (\<lambda>(ls2, without_key).
       if without_key
       then OnDecrypt_interrupted M SuccessExecutionResult None None (fst (ls_entered ls ! j)) ls2
       else Inr ls2)"

text \<open>
  One round of its loop over the keys of a response: \<open>answer\<close> is what \<open>Decrypt\<close>
  returns at once, \<open>finishes\<close> whether a call that returns a failure also finishes its
  context, as those of the key management services in this repository do. The loop ends
  behind the last key or at the first failure.
\<close>

definition OnFetch_round ::
  "'t key_libs \<Rightarrow> nat \<Rightarrow> ExecutionResult \<Rightarrow> bool \<Rightarrow> ('f, 'd, 't) listing \<Rightarrow> cpp_fault + ('f, 'd, 't) listing" where
  "OnFetch_round libs j answer finishes ls =
     (let (uri_index, endpoint, encryption_keys) = ls_to_decrypt ls ! j;
          ended = ls\<lparr>ls_to_decrypt := take j (ls_to_decrypt ls) @ drop (Suc j) (ls_to_decrypt ls)\<rparr>
      in case encryption_keys of
           [] \<Rightarrow> Inr ended
         | key # rest \<Rightarrow>
             bindE
               (if listing_method (ls_status ls) = kByMaxAge
                then bindE (deref (ek_key_id key)) (\<lambda>key_id. Inr ((ls_status ls)\<lparr>key_id_set := insert key_id (key_id_set (ls_status ls))\<rparr>))
                else Inr (ls_status ls)) (\<lambda>st.
             bindE (GetKmsDecryptRequest libs key
                 \<lparr>dr_ciphertext = [], dr_key_resource_name = [], dr_account_identity = [], dr_kms_region = [], dr_gcp_wip_provider = []\<rparr>)
               (\<lambda>(execution_result, request).
                 let decrypts = ls_decrypts ls @ [(uri_index, key,
                       request\<lparr>dr_account_identity := account_identity endpoint, dr_kms_region := service_region endpoint,
                         dr_gcp_wip_provider := gcp_wip_provider endpoint\<rparr>)]
                 in if \<not> Successful execution_result then Inr (finish_failed execution_result (ended\<lparr>ls_status := st\<rparr>))
                    else if \<not> Successful answer \<and> finishes
                    then Inr (ended\<lparr>ls_status := st, ls_decrypts := decrypts, ls_refused := ls_refused ls @ [answer]\<rparr>)
                    else if \<not> Successful answer then Inr (finish_failed answer (ended\<lparr>ls_status := st\<rparr>))
                    else Inr (ls\<lparr>ls_status := st,
                      ls_to_decrypt := (ls_to_decrypt ls)[j := (uri_index, endpoint, rest)],
                      ls_decrypts := decrypts\<rparr>))))"

section \<open>Interleaving\<close>

text \<open>
  The world answers each fetch, by endpoint index and request, and each decryption, by
  endpoint index and key, with the answers the calls return at once, whether a call that
  returns a failure finishes its context all the same, and the answers that come through the
  callbacks. A callback is called at most once.
\<close>

record key_world =
  kw_fetch_call :: "nat \<Rightarrow> nat \<Rightarrow> ExecutionResult"
  kw_fetch_finishes :: "nat \<Rightarrow> nat \<Rightarrow> bool"
  kw_fetch :: "nat \<Rightarrow> PrivateKeyFetchingRequest \<Rightarrow> ExecutionResult \<times> EncryptionKey list option"
  kw_decrypt_call :: "nat \<Rightarrow> EncryptionKey \<Rightarrow> ExecutionResult"
  kw_decrypt_finishes :: "nat \<Rightarrow> EncryptionKey \<Rightarrow> bool"
  kw_decrypt :: "nat \<Rightarrow> EncryptionKey \<Rightarrow> ExecutionResult \<times> string option"

text \<open>
  What can happen next: \<open>ListPrivateKeys\<close> makes its next call; the callback of a fetch
  runs up to its loop, at once or in parts between which others can run; a loop goes
  one round; a decryption is answered and its callback runs, at once or in two parts; a
  call that has finished its context returns its failure.
\<close>

datatype key_event =
    CallFetch | FetchAnswered nat | FetchEnters nat | FetchProceeds nat | CallDecrypt nat
  | DecryptAnswered nat | DecryptEnters nat | DecryptEnds nat | RefusalReturns nat

fun key_step ::
  "('f, 'd) maps \<Rightarrow> 't key_libs \<Rightarrow> key_world \<Rightarrow> PrivateKeyClientProvider \<Rightarrow> ListPrivateKeysRequest \<Rightarrow>
   ('f, 'd, 't) listing \<Rightarrow> key_event \<Rightarrow> cpp_fault + ('f, 'd, 't) listing" where
  "key_step M libs w p request ls CallFetch =
     Inr (case ls_to_fetch ls of
            [] \<Rightarrow> ls
          | (call_index, uri_index) # _ \<Rightarrow> 
              ListPrivateKeys_round p request (kw_fetch_call w call_index uri_index) (kw_fetch_finishes w call_index uri_index) ls)"
| "key_step M libs w p request ls (FetchAnswered i) =
     (if i < length (ls_fetches ls)
      then let (r, response) = (\<lambda>(u, req). kw_fetch w u req) (ls_fetches ls ! i)
           in OnFetchPrivateKeyCallback M libs (endpoint_count p) i r response ls
      else Inr ls)"
| "key_step M libs w p request ls (FetchEnters i) =
     Inr (if i < length (ls_fetches ls) then OnFetch_enter i ls else ls)"
| "key_step M libs w p request ls (FetchProceeds j) =
     (if j < length (ls_entered ls)
      then let (r, response) = (\<lambda>(u, req). kw_fetch w u req) (ls_entered ls ! j)
           in OnFetch_resume M j r response ls
      else Inr ls)"
| "key_step M libs w p request ls (CallDecrypt j) =
     (if j < length (ls_to_decrypt ls)
      then case ls_to_decrypt ls ! j of
             (u, _, []) \<Rightarrow> OnFetch_round libs j SuccessExecutionResult False ls
           | (u, _, key # _) \<Rightarrow> OnFetch_round libs j (kw_decrypt_call w u key) (kw_decrypt_finishes w u key) ls
      else Inr ls)"
| "key_step M libs w p request ls (DecryptAnswered i) =
     (if i < length (ls_decrypts ls)
      then let (u, key, _) = ls_decrypts ls ! i; (r, response) = kw_decrypt w u key
           in OnDecryptCallback M libs (endpoint_count p) r response (Some key) u
                (ls\<lparr>ls_decrypts := take i (ls_decrypts ls) @ drop (Suc i) (ls_decrypts ls)\<rparr>)
      else Inr ls)"
| "key_step M libs w p request ls (DecryptEnters i) =
     (if i < length (ls_decrypts ls)
      then let (u, key, _) = ls_decrypts ls ! i; (r, response) = kw_decrypt w u key
           in OnDecrypt_interrupted M r response (Some key) u
                (ls\<lparr>ls_decrypts := take i (ls_decrypts ls) @ drop (Suc i) (ls_decrypts ls)\<rparr>)
      else Inr ls)"
| "key_step M libs w p request ls (DecryptEnds k) =
     (if k < length (ls_counted ls)
      then let (encryption_key, prev) = ls_counted ls ! k
           in OnDecrypt_end M libs (endpoint_count p) encryption_key prev
                (ls\<lparr>ls_counted := take k (ls_counted ls) @ drop (Suc k) (ls_counted ls)\<rparr>)
      else Inr ls)"
| "key_step M libs w p request ls (RefusalReturns k) =
     Inr (if k < length (ls_refused ls)
          then finish_failed (ls_refused ls ! k) (ls\<lparr>ls_refused := take k (ls_refused ls) @ drop (Suc k) (ls_refused ls)\<rparr>)
          else ls)"

fun key_run ::
  "('f, 'd) maps \<Rightarrow> 't key_libs \<Rightarrow> key_world \<Rightarrow> PrivateKeyClientProvider \<Rightarrow> ListPrivateKeysRequest \<Rightarrow>
   ('f, 'd, 't) listing \<Rightarrow> key_event list \<Rightarrow> cpp_fault + ('f, 'd, 't) listing" where
  "key_run M libs w p request ls [] = Inr ls"
| "key_run M libs w p request ls (e # es) =
     bindE (key_step M libs w p request ls e) (\<lambda>ls. key_run M libs w p request ls es)"

text \<open>
  Nothing is left to do; every callback ran as a whole; and no call both finishes its
  context and returns a failure.
\<close>

definition quiet :: "('f, 'd, 't) listing \<Rightarrow> bool" where
  "quiet ls \<longleftrightarrow> ls_to_fetch ls = [] \<and> ls_fetches ls = [] \<and> ls_entered ls = [] \<and> ls_to_decrypt ls = [] \<and>
     ls_decrypts ls = [] \<and> ls_counted ls = [] \<and> ls_refused ls = []"

definition whole_callback :: "key_event \<Rightarrow> bool" where
  "whole_callback e \<longleftrightarrow>
     (case e of FetchEnters _ \<Rightarrow> False | FetchProceeds _ \<Rightarrow> False | DecryptEnters _ \<Rightarrow> False | DecryptEnds _ \<Rightarrow> False | _ \<Rightarrow> True)"

definition uninterrupted :: "key_event list \<Rightarrow> bool" where
  "uninterrupted es \<longleftrightarrow> list_all whole_callback es"

definition refusals_final :: "key_world \<Rightarrow> bool" where
  "refusals_final w \<longleftrightarrow>
     (\<forall>c u. Successful (kw_fetch_call w c u) \<or> \<not> kw_fetch_finishes w c u) \<and>
     (\<forall>u key. Successful (kw_decrypt_call w u key) \<or> \<not> kw_decrypt_finishes w u key)"

end
