(* ===== verification/Private_Key_Client_Correct.thy ===== *)
theory Private_Key_Client_Correct
  imports Private_Key_Client "HOL-Library.Multiset"
begin

text \<open>
  Correctness of the listing of private keys. As long as no callback is interrupted and no
  call both finishes its context and returns a failure, the context is finished exactly once,
  and what it is finished with does not depend on the order of the answers.
\<close>

section \<open>Callbacks as a whole\<close>

lemma OnDecryptCallback_whole:
  "OnDecryptCallback M libs endpoints r response encryption_key uri_index ls =
     (let st = ls_status ls
      in if got_failure st then Inr ls
         else case encryption_key of
           None \<Rightarrow> OnDecrypt_end M libs endpoints None (finished_key_split_count st - 1) ls
         | Some key \<Rightarrow>
             bindE (if Successful r then deref response else Inr []) (\<lambda>text.
             bindE (InsertDecryptResult (snd M) (decrypt_result_key_id_map (result_list st ! uri_index)) key r text)
               (\<lambda>(insert_result, m').
                 let st1 = st\<lparr>result_list := (result_list st)[uri_index :=
                             (result_list st ! uri_index)\<lparr>decrypt_result_key_id_map := m'\<rparr>]\<rparr>
                 in if \<not> Successful insert_result then Inr (finish_failed insert_result (ls\<lparr>ls_status := st1\<rparr>))
                    else OnDecrypt_end M libs endpoints (Some key) (finished_key_split_count st)
                           (ls\<lparr>ls_status := st1\<lparr>finished_key_split_count := finished_key_split_count st + 1\<rparr>\<rparr>))))"
  by (auto simp: OnDecryptCallback_def OnDecrypt_enter_def Let_def InsertDecryptResult_def deref_def split_beta
      split: option.split)

section \<open>What is fetched\<close>

definition calls :: "ListPrivateKeysRequest \<Rightarrow> nat" where
  "calls request = (if key_ids request = [] then 1 else length (key_ids request))"

definition fetch_of :: "PrivateKeyClientProvider \<Rightarrow> ListPrivateKeysRequest \<Rightarrow> nat \<times> nat \<Rightarrow> nat \<times> PrivateKeyFetchingRequest" where
  "fetch_of p request cu =
     (snd cu, \<lparr>key_vending_endpoint = endpoint_list p ! snd cu,
        fr_key_id = (if key_ids request = [] then None else Some (key_ids request ! fst cu)),
        fr_max_age_seconds = (if key_ids request = [] then ucast (max_age_seconds request) else 0)\<rparr>)"

definition all_fetches :: "PrivateKeyClientProvider \<Rightarrow> ListPrivateKeysRequest \<Rightarrow> (nat \<times> PrivateKeyFetchingRequest) list" where
  "all_fetches p request =
     map (fetch_of p request) (List.product [0..<calls request] [0..<unat (endpoint_count p)])"

definition keys_of :: "key_world \<Rightarrow> nat \<times> PrivateKeyFetchingRequest \<Rightarrow> EncryptionKey list" where
  "keys_of w f = (case kw_fetch w (fst f) (snd f) of (r, response) \<Rightarrow>
     if Successful r then (case response of None \<Rightarrow> [] | Some keys \<Rightarrow> keys) else [])"

definition splits_of :: "key_world \<Rightarrow> (nat \<times> PrivateKeyFetchingRequest) list \<Rightarrow> (nat \<times> EncryptionKey) list" where
  "splits_of w fs = concat (map (\<lambda>f. map (Pair (fst f)) (keys_of w f)) fs)"

definition fetch_entry :: "key_world \<Rightarrow> nat \<times> PrivateKeyFetchingRequest \<Rightarrow> string \<times> ExecutionResult" where
  "fetch_entry w f = (the (fr_key_id (snd f)), fst (kw_fetch w (fst f) (snd f)))"

definition decrypt_entry :: "key_world \<Rightarrow> nat \<times> EncryptionKey \<Rightarrow> string \<times> DecryptResult" where
  "decrypt_entry w d =
     (let (r, response) = kw_decrypt w (fst d) (snd d)
      in (the (ek_key_id (snd d)), \<lparr>decrypt_result = r, dec_encryption_key = snd d,
            plaintext = (if Successful r then the response else [])\<rparr>))"

lemma splits_of_simps [simp]: "splits_of w [] = []" "splits_of w (f # fs) = map (Pair (fst f)) (keys_of w f) @ splits_of w fs"
  by (simp_all add: splits_of_def)

definition at :: "nat \<Rightarrow> (nat \<times> 'a) list \<Rightarrow> (nat \<times> 'a) list" where
  "at u = filter (\<lambda>x. fst x = u)"

lemma at_simps [simp]: "at u [] = []" "at u (x # xs) = (if fst x = u then x # at u xs else at u xs)"
  by (simp_all add: at_def)

section \<open>Invariant\<close>

text \<open>
  \<open>R\<close> are the fetches whose callbacks have run and \<open>D\<close> the splits whose decryption was
  answered, latest first.
\<close>

definition inv_calls where
  "inv_calls p request ls R \<longleftrightarrow> ls_entered ls = [] \<and> ls_refused ls = [] \<and>
     mset (all_fetches p request) = mset (map (fetch_of p request) (ls_to_fetch ls)) + mset (ls_fetches ls) + mset R"

definition inv_splits where
  "inv_splits w ls R D \<longleftrightarrow>
     mset (splits_of w R) = mset D + mset (map (\<lambda>(u, k, _). (u, k)) (ls_decrypts ls)) +
       mset (concat (map (\<lambda>(u, _, ks). map (Pair u) ks) (ls_to_decrypt ls)))"

definition inv_counts where
  "inv_counts w p request st R D \<longleftrightarrow>
     listing_method st = (if key_ids request = [] then kByMaxAge else kByKeyId) \<and>
     call_count_per_endpoint st = of_nat (calls request) \<and>
     fetching_call_returned_count st = of_nat (length R) \<and>
     total_key_split_count st = of_nat (length (splits_of w R)) \<and>
     finished_key_split_count st = of_nat (length D)"

definition inv_maps where
  "inv_maps MF MD w p request st R D \<longleftrightarrow>
     length (result_list st) = unat (endpoint_count p) \<and>
     (\<forall>u < unat (endpoint_count p).
        tbb_find MD (decrypt_result_key_id_map (result_list st ! u)) = map_of (map (decrypt_entry w) (at u D)) \<and>
        distinct (map (fst \<circ> decrypt_entry w) (at u D)) \<and>
        (if key_ids request = []
         then fetch_result (result_list st ! u) = (case at u R of [] \<Rightarrow> SuccessExecutionResult | f # _ \<Rightarrow> snd (fetch_entry w f)) \<and>
           tbb_find MF (fetch_result_key_id_map (result_list st ! u)) = Map.empty
         else fetch_result (result_list st ! u) = SuccessExecutionResult \<and>
           tbb_find MF (fetch_result_key_id_map (result_list st ! u)) = map_of (map (fetch_entry w) (at u R)) \<and>
           distinct (map (fst \<circ> fetch_entry w) (at u R))))"

definition inv_ids where
  "inv_ids w request ls R D \<longleftrightarrow>
     key_id_set (ls_status ls) =
       (if key_ids request = [] then (\<lambda>d. the (ek_key_id (snd d))) ` (set D \<union> set (map (\<lambda>(u, k, _). (u, k)) (ls_decrypts ls)))
        else (\<lambda>f. the (fr_key_id (snd f))) ` set R)"

definition complete where
  "complete w p request R D \<longleftrightarrow> length R = length (all_fetches p request) \<and> length D = length (splits_of w R)"

definition inv_finishes where
  "inv_finishes M libs w p request ls R D \<longleftrightarrow>
     (if complete w p request R D
      then (\<exists>ek r keys. OnDecrypt_keys M libs ek (listing_method (ls_status ls)) (endpoint_count p) (result_list (ls_status ls)) []
              (sorted_list_of_set (key_id_set (ls_status ls))) = Inr (r, keys) \<and> ls_finishes ls = [(r, Some keys)])
      else ls_finishes ls = [])"

definition listing_base where
  "listing_base M w p request ls R D \<longleftrightarrow>
     \<not> got_failure (ls_status ls) \<and> inv_calls p request ls R \<and> inv_splits w ls R D \<and>
     inv_counts w p request (ls_status ls) R D \<and> inv_maps (fst M) (snd M) w p request (ls_status ls) R D \<and>
     inv_ids w request ls R D"

definition listing_inv where
  "listing_inv M libs w p request ls R D \<longleftrightarrow>
     listing_base M w p request ls R D \<and> inv_finishes M libs w p request ls R D"

text \<open>After a failure the context has been finished and nothing finishes it again.\<close>

definition listing_ok where
  "listing_ok M libs w p request ls \<longleftrightarrow> ls_entered ls = [] \<and> ls_refused ls = [] \<and>
     (if got_failure (ls_status ls) then \<exists>r. ls_finishes ls = [(r, None)] \<and> \<not> Successful r
      else \<exists>R D. listing_inv M libs w p request ls R D)"

lemmas inv_defs = inv_calls_def inv_splits_def inv_counts_def inv_maps_def inv_ids_def inv_finishes_def

lemma inv_maps_irrelevant [simp]:
  "inv_maps MF MD w p request (st\<lparr>total_key_split_count := n\<rparr>) R D \<longleftrightarrow> inv_maps MF MD w p request st R D"
  "inv_maps MF MD w p request (st\<lparr>finished_key_split_count := n\<rparr>) R D \<longleftrightarrow> inv_maps MF MD w p request st R D"
  "inv_maps MF MD w p request (st\<lparr>key_id_set := ids\<rparr>) R D \<longleftrightarrow> inv_maps MF MD w p request st R D"
  by (simp_all add: inv_maps_def)

section \<open>The start\<close>

definition well_formed_listing :: "key_world \<Rightarrow> PrivateKeyClientProvider \<Rightarrow> ListPrivateKeysRequest \<Rightarrow> bool" where
  "well_formed_listing w p request \<longleftrightarrow>
     endpoint_count p = of_nat (length (endpoint_list p)) \<and> endpoint_count p \<noteq> 0 \<and>
     length (all_fetches p request) < 2 ^ 64 \<and> length (splits_of w (all_fetches p request)) < 2 ^ 64"

lemma all_fetches_length: "length (all_fetches p request) = calls request * unat (endpoint_count p)"
  by (simp add: all_fetches_def)

lemma calls_pos: "0 < calls request"
  by (simp add: calls_def)

locale key_maps = mf: concurrent_hash_map MF + md: concurrent_hash_map MD
  for MF :: "('f, string, ExecutionResult) tbb_hash_map" and MD :: "('d, string, DecryptResult) tbb_hash_map"
begin

lemma start_inv:
  assumes "well_formed_listing w p request"
  shows "listing_inv (MF, MD) libs w p request (ListPrivateKeys (MF, MD) p request) [] []"
proof -
  have "\<not> complete w p request [] []"
    using assms calls_pos [of request] by (auto simp: complete_def well_formed_listing_def all_fetches_length unat_eq_0)
  moreover have "tbb_find MD (tbb_new MD) = Map.empty" "tbb_find MF (tbb_new MF) = Map.empty" by (simp_all add: fun_eq_iff)
  ultimately show ?thesis
    by (simp add: listing_inv_def listing_base_def inv_defs ListPrivateKeys_def Let_def calls_def all_fetches_def)
qed

section \<open>Steps\<close>

lemma of_nat_64: "m < 2 ^ 64 \<Longrightarrow> n < 2 ^ 64 \<Longrightarrow> (of_nat m :: 64 word) = of_nat n \<longleftrightarrow> m = n"
  by (simp add: of_nat_eq_iff take_bit_nat_eq_self word_of_nat_eq_iff)

lemma counted:
  assumes "well_formed_listing w p request" "listing_base M w p request ls R D"
  shows "length R \<le> length (all_fetches p request)" "length (splits_of w R) < 2 ^ 64"
    "length D \<le> length (splits_of w R)"
proof -
  have sub: "mset R \<subseteq># mset (all_fetches p request)"
    using assms(2) by (simp add: listing_base_def inv_calls_def)
  then show "length R \<le> length (all_fetches p request)" by (metis size_mset size_mset_mono)
  have "mset (splits_of w xs) = \<Sum>\<^sub># (image_mset (\<lambda>f. mset (map (Pair (fst f)) (keys_of w f))) (mset xs))" for xs
    by (induction xs) simp_all
  then have "mset (splits_of w R) \<subseteq># mset (splits_of w (all_fetches p request))"
    using sub by (auto simp: mset_subset_eq_exists_conv)
  then have "length (splits_of w R) \<le> length (splits_of w (all_fetches p request))" by (metis size_mset size_mset_mono)
  then show "length (splits_of w R) < 2 ^ 64" using assms(1) by (simp add: well_formed_listing_def)
  have "mset D \<subseteq># mset (splits_of w R)"
    using assms(2) by (simp add: listing_base_def inv_splits_def)
  then show "length D \<le> length (splits_of w R)" by (metis size_mset size_mset_mono)
qed

lemma end_condition:
  assumes "well_formed_listing w p request" "listing_base M w p request ls R D"
    "prev = total_key_split_count (ls_status ls) - 1 \<longleftrightarrow> length D = length (splits_of w R)"
  shows "fetching_call_returned_count (ls_status ls) = call_count_per_endpoint (ls_status ls) * endpoint_count p \<and>
      prev = total_key_split_count (ls_status ls) - 1 \<longleftrightarrow> complete w p request R D"
proof -
  have "call_count_per_endpoint (ls_status ls) * endpoint_count p = of_nat (length (all_fetches p request))"
    using assms(2) by (simp add: listing_base_def inv_counts_def all_fetches_length)
  then have "fetching_call_returned_count (ls_status ls) = call_count_per_endpoint (ls_status ls) * endpoint_count p \<longleftrightarrow>
      length R = length (all_fetches p request)"
    using assms(2) of_nat_64 [of "length R" "length (all_fetches p request)"] counted(1) [OF assms(1,2)] assms(1)
    by (simp add: listing_base_def inv_counts_def well_formed_listing_def)
  then show ?thesis using assms(3) by (simp add: complete_def)
qed

lemma end_inv:
  assumes "well_formed_listing w p request" "listing_base M w p request ls R D" "ls_finishes ls = []"
    "prev = total_key_split_count (ls_status ls) - 1 \<longleftrightarrow> length D = length (splits_of w R)"
    "OnDecrypt_end M libs (endpoint_count p) ek prev ls = Inr ls'"
  shows "listing_inv M libs w p request ls' R D" "ls_status ls' = ls_status ls"
proof -
  note c = end_condition [OF assms(1,2,4)]
  show "ls_status ls' = ls_status ls"
    using assms(5) by (auto simp: OnDecrypt_end_def Let_def bindE_Inr_iff split: if_splits)
  show "listing_inv M libs w p request ls' R D"
  proof (cases "complete w p request R D")
    case True
    then obtain r keys where r: "OnDecrypt_keys M libs ek (listing_method (ls_status ls)) (endpoint_count p) (result_list (ls_status ls)) []
              (sorted_list_of_set (key_id_set (ls_status ls))) = Inr (r, keys)" "ls' = ls\<lparr>ls_finishes := [(r, Some keys)]\<rparr>"
      using assms(3,5) c by (auto simp: OnDecrypt_end_def Let_def bindE_Inr_iff)
    then show ?thesis using assms(2) True
      by (auto simp: listing_inv_def listing_base_def inv_calls_def inv_splits_def inv_ids_def inv_finishes_def)
  next
    case False
    then have "ls' = ls" using assms(5) c by (simp add: OnDecrypt_end_def Let_def)
    then show ?thesis using assms(2,3) False by (simp add: listing_inv_def inv_finishes_def)
  qed
qed

lemma incomplete_calls:
  assumes "listing_base M w p request ls R D" "ls_to_fetch ls \<noteq> [] \<or> ls_fetches ls \<noteq> []"
  shows "\<not> complete w p request R D"
proof -
  have "size (mset (all_fetches p request)) = length (ls_to_fetch ls) + length (ls_fetches ls) + length R"
    using assms(1) by (simp add: listing_base_def inv_calls_def)
  then show ?thesis using assms(2) by (auto simp: complete_def)
qed

lemma incomplete_splits:
  assumes "listing_base M w p request ls R D" "ls_decrypts ls \<noteq> [] \<or> concat (map (\<lambda>(u, _, ks). map (Pair u) ks) (ls_to_decrypt ls)) \<noteq> []"
  shows "\<not> complete w p request R D"
proof -
  have "size (mset (splits_of w R)) = length D + length (ls_decrypts ls) +
      length (concat (map (\<lambda>(u, _, ks). map (Pair u) ks) (ls_to_decrypt ls)))"
    using assms(1) by (simp only: listing_base_def inv_splits_def size_union size_mset length_map)
  then have "length D < length (splits_of w R)" using assms(2) by (cases "ls_decrypts ls = []") simp_all
  then show ?thesis by (simp add: complete_def)
qed

lemma failed_ok:
  assumes "\<not> got_failure (ls_status ls)" "ls_finishes ls = []" "ls_entered ls = []" "ls_refused ls = []" "\<not> Successful r"
  shows "listing_ok M libs w p request (finish_failed r ls)"
  using assms by (simp add: listing_ok_def finish_failed_def)

lemma inv_ok:
  assumes "listing_inv M libs w p request ls R D"
  shows "listing_ok M libs w p request ls"
proof -
  have "\<not> got_failure (ls_status ls)" "ls_entered ls = []" "ls_refused ls = []"
    using assms by (simp_all add: listing_inv_def listing_base_def inv_calls_def)
  then show ?thesis using assms unfolding listing_ok_def by auto
qed

lemma call_fetch_ok:
  assumes "listing_inv M libs w p request ls R D" "ls_to_fetch ls = (c, u) # rest" "Successful answer \<or> \<not> finishes"
  shows "listing_ok M libs w p request (ListPrivateKeys_round p request answer finishes ls)"
proof -
  have base: "listing_base M w p request ls R D" using assms(1) by (simp add: listing_inv_def)
  have inc: "\<not> complete w p request R D" using incomplete_calls [OF base] assms(2) by simp
  then have fin: "ls_finishes ls = []" using assms(1) by (simp add: listing_inv_def inv_finishes_def)
  have m: "listing_method (ls_status ls) = kByKeyId \<longleftrightarrow> key_ids request \<noteq> []"
    using base by (simp add: listing_base_def inv_counts_def)
  show ?thesis
  proof (cases "Successful answer")
    case True
    define ret where "ret = (if rest = [] then Some SuccessExecutionResult else None)"
    have ls': "ListPrivateKeys_round p request answer finishes ls = ls\<lparr>ls_to_fetch := rest,
        ls_fetches := ls_fetches ls @ [fetch_of p request (c, u)], ls_returned := ret\<rparr>"
      using True assms(2) m by (simp add: ListPrivateKeys_round_def fetch_of_def Let_def ret_def)
    have "listing_base M w p request (ls\<lparr>ls_to_fetch := rest,
        ls_fetches := ls_fetches ls @ [fetch_of p request (c, u)], ls_returned := ret\<rparr>) R D"
      using base assms(2) by (simp add: listing_base_def inv_calls_def inv_splits_def inv_ids_def)
    then have "listing_inv M libs w p request (ListPrivateKeys_round p request answer finishes ls) R D"
      unfolding ls' listing_inv_def using inc fin by (simp add: inv_finishes_def)
    then show ?thesis by (rule inv_ok)
  next
    case False
    then have "ListPrivateKeys_round p request answer finishes ls = finish_failed answer (ls\<lparr>ls_to_fetch := [], ls_returned := Some answer\<rparr>)"
      using assms(2,3) by (simp add: ListPrivateKeys_round_def Let_def)
    then show ?thesis using failed_ok [of "ls\<lparr>ls_to_fetch := [], ls_returned := Some answer\<rparr>" answer] base fin False
      by (simp add: listing_base_def inv_calls_def)
  qed
qed

lemma mset_without: "i < length xs \<Longrightarrow> mset xs = add_mset (xs ! i) (mset (take i xs @ drop (Suc i) xs))"
  using id_take_nth_drop [of i xs] by (metis mset_append union_mset_add_mset_right mset.simps(2))

lemma fetch_of_pending:
  assumes "listing_base M w p request ls R D" "f \<in> set (ls_fetches ls)"
  shows "fst f < unat (endpoint_count p)" "fr_key_id (snd f) = None \<longleftrightarrow> key_ids request = []"
proof -
  have "f \<in># mset (all_fetches p request)" using assms by (simp add: listing_base_def inv_calls_def)
  then show "fst f < unat (endpoint_count p)" "fr_key_id (snd f) = None \<longleftrightarrow> key_ids request = []"
    by (auto simp: all_fetches_def fetch_of_def split: if_splits)
qed

text \<open>The callback of a fetch has stored its result in \<open>st\<close>; it goes on to the keys, if any.\<close>

lemma fetch_stored:
  assumes "listing_base M w p request ls R D" "i < length (ls_fetches ls)" "f = ls_fetches ls ! i"
    "inv_maps (fst M) (snd M) w p request st (f # R) D" "inv_counts w p request (st\<lparr>total_key_split_count :=
       total_key_split_count st + of_nat (length (keys_of w f))\<rparr>) (f # R) D" "\<not> got_failure st"
    "key_id_set st = (if key_ids request = [] then key_id_set (ls_status ls) else insert (the (fr_key_id (snd f))) (key_id_set (ls_status ls)))"
  shows "listing_base M w p request (ls\<lparr>ls_fetches := take i (ls_fetches ls) @ drop (Suc i) (ls_fetches ls), ls_entered := [],
      ls_status := st\<lparr>total_key_split_count := total_key_split_count st + of_nat (length (keys_of w f))\<rparr>,
      ls_to_decrypt := ls_to_decrypt ls @ [(fst f, ep, keys_of w f)]\<rparr>) (f # R) D"
    "keys_of w f = [] \<Longrightarrow> listing_base M w p request (ls\<lparr>ls_fetches := take i (ls_fetches ls) @ drop (Suc i) (ls_fetches ls),
      ls_entered := [], ls_status := st\<rparr>) (f # R) D"
proof -
  have c: "mset (all_fetches p request) = mset (map (fetch_of p request) (ls_to_fetch ls)) +
      mset (take i (ls_fetches ls) @ drop (Suc i) (ls_fetches ls)) + mset (f # R)"
    using assms(1) mset_without [OF assms(2)] assms(3) by (simp add: listing_base_def inv_calls_def)
  have s: "mset (splits_of w (f # R)) = mset D + mset (map (\<lambda>(u, k, _). (u, k)) (ls_decrypts ls)) +
       mset (concat (map (\<lambda>(u, _, ks). map (Pair u) ks) (ls_to_decrypt ls @ [(fst f, ep, keys_of w f)])))" for ep :: PrivateKeyVendingEndpoint
    using assms(1) by (simp add: listing_base_def inv_splits_def)
  have ids: "key_id_set st = (if key_ids request = [] then (\<lambda>d. the (ek_key_id (snd d))) ` (set D \<union> set (map (\<lambda>(u, k, _). (u, k)) (ls_decrypts ls)))
        else (\<lambda>f. the (fr_key_id (snd f))) ` set (f # R))"
    using assms(1,7) by (simp add: listing_base_def inv_ids_def)
  have ref: "ls_refused ls = []" using assms(1) by (simp add: listing_base_def inv_calls_def)
  show "listing_base M w p request (ls\<lparr>ls_fetches := take i (ls_fetches ls) @ drop (Suc i) (ls_fetches ls), ls_entered := [],
      ls_status := st\<lparr>total_key_split_count := total_key_split_count st + of_nat (length (keys_of w f))\<rparr>,
      ls_to_decrypt := ls_to_decrypt ls @ [(fst f, ep, keys_of w f)]\<rparr>) (f # R) D"
    using ref c s ids assms(4-6) unfolding listing_base_def inv_calls_def inv_splits_def inv_ids_def by simp
  assume "keys_of w f = []"
  then show "listing_base M w p request (ls\<lparr>ls_fetches := take i (ls_fetches ls) @ drop (Suc i) (ls_fetches ls),
      ls_entered := [], ls_status := st\<rparr>) (f # R) D"
    using ref c s [of undefined] ids assms(4-6) unfolding listing_base_def inv_calls_def inv_splits_def inv_ids_def by simp
qed

lemma store_fetch_result:
  assumes "inv_maps MF MD w p request st R D" "key_ids request = []" "fst f < unat (endpoint_count p)"
    "r = fst (kw_fetch w (fst f) (snd f))"
  shows "inv_maps MF MD w p request (st\<lparr>fetching_call_returned_count := n, result_list := (result_list st)[fst f :=
     (result_list st ! fst f)\<lparr>fetch_result := r\<rparr>]\<rparr>) (f # R) D"
  using assms unfolding inv_maps_def by (auto simp: nth_list_update fetch_entry_def)

lemma store_fetch_entry:
  assumes "inv_maps MF MD w p request st R D" "key_ids request \<noteq> []" "fst f < unat (endpoint_count p)"
    "ConcurrentMap_Insert MF (fetch_result_key_id_map (result_list st ! fst f)) (fetch_entry w f) = (insert_result, out, m')"
    "Successful insert_result"
  shows "inv_maps MF MD w p request (st\<lparr>fetching_call_returned_count := n, result_list := (result_list st)[fst f :=
     (result_list st ! fst f)\<lparr>fetch_result_key_id_map := m'\<rparr>], key_id_set := ids\<rparr>) (f # R) D"
proof -
  obtain k v where e: "fetch_entry w f = (k, v)" by force
  have new: "tbb_find MF (fetch_result_key_id_map (result_list st ! fst f)) k = None"
    using assms(4,5) mf.cm.ins_success [of "fetch_result_key_id_map (result_list st ! fst f)" k v] e by simp
  then have "tbb_find MF m' = (tbb_find MF (fetch_result_key_id_map (result_list st ! fst f)))(k \<mapsto> v)"
    using assms(4) mf.cm.ins_view [of "fetch_result_key_id_map (result_list st ! fst f)" k v] e by simp
  moreover have "k \<notin> fst ` set (map (fetch_entry w) (at (fst f) R))"
    using new assms(1-3) by (simp add: inv_maps_def)
  ultimately show ?thesis
    using assms(1-3) e unfolding inv_maps_def by (auto simp: nth_list_update image_image)
qed

lemma fetch_counts:
  assumes "inv_counts w p request st R D"
  shows "inv_counts w p request (st\<lparr>fetching_call_returned_count := fetching_call_returned_count st + 1, result_list := rs,
     total_key_split_count := total_key_split_count st + of_nat (length (keys_of w f))\<rparr>) (f # R) D"
    "inv_counts w p request (st\<lparr>fetching_call_returned_count := fetching_call_returned_count st + 1, result_list := rs, key_id_set := ids,
     total_key_split_count := total_key_split_count st + of_nat (length (keys_of w f))\<rparr>) (f # R) D"
  using assms by (simp_all add: inv_counts_def)

text \<open>The end of the callback, for both listing methods.\<close>

lemma fetch_goes_on:
  assumes "well_formed_listing w p request" "listing_inv M libs w p request ls R D" "i < length (ls_fetches ls)" "f = ls_fetches ls ! i"
    "inv_maps (fst M) (snd M) w p request st (f # R) D" "inv_counts w p request (st\<lparr>total_key_split_count :=
       total_key_split_count st + of_nat (length (keys_of w f))\<rparr>) (f # R) D" "\<not> got_failure st"
    "key_id_set st = (if key_ids request = [] then key_id_set (ls_status ls) else insert (the (fr_key_id (snd f))) (key_id_set (ls_status ls)))"
    "kw_fetch w (fst f) (snd f) = (r, response)"
    "ls2 = ls\<lparr>ls_fetches := take i (ls_fetches ls) @ drop (Suc i) (ls_fetches ls), ls_entered := [], ls_status := st\<rparr>"
    "bindE (if \<not> Successful r then Inr (ls2, True)
        else bindE (deref response) (\<lambda>encryption_keys.
          if encryption_keys = [] then Inr (ls2, True)
          else Inr (ls2\<lparr>ls_status := (ls_status ls2)\<lparr>total_key_split_count :=
                total_key_split_count (ls_status ls2) + of_nat (length encryption_keys)\<rparr>,
              ls_to_decrypt := ls_to_decrypt ls2 @ [(fst f, ep, encryption_keys)]\<rparr>, False)))
       (\<lambda>(l, without_key). if without_key
          then OnDecryptCallback M libs (endpoint_count p) SuccessExecutionResult None None (fst f) l else Inr l) = Inr ls'"
  shows "listing_ok M libs w p request ls'"
proof -
  have base: "listing_base M w p request ls R D" using assms(2) by (simp add: listing_inv_def)
  have "ls_fetches ls \<noteq> []" using assms(3) by auto
  then have fin: "ls_finishes ls = []"
    using assms(2) incomplete_calls [OF base] by (simp add: listing_inv_def inv_finishes_def)
  note stored = fetch_stored [OF base assms(3-8)]
  show ?thesis
  proof (cases "keys_of w f = []")
    case True
    then have e: "OnDecryptCallback M libs (endpoint_count p) SuccessExecutionResult None None (fst f) ls2 = Inr ls'"
      using assms(9,11) by (auto simp: keys_of_def deref_def split: if_splits option.splits)
    have b2: "listing_base M w p request ls2 (f # R) D" using stored(2) [OF True] assms(10) by simp
    have e2: "OnDecrypt_end M libs (endpoint_count p) None (finished_key_split_count st - 1) ls2 = Inr ls'"
      using e assms(7,10) by (simp add: OnDecryptCallback_whole Let_def)
    have "(of_nat (length D) :: 64 word) = of_nat (length (splits_of w (f # R))) \<longleftrightarrow> length D = length (splits_of w (f # R))"
      using counted [OF assms(1) b2] by (intro of_nat_64) simp_all
    then have "finished_key_split_count st - 1 = total_key_split_count (ls_status ls2) - 1 \<longleftrightarrow> length D = length (splits_of w (f # R))"
      using b2 assms(10) by (simp add: listing_base_def inv_counts_def)
    moreover have "ls_finishes ls2 = []" using fin assms(10) by simp
    ultimately have "listing_inv M libs w p request ls' (f # R) D" using end_inv(1) [OF assms(1) b2 _ _ e2] by blast
    then show ?thesis by (rule inv_ok)
  next
    case False
    then have "Successful r" "response = Some (keys_of w f)"
      using assms(9) by (auto simp: keys_of_def split: if_splits option.splits)
    then have ls': "ls' = ls2\<lparr>ls_status := (ls_status ls2)\<lparr>total_key_split_count :=
                total_key_split_count (ls_status ls2) + of_nat (length (keys_of w f))\<rparr>,
              ls_to_decrypt := ls_to_decrypt ls2 @ [(fst f, ep, keys_of w f)]\<rparr>"
      using assms(11) False by (simp add: deref_def)
    have b2: "listing_base M w p request ls' (f # R) D" using stored(1) [of ep] assms(10) ls' by simp
    have "\<not> complete w p request (f # R) D"
      using False by (intro incomplete_splits [OF b2]) (simp add: ls')
    then have "listing_inv M libs w p request ls' (f # R) D"
      using b2 fin by (simp add: listing_inv_def inv_finishes_def ls' assms(10))
    then show ?thesis by (rule inv_ok)
  qed
qed

lemma fetch_answered_ok:
  assumes "well_formed_listing w p request" "listing_inv (MF, MD) libs w p request ls R D" "i < length (ls_fetches ls)"
    "f = ls_fetches ls ! i" "kw_fetch w (fst f) (snd f) = (r, response)"
    "OnFetchPrivateKeyCallback (MF, MD) libs (endpoint_count p) i r response ls = Inr ls'"
  shows "listing_ok (MF, MD) libs w p request ls'"
proof -
  have base: "listing_base (MF, MD) w p request ls R D" using assms(2) by (simp add: listing_inv_def)
  have f: "f \<in> set (ls_fetches ls)" using assms(3,4) by simp
  note u = fetch_of_pending [OF base f]
  let ?st = "ls_status ls" and ?f = "take i (ls_fetches ls) @ drop (Suc i) (ls_fetches ls)"
  let ?per = "result_list ?st ! fst f"
  have inv: "\<not> got_failure ?st" "ls_entered ls = []" "inv_maps MF MD w p request ?st R D" "inv_counts w p request ?st R D"
    "listing_method ?st = (if key_ids request = [] then kByMaxAge else kByKeyId)" "ls_refused ls = []"
    using base by (simp_all add: listing_base_def inv_calls_def inv_counts_def)
  have "ls_fetches ls \<noteq> []" using assms(3) by auto
  then have fin: "ls_finishes ls = []"
    using assms(2) incomplete_calls [OF base] by (simp add: listing_inv_def inv_finishes_def)
  note step = assms(6) [unfolded OnFetchPrivateKeyCallback_def OnFetch_enter_def OnFetch_proceed_def Let_def, folded assms(4)]
  show ?thesis
  proof (cases "key_ids request = []")
    case True
    let ?st2 = "?st\<lparr>fetching_call_returned_count := fetching_call_returned_count ?st + 1,
      result_list := (result_list ?st)[fst f := ?per\<lparr>fetch_result := r\<rparr>]\<rparr>"
    have m: "inv_maps MF MD w p request ?st2 (f # R) D"
      using store_fetch_result [OF inv(3) True u(1)] assms(5) by simp
    show ?thesis
      by (rule fetch_goes_on [OF assms(1,2,3,4), of ?st2 r response _ "key_vending_endpoint (snd f)", OF _ _ _ _ assms(5) refl])
        (use m inv fetch_counts(1) [OF inv(4)] True step in \<open>simp_all add: split_beta\<close>)
  next
    case False
    then obtain id where id: "fr_key_id (snd f) = Some id" using u(2) by auto
    obtain insert_result out m' where ins:
      "ConcurrentMap_Insert MF (fetch_result_key_id_map ?per) (fetch_entry w f) = (insert_result, out, m')"
      by (cases rule: prod_cases3)
    have e: "fetch_entry w f = (id, r)" using id assms(5) by (simp add: fetch_entry_def)
    let ?st2 = "?st\<lparr>fetching_call_returned_count := fetching_call_returned_count ?st + 1,
      result_list := (result_list ?st)[fst f := ?per\<lparr>fetch_result_key_id_map := m'\<rparr>], key_id_set := insert id (key_id_set ?st)\<rparr>"
    show ?thesis
    proof (cases "Successful insert_result")
      case True
      note m = store_fetch_entry [OF inv(3) False u(1) ins True]
      show ?thesis
        by (rule fetch_goes_on [OF assms(1,2,3,4), of ?st2 r response _ "key_vending_endpoint (snd f)", OF _ _ _ _ assms(5) refl])
          (use m inv fetch_counts(2) [OF inv(4)] False step True ins e id in \<open>simp_all add: split_beta deref_def\<close>)
    next
      case failed: False
      then have "ls' = finish_failed insert_result (ls\<lparr>ls_fetches := ?f, ls_entered := [],
          ls_status := ?st\<lparr>fetching_call_returned_count := fetching_call_returned_count ?st + 1,
            result_list := (result_list ?st)[fst f := ?per\<lparr>fetch_result_key_id_map := m'\<rparr>]\<rparr>\<rparr>)"
        using step inv ins e id False by (simp add: split_beta deref_def)
      then show ?thesis using inv fin failed by (simp add: failed_ok)
    qed
  qed
qed

lemma mset_concat_update:
  assumes "j < length xs" "mset (f (xs ! j)) = mset (f y) + A"
  shows "mset (concat (map f xs)) = mset (concat (map f (xs[j := y]))) + A"
proof -
  have "mset (concat (map f xs)) = mset (concat (map f (take j xs))) + mset (f (xs ! j)) + mset (concat (map f (drop (Suc j) xs)))"
    by (subst id_take_nth_drop [OF assms(1)]) simp
  moreover have "mset (concat (map f (xs[j := y]))) = mset (concat (map f (take j xs))) + mset (f y) + mset (concat (map f (drop (Suc j) xs)))"
    using assms(1) by (simp add: upd_conv_take_nth_drop)
  ultimately show ?thesis using assms(2) by simp
qed

lemma mset_concat_without:
  assumes "j < length xs" "f (xs ! j) = []"
  shows "mset (concat (map f xs)) = mset (concat (map f (take j xs @ drop (Suc j) xs)))"
  using assms(2) by (subst id_take_nth_drop [OF assms(1)]) simp

lemma call_decrypt_ok:
  assumes "listing_inv M libs w p request ls R D" "j < length (ls_to_decrypt ls)"
    "OnFetch_round libs j answer finishes ls = Inr ls'" "Successful answer \<or> \<not> finishes"
  shows "listing_ok M libs w p request ls'"
proof -
  have base: "listing_base M w p request ls R D" using assms(1) by (simp add: listing_inv_def)
  then have inv: "\<not> got_failure (ls_status ls)" "ls_entered ls = []"
    "listing_method (ls_status ls) = (if key_ids request = [] then kByMaxAge else kByKeyId)" "ls_refused ls = []"
    by (simp_all add: listing_base_def inv_calls_def inv_counts_def)
  obtain u ep ks where t: "ls_to_decrypt ls ! j = (u, ep, ks)" by (cases rule: prod_cases3)
  define ended where "ended = ls\<lparr>ls_to_decrypt := take j (ls_to_decrypt ls) @ drop (Suc j) (ls_to_decrypt ls)\<rparr>"
  show ?thesis
  proof (cases ks)
    case Nil
    then have ls': "ls' = ended" using assms(3) t by (simp add: OnFetch_round_def Let_def ended_def)
    have "mset (concat (map (\<lambda>(u, _, ks). map (Pair u) ks) (ls_to_decrypt ls))) =
        mset (concat (map (\<lambda>(u, _, ks). map (Pair u) ks) (ls_to_decrypt ended)))"
      using mset_concat_without [OF assms(2), of "\<lambda>(u, _, ks). map (Pair u) ks"] t Nil by (simp add: ended_def)
    then have "inv_splits w ls' R D"
      using base unfolding ls' listing_base_def inv_splits_def by (simp add: ended_def)
    moreover have "inv_calls p request ls' R" "inv_ids w request ls' R D"
      "inv_finishes M libs w p request ls' R D \<longleftrightarrow> inv_finishes M libs w p request ls R D" "ls_status ls' = ls_status ls"
      using base by (simp_all add: listing_base_def inv_calls_def inv_ids_def inv_finishes_def ls' ended_def)
    ultimately have "listing_inv M libs w p request ls' R D"
      using assms(1) base by (simp add: listing_inv_def listing_base_def)
    then show ?thesis by (rule inv_ok)
  next
    case (Cons key rest)
    have "(u, ep, ks) \<in> set (ls_to_decrypt ls)" using t assms(2) by (metis nth_mem)
    then have "concat (map (\<lambda>(u, _, ks). map (Pair u) ks) (ls_to_decrypt ls)) \<noteq> []" using Cons by force
    then have inc: "\<not> complete w p request R D" using incomplete_splits [OF base] by blast
    then have fin: "ls_finishes ls = []" using assms(1) by (simp add: listing_inv_def inv_finishes_def)
    define st where "st = (if key_ids request = []
        then (ls_status ls)\<lparr>key_id_set := insert (the (ek_key_id key)) (key_id_set (ls_status ls))\<rparr> else ls_status ls)"
    let ?none = "\<lparr>dr_ciphertext = [], dr_key_resource_name = [], dr_account_identity = [], dr_kms_region = [], dr_gcp_wip_provider = []\<rparr>"
    have s: "(if listing_method (ls_status ls) = kByMaxAge
        then bindE (deref (ek_key_id key)) (\<lambda>key_id. Inr ((ls_status ls)\<lparr>key_id_set := insert key_id (key_id_set (ls_status ls))\<rparr>))
        else Inr (ls_status ls)) = Inr st"
      using assms(3) t Cons inv(3) by (cases "ek_key_id key") (auto simp: OnFetch_round_def Let_def deref_def st_def)
    obtain rr req0 where g: "GetKmsDecryptRequest libs key ?none = Inr (rr, req0)"
      using assms(3) t Cons s by (auto simp: OnFetch_round_def Let_def bindE_Inr_iff)
    define req where "req = req0\<lparr>dr_account_identity := account_identity ep, dr_kms_region := service_region ep,
      dr_gcp_wip_provider := gcp_wip_provider ep\<rparr>"
    have ls'_eq: "ls' = (if \<not> Successful rr then finish_failed rr (ended\<lparr>ls_status := st\<rparr>)
         else if \<not> Successful answer then finish_failed answer (ended\<lparr>ls_status := st\<rparr>)
         else ls\<lparr>ls_status := st, ls_to_decrypt := (ls_to_decrypt ls)[j := (u, ep, rest)], ls_decrypts := ls_decrypts ls @ [(u, key, req)]\<rparr>)"
      using assms(3,4) t Cons g unfolding OnFetch_round_def Let_def
      by (simp add: s ended_def req_def split: if_splits)
    note st = st_def ls'_eq
    have f: "\<not> got_failure st" using inv st(1) by simp
    have failing: "listing_ok M libs w p request (finish_failed r (ended\<lparr>ls_status := st\<rparr>))" if "\<not> Successful r" for r
      using that f fin inv(2,4) by (intro failed_ok) (simp_all add: ended_def)
    have "listing_ok M libs w p request ls'" if ok: "Successful rr" "Successful answer"
    proof -
      have ls': "ls' = ls\<lparr>ls_status := st, ls_to_decrypt := (ls_to_decrypt ls)[j := (u, ep, rest)], ls_decrypts := ls_decrypts ls @ [(u, key, req)]\<rparr>"
        using st(2) ok by simp
      have "mset (concat (map (\<lambda>(u, _, ks). map (Pair u) ks) (ls_to_decrypt ls))) =
          mset (concat (map (\<lambda>(u, _, ks). map (Pair u) ks) (ls_to_decrypt ls'))) + {#(u, key)#}"
        using mset_concat_update [OF assms(2), of "\<lambda>(u, _, ks). map (Pair u) ks" "(u, ep, rest)"] t Cons by (simp add: ls')
      then have "inv_splits w ls' R D"
        using base by (simp add: listing_base_def inv_splits_def ls')
      moreover have "inv_ids w request ls' R D" using base by (auto simp: listing_base_def inv_ids_def ls' st(1))
      moreover have "inv_calls p request ls' R" "inv_maps (fst M) (snd M) w p request (ls_status ls') R D"
        "inv_counts w p request (ls_status ls') R D"
        using base by (simp_all add: listing_base_def inv_calls_def inv_counts_def ls' st(1))
      ultimately have "listing_inv M libs w p request ls' R D"
        using f inc fin by (simp add: listing_inv_def listing_base_def inv_finishes_def ls')
      then show ?thesis by (rule inv_ok)
    qed
    then show ?thesis using failing st(2) by (cases "Successful rr"; cases "Successful answer") auto
  qed
qed

lemma store_decrypt_entry:
  assumes "inv_maps MF MD w p request st R D" "fst d < unat (endpoint_count p)"
    "ConcurrentMap_Insert MD (decrypt_result_key_id_map (result_list st ! fst d)) (decrypt_entry w d) = (insert_result, out, m')"
    "Successful insert_result"
  shows "inv_maps MF MD w p request (st\<lparr>result_list := (result_list st)[fst d :=
     (result_list st ! fst d)\<lparr>decrypt_result_key_id_map := m'\<rparr>]\<rparr>) R (d # D)"
proof -
  obtain k v where e: "decrypt_entry w d = (k, v)" by force
  have new: "tbb_find MD (decrypt_result_key_id_map (result_list st ! fst d)) k = None"
    using assms(3,4) md.cm.ins_success [of "decrypt_result_key_id_map (result_list st ! fst d)" k v] e by simp
  then have "tbb_find MD m' = (tbb_find MD (decrypt_result_key_id_map (result_list st ! fst d)))(k \<mapsto> v)"
    using assms(3) md.cm.ins_view [of "decrypt_result_key_id_map (result_list st ! fst d)" k v] e by simp
  moreover have "k \<notin> fst ` set (map (decrypt_entry w) (at (fst d) D))"
    using new assms(1,2) by (simp add: inv_maps_def)
  ultimately show ?thesis
    using assms(1,2) e unfolding inv_maps_def by (simp add: nth_list_update image_image)
qed

lemma splits_endpoint:
  assumes "listing_base M w p request ls R D" "d \<in> set (splits_of w R)"
  shows "fst d < unat (endpoint_count p)"
proof -
  obtain f where "f \<in> set R" "fst d = fst f" using assms(2) by (auto simp: splits_of_def)
  then have "f \<in># mset (all_fetches p request)" using assms(1) by (simp add: listing_base_def inv_calls_def)
  then show ?thesis using \<open>fst d = fst f\<close> by (auto simp: all_fetches_def fetch_of_def)
qed

text \<open>A decryption was answered and its result stored.\<close>

lemma decrypt_stored:
  assumes "well_formed_listing w p request" "listing_base (MF, MD) w p request ls R D" "i < length (ls_decrypts ls)"
    "ls_decrypts ls ! i = (u, key, req)" "u < unat (endpoint_count p)"
    "ConcurrentMap_Insert MD (decrypt_result_key_id_map (result_list (ls_status ls) ! u)) (decrypt_entry w (u, key)) = (insert_result, out, m')"
    "Successful insert_result"
    "ls2 = ls\<lparr>ls_decrypts := take i (ls_decrypts ls) @ drop (Suc i) (ls_decrypts ls),
       ls_status := (ls_status ls)\<lparr>result_list := (result_list (ls_status ls))[u :=
           (result_list (ls_status ls) ! u)\<lparr>decrypt_result_key_id_map := m'\<rparr>],
         finished_key_split_count := finished_key_split_count (ls_status ls) + 1\<rparr>\<rparr>"
  shows "listing_base (MF, MD) w p request ls2 R ((u, key) # D)"
    "finished_key_split_count (ls_status ls) = total_key_split_count (ls_status ls2) - 1 \<longleftrightarrow>
       length ((u, key) # D) = length (splits_of w R)"
proof -
  let ?st = "ls_status ls" and ?rest = "take i (ls_decrypts ls) @ drop (Suc i) (ls_decrypts ls)" and ?d = "(u, key)"
  define st1 where "st1 = ?st\<lparr>result_list := (result_list ?st)[u := (result_list ?st ! u)\<lparr>decrypt_result_key_id_map := m'\<rparr>]\<rparr>"
  have ls2: "ls2 = ls\<lparr>ls_decrypts := ?rest, ls_status := st1\<lparr>finished_key_split_count := finished_key_split_count ?st + 1\<rparr>\<rparr>"
    using assms(8) by (simp add: st1_def)
  have inv: "inv_maps MF MD w p request ?st R D" "inv_counts w p request ?st R D"
    using assms(2) by (simp_all add: listing_base_def)
  have dm: "mset (map (\<lambda>(u, k, _). (u, k)) (ls_decrypts ls)) = add_mset ?d (mset (map (\<lambda>(u, k, _). (u, k)) ?rest))"
    using mset_without [OF assms(3)] assms(4) by (metis (no_types, lifting) case_prod_conv image_mset_add_mset mset_map)
  have m: "inv_maps MF MD w p request st1 R (?d # D)"
    using store_decrypt_entry [OF inv(1), of ?d] assms(5-7) by (simp add: st1_def)
  have "inv_splits w ls2 R (?d # D)" using assms(2) dm by (simp add: listing_base_def inv_splits_def ls2)
  moreover have "set (map (\<lambda>(u, k, _). (u, k)) (ls_decrypts ls)) = insert ?d (set (map (\<lambda>(u, k, _). (u, k)) ?rest))"
    using arg_cong [OF dm, of set_mset] by simp
  then have "inv_ids w request ls2 R (?d # D)" using assms(2) unfolding listing_base_def inv_ids_def by (simp add: st1_def ls2)
  ultimately show b2: "listing_base (MF, MD) w p request ls2 R (?d # D)"
    using assms(2) m by (simp add: listing_base_def inv_calls_def inv_counts_def st1_def ls2)
  have "(of_nat (Suc (length D)) :: 64 word) = of_nat (length (splits_of w R)) \<longleftrightarrow> length (?d # D) = length (splits_of w R)"
    using of_nat_64 [of "Suc (length D)" "length (splits_of w R)"] counted [OF assms(1) b2] by simp
  then show "finished_key_split_count ?st = total_key_split_count (ls_status ls2) - 1 \<longleftrightarrow> length (?d # D) = length (splits_of w R)"
    using inv(2) by (simp add: inv_counts_def st1_def ls2 eq_diff_eq add.commute)
qed

lemma decrypt_step:
  assumes "\<not> got_failure (ls_status ls)" "(if Successful r then deref response else Inr []) = Inr tx" "ek_key_id key = Some kid"
    "decrypt_entry w (u, key) = (kid, \<lparr>decrypt_result = r, dec_encryption_key = key, plaintext = tx\<rparr>)"
    "ConcurrentMap_Insert MD (decrypt_result_key_id_map (result_list (ls_status ls) ! u)) (decrypt_entry w (u, key)) = (insert_result, out, m')"
  shows "OnDecryptCallback (MF, MD) libs n r response (Some key) u ls =
    (let st1 = (ls_status ls)\<lparr>result_list := (result_list (ls_status ls))[u := (result_list (ls_status ls) ! u)\<lparr>decrypt_result_key_id_map := m'\<rparr>]\<rparr>
     in if \<not> Successful insert_result then Inr (finish_failed insert_result (ls\<lparr>ls_status := st1\<rparr>))
        else OnDecrypt_end (MF, MD) libs n (Some key) (finished_key_split_count (ls_status ls))
          (ls\<lparr>ls_status := st1\<lparr>finished_key_split_count := finished_key_split_count (ls_status ls) + 1\<rparr>\<rparr>))"
  using assms unfolding OnDecryptCallback_whole by (simp add: InsertDecryptResult_def deref_def Let_def)

lemma pending_split:
  assumes "listing_base M w p request ls R D" "i < length (ls_decrypts ls)" "ls_decrypts ls ! i = (u, key, req)"
  shows "u < unat (endpoint_count p)"
proof -
  have "(u, key) \<in># mset (map (\<lambda>(u, k, _). (u, k)) (ls_decrypts ls))"
    using assms(2,3) by (force simp: in_set_conv_nth)
  then have "(u, key) \<in># mset (splits_of w R)" using assms(1) unfolding listing_base_def inv_splits_def by (metis union_iff)
  then show ?thesis using splits_endpoint [OF assms(1), of "(u, key)"] by simp
qed

lemma decrypt_answered_ok:
  assumes "well_formed_listing w p request" "listing_inv (MF, MD) libs w p request ls R D" "i < length (ls_decrypts ls)"
    "ls_decrypts ls ! i = (u, key, req)" "kw_decrypt w u key = (r, response)"
    "OnDecryptCallback (MF, MD) libs (endpoint_count p) r response (Some key) u
       (ls\<lparr>ls_decrypts := take i (ls_decrypts ls) @ drop (Suc i) (ls_decrypts ls)\<rparr>) = Inr ls'"
  shows "listing_ok (MF, MD) libs w p request ls'"
proof -
  let ?st = "ls_status ls" and ?rest = "take i (ls_decrypts ls) @ drop (Suc i) (ls_decrypts ls)" and ?d = "(u, key)"
  let ?per = "result_list ?st ! u"
  have base: "listing_base (MF, MD) w p request ls R D" using assms(2) by (simp add: listing_inv_def)
  then have inv: "\<not> got_failure ?st" "ls_entered ls = []" "ls_refused ls = []"
    by (simp_all add: listing_base_def inv_calls_def)
  have "ls_decrypts ls \<noteq> []" using assms(3) by auto
  then have fin: "ls_finishes ls = []"
    using assms(2) incomplete_splits [OF base] by (simp add: listing_inv_def inv_finishes_def)
  obtain tx where tx: "(if Successful r then deref response else Inr []) = Inr tx"
    using assms(6) inv(1) by (auto simp: OnDecryptCallback_whole Let_def bindE_Inr_iff)
  then obtain kid where kid: "ek_key_id key = Some kid"
    using assms(6) inv(1) by (cases "ek_key_id key") (auto simp: OnDecryptCallback_whole Let_def InsertDecryptResult_def deref_def)
  have e: "decrypt_entry w ?d = (kid, \<lparr>decrypt_result = r, dec_encryption_key = key, plaintext = tx\<rparr>)"
    using kid tx assms(5) by (cases response) (auto simp: decrypt_entry_def deref_def split: if_splits)
  obtain insert_result out m' where ins:
    "ConcurrentMap_Insert MD (decrypt_result_key_id_map ?per) (decrypt_entry w ?d) = (insert_result, out, m')"
    by (cases rule: prod_cases3)
  note step = decrypt_step [of "ls\<lparr>ls_decrypts := ?rest\<rparr>", OF _ tx kid e, of insert_result out m' libs "endpoint_count p"]
  show ?thesis
  proof (cases "Successful insert_result")
    case False
    then show ?thesis using step assms(6) inv fin ins by (auto simp: failed_ok)
  next
    case True
    let ?ls2 = "ls\<lparr>ls_decrypts := ?rest, ls_status := ?st\<lparr>result_list := (result_list ?st)[u := ?per\<lparr>decrypt_result_key_id_map := m'\<rparr>],
      finished_key_split_count := finished_key_split_count ?st + 1\<rparr>\<rparr>"
    note stored = decrypt_stored [OF assms(1) base assms(3,4) pending_split [OF base assms(3,4)] ins True, of ?ls2, OF refl]
    have "listing_inv (MF, MD) libs w p request ls' R (?d # D)"
      using end_inv(1) [OF assms(1) stored(1) _ stored(2)] step assms(6) inv fin ins True by simp
    then show ?thesis by (rule inv_ok)
  qed
qed

section \<open>Runs\<close>

lemma failed_stays:
  assumes "ls_entered ls = []" "ls_refused ls = []" "got_failure (ls_status ls)" "key_step M libs w p request ls e = Inr ls'"
    "whole_callback e" "refusals_final w"
  shows "ls_entered ls' = []" "ls_refused ls' = []" "got_failure (ls_status ls')" "ls_finishes ls' = ls_finishes ls"
proof -
  have "ls_entered ls' = [] \<and> ls_refused ls' = [] \<and> got_failure (ls_status ls') \<and> ls_finishes ls' = ls_finishes ls"
  proof (cases e)
    case (CallDecrypt j)
    have "Successful (kw_decrypt_call w u key) \<or> \<not> kw_decrypt_finishes w u key" for u key
      using assms(6) by (simp add: refusals_final_def)
    then show ?thesis using assms(1-4) CallDecrypt
      by (auto simp: OnFetch_round_def Let_def bindE_Inr_iff finish_failed_def split: if_splits prod.splits list.splits)
  next
    case CallFetch
    then show ?thesis using assms
      by (auto simp: ListPrivateKeys_round_def finish_failed_def refusals_final_def Let_def split: if_splits prod.splits list.splits)
  qed (use assms in \<open>auto simp: whole_callback_def OnFetchPrivateKeyCallback_def OnFetch_enter_def OnDecryptCallback_whole
      finish_failed_def Let_def split: if_splits prod.splits list.splits\<close>)
  then show "ls_entered ls' = []" "ls_refused ls' = []" "got_failure (ls_status ls')" "ls_finishes ls' = ls_finishes ls" by simp_all
qed

lemma step_ok:
  assumes "well_formed_listing w p request" "listing_ok (MF, MD) libs w p request ls"
    "whole_callback e"
    "key_step (MF, MD) libs w p request ls e = Inr ls'" "refusals_final w"
  shows "listing_ok (MF, MD) libs w p request ls'"
proof (cases "got_failure (ls_status ls)")
  case True
  then show ?thesis using failed_stays [OF _ _ True assms(4,3,5)] assms(2) by (simp add: listing_ok_def)
next
  case False
  then obtain R D where inv: "listing_inv (MF, MD) libs w p request ls R D" using assms(2) by (auto simp: listing_ok_def)
  show ?thesis
  proof (cases e)
    case CallFetch
    then show ?thesis using assms(2,4,5) call_fetch_ok [OF inv] by (auto simp: refusals_final_def split: list.splits)
  next
    case (FetchAnswered i)
    then show ?thesis using assms(2,4) fetch_answered_ok [OF assms(1) inv, of i, OF _ refl surjective_pairing]
      by (auto simp: Let_def split_beta split: if_splits)
  next
    case (CallDecrypt j)
    then show ?thesis using assms(2,4,5) call_decrypt_ok [OF inv]
      by (auto simp: refusals_final_def split: if_splits prod.splits list.splits)
  next
    case (DecryptAnswered i)
    then show ?thesis using assms(2,4) decrypt_answered_ok [OF assms(1) inv, of i]
      by (auto simp: Let_def split: if_splits prod.splits)
  next
    case (RefusalReturns k)
    moreover have "ls_refused ls = []" using assms(2) by (simp add: listing_ok_def)
    ultimately show ?thesis using assms(2,4) by simp
  qed (use assms(3) in \<open>simp_all add: whole_callback_def\<close>)
qed

lemma run_ok:
  "well_formed_listing w p request \<Longrightarrow> refusals_final w \<Longrightarrow> listing_ok (MF, MD) libs w p request ls \<Longrightarrow> uninterrupted es \<Longrightarrow>
   key_run (MF, MD) libs w p request ls es = Inr ls' \<Longrightarrow> listing_ok (MF, MD) libs w p request ls'"
proof (induction es arbitrary: ls)
  case (Cons e es)
  then obtain ls1 where "key_step (MF, MD) libs w p request ls e = Inr ls1" "key_run (MF, MD) libs w p request ls1 es = Inr ls'"
    by (auto simp: bindE_Inr_iff)
  moreover from this have "listing_ok (MF, MD) libs w p request ls1"
    using step_ok Cons.prems by (auto simp: uninterrupted_def)
  ultimately show ?case using Cons by (simp add: uninterrupted_def)
qed simp

lemma quiet_complete:
  assumes "listing_inv M libs w p request ls R D" "quiet ls"
  shows "mset R = mset (all_fetches p request)" "mset D = mset (splits_of w R)" "complete w p request R D"
proof -
  show R: "mset R = mset (all_fetches p request)" "mset D = mset (splits_of w R)"
    using assms by (simp_all add: listing_inv_def listing_base_def inv_calls_def inv_splits_def quiet_def)
  show "complete w p request R D" using mset_eq_length [OF R(1)] mset_eq_length [OF R(2)] by (simp add: complete_def)
qed

end

interpretation al_keys: key_maps "al_tbb :: ((string \<times> ExecutionResult) list, string, ExecutionResult) tbb_hash_map"
  "al_tbb :: ((string \<times> DecryptResult) list, string, DecryptResult) tbb_hash_map"
  by (rule key_maps.intro) (rule al_tbb.concurrent_hash_map_axioms)+

section \<open>Properties\<close>

text \<open>
  C9: as long as no callback of a fetch or of a decryption is interrupted by another one, and
  no call of the fetcher or of the key management service both finishes its context and
  returns a failure, the context of a listing is never finished twice, and once nothing is
  left to do it has been finished, whatever the endpoints and the service answer and in
  whatever order, if nothing faults. Both conditions are needed, as the races below show.
\<close>

theorem list_keys_finishes_once:
  assumes "concurrent_hash_map MF" "concurrent_hash_map MD" "well_formed_listing w p request" "refusals_final w" "uninterrupted es"
    "key_run (MF, MD) libs w p request (ListPrivateKeys (MF, MD) p request) es = Inr ls"
  shows "length (ls_finishes ls) \<le> 1 \<and> (quiet ls \<longrightarrow> length (ls_finishes ls) = 1)"
proof -
  have km: "key_maps MF MD" using assms(1,2) by (rule key_maps.intro)
  have "listing_ok (MF, MD) libs w p request (ListPrivateKeys (MF, MD) p request)"
    by (rule key_maps.inv_ok [OF km key_maps.start_inv [OF km assms(3)]])
  then have "listing_ok (MF, MD) libs w p request ls" by (rule key_maps.run_ok [OF km assms(3,4) _ assms(5,6)])
  then show ?thesis
  proof (cases "got_failure (ls_status ls)")
    case False
    then obtain R D where inv: "listing_inv (MF, MD) libs w p request ls R D"
      using \<open>listing_ok (MF, MD) libs w p request ls\<close> by (auto simp: listing_ok_def)
    then have "if complete w p request R D then length (ls_finishes ls) = 1 else ls_finishes ls = []"
      by (auto simp: listing_inv_def inv_finishes_def)
    then show ?thesis using key_maps.quiet_complete(3) [OF km inv] by (auto split: if_splits)
  qed (auto simp: listing_ok_def)
qed

definition example_endpoint :: PrivateKeyVendingEndpoint where
  "example_endpoint = \<lparr>account_identity = ''a'', service_region = ''r'', private_key_vending_service_endpoint = ''e'',
     gcp_private_key_vending_service_cloudfunction_url = [], gcp_wip_provider = []\<rparr>"

definition example_provider :: "PrivateKeyClientProvider" where
  "example_provider = snd (PrivateKeyClientProvider_Init
     \<lparr>private_key_client_options = \<lparr>primary_private_key_vending_endpoint = example_endpoint,
        secondary_private_key_vending_endpoints = [example_endpoint]\<rparr>, endpoint_list = [], endpoint_count = 0\<rparr>)"

definition example_key :: "string \<Rightarrow> EncryptionKey" where
  "example_key kid = \<lparr>ek_key_id = Some kid, resource_name = None, encryption_key_type = kMultiPartyHybridEvenKeysplit,
     public_keyset_handle = None, public_key_material = Some ''pub'', expiration_time_in_ms = 5, creation_time_in_ms = 2,
     key_data = replicate 2 \<lparr>public_key_signature = None, key_encryption_key_uri = Some ''aws-kms://arn'', key_material = Some ''m''\<rparr>\<rparr>"

definition example_libs :: "Timestamp key_libs" where
  "example_libs = \<lparr>JsonKeysetReader_New = \<lambda>_. True, ReadEncrypted = Some, Base64Escape = id, evp_base64 = rfc4648,
     MillisecondsToTimestamp = id, logging = False\<rparr>"

definition example_world :: key_world where
  "example_world = \<lparr>kw_fetch_call = \<lambda>_ _. SuccessExecutionResult, kw_fetch_finishes = \<lambda>_ _. False,
     kw_fetch = \<lambda>_ req. (SuccessExecutionResult, Some [example_key (the (fr_key_id req))]),
     kw_decrypt_call = \<lambda>_ _. SuccessExecutionResult, kw_decrypt_finishes = \<lambda>_ _. False,
     kw_decrypt = \<lambda>u _. (SuccessExecutionResult, Some (if u = 0 then ''abc'' else ''xyz''))\<rparr>"

definition example_events :: "key_event list" where
  "example_events = [CallFetch, CallFetch, FetchAnswered 1, CallDecrypt 0, DecryptAnswered 0, CallDecrypt 0,
     FetchAnswered 0, CallDecrypt 0, CallDecrypt 0, DecryptAnswered 0]"

abbreviation "example_maps \<equiv> (al_tbb :: ((string \<times> ExecutionResult) list, string, ExecutionResult) tbb_hash_map,
  al_tbb :: ((string \<times> DecryptResult) list, string, DecryptResult) tbb_hash_map)"

lemma example_run:
  "map_sum id (\<lambda>ls. (quiet ls, ls_finishes ls)) (key_run example_maps example_libs example_world example_provider
     \<lparr>key_ids = [''k''], max_age_seconds = 0\<rparr> (ListPrivateKeys example_maps example_provider \<lparr>key_ids = [''k''], max_age_seconds = 0\<rparr>)
     example_events) = Inr (True, [(SuccessExecutionResult, Some [\<lparr>pk_key_id = ''k'', pk_public_key = ''pub'',
       pk_private_key = ''GRsZ'', pk_expiration_time = 5, pk_creation_time = 2\<rparr>])])"
  by code_simp

theorem list_keys_finishes_once_witness:
  "\<exists>ls. key_run example_maps example_libs example_world example_provider \<lparr>key_ids = [''k''], max_age_seconds = 0\<rparr>
     (ListPrivateKeys example_maps example_provider \<lparr>key_ids = [''k''], max_age_seconds = 0\<rparr>) example_events = Inr ls \<and>
   quiet ls \<and> length (ls_finishes ls) = 1"
proof -
  let ?q = "\<lparr>key_ids = [''k''], max_age_seconds = 0\<rparr>"
  obtain ls where ls: "key_run example_maps example_libs example_world example_provider ?q
      (ListPrivateKeys example_maps example_provider ?q) example_events = Inr ls" "quiet ls"
    using example_run by (cases "key_run example_maps example_libs example_world example_provider ?q
      (ListPrivateKeys example_maps example_provider ?q) example_events") auto
  have n: "length (all_fetches example_provider ?q) = 2" "length (splits_of example_world (all_fetches example_provider ?q)) = 2"
    by code_simp+
  have "endpoint_count example_provider = of_nat (length (endpoint_list example_provider))" "endpoint_count example_provider \<noteq> 0"
    by code_simp+
  then have wf: "well_formed_listing example_world example_provider ?q" by (simp add: well_formed_listing_def n)
  have u: "uninterrupted example_events" by code_simp
  have f: "refusals_final example_world" by (simp add: refusals_final_def example_world_def)
  show ?thesis
    using list_keys_finishes_once [OF al_tbb.concurrent_hash_map_axioms al_tbb.concurrent_hash_map_axioms wf f u ls(1)] ls by auto
qed

section \<open>Races\<close>

text \<open>
  When the callback of a fetch is interrupted after it has counted itself, the listing can
  be finished twice: first with a failure, because the decryption that comes in between takes
  the splits of the interrupted fetch for missing, then with the keys.
\<close>

lemma list_keys_race:
  "map_sum id ls_finishes (key_run example_maps example_libs example_world example_provider
     \<lparr>key_ids = [''k''], max_age_seconds = 0\<rparr> (ListPrivateKeys example_maps example_provider \<lparr>key_ids = [''k''], max_age_seconds = 0\<rparr>)
     [CallFetch, CallFetch, FetchAnswered 0, CallDecrypt 0, FetchEnters 0, DecryptAnswered 0, FetchProceeds 0, CallDecrypt 1, DecryptAnswered 0]) =
   Inr [(FailureExecutionResult SC_PRIVATE_KEY_CLIENT_PROVIDER_UNMATCHED_ENDPOINTS_SPLITS, Some []),
     (SuccessExecutionResult, Some [\<lparr>pk_key_id = ''k'', pk_public_key = ''pub'',
       pk_private_key = ''GRsZ'', pk_expiration_time = 5, pk_creation_time = 2\<rparr>])]"
  by code_simp

text \<open>
  The callback of a decryption is interrupted after it has counted the only split, and the
  other endpoint fails in between: both callbacks find that they are the last.
\<close>

lemma list_keys_decrypt_race:
  "map_sum id ls_finishes (key_run example_maps example_libs
     (example_world\<lparr>kw_fetch := \<lambda>u req. if u = 0 then kw_fetch example_world u req else (FailureExecutionResult 7, None)\<rparr>) example_provider
     \<lparr>key_ids = [''k''], max_age_seconds = 0\<rparr> (ListPrivateKeys example_maps example_provider \<lparr>key_ids = [''k''], max_age_seconds = 0\<rparr>)
     [CallFetch, CallFetch, FetchAnswered 0, CallDecrypt 0, DecryptEnters 0, FetchAnswered 0, DecryptEnds 0]) =
   Inr [(FailureExecutionResult 7, Some []), (FailureExecutionResult 7, Some [])]"
  by code_simp

text \<open>
  A key management service that finishes the context of the last decryption and then returns
  the failure: the callback finishes the listing, and so does the loop that gets the failure.
\<close>

lemma list_keys_refusal_race:
  "map_sum id ls_finishes (key_run example_maps example_libs
     (example_world\<lparr>kw_decrypt_call := \<lambda>u _. if u = 0 then SuccessExecutionResult else FailureExecutionResult 7,
        kw_decrypt_finishes := \<lambda>_ _. True,
        kw_decrypt := \<lambda>u key. if u = 0 then kw_decrypt example_world u key else (FailureExecutionResult 7, None)\<rparr>) example_provider
     \<lparr>key_ids = [''k''], max_age_seconds = 0\<rparr> (ListPrivateKeys example_maps example_provider \<lparr>key_ids = [''k''], max_age_seconds = 0\<rparr>)
     [CallFetch, CallFetch, FetchAnswered 0, CallDecrypt 0, DecryptAnswered 0, FetchAnswered 0, CallDecrypt 1, DecryptAnswered 0, RefusalReturns 0]) =
   Inr [(FailureExecutionResult 7, Some []), (FailureExecutionResult 7, None)]"
  by code_simp

end
