(* ===== verification/Private_Key_Assembly.thy ===== *)
theory Private_Key_Assembly
  imports Private_Key_Client_Correct
begin

text \<open>
  What a listing by key ids returns when the endpoints do their part: the secret that was
  split over them, for every key asked for, in whatever order the answers arrive.
\<close>

section \<open>Splitting a secret\<close>






section \<open>Honest endpoints\<close>






section \<open>The end of an honest listing\<close>


section \<open>Honest listings never fail\<close>







section \<open>Properties\<close>



end
