(* ===== verification/Roma_Dispatcher.thy ===== *)
theory Roma_Dispatcher
  imports Lru_Cache Error_Codes
begin

text \<open>
  The dispatcher of the sandbox: cc/roma/sandbox/dispatcher/src (dispatcher.h, dispatcher.cc,
  request_validator.h, request_converter.h) and the pool of workers, cc/roma/sandbox/worker_pool/src/
  worker_pool_api_sapi.cc. Requests are validated, put on an executor together with a worker, and run there
  when the executor gets to them; loaded code is kept in the least-recently-used cache, from which
  a crashed worker is loaded again. A worker is what its \<open>RunCode\<close> does, a parameter. Callers, batches,
  broadcasts and tasks interleave as events.
\<close>

section \<open>Requests\<close>

type_synonym int32_t = "32 word"
type_synonym tags = "string \<rightharpoonup> string"

record CodeObject =
  co_id :: string
  co_version_num :: u64
  co_js :: string
  co_wasm :: string
  co_wasm_bin :: "u8 list"
  co_tags :: tags

datatype WasmDataType = kUnknownType | kUint32 | kString | kListOfString

record 'i InvocationRequest =
  ir_id :: string
  ir_version_num :: u64
  ir_handler_name :: string
  ir_wasm_return_type :: WasmDataType
  ir_tags :: tags
  ir_input :: "'i list"

text \<open>The requests \<open>Dispatch\<close> is instantiated with; a shared input may be a null pointer.\<close>

datatype request =
    LoadCode CodeObject
  | InvokeStr "string InvocationRequest"
  | InvokeShared "string option InvocationRequest"

record ResponseObject =
  ro_id :: string
  ro_resp :: string
  ro_metrics :: "string \<rightharpoonup> int"

text \<open>\<open>absl::StatusOr\<close>: the message of an internal error, or a response.\<close>

datatype response = kInternal string | OkResponse ResponseObject

record RunCodeRequest =
  rc_code :: string
  rc_input :: "string list"
  rc_metadata :: tags
  rc_wasm :: "u8 list"

record RunCodeResponse =
  rr_response :: "string option"
  rr_errors :: "string option list"
  rr_metrics :: "string \<rightharpoonup> int"

definition kRequestType :: string where "kRequestType = ''RequestType''"
definition kRequestTypeJavascript :: string where "kRequestTypeJavascript = ''JS''"
definition kRequestTypeWasm :: string where "kRequestTypeWasm = ''WASM''"
definition kRequestTypeJavascriptWithWasm :: string where "kRequestTypeJavascriptWithWasm = ''JSAndWASM''"
definition kHandlerName :: string where "kHandlerName = ''HandlerName''"
definition kRequestId :: string where "kRequestId = ''RequestId''"
definition kCodeVersion :: string where "kCodeVersion = ''CodeVersion''"
definition kRequestAction :: string where "kRequestAction = ''RequestAction''"
definition kRequestActionLoad :: string where "kRequestActionLoad = ''Load''"
definition kRequestActionExecute :: string where "kRequestActionExecute = ''Execute''"
definition kWasmCodeArrayName :: string where "kWasmCodeArrayName = ''roma.request.wasm_array_name''"
definition kDefaultRomaRequestId :: string where "kDefaultRomaRequestId = ''roma.defaults.request.id''"

fun request_id :: "request \<Rightarrow> string" where
  "request_id (LoadCode c) = co_id c"
| "request_id (InvokeStr r) = ir_id r"
| "request_id (InvokeShared r) = ir_id r"

fun version_num :: "request \<Rightarrow> u64" where
  "version_num (LoadCode c) = co_version_num c"
| "version_num (InvokeStr r) = ir_version_num r"
| "version_num (InvokeShared r) = ir_version_num r"

fun with_request_id :: "request \<Rightarrow> string \<Rightarrow> request" where
  "with_request_id (LoadCode c) i = LoadCode (c\<lparr>co_id := i\<rparr>)"
| "with_request_id (InvokeStr r) i = InvokeStr (r\<lparr>ir_id := i\<rparr>)"
| "with_request_id (InvokeShared r) i = InvokeShared (r\<lparr>ir_id := i\<rparr>)"

definition InvocationRequestCommon_validate :: "'i InvocationRequest \<Rightarrow> ExecutionResult" where
  "InvocationRequestCommon_validate r =
     (if ir_handler_name r = [] then FailureExecutionResult SC_UNKNOWN
      else if ir_version_num r = 0 then FailureExecutionResult SC_UNKNOWN
      else if ir_id r = [] then FailureExecutionResult SC_UNKNOWN
      else SuccessExecutionResult)"

fun Validate :: "request \<Rightarrow> ExecutionResult" where
  "Validate (LoadCode c) =
     (if co_js c = [] \<and> co_wasm c = [] then FailureExecutionResult SC_UNKNOWN
      else if co_js c \<noteq> [] \<and> co_wasm c \<noteq> [] then FailureExecutionResult SC_UNKNOWN
      else if co_version_num c = 0 then FailureExecutionResult SC_UNKNOWN
      else if co_id c = [] then FailureExecutionResult SC_UNKNOWN
      else SuccessExecutionResult)"
| "Validate (InvokeStr r) = InvocationRequestCommon_validate r"
| "Validate (InvokeShared r) = InvocationRequestCommon_validate r"

text \<open>\<open>std::to_string\<close>.\<close>

fun to_string :: "nat \<Rightarrow> string" where
  "to_string n = (if n < 10 then [char_of (48 + n)] else to_string (n div 10) @ [char_of (48 + n mod 10)])"

declare to_string.simps [simp del]

definition RunRequestFromInputRequestCommon :: "u64 \<Rightarrow> string \<Rightarrow> tags \<Rightarrow> tags" where
  "RunRequestFromInputRequestCommon version i tgs =
     [kCodeVersion \<mapsto> to_string (unat version), kRequestId \<mapsto> i] ++ tgs"

definition InvocationRequestCommon_convert :: "tags \<Rightarrow> 'i InvocationRequest \<Rightarrow> string \<Rightarrow> tags" where
  "InvocationRequestCommon_convert metadata r request_type =
     metadata(kRequestAction \<mapsto> kRequestActionExecute, kHandlerName \<mapsto> ir_handler_name r, kRequestType \<mapsto> request_type)"

fun deref_all :: "'a option list \<Rightarrow> cpp_fault + 'a list" where
  "deref_all [] = Inr []"
| "deref_all (x # xs) = (case x of None \<Rightarrow> Inl UndefinedBehaviour | Some v \<Rightarrow> bindE (deref_all xs) (\<lambda>vs. Inr (v # vs)))"

fun FromUserProvided :: "request \<Rightarrow> string \<Rightarrow> cpp_fault + RunCodeRequest ExecutionResultOr" where
  "FromUserProvided (InvokeStr r) request_type =
     Inr (HoldsValue \<lparr>rc_code = [], rc_input = ir_input r,
       rc_metadata = InvocationRequestCommon_convert
         (RunRequestFromInputRequestCommon (ir_version_num r) (ir_id r) (ir_tags r)) r request_type, rc_wasm = []\<rparr>)"
| "FromUserProvided (InvokeShared r) request_type =
     bindE (deref_all (ir_input r)) (\<lambda>input. Inr (HoldsValue \<lparr>rc_code = [], rc_input = input,
       rc_metadata = InvocationRequestCommon_convert
         (RunRequestFromInputRequestCommon (ir_version_num r) (ir_id r) (ir_tags r)) r request_type, rc_wasm = []\<rparr>))"
| "FromUserProvided (LoadCode c) request_type =
     (let metadata = (RunRequestFromInputRequestCommon (co_version_num c) (co_id c) (co_tags c))
            (kRequestAction \<mapsto> kRequestActionLoad, kRequestType \<mapsto> request_type);
          metadata1 = (case co_tags c kWasmCodeArrayName of
            None \<Rightarrow> metadata | Some array_name \<Rightarrow> metadata(kWasmCodeArrayName \<mapsto> array_name))
      in Inr (HoldsValue \<lparr>rc_code = (if co_js c = [] then co_wasm c else co_js c), rc_input = [],
        rc_metadata = metadata1, rc_wasm = co_wasm_bin c\<rparr>))"

section \<open>State\<close>

text \<open>
  A callback is that of a single request, of one request of a batch, or of one worker of a
  broadcast; batches and broadcasts are numbered.
\<close>

datatype callback = UserCallback nat | BatchCallback nat nat | BroadcastCallback nat nat

record task =
  tk_index :: size_t
  tk_request :: request
  tk_callback :: callback

text \<open>
  What the callbacks of a batch share, the request \<open>DispatchBatch\<close> is at, and what it has
  returned; the same for a broadcast.
\<close>

record batch =
  bt_requests :: "request list"
  bt_at :: nat
  bt_response :: "response option list"
  bt_finished_counter :: size_t
  bt_returned :: "ExecutionResult option"

record broadcast =
  bc_code_object :: CodeObject
  bc_at :: size_t
  bc_responses_storage :: "response option list"
  bc_finished_counter :: size_t
  bc_returned :: "ExecutionResult option"

text \<open>
  The dispatcher with its workers, the tasks on the executor, those that have looked their
  code up but not gone on, the scheduled requests that are not counted yet, what \<open>Dispatch\<close> has
  returned to its callers, and the calls of the callbacks that were given to \<open>Dispatch\<close>,
  \<open>DispatchBatch\<close> and \<open>Broadcast\<close>.
\<close>

record ('h, 'w) dispatcher =
  worker_index :: size_t
  pending_requests :: size_t
  max_pending_requests :: size_t
  code_object_cache :: "('h, u64) lru_cache"
  worker_pool :: "'w list"
  scheduled :: "task list"
  looked_up :: "task list"
  uncounted :: nat
  batches :: "batch list"
  broadcasts :: "broadcast list"
  user_returns :: "(nat \<times> ExecutionResult) list"
  user_calls :: "(nat \<times> response) list"
  batch_calls :: "(nat \<times> response option list) list"
  broadcast_calls :: "(nat \<times> response option) list"

text \<open>
  The parameters: the hash map of the cache with a default code object, the texts of error
  codes, what a worker does with a request, and the order in which the copy of the cache is
  iterated.
\<close>

record ('h, 'w) sandbox =
  sb_map :: "('h, u64, nat option \<times> CodeObject) flat_map"
  sb_default :: CodeObject
  sb_message :: "StatusCode \<Rightarrow> string"
  sb_RunCode :: "'w \<Rightarrow> RunCodeRequest \<Rightarrow> RunCodeResponse ExecutionResultOr \<times> 'w"
  sb_entries :: "(u64 \<rightharpoonup> CodeObject) \<Rightarrow> CodeObject list"

definition SC_ROMA_DISPATCHER_DISPATCH_DISALLOWED_DUE_TO_CAPACITY :: StatusCode where
  "SC_ROMA_DISPATCHER_DISPATCH_DISALLOWED_DUE_TO_CAPACITY = MakeErrorCode 0x0C00 0x0002"

definition SC_ROMA_WORKER_POOL_WORKER_INDEX_OUT_OF_BOUNDS :: StatusCode where
  "SC_ROMA_WORKER_POOL_WORKER_INDEX_OUT_OF_BOUNDS = MakeErrorCode 0x0CF0 0x0001"

text \<open>The constructor checks its limits and aborts when one is zero.\<close>

definition Dispatcher :: "('h, 'w) sandbox \<Rightarrow> 'w list \<Rightarrow> size_t \<Rightarrow> size_t \<Rightarrow> cpp_fault + ('h, 'w) dispatcher" where
  "Dispatcher S pool max_pending code_version_cache_size =
     assertE (max_pending > 0) (assertE (code_version_cache_size > 0)
       (Inr \<lparr>worker_index = 0, pending_requests = 0, max_pending_requests = max_pending,
             code_object_cache = LruCache (sb_map S) (unat code_version_cache_size), worker_pool = pool,
             scheduled = [], looked_up = [], uncounted = 0, batches = [], broadcasts = [],
             user_returns = [], user_calls = [], batch_calls = [], broadcast_calls = []\<rparr>))"

text \<open>
  The pool of workers: one worker for each configuration, and set-up, start and stop one after the
  other up to the first failure.
\<close>

definition WorkerPoolApiSapi :: "('c \<Rightarrow> 'w) \<Rightarrow> 'c list \<Rightarrow> nat \<Rightarrow> cpp_fault + 'w list" where
  "WorkerPoolApiSapi mk config sz = assertE (length config = sz) (Inr (map mk config))"

fun WorkerPool_each :: "('w \<Rightarrow> ExecutionResult \<times> 'w) \<Rightarrow> 'w list \<Rightarrow> ExecutionResult \<times> 'w list" where
  "WorkerPool_each f [] = (SuccessExecutionResult, [])"
| "WorkerPool_each f (w # ws) =
     (let (r, w1) = f w
      in if \<not> Successful r then (r, w1 # ws)
         else let (r2, ws1) = WorkerPool_each f ws in (r2, w1 # ws1))"

definition GetPoolSize :: "('h, 'w) dispatcher \<Rightarrow> size_t" where
  "GetPoolSize d = of_nat (length (worker_pool d))"

definition GetWorker :: "('h, 'w) dispatcher \<Rightarrow> size_t \<Rightarrow> 'w ExecutionResultOr" where
  "GetWorker d index =
     (if index \<ge> GetPoolSize d then HoldsResult (FailureExecutionResult SC_ROMA_WORKER_POOL_WORKER_INDEX_OUT_OF_BOUNDS)
      else HoldsValue (worker_pool d ! unat index))"

section \<open>Dispatching\<close>

text \<open>
  \<open>InternalDispatch\<close> up to and with the call of \<open>Schedule\<close>, which answers \<open>answer\<close>. The number of
  a worker is passed as an \<open>int32_t\<close>, where -1 stands for the next worker in turn, and is extended with its
  sign. A remainder by zero workers has no meaning.
\<close>

definition pick_worker :: "int32_t \<Rightarrow> ('h, 'w) dispatcher \<Rightarrow> cpp_fault + (size_t \<times> ('h, 'w) dispatcher)" where
  "pick_worker worker_idx d =
     (if worker_idx \<noteq> -1 then Inr (scast worker_idx, d)
      else let num_workers = GetPoolSize d
           in if num_workers = 0 then Inl UndefinedBehaviour
              else Inr (worker_index d mod num_workers, d\<lparr>worker_index := (worker_index d + 1) mod num_workers\<rparr>))"

text \<open>Code is put into the cache when its loading is dispatched.\<close>

definition cache_code ::
  "('h, 'w) sandbox \<Rightarrow> request \<Rightarrow> ('h, u64) lru_cache \<Rightarrow> cpp_fault + ('h, u64) lru_cache" where
  "cache_code S request cache =
     (case request of
        LoadCode code \<Rightarrow> LruCache_Set (sb_map S) (sb_default S) cache (co_version_num code) code
      | _ \<Rightarrow> Inr cache)"

definition InternalDispatch_schedule ::
  "('h, 'w) sandbox \<Rightarrow> request \<Rightarrow> callback \<Rightarrow> int32_t \<Rightarrow> ExecutionResult \<Rightarrow> ('h, 'w) dispatcher \<Rightarrow>
   cpp_fault + (ExecutionResult \<times> ('h, 'w) dispatcher)" where
  "InternalDispatch_schedule S request callback worker_idx answer d =
     (if pending_requests d \<ge> max_pending_requests d
      then Inr (FailureExecutionResult SC_ROMA_DISPATCHER_DISPATCH_DISALLOWED_DUE_TO_CAPACITY, d)
      else let request1 = (if request_id request = [] then with_request_id request kDefaultRomaRequestId else request);
               validation_result = Validate request1
           in if \<not> Successful validation_result then Inr (validation_result, d)
              else bindE (pick_worker worker_idx d) (\<lambda>(index, d1).
                bindE (cache_code S request1 (code_object_cache d1)) (\<lambda>cache.
                  let d2 = d1\<lparr>code_object_cache := cache\<rparr>
                  in if Successful answer
                     then Inr (answer, d2\<lparr>scheduled := scheduled d2 @ [\<lparr>tk_index = index, tk_request = request1, tk_callback = callback\<rparr>]\<rparr>)
                     else Inr (answer, d2))))"

text \<open>The increment that follows a successful \<open>Schedule\<close>.\<close>

definition InternalDispatch_count :: "('h, 'w) dispatcher \<Rightarrow> ('h, 'w) dispatcher" where
  "InternalDispatch_count d = d\<lparr>pending_requests := pending_requests d + 1\<rparr>"

definition InternalDispatch ::
  "('h, 'w) sandbox \<Rightarrow> request \<Rightarrow> callback \<Rightarrow> int32_t \<Rightarrow> ExecutionResult \<Rightarrow> ('h, 'w) dispatcher \<Rightarrow>
   cpp_fault + (ExecutionResult \<times> ('h, 'w) dispatcher)" where
  "InternalDispatch S request callback worker_idx answer d =
     bindE (InternalDispatch_schedule S request callback worker_idx answer d) (\<lambda>(schedule_result, d1).
       Inr (schedule_result, if Successful schedule_result then InternalDispatch_count d1 else d1))"

definition Roma_Dispatch ::
  "('h, 'w) sandbox \<Rightarrow> request \<Rightarrow> nat \<Rightarrow> ExecutionResult \<Rightarrow> ('h, 'w) dispatcher \<Rightarrow>
   cpp_fault + (ExecutionResult \<times> ('h, 'w) dispatcher)" where
  "Roma_Dispatch S request callback answer d = InternalDispatch S request (UserCallback callback) (-1) answer d"

section \<open>Callbacks\<close>

text \<open>
  The callback of a request of a batch stores its response and calls the callback of the
  batch when it is the last; that of a broadcast passes on the first failed response, or
  the first response when all workers succeeded.
\<close>

definition first_failed :: "response option list \<Rightarrow> response option" where
  "first_failed responses =
     (case filter (\<lambda>r. case r of Some (OkResponse _) \<Rightarrow> False | _ \<Rightarrow> True) responses of
        [] \<Rightarrow> responses ! 0 | resp # _ \<Rightarrow> resp)"

fun call_callback :: "callback \<Rightarrow> response \<Rightarrow> ('h, 'w) dispatcher \<Rightarrow> ('h, 'w) dispatcher" where
  "call_callback (UserCallback k) resp d = d\<lparr>user_calls := user_calls d @ [(k, resp)]\<rparr>"
| "call_callback (BatchCallback b index) resp d =
     (let bt = batches d ! b; finished_value = bt_finished_counter bt;
          bt1 = bt\<lparr>bt_response := (bt_response bt)[index := Some resp], bt_finished_counter := finished_value + 1\<rparr>;
          d1 = d\<lparr>batches := (batches d)[b := bt1]\<rparr>
      in if finished_value + 1 = of_nat (length (bt_response bt1))
         then d1\<lparr>batch_calls := batch_calls d @ [(b, bt_response bt1)]\<rparr> else d1)"
| "call_callback (BroadcastCallback b index) resp d =
     (let bc = broadcasts d ! b; finished_value = bc_finished_counter bc;
          bc1 = bc\<lparr>bc_responses_storage := (bc_responses_storage bc)[index := Some resp], bc_finished_counter := finished_value + 1\<rparr>;
          d1 = d\<lparr>broadcasts := (broadcasts d)[b := bc1]\<rparr>
      in if finished_value + 1 = of_nat (length (bc_responses_storage bc1))
         then d1\<lparr>broadcast_calls := broadcast_calls d @ [(b, first_failed (bc_responses_storage bc1))]\<rparr> else d1)"

definition task_respond :: "task \<Rightarrow> response \<Rightarrow> ('h, 'w) dispatcher \<Rightarrow> ('h, 'w) dispatcher" where
  "task_respond t resp d =
     (let d1 = call_callback (tk_callback t) resp d in d1\<lparr>pending_requests := pending_requests d1 - 1\<rparr>)"

section \<open>Running a request\<close>

definition code_type :: "string \<Rightarrow> u8 list \<Rightarrow> string" where
  "code_type js wasm_bin =
     (if wasm_bin \<noteq> [] then kRequestTypeJavascriptWithWasm
      else if js = [] then kRequestTypeWasm else kRequestTypeJavascript)"

fun Reload_loop ::
  "('h, 'w) sandbox \<Rightarrow> CodeObject list \<Rightarrow> 'w \<Rightarrow> cpp_fault + (ExecutionResult \<times> 'w)" where
  "Reload_loop S [] w = Inr (SuccessExecutionResult, w)"
| "Reload_loop S (cached_code # entries) w =
     bindE (FromUserProvided (LoadCode cached_code) (code_type (co_js cached_code) (co_wasm_bin cached_code)))
       (\<lambda>run_code_request_or. case run_code_request_or of
          HoldsResult r \<Rightarrow> Inr (r, w)
        | HoldsValue run_code_request \<Rightarrow>
            let (run_code_result_or, w1) = sb_RunCode S w run_code_request
            in if \<not> Or_Successful run_code_result_or then Inr (result run_code_result_or, w1)
               else Reload_loop S entries w1)"

definition ReloadCachedCodeObjects ::
  "('h, 'w) sandbox \<Rightarrow> size_t \<Rightarrow> ('h, 'w) dispatcher \<Rightarrow> cpp_fault + (ExecutionResult \<times> ('h, 'w) dispatcher)" where
  "ReloadCachedCodeObjects S index d =
     (let entries = sb_entries S (LruCache_GetAll (sb_map S) (code_object_cache d));
          d1 = d\<lparr>pending_requests := pending_requests d + of_nat (length entries)\<rparr>
      in bindE (Reload_loop S entries (worker_pool d1 ! unat index)) (\<lambda>(r, w).
           Inr (r, d1\<lparr>worker_pool := (worker_pool d1)[unat index := w],
                    pending_requests := pending_requests d1 - of_nat (length entries)\<rparr>)))"

text \<open>The first part of a task: \<open>Some\<close> response when it ends there.\<close>

definition task_look_up :: "('h, 'w) sandbox \<Rightarrow> task \<Rightarrow> ('h, 'w) dispatcher \<Rightarrow> response option" where
  "task_look_up S t d =
     (case GetWorker d (tk_index t) of
        HoldsResult r \<Rightarrow> Some (kInternal (sb_message S (status_code r)))
      | HoldsValue _ \<Rightarrow>
          if \<not> LruCache_Contains (sb_map S) (code_object_cache d) (version_num (tk_request t))
          then Some (kInternal ''Could not find code version in cache.'') else None)"

text \<open>The rest of it.\<close>

definition task_go_on :: "('h, 'w) sandbox \<Rightarrow> task \<Rightarrow> ('h, 'w) dispatcher \<Rightarrow> cpp_fault + ('h, 'w) dispatcher" where
  "task_go_on S t d =
     bindE (LruCache_Get (sb_map S) (sb_default S) (code_object_cache d) (version_num (tk_request t))) (\<lambda>(code, cache1).
     bindE (LruCache_Get (sb_map S) (sb_default S) cache1 (version_num (tk_request t))) (\<lambda>(code', cache2).
       let d1 = d\<lparr>code_object_cache := cache2\<rparr>
       in bindE (FromUserProvided (tk_request t) (code_type (co_js code) (co_wasm_bin code'))) (\<lambda>run_code_request_or.
         case run_code_request_or of
           HoldsResult r \<Rightarrow> Inr (task_respond t (kInternal (sb_message S (status_code r))) d1)
         | HoldsValue run_code_request \<Rightarrow>
             let (run_code_response_or, w) = sb_RunCode S (worker_pool d1 ! unat (tk_index t)) run_code_request;
                 d2 = d1\<lparr>worker_pool := (worker_pool d1)[unat (tk_index t) := w]\<rparr>
             in case run_code_response_or of
                  HoldsResult r \<Rightarrow>
                    if Successful r then Inl ThrowsException
                    else bindE (if Retryable r then bindE (ReloadCachedCodeObjects S (tk_index t) d2) (\<lambda>(_, d3). Inr d3) else Inr d2) (\<lambda>d3.
                      Inr (task_respond t (kInternal (sb_message S (status_code r))) d3))
                | HoldsValue run_code_response \<Rightarrow>
                    (case rr_response run_code_response of
                       None \<Rightarrow> Inl UndefinedBehaviour
                     | Some text \<Rightarrow> Inr (task_respond t (OkResponse \<lparr>ro_id = request_id (tk_request t), ro_resp = text,
                         ro_metrics = rr_metrics run_code_response\<rparr>) d2)))))"

text \<open>A task that nothing interrupts.\<close>

definition run_task :: "('h, 'w) sandbox \<Rightarrow> task \<Rightarrow> ('h, 'w) dispatcher \<Rightarrow> cpp_fault + ('h, 'w) dispatcher" where
  "run_task S t d =
     (case task_look_up S t d of
        Some resp \<Rightarrow> Inr (task_respond t resp d)
      | None \<Rightarrow> task_go_on S t d)"

section \<open>Batches and broadcasts\<close>

text \<open>A batch at its first request; without requests it returns at once.\<close>

definition DispatchBatch :: "request list \<Rightarrow> ('h, 'w) dispatcher \<Rightarrow> ('h, 'w) dispatcher" where
  "DispatchBatch requests d =
     d\<lparr>batches := batches d @ [\<lparr>bt_requests = requests, bt_at = 0, bt_response = replicate (length requests) None,
        bt_finished_counter = 0, bt_returned = (if requests = [] then Some SuccessExecutionResult else None)\<rparr>]\<rparr>"

text \<open>
  One call of \<open>Dispatch\<close> from the loop. A failure of the first request is returned; any
  other request is dispatched again until that succeeds.
\<close>

definition DispatchBatch_try ::
  "('h, 'w) sandbox \<Rightarrow> nat \<Rightarrow> ExecutionResult \<Rightarrow> ('h, 'w) dispatcher \<Rightarrow> cpp_fault + ('h, 'w) dispatcher" where
  "DispatchBatch_try S b answer d =
     (let bt = batches d ! b; index = bt_at bt
      in if bt_returned bt \<noteq> None then Inr d
         else bindE (InternalDispatch S (bt_requests bt ! index) (BatchCallback b index) (-1) answer d) (\<lambda>(r, d1).
           let bt1 = batches d1 ! b
           in if r = SuccessExecutionResult
              then Inr (d1\<lparr>batches := (batches d1)[b := bt1\<lparr>bt_at := Suc index,
                     bt_returned := (if Suc index = length (bt_requests bt) then Some SuccessExecutionResult else None)\<rparr>]\<rparr>)
              else if index = 0 then Inr (d1\<lparr>batches := (batches d1)[b := bt1\<lparr>bt_returned := Some r\<rparr>]\<rparr>)
              else Inr d1))"

definition Broadcast :: "CodeObject \<Rightarrow> ('h, 'w) dispatcher \<Rightarrow> ('h, 'w) dispatcher" where
  "Broadcast code_object d =
     d\<lparr>broadcasts := broadcasts d @ [\<lparr>bc_code_object = code_object, bc_at = 0,
        bc_responses_storage = replicate (length (worker_pool d)) None, bc_finished_counter = 0,
        bc_returned = (if GetPoolSize d = 0 then Some SuccessExecutionResult else None)\<rparr>]\<rparr>"

definition Broadcast_try ::
  "('h, 'w) sandbox \<Rightarrow> nat \<Rightarrow> ExecutionResult \<Rightarrow> ('h, 'w) dispatcher \<Rightarrow> cpp_fault + ('h, 'w) dispatcher" where
  "Broadcast_try S b answer d =
     (let bc = broadcasts d ! b; index = bc_at bc
      in if bc_returned bc \<noteq> None then Inr d
         else bindE (InternalDispatch S (LoadCode (bc_code_object bc)) (BroadcastCallback b (unat index)) (ucast index) answer d)
           (\<lambda>(r, d1).
             let bc1 = broadcasts d1 ! b
             in if \<not> Successful r then Inr (d1\<lparr>broadcasts := (broadcasts d1)[b := bc1\<lparr>bc_returned := Some r\<rparr>]\<rparr>)
                else Inr (d1\<lparr>broadcasts := (broadcasts d1)[b := bc1\<lparr>bc_at := index + 1,
                       bc_returned := (if index + 1 = of_nat (length (bc_responses_storage bc)) then Some SuccessExecutionResult else None)\<rparr>]\<rparr>)))"

section \<open>Interleaving\<close>

text \<open>
  What can happen: a request is dispatched, a batch or a broadcast starts or makes its next
  call, a task runs. The last four events are the parts of a dispatch, before and behind the
  point where the task can already run, and of a task, before and behind the point where the cache
  can change.
\<close>

datatype roma_event =
    Dispatches request nat ExecutionResult
  | BatchStarts "request list"
  | BatchTries nat ExecutionResult
  | BroadcastStarts CodeObject
  | BroadcastTries nat ExecutionResult
  | TaskRuns nat
  | DispatchSchedules request nat ExecutionResult
  | DispatchCounts
  | TaskLooksUp nat
  | TaskGoesOn nat

fun roma_step :: "('h, 'w) sandbox \<Rightarrow> ('h, 'w) dispatcher \<Rightarrow> roma_event \<Rightarrow> cpp_fault + ('h, 'w) dispatcher" where
  "roma_step S d (Dispatches request k answer) = 
     bindE (Roma_Dispatch S request k answer d) (\<lambda>(r, d1). Inr (d1\<lparr>user_returns := user_returns d1 @ [(k, r)]\<rparr>))"
| "roma_step S d (BatchStarts requests) = Inr (DispatchBatch requests d)"
| "roma_step S d (BatchTries b answer) = (if b < length (batches d) then DispatchBatch_try S b answer d else Inr d)"
| "roma_step S d (BroadcastStarts code_object) = Inr (Broadcast code_object d)"
| "roma_step S d (BroadcastTries b answer) = (if b < length (broadcasts d) then Broadcast_try S b answer d else Inr d)"
| "roma_step S d (TaskRuns i) =
     (if i < length (scheduled d)
      then run_task S (scheduled d ! i) (d\<lparr>scheduled := take i (scheduled d) @ drop (Suc i) (scheduled d)\<rparr>)
      else Inr d)"
| "roma_step S d (DispatchSchedules request k answer) =
     bindE (InternalDispatch_schedule S request (UserCallback k) (-1) answer d) (\<lambda>(r, d1).
       Inr ((if Successful r then d1\<lparr>uncounted := Suc (uncounted d1)\<rparr> else d1)\<lparr>user_returns := user_returns d1 @ [(k, r)]\<rparr>))"
| "roma_step S d DispatchCounts =
     Inr (if 0 < uncounted d then InternalDispatch_count (d\<lparr>uncounted := uncounted d - 1\<rparr>) else d)"
| "roma_step S d (TaskLooksUp i) =
     (if i < length (scheduled d)
      then let t = scheduled d ! i; d1 = d\<lparr>scheduled := take i (scheduled d) @ drop (Suc i) (scheduled d)\<rparr>
           in Inr (case task_look_up S t d1 of
                     Some resp \<Rightarrow> task_respond t resp d1
                   | None \<Rightarrow> d1\<lparr>looked_up := looked_up d1 @ [t]\<rparr>)
      else Inr d)"
| "roma_step S d (TaskGoesOn j) =
     (if j < length (looked_up d)
      then task_go_on S (looked_up d ! j) (d\<lparr>looked_up := take j (looked_up d) @ drop (Suc j) (looked_up d)\<rparr>)
      else Inr d)"

fun roma_run :: "('h, 'w) sandbox \<Rightarrow> ('h, 'w) dispatcher \<Rightarrow> roma_event list \<Rightarrow> cpp_fault + ('h, 'w) dispatcher" where
  "roma_run S d [] = Inr d"
| "roma_run S d (e # es) = bindE (roma_step S d e) (\<lambda>d1. roma_run S d1 es)"

text \<open>The events that leave no dispatch and no task half done.\<close>

fun whole_event :: "roma_event \<Rightarrow> bool" where
  "whole_event (DispatchSchedules _ _ _) = False"
| "whole_event DispatchCounts = False"
| "whole_event (TaskLooksUp _) = False"
| "whole_event (TaskGoesOn _) = False"
| "whole_event _ = True"

end
