(* ===== verification/Roma_Dispatcher_Correct.thy ===== *)
theory Roma_Dispatcher_Correct
  imports Roma_Dispatcher "HOL-Library.Multiset"
begin

text \<open>
  Correctness of the dispatcher of the sandbox for every sequence of whole events: what it has
  accepted is either on the executor or has been answered, exactly once, and batches and
  broadcasts are answered when the last of their requests is. The last section shows what the
  parts of an event allow.
\<close>

section \<open>Groups of requests\<close>

text \<open>
  The requests of a batch or a broadcast up to \<open>at\<close> have been dispatched; those in \<open>out\<close> are still
  on the executor, the others have their response.
\<close>

definition group_inv :: "nat \<Rightarrow> 'r option list \<Rightarrow> size_t \<Rightarrow> nat list \<Rightarrow> bool" where
  "group_inv at responses counter out \<longleftrightarrow>
     at \<le> length responses \<and> distinct out \<and> set out \<subseteq> {..<at} \<and>
     (\<forall>i < length responses. responses ! i \<noteq> None \<longleftrightarrow> i < at \<and> i \<notin> set out) \<and>
     counter = of_nat (at - length out)"

lemma size_t_of_nat:
  "m < 2 ^ 64 \<Longrightarrow> unat (of_nat m :: size_t) = m" "m < 2 ^ 64 \<Longrightarrow> n < 2 ^ 64 \<Longrightarrow> (of_nat m :: size_t) = of_nat n \<longleftrightarrow> m = n"
  by (simp_all add: unat_of_nat word_of_nat_eq_iff take_bit_nat_eq_self)

lemma int32_of_size_t:
  assumes "unat (x :: size_t) < 2 ^ 31"
  shows "(ucast x :: int32_t) \<noteq> -1" "scast (ucast x :: int32_t) = x"
proof -
  have "int (unat x) < int (2 ^ 31)" using assms by (simp only: of_nat_less_iff)
  then have x: "0 \<le> uint x" "uint x < 2 ^ 31" by simp_all
  have "- (2 ^ 31) \<le> uint x" using x(1) by (rule order_trans [rotated]) simp
  then have "signed_take_bit 31 (uint x) = uint x" using x(2) by (rule signed_take_bit_int_eq_self)
  moreover have "uint (ucast x :: int32_t) = uint x" using x by (simp add: unsigned_ucast_eq take_bit_int_eq_self_iff)
  ultimately have s: "sint (ucast x :: int32_t) = uint x"
    unfolding sint_uint by simp
  then show "scast (ucast x :: int32_t) = x" unfolding scast_eq by simp
  show "(ucast x :: int32_t) \<noteq> -1"
  proof
    assume "(ucast x :: int32_t) = -1"
    then have "uint x = -1" using s by simp
    then show False using x(1) by simp
  qed
qed

lemma group_new: "group_inv 0 (replicate n None) 0 []"
  by (simp add: group_inv_def)

lemma group_dispatch:
  "group_inv at responses counter out \<Longrightarrow> at < length responses \<Longrightarrow> group_inv (Suc at) responses counter (out @ [at])"
  unfolding group_inv_def by (auto simp: less_Suc_eq)

lemma group_all:
  assumes "group_inv (length responses) responses counter []"
  shows "\<exists>rs. responses = map Some rs \<and> length rs = length responses"
proof -
  have "map Some (map the responses) = responses" using assms by (intro nth_equalityI) (auto simp: group_inv_def)
  then show ?thesis by (metis length_map)
qed

lemma group_out:
  assumes "group_inv at responses counter out"
  shows "length out \<le> at"
proof -
  have "card (set out) \<le> card {..<at}" using assms by (intro card_mono) (simp_all add: group_inv_def)
  then show ?thesis using assms by (simp add: group_inv_def distinct_card)
qed

lemma group_answer:
  assumes "group_inv at responses counter (A @ x # B)" "length responses < 2 ^ 64"
  shows "group_inv at (responses[x := Some r]) (counter + 1) (A @ B)" "x < length responses"
    "counter + 1 = of_nat (length responses) \<longleftrightarrow> at = length responses \<and> A @ B = []"
proof -
  have n: "Suc (length (A @ B)) \<le> at" using group_out [OF assms(1)] by simp
  have x: "x < at" "at \<le> length responses" "counter = of_nat (at - Suc (length (A @ B)))" "x \<notin> set (A @ B)"
    using assms(1) by (simp_all add: group_inv_def)
  show "x < length responses" using x by simp
  have "at - length (A @ B) = Suc (at - Suc (length (A @ B)))" using n by simp
  then have c: "counter + 1 = of_nat (at - length (A @ B))" by (simp only: of_nat_Suc x(3) add.commute)
  show "group_inv at (responses[x := Some r]) (counter + 1) (A @ B)"
    using assms(1) x c unfolding group_inv_def by (auto simp: nth_list_update)
  have "at - length (A @ B) < 2 ^ 64" using x(2) assms(2) by simp
  then have "counter + 1 = of_nat (length responses) \<longleftrightarrow> at - length (A @ B) = length responses"
    using assms(2) c by (simp add: word_of_nat_eq_iff take_bit_nat_eq_self)
  then show "counter + 1 = of_nat (length responses) \<longleftrightarrow> at = length responses \<and> A @ B = []"
    using n x(2) by (cases "A @ B") auto
qed

section \<open>Invariant\<close>

fun user_id :: "task \<Rightarrow> nat list" where
  "user_id t = (case tk_callback t of UserCallback k \<Rightarrow> [k] | _ \<Rightarrow> [])"

fun batch_index :: "nat \<Rightarrow> task \<Rightarrow> nat list" where
  "batch_index b t = (case tk_callback t of BatchCallback b' i \<Rightarrow> if b' = b then [i] else [] | _ \<Rightarrow> [])"

fun broadcast_index :: "nat \<Rightarrow> task \<Rightarrow> nat list" where
  "broadcast_index b t = (case tk_callback t of BroadcastCallback b' i \<Rightarrow> if b' = b then [i] else [] | _ \<Rightarrow> [])"

definition gather :: "(task \<Rightarrow> nat list) \<Rightarrow> task list \<Rightarrow> nat list" where
  "gather f ts = concat (map f ts)"

lemma gather_append [simp]: "gather f (xs @ ys) = gather f xs @ gather f ys" "gather f [] = []" "gather f (t # ts) = f t @ gather f ts"
  by (simp_all add: gather_def)

definition calls_of :: "nat \<Rightarrow> (nat \<times> 'a) list \<Rightarrow> 'a list" where
  "calls_of b cs = map snd (filter (\<lambda>c. fst c = b) cs)"

lemma calls_of_append [simp]: "calls_of b (cs @ [(b', x)]) = (if b' = b then calls_of b cs @ [x] else calls_of b cs)" "calls_of b [] = []"
  by (simp_all add: calls_of_def)

definition batch_inv :: "nat \<Rightarrow> batch \<Rightarrow> task list \<Rightarrow> response option list list \<Rightarrow> bool" where
  "batch_inv b bt ts cs \<longleftrightarrow>
     length (bt_response bt) = length (bt_requests bt) \<and>
     group_inv (bt_at bt) (bt_response bt) (bt_finished_counter bt) (gather (batch_index b) ts) \<and>
     cs = (if bt_at bt = length (bt_response bt) \<and> bt_response bt \<noteq> [] \<and> gather (batch_index b) ts = [] then [bt_response bt] else []) \<and>
     (case bt_returned bt of
        None \<Rightarrow> bt_at bt < length (bt_requests bt)
      | Some r \<Rightarrow> if Successful r then bt_at bt = length (bt_requests bt) else bt_at bt = 0)"

definition broadcast_inv :: "nat \<Rightarrow> nat \<Rightarrow> broadcast \<Rightarrow> task list \<Rightarrow> response option list \<Rightarrow> bool" where
  "broadcast_inv n b bc ts cs \<longleftrightarrow>
     length (bc_responses_storage bc) = n \<and>
     group_inv (unat (bc_at bc)) (bc_responses_storage bc) (bc_finished_counter bc) (gather (broadcast_index b) ts) \<and>
     cs = (if unat (bc_at bc) = n \<and> n \<noteq> 0 \<and> gather (broadcast_index b) ts = [] then [first_failed (bc_responses_storage bc)] else []) \<and>
     (case bc_returned bc of None \<Rightarrow> unat (bc_at bc) < n | Some r \<Rightarrow> Successful r \<longleftrightarrow> unat (bc_at bc) = n)"

text \<open>The inputs passed by pointer are there.\<close>

definition inputs_given :: "request \<Rightarrow> bool" where
  "inputs_given request \<longleftrightarrow> (case request of InvokeShared r \<Rightarrow> None \<notin> set (ir_input r) | _ \<Rightarrow> True)"

definition task_ok :: "nat \<Rightarrow> nat \<Rightarrow> nat \<Rightarrow> task \<Rightarrow> bool" where
  "task_ok n num_batches num_broadcasts t \<longleftrightarrow>
     unat (tk_index t) < n \<and> Successful (Validate (tk_request t)) \<and> inputs_given (tk_request t) \<and>
     (case tk_callback t of
        UserCallback _ \<Rightarrow> True
      | BatchCallback b _ \<Rightarrow> b < num_batches
      | BroadcastCallback b i \<Rightarrow> b < num_broadcasts \<and> unat (tk_index t) = i)"

definition batches_inv :: "batch list \<Rightarrow> task list \<Rightarrow> (nat \<times> response option list) list \<Rightarrow> bool" where
  "batches_inv bts ts cs \<longleftrightarrow>
     (\<forall>b < length bts. length (bt_requests (bts ! b)) < 2 ^ 64 \<and> (\<forall>r \<in> set (bt_requests (bts ! b)). inputs_given r) \<and>
        batch_inv b (bts ! b) ts (calls_of b cs)) \<and>
     (\<forall>c \<in> set cs. fst c < length bts)"

definition broadcasts_inv :: "nat \<Rightarrow> broadcast list \<Rightarrow> task list \<Rightarrow> (nat \<times> response option) list \<Rightarrow> bool" where
  "broadcasts_inv n bcs ts cs \<longleftrightarrow>
     (\<forall>b < length bcs. broadcast_inv n b (bcs ! b) ts (calls_of b cs)) \<and> (\<forall>c \<in> set cs. fst c < length bcs)"

definition roma_inv :: "('h, 'w) sandbox \<Rightarrow> nat \<Rightarrow> nat \<Rightarrow> size_t \<Rightarrow> ('h, 'w) dispatcher \<Rightarrow> bool" where
  "roma_inv S n cap mp d \<longleftrightarrow>
     looked_up d = [] \<and> uncounted d = 0 \<and> length (worker_pool d) = n \<and> 0 < n \<and> n < 2 ^ 31 \<and>
     lru_inv (sb_map S) (code_object_cache d) \<and> lru_capacity (code_object_cache d) = cap \<and>
     (\<forall>t \<in> set (scheduled d). task_ok n (length (batches d)) (length (broadcasts d)) t) \<and>
     max_pending_requests d = mp \<and> length (scheduled d) \<le> unat mp \<and> pending_requests d = of_nat (length (scheduled d)) \<and>
     mset (map fst (filter (\<lambda>x. Successful (snd x)) (user_returns d))) = mset (gather user_id (scheduled d)) + mset (map fst (user_calls d)) \<and>
     batches_inv (batches d) (scheduled d) (batch_calls d) \<and> broadcasts_inv n (broadcasts d) (scheduled d) (broadcast_calls d)"

lemma batches_same:
  "batches_inv bts ts cs \<Longrightarrow> (\<And>b. gather (batch_index b) ts' = gather (batch_index b) ts) \<Longrightarrow> batches_inv bts ts' cs"
  by (simp add: batches_inv_def batch_inv_def)

lemma broadcasts_same:
  "broadcasts_inv n bcs ts cs \<Longrightarrow> (\<And>b. gather (broadcast_index b) ts' = gather (broadcast_index b) ts) \<Longrightarrow> broadcasts_inv n bcs ts' cs"
  by (simp add: broadcasts_inv_def broadcast_inv_def)

lemma batch_now:
  "batches_inv bts ts cs \<Longrightarrow> b < length bts \<Longrightarrow> batch_inv b (bts ! b) ts (calls_of b cs) \<and> (\<forall>r \<in> set (bt_requests (bts ! b)). inputs_given r)"
  by (simp add: batches_inv_def)

lemma broadcast_now: "broadcasts_inv n bcs ts cs \<Longrightarrow> b < length bcs \<Longrightarrow> broadcast_inv n b (bcs ! b) ts (calls_of b cs)"
  by (simp add: broadcasts_inv_def)

lemma batches_put:
  assumes "batches_inv bts ts cs" "b < length bts" "bt_requests bt1 = bt_requests (bts ! b)" "batch_inv b bt1 ts' (calls_of b cs')"
    "\<And>b'. b' \<noteq> b \<Longrightarrow> gather (batch_index b') ts' = gather (batch_index b') ts \<and> calls_of b' cs' = calls_of b' cs"
    "fst ` set cs' \<subseteq> insert b (fst ` set cs)"
  shows "batches_inv (bts[b := bt1]) ts' cs'"
proof -
  have "batch_inv b' (bts ! b') ts' (calls_of b' cs')" if "b' < length bts" "b' \<noteq> b" for b'
  proof -
    have "batch_inv b' (bts ! b') ts (calls_of b' cs)" using assms(1) that(1) by (simp add: batches_inv_def)
    then show ?thesis using assms(5) [OF that(2)] by (simp add: batch_inv_def)
  qed
  moreover have "fst c < length bts" if "c \<in> set cs'" for c using that assms(1,2,6) unfolding batches_inv_def by fastforce
  ultimately show ?thesis using assms(1-4) unfolding batches_inv_def by (auto simp: nth_list_update)
qed

lemma broadcasts_put:
  assumes "broadcasts_inv n bcs ts cs" "b < length bcs" "broadcast_inv n b bc1 ts' (calls_of b cs')"
    "\<And>b'. b' \<noteq> b \<Longrightarrow> gather (broadcast_index b') ts' = gather (broadcast_index b') ts \<and> calls_of b' cs' = calls_of b' cs"
    "fst ` set cs' \<subseteq> insert b (fst ` set cs)"
  shows "broadcasts_inv n (bcs[b := bc1]) ts' cs'"
proof -
  have "broadcast_inv n b' (bcs ! b') ts' (calls_of b' cs')" if "b' < length bcs" "b' \<noteq> b" for b'
  proof -
    have "broadcast_inv n b' (bcs ! b') ts (calls_of b' cs)" using assms(1) that(1) by (simp add: broadcasts_inv_def)
    then show ?thesis using assms(4) [OF that(2)] by (simp add: broadcast_inv_def)
  qed
  moreover have "fst c < length bcs" if "c \<in> set cs'" for c using that assms(1,2,5) unfolding broadcasts_inv_def by fastforce
  ultimately show ?thesis using assms(2,3) unfolding broadcasts_inv_def by (auto simp: nth_list_update)
qed

lemma batch_answered:
  assumes "batches_inv bts (A @ t # B) cs" "tk_callback t = BatchCallback b x" "b < length bts"
    "bt1 = (bts ! b)\<lparr>bt_response := (bt_response (bts ! b))[x := Some resp], bt_finished_counter := bt_finished_counter (bts ! b) + 1\<rparr>"
  shows "batches_inv (bts[b := bt1]) (A @ B)
    (if bt_finished_counter (bts ! b) + 1 = of_nat (length (bt_response bt1)) then cs @ [(b, bt_response bt1)] else cs)"
proof -
  let ?bt = "bts ! b" and ?out = "gather (batch_index b) A @ gather (batch_index b) B"
  have bi: "batch_inv b ?bt (A @ t # B) (calls_of b cs)" "length (bt_requests ?bt) < 2 ^ 64"
    using assms(1,3) by (simp_all add: batches_inv_def)
  then have g: "group_inv (bt_at ?bt) (bt_response ?bt) (bt_finished_counter ?bt) (gather (batch_index b) A @ x # gather (batch_index b) B)"
    and len: "length (bt_response ?bt) < 2 ^ 64" "length (bt_response ?bt) = length (bt_requests ?bt)" "calls_of b cs = []"
    using assms(2) by (simp_all add: batch_inv_def)
  note ga = group_answer [OF g len(1)]
  have l1: "length (bt_response bt1) = length (bt_response ?bt)" using assms(4) by simp
  have "bt_response bt1 \<noteq> []" using ga(2) l1 by auto
  then have "batch_inv b bt1 (A @ B) (calls_of b (if bt_finished_counter ?bt + 1 = of_nat (length (bt_response bt1)) then cs @ [(b, bt_response bt1)] else cs))"
    using bi(1) ga len l1 assms(2) unfolding batch_inv_def by (cases "bt_returned ?bt") (simp_all add: assms(4))
  then show ?thesis using assms(2) by (intro batches_put [OF assms(1,3)]) (auto simp: assms(4))
qed

lemma broadcast_answered:
  assumes "broadcasts_inv n bcs (A @ t # B) cs" "tk_callback t = BroadcastCallback b x" "b < length bcs" "n < 2 ^ 64"
    "bc1 = (bcs ! b)\<lparr>bc_responses_storage := (bc_responses_storage (bcs ! b))[x := Some resp], bc_finished_counter := bc_finished_counter (bcs ! b) + 1\<rparr>"
  shows "broadcasts_inv n (bcs[b := bc1]) (A @ B)
    (if bc_finished_counter (bcs ! b) + 1 = of_nat (length (bc_responses_storage bc1)) then cs @ [(b, first_failed (bc_responses_storage bc1))] else cs)"
proof -
  let ?bc = "bcs ! b" and ?out = "gather (broadcast_index b) A @ gather (broadcast_index b) B"
  have bi: "broadcast_inv n b ?bc (A @ t # B) (calls_of b cs)"
    using assms(1,3) by (simp add: broadcasts_inv_def)
  then have g: "group_inv (unat (bc_at ?bc)) (bc_responses_storage ?bc) (bc_finished_counter ?bc) (gather (broadcast_index b) A @ x # gather (broadcast_index b) B)"
    and len: "length (bc_responses_storage ?bc) < 2 ^ 64" "length (bc_responses_storage ?bc) = n" "calls_of b cs = []"
    using assms(2,4) by (simp_all add: broadcast_inv_def)
  note ga = group_answer [OF g len(1)]
  have l1: "length (bc_responses_storage bc1) = length (bc_responses_storage ?bc)" using assms(5) by simp
  have "n \<noteq> 0" using ga(2) len by auto
  then have "broadcast_inv n b bc1 (A @ B) (calls_of b (if bc_finished_counter ?bc + 1 = of_nat (length (bc_responses_storage bc1))
      then cs @ [(b, first_failed (bc_responses_storage bc1))] else cs))"
    using bi(1) ga len l1 assms(2) unfolding broadcast_inv_def by (cases "bc_returned ?bc") (simp_all add: assms(5))
  then show ?thesis using assms(2) by (intro broadcasts_put [OF assms(1,3)]) auto
qed

lemma gather_none: "(\<And>t. t \<in> set ts \<Longrightarrow> f t = []) \<Longrightarrow> gather f ts = []"
  by (simp add: gather_def)

lemma calls_none: "(\<And>c. c \<in> set cs \<Longrightarrow> fst c \<noteq> b) \<Longrightarrow> calls_of b cs = []"
  by (simp add: calls_of_def)

text \<open>A new batch or broadcast has nothing on the executor.\<close>

lemma batch_started:
  assumes "batches_inv bts ts cs" "\<forall>t \<in> set ts. task_ok n (length bts) nc t" "length requests < 2 ^ 64" "\<forall>r \<in> set requests. inputs_given r"
    "bt = \<lparr>bt_requests = requests, bt_at = 0, bt_response = replicate (length requests) None, bt_finished_counter = 0,
            bt_returned = (if requests = [] then Some SuccessExecutionResult else None)\<rparr>"
  shows "batches_inv (bts @ [bt]) ts cs"
proof -
  have "gather (batch_index (length bts)) ts = []"
    using assms(2) by (intro gather_none) (auto simp: task_ok_def split: callback.splits)
  moreover have "calls_of (length bts) cs = []" using assms(1) by (intro calls_none) (auto simp: batches_inv_def)
  ultimately have "batch_inv (length bts) bt ts (calls_of (length bts) cs)"
    by (simp add: batch_inv_def assms(5) group_new)
  then show ?thesis using assms unfolding batches_inv_def by (auto simp: nth_append less_Suc_eq)
qed

lemma broadcast_started:
  assumes "broadcasts_inv n bcs ts cs" "\<forall>t \<in> set ts. task_ok n nb (length bcs) t" "0 < n"
    "bc = \<lparr>bc_code_object = code, bc_at = 0, bc_responses_storage = replicate n None, bc_finished_counter = 0, bc_returned = None\<rparr>"
  shows "broadcasts_inv n (bcs @ [bc]) ts cs"
proof -
  have "gather (broadcast_index (length bcs)) ts = []"
    using assms(2) by (intro gather_none) (auto simp: task_ok_def split: callback.splits)
  moreover have "calls_of (length bcs) cs = []" using assms(1) by (intro calls_none) (auto simp: broadcasts_inv_def)
  ultimately have "broadcast_inv n (length bcs) bc ts (calls_of (length bcs) cs)"
    using assms(3) by (simp add: broadcast_inv_def assms(4) group_new)
  then show ?thesis using assms(1) unfolding broadcasts_inv_def by (auto simp: nth_append less_Suc_eq)
qed

text \<open>The next request of a batch or a broadcast is put on the executor.\<close>

lemma batch_went_on:
  assumes "batches_inv bts ts cs" "b < length bts" "bt_returned (bts ! b) = None" "tk_callback t = BatchCallback b (bt_at (bts ! b))"
  shows "batches_inv (bts[b := (bts ! b)\<lparr>bt_at := Suc (bt_at (bts ! b)),
      bt_returned := (if Suc (bt_at (bts ! b)) = length (bt_requests (bts ! b)) then Some SuccessExecutionResult else None)\<rparr>]) (ts @ [t]) cs"
proof -
  let ?bt = "bts ! b"
  have bi: "batch_inv b ?bt ts (calls_of b cs)" using assms(1,2) by (simp add: batches_inv_def)
  then have at: "bt_at ?bt < length (bt_response ?bt)" "length (bt_requests ?bt) = length (bt_response ?bt)"
    using assms(3) by (simp_all add: batch_inv_def)
  have "group_inv (Suc (bt_at ?bt)) (bt_response ?bt) (bt_finished_counter ?bt) (gather (batch_index b) ts @ [bt_at ?bt])"
    using bi at by (intro group_dispatch) (simp_all add: batch_inv_def)
  then have "batch_inv b (?bt\<lparr>bt_at := Suc (bt_at ?bt),
      bt_returned := (if Suc (bt_at ?bt) = length (bt_requests ?bt) then Some SuccessExecutionResult else None)\<rparr>) (ts @ [t]) (calls_of b cs)"
    using bi at assms(4) by (simp add: batch_inv_def)
  then show ?thesis using assms(4) by (intro batches_put [OF assms(1,2)]) auto
qed

lemma batch_refused:
  assumes "batches_inv bts ts cs" "b < length bts" "bt_returned (bts ! b) = None" "bt_at (bts ! b) = 0" "\<not> Successful r"
  shows "batches_inv (bts[b := (bts ! b)\<lparr>bt_returned := Some r\<rparr>]) ts cs"
proof (rule batches_put [OF assms(1,2)])
  have "batch_inv b (bts ! b) ts (calls_of b cs)" using assms(1,2) by (simp add: batches_inv_def)
  then show "batch_inv b ((bts ! b)\<lparr>bt_returned := Some r\<rparr>) ts (calls_of b cs)" using assms(3-5) by (simp add: batch_inv_def)
qed auto

lemma broadcast_went_on:
  assumes "broadcasts_inv n bcs ts cs" "b < length bcs" "n < 2 ^ 64" "bc_returned (bcs ! b) = None"
    "tk_callback t = BroadcastCallback b (unat (bc_at (bcs ! b)))"
  shows "broadcasts_inv n (bcs[b := (bcs ! b)\<lparr>bc_at := bc_at (bcs ! b) + 1,
      bc_returned := (if bc_at (bcs ! b) + 1 = of_nat (length (bc_responses_storage (bcs ! b))) then Some SuccessExecutionResult else None)\<rparr>]) (ts @ [t]) cs"
proof -
  let ?bc = "bcs ! b"
  have bi: "broadcast_inv n b ?bc ts (calls_of b cs)" using assms(1,2) by (simp add: broadcasts_inv_def)
  then have at: "unat (bc_at ?bc) < n" "length (bc_responses_storage ?bc) = n"
    using assms(4) by (simp_all add: broadcast_inv_def)
  have nxt: "unat (bc_at ?bc + 1) = Suc (unat (bc_at ?bc))" "bc_at ?bc + 1 = of_nat n \<longleftrightarrow> Suc (unat (bc_at ?bc)) = n"
  proof -
    have nxt: "bc_at ?bc + 1 = of_nat (Suc (unat (bc_at ?bc)))" by simp
    have "Suc (unat (bc_at ?bc)) < 2 ^ 64" using at(1) assms(3) by simp
    then show "unat (bc_at ?bc + 1) = Suc (unat (bc_at ?bc))" "bc_at ?bc + 1 = of_nat n \<longleftrightarrow> Suc (unat (bc_at ?bc)) = n"
      using assms(3) by (simp_all only: nxt size_t_of_nat)
  qed
  have "group_inv (Suc (unat (bc_at ?bc))) (bc_responses_storage ?bc) (bc_finished_counter ?bc) (gather (broadcast_index b) ts @ [unat (bc_at ?bc)])"
    using bi at by (intro group_dispatch) (simp_all add: broadcast_inv_def)
  then have "broadcast_inv n b (?bc\<lparr>bc_at := bc_at ?bc + 1,
      bc_returned := (if bc_at ?bc + 1 = of_nat (length (bc_responses_storage ?bc)) then Some SuccessExecutionResult else None)\<rparr>) (ts @ [t]) (calls_of b cs)"
    using bi at assms(5) nxt by (simp add: broadcast_inv_def)
  then show ?thesis using assms(5) by (intro broadcasts_put [OF assms(1,2)]) auto
qed

lemma broadcast_refused:
  assumes "broadcasts_inv n bcs ts cs" "b < length bcs" "bc_returned (bcs ! b) = None" "\<not> Successful r"
  shows "broadcasts_inv n (bcs[b := (bcs ! b)\<lparr>bc_returned := Some r\<rparr>]) ts cs"
proof (rule broadcasts_put [OF assms(1,2)])
  have "broadcast_inv n b (bcs ! b) ts (calls_of b cs)" using assms(1,2) by (simp add: broadcasts_inv_def)
  then show "broadcast_inv n b ((bcs ! b)\<lparr>bc_returned := Some r\<rparr>) ts (calls_of b cs)" using assms(3,4) by (simp add: broadcast_inv_def)
qed auto

section \<open>Operations\<close>

text \<open>
  What the workers must do for the dispatcher to go on: a success comes with a response.
\<close>

definition workers_answer :: "('h, 'w) sandbox \<Rightarrow> bool" where
  "workers_answer S \<longleftrightarrow> (\<forall>w req. case fst (sb_RunCode S w req) of
     HoldsResult r \<Rightarrow> \<not> Successful r | HoldsValue v \<Rightarrow> rr_response v \<noteq> None)"

lemma inputs_convert:
  assumes "inputs_given request"
  shows "\<exists>v. FromUserProvided request ty = Inr (HoldsValue v)"
proof -
  have "\<exists>vs. deref_all xs = Inr vs" if "None \<notin> set xs" for xs :: "string option list"
    using that
  proof (induction xs)
    case (Cons x xs)
    then show ?case by (cases x) auto
  qed simp
  note inputs = this
  show ?thesis
  proof (cases request)
    case (InvokeShared r)
    then obtain vs where "deref_all (ir_input r) = Inr vs" using assms inputs [of "ir_input r"] by (auto simp: inputs_given_def)
    then show ?thesis using InvokeShared by simp
  qed (simp_all add: Let_def)
qed

lemma with_id [simp]:
  "inputs_given (with_request_id request i) = inputs_given request" "version_num (with_request_id request i) = version_num request"
  by (cases request; simp add: inputs_given_def)+

lemma validated: "Successful (Validate request) \<Longrightarrow> request_id request \<noteq> [] \<and> version_num request \<noteq> 0"
  by (cases request) (auto simp: InvocationRequestCommon_validate_def split: if_splits)

text \<open>
  The environment of an event: pointers to inputs are not null, and a batch is shorter than
  the address space.
\<close>

fun event_given :: "roma_event \<Rightarrow> bool" where
  "event_given (Dispatches request _ _) = inputs_given request"
| "event_given (BatchStarts requests) = (length requests < 2 ^ 64 \<and> (\<forall>r \<in> set requests. inputs_given r))"
| "event_given _ = True"

locale roma = lru_map "sb_map S" for S :: "('h, 'w) sandbox"
begin

lemma dispatch_effect:
  assumes "roma_inv S n cap mp d" "widx \<noteq> -1 \<Longrightarrow> unat (scast widx :: size_t) < n"
  obtains r wi cache where "InternalDispatch S request cb widx answer d = Inr (r, d\<lparr>worker_index := wi, code_object_cache := cache\<rparr>)"
    "\<not> Successful r" "lru_inv (sb_map S) cache" "lru_capacity cache = cap"
  | wi cache t where "InternalDispatch S request cb widx answer d = Inr (SuccessExecutionResult, d\<lparr>worker_index := wi, code_object_cache := cache,
        scheduled := scheduled d @ [t], pending_requests := pending_requests d + 1\<rparr>)"
    "lru_inv (sb_map S) cache" "lru_capacity cache = cap" "tk_callback t = cb" "unat (tk_index t) < n" "Successful (Validate (tk_request t))"
    "pending_requests d < max_pending_requests d" "inputs_given (tk_request t) = inputs_given request" "widx = -1 \<or> tk_index t = scast widx"
proof -
  have inv: "lru_inv (sb_map S) (code_object_cache d)" "lru_capacity (code_object_cache d) = cap" "length (worker_pool d) = n" "0 < n" "n < 2 ^ 64"
    using assms(1) by (simp_all add: roma_inv_def)
  define request1 where "request1 = (if request_id request = [] then with_request_id request kDefaultRomaRequestId else request)"
  have given: "inputs_given request1 = inputs_given request" by (simp add: request1_def)
  have same: "d\<lparr>worker_index := worker_index d, code_object_cache := code_object_cache d\<rparr> = d" by simp
  show ?thesis
  proof (cases "max_pending_requests d \<le> pending_requests d \<or> \<not> Successful (Validate request1)")
    case True
    then obtain r where "InternalDispatch S request cb widx answer d = Inr (r, d)" "\<not> Successful r"
      by (cases "max_pending_requests d \<le> pending_requests d")
        (auto simp: InternalDispatch_def InternalDispatch_schedule_def Let_def request1_def [symmetric])
    then show ?thesis using that(1) [where r = r and wi = "worker_index d" and cache = "code_object_cache d"] same inv by simp
  next
    case False
    have ng: "GetPoolSize d \<noteq> 0" "unat (GetPoolSize d) = n"
      using inv(3-5) by (simp_all add: GetPoolSize_def unat_of_nat take_bit_nat_eq_self word_of_nat_eq_0_iff nat_dvd_not_less)
    obtain index wi where pick: "pick_worker widx d = Inr (index, d\<lparr>worker_index := wi\<rparr>)" "unat index < n" "widx = -1 \<or> index = scast widx"
    proof (cases "widx = -1")
      case True
      have "unat (worker_index d mod GetPoolSize d) < n" using ng(2) inv(4) by (simp add: unat_mod_distrib)
      then show ?thesis using that [of "worker_index d mod GetPoolSize d" "(worker_index d + 1) mod GetPoolSize d"] True ng(1)
        by (simp add: pick_worker_def Let_def)
    next
      case False
      then show ?thesis using that [of "scast widx" "worker_index d"] assms(2) by (simp add: pick_worker_def)
    qed
    obtain cache where cache: "cache_code S request1 (code_object_cache d) = Inr cache" "lru_inv (sb_map S) cache" "lru_capacity cache = cap"
    proof (cases request1)
      case (LoadCode code)
      obtain c' where "LruCache_InternalSet (sb_map S) (sb_default S) (code_object_cache d) (co_version_num code) code = Inr c'"
        "lru_inv (sb_map S) c'" "lru_capacity c' = lru_capacity (code_object_cache d)"
        using internal_set [OF inv(1)] by metis
      then show ?thesis using that LoadCode inv(2) by (simp add: LruCache_Set_def cache_code_def)
    qed (use that inv in \<open>simp_all add: cache_code_def\<close>)
    define t where "t = \<lparr>tk_index = index, tk_request = request1, tk_callback = cb\<rparr>"
    have step: "InternalDispatch S request cb widx answer d = Inr (answer, if Successful answer
        then d\<lparr>worker_index := wi, code_object_cache := cache, scheduled := scheduled d @ [t], pending_requests := pending_requests d + 1\<rparr>
        else d\<lparr>worker_index := wi, code_object_cache := cache\<rparr>)"
      using False pick(1) cache(1)
      by (cases "Successful answer") (simp_all add: InternalDispatch_def InternalDispatch_schedule_def InternalDispatch_count_def
          Let_def request1_def [symmetric] t_def)
    show ?thesis
    proof (cases "Successful answer")
      case True
      then have "answer = SuccessExecutionResult" by (simp add: Successful_def)
      then show ?thesis
        using step True that(2) [where wi = wi and cache = cache and t = t] cache pick False given by (simp add: t_def not_le)
    next
      case bad: False
      then show ?thesis using step that(1) [where r = answer and wi = wi and cache = cache] cache by simp
    qed
  qed
qed

lemma reload_any:
  "\<exists>r pool. ReloadCachedCodeObjects S index d = Inr (r, d\<lparr>worker_pool := pool\<rparr>) \<and> length pool = length (worker_pool d)"
proof -
  have "\<exists>r w'. Reload_loop S entries w = Inr (r, w')" for entries w
  proof (induction entries arbitrary: w)
    case (Cons c entries)
    obtain v where "FromUserProvided (LoadCode c) (code_type (co_js c) (co_wasm_bin c)) = Inr (HoldsValue v)"
      using inputs_convert [of "LoadCode c"] by (auto simp: inputs_given_def)
    then show ?case using Cons.IH by (cases "sb_RunCode S w v") simp
  qed simp
  then obtain r w' where "Reload_loop S (sb_entries S (LruCache_GetAll (sb_map S) (code_object_cache d))) (worker_pool d ! unat index) = Inr (r, w')"
    by blast
  then show ?thesis by (simp add: ReloadCachedCodeObjects_def Let_def) (rule exI [of _ "(worker_pool d)[unat index := w']"], simp)
qed

lemma run_effect:
  assumes "workers_answer S" "inputs_given (tk_request t)" "unat (tk_index t) < length (worker_pool d)" "length (worker_pool d) < 2 ^ 64"
    "lru_inv (sb_map S) (code_object_cache d)"
  shows "\<exists>resp cache pool. run_task S t d = Inr (task_respond t resp (d\<lparr>code_object_cache := cache, worker_pool := pool\<rparr>)) \<and>
    lru_inv (sb_map S) cache \<and> lru_capacity cache = lru_capacity (code_object_cache d) \<and> length pool = length (worker_pool d)"
proof (cases "task_look_up S t d")
  case (Some resp)
  then have "run_task S t d = Inr (task_respond t resp (d\<lparr>code_object_cache := code_object_cache d, worker_pool := worker_pool d\<rparr>))"
    by (simp add: run_task_def)
  then show ?thesis using assms(5) by blast
next
  case None
  let ?v = "version_num (tk_request t)"
  have hit: "fm_contains (sb_map S) (lru_data (code_object_cache d)) ?v"
    using None by (auto simp: task_look_up_def LruCache_Contains_def split: ExecutionResultOr.splits if_splits)
  obtain code c1 where g1: "LruCache_Get (sb_map S) (sb_default S) (code_object_cache d) ?v = Inr (code, c1)" "lru_inv (sb_map S) c1"
    "lru_capacity c1 = lru_capacity (code_object_cache d)"
    "lru_abs (sb_map S) (sb_default S) c1 = lru_spec_set (lru_capacity (code_object_cache d)) ?v code (lru_abs (sb_map S) (sb_default S) (code_object_cache d))"
    using get_hit [OF assms(5) hit, of "sb_default S"] by metis
  have "0 < lru_capacity (code_object_cache d)" using assms(5) by (simp add: lru_inv_def)
  then have "?v \<in> fst ` set (lru_abs (sb_map S) (sb_default S) c1)"
    unfolding g1(4) by (cases "lru_capacity (code_object_cache d)") (simp_all add: lru_spec_set_def)
  then have hit1: "fm_contains (sb_map S) (lru_data c1) ?v" using abs_facts(3) [OF g1(2), of "sb_default S"] by simp
  obtain code' c2 where g2: "LruCache_Get (sb_map S) (sb_default S) c1 ?v = Inr (code', c2)" "lru_inv (sb_map S) c2" "lru_capacity c2 = lru_capacity c1"
    using get_hit [OF g1(2) hit1, of "sb_default S"] by metis
  obtain req where req: "FromUserProvided (tk_request t) (code_type (co_js code) (co_wasm_bin code')) = Inr (HoldsValue req)"
    using inputs_convert [OF assms(2)] by blast
  obtain out w where run: "sb_RunCode S (worker_pool d ! unat (tk_index t)) req = (out, w)" by force
  have wa: "case out of HoldsResult r \<Rightarrow> \<not> Successful r | HoldsValue v \<Rightarrow> rr_response v \<noteq> None"
    using assms(1) [unfolded workers_answer_def, rule_format, of "worker_pool d ! unat (tk_index t)" req] run by simp
  let ?pool = "(worker_pool d)[unat (tk_index t) := w]" and ?d1 = "d\<lparr>code_object_cache := c2\<rparr>"
  let ?d2 = "d\<lparr>code_object_cache := c2, worker_pool := (worker_pool d)[unat (tk_index t) := w]\<rparr>"
  have "\<exists>resp pool. task_go_on S t d = Inr (task_respond t resp (d\<lparr>code_object_cache := c2, worker_pool := pool\<rparr>)) \<and> length pool = length (worker_pool d)"
  proof (cases out)
    case (HoldsResult r)
    then have "\<not> Successful r" using wa by simp
    moreover have "\<exists>r' pool. ReloadCachedCodeObjects S (tk_index t) ?d2 = Inr (r', ?d2\<lparr>worker_pool := pool\<rparr>) \<and> length pool = length (worker_pool ?d2)"
      by (rule reload_any)
    then obtain r' pool where "ReloadCachedCodeObjects S (tk_index t) ?d2 = Inr (r', ?d2\<lparr>worker_pool := pool\<rparr>)" "length pool = length (worker_pool d)"
      by auto
    moreover from calculation have "task_go_on S t d = Inr (task_respond t (kInternal (sb_message S (status_code r)))
        (d\<lparr>code_object_cache := c2, worker_pool := if Retryable r then pool else ?pool\<rparr>))"
      using g1(1) g2(1) req run HoldsResult by (cases "Retryable r") (simp_all add: task_go_on_def Let_def)
    moreover have "length (if Retryable r then pool else ?pool) = length (worker_pool d)" using calculation(3) by simp
    ultimately show ?thesis by blast
  next
    case (HoldsValue v)
    then obtain tx where "rr_response v = Some tx" using wa by auto
    then have "task_go_on S t d = Inr (task_respond t (OkResponse \<lparr>ro_id = request_id (tk_request t), ro_resp = tx, ro_metrics = rr_metrics v\<rparr>)
        (d\<lparr>code_object_cache := c2, worker_pool := ?pool\<rparr>))"
      using g1(1) g2(1) req run HoldsValue by (simp add: task_go_on_def Let_def)
    moreover have "length ?pool = length (worker_pool d)" by simp
    ultimately show ?thesis by blast
  qed
  then obtain resp pool where "run_task S t d = Inr (task_respond t resp (d\<lparr>code_object_cache := c2, worker_pool := pool\<rparr>))" "length pool = length (worker_pool d)"
    using None by (auto simp: run_task_def)
  then show ?thesis using g1(3) g2(2,3) by auto
qed

lemma respond_inv:
  assumes "roma_inv S n cap mp d" "scheduled d = A @ t # B" "lru_inv (sb_map S) cache" "lru_capacity cache = cap" "length pool = n"
  shows "roma_inv S n cap mp (task_respond t resp (d\<lparr>scheduled := A @ B, code_object_cache := cache, worker_pool := pool\<rparr>))"
proof -
  let ?d = "task_respond t resp (d\<lparr>scheduled := A @ B, code_object_cache := cache, worker_pool := pool\<rparr>)"
  have t: "task_ok n (length (batches d)) (length (broadcasts d)) t" and ok: "\<forall>x \<in> set (A @ B). task_ok n (length (batches d)) (length (broadcasts d)) x" using assms(1,2) by (simp_all add: roma_inv_def)
  have bts: "batches_inv (batches d) (A @ t # B) (batch_calls d)" "broadcasts_inv n (broadcasts d) (A @ t # B) (broadcast_calls d)" "n < 2 ^ 64"
    using assms(1,2) by (simp_all add: roma_inv_def)
  have same: "looked_up ?d = []" "uncounted ?d = 0" "worker_pool ?d = pool" "code_object_cache ?d = cache" "scheduled ?d = A @ B"
    "max_pending_requests ?d = max_pending_requests d" "user_returns ?d = user_returns d" "length (batches ?d) = length (batches d)"
    "length (broadcasts ?d) = length (broadcasts d)" "pending_requests ?d = pending_requests d - 1"
    using assms(1) by (cases "tk_callback t"; simp add: task_respond_def Let_def roma_inv_def)+
  have "mset (map fst (filter (\<lambda>x. Successful (snd x)) (user_returns d))) = mset (gather user_id (A @ B)) + mset (map fst (user_calls ?d))"
    using assms(1,2) by (cases "tk_callback t") (simp_all add: task_respond_def Let_def roma_inv_def)
  moreover have "batches_inv (batches ?d) (A @ B) (batch_calls ?d)"
  proof (cases "tk_callback t")
    case (BatchCallback b x)
    then show ?thesis using batch_answered [OF bts(1) BatchCallback _ refl, of resp] t
      by (auto simp: task_respond_def Let_def task_ok_def)
  qed (use bts(1) in \<open>auto simp: task_respond_def Let_def intro: batches_same\<close>)
  moreover have "broadcasts_inv n (broadcasts ?d) (A @ B) (broadcast_calls ?d)"
  proof (cases "tk_callback t")
    case (BroadcastCallback b x)
    then show ?thesis using broadcast_answered [OF bts(2) BroadcastCallback _ bts(3) refl, of resp] t
      by (auto simp: task_respond_def Let_def task_ok_def)
  qed (use bts(2) in \<open>auto simp: task_respond_def Let_def intro: broadcasts_same\<close>)
  moreover have "\<forall>x \<in> set (A @ B). task_ok n (length (batches ?d)) (length (broadcasts ?d)) x" using ok by (simp add: same(8,9))
  ultimately show ?thesis using assms same unfolding roma_inv_def by simp
qed

text \<open>What is accepted is within the limit of pending requests.\<close>

lemma room: "roma_inv S n cap mp d \<Longrightarrow> pending_requests d < max_pending_requests d \<Longrightarrow> length (scheduled d) < unat (max_pending_requests d)"
proof -
  assume inv: "roma_inv S n cap mp d" and lt: "pending_requests d < max_pending_requests d"
  have "length (scheduled d) \<le> unat mp" "unat mp < 2 ^ 64"
    using inv unsigned_less [of mp] by (simp_all add: roma_inv_def)
  then have "unat (pending_requests d) = length (scheduled d)" using inv by (simp add: roma_inv_def size_t_of_nat)
  then show "length (scheduled d) < unat (max_pending_requests d)" using lt by (simp add: word_less_nat_alt)
qed

lemma refused_inv:
  "roma_inv S n cap mp d \<Longrightarrow> lru_inv (sb_map S) cache \<Longrightarrow> lru_capacity cache = cap \<Longrightarrow>
   batches_inv bts (scheduled d) (batch_calls d) \<Longrightarrow> broadcasts_inv n bcs (scheduled d) (broadcast_calls d) \<Longrightarrow>
   length bts = length (batches d) \<Longrightarrow> length bcs = length (broadcasts d) \<Longrightarrow>
   filter (\<lambda>x. Successful (snd x)) rets = filter (\<lambda>x. Successful (snd x)) (user_returns d) \<Longrightarrow>
   roma_inv S n cap mp (d\<lparr>worker_index := wi, code_object_cache := cache, batches := bts, broadcasts := bcs, user_returns := rets\<rparr>)"
  by (simp add: roma_inv_def)

lemma accepted_inv:
  assumes "roma_inv S n cap mp d" "lru_inv (sb_map S) cache" "lru_capacity cache = cap" "pending_requests d < max_pending_requests d"
    "task_ok n (length (batches d)) (length (broadcasts d)) t"
    "batches_inv bts (scheduled d @ [t]) (batch_calls d)" "broadcasts_inv n bcs (scheduled d @ [t]) (broadcast_calls d)"
    "length bts = length (batches d)" "length bcs = length (broadcasts d)"
    "map fst (filter (\<lambda>x. Successful (snd x)) rets) = map fst (filter (\<lambda>x. Successful (snd x)) (user_returns d)) @ user_id t"
  shows "roma_inv S n cap mp (d\<lparr>worker_index := wi, code_object_cache := cache, scheduled := scheduled d @ [t],
    pending_requests := pending_requests d + 1, batches := bts, broadcasts := bcs, user_returns := rets\<rparr>)"
proof -
  have "mset (map fst (filter (\<lambda>x. Successful (snd x)) rets)) =
      mset (map fst (filter (\<lambda>x. Successful (snd x)) (user_returns d))) + mset (user_id t)"
    unfolding assms(10) by simp
  then show ?thesis using assms(1-9) room [OF assms(1,4)] by (simp add: roma_inv_def del: user_id.simps)
qed

lemma dispatch_step:
  assumes inv: "roma_inv S n cap mp d" and "inputs_given request"
  shows "\<exists>d'. roma_step S d (Dispatches request k answer) = Inr d' \<and> roma_inv S n cap mp d'"
proof (rule dispatch_effect [OF inv, of "-1" request "UserCallback k" answer])
  have bb: "batches_inv (batches d) (scheduled d) (batch_calls d)" "broadcasts_inv n (broadcasts d) (scheduled d) (broadcast_calls d)"
    using inv by (simp_all add: roma_inv_def)
  fix r wi cache
  assume e: "InternalDispatch S request (UserCallback k) (-1) answer d = Inr (r, d\<lparr>worker_index := wi, code_object_cache := cache\<rparr>)"
    "\<not> Successful r" "lru_inv (sb_map S) cache" "lru_capacity cache = cap"
  then show ?thesis
    using refused_inv [OF inv e(3,4) bb, of "user_returns d @ [(k, r)]" wi] by (simp add: Roma_Dispatch_def)
next
  have bb: "batches_inv (batches d) (scheduled d) (batch_calls d)" "broadcasts_inv n (broadcasts d) (scheduled d) (broadcast_calls d)"
    using inv by (simp_all add: roma_inv_def)
  fix wi cache t
  assume e: "InternalDispatch S request (UserCallback k) (-1) answer d = Inr (SuccessExecutionResult, d\<lparr>worker_index := wi, code_object_cache := cache,
        scheduled := scheduled d @ [t], pending_requests := pending_requests d + 1\<rparr>)"
    "lru_inv (sb_map S) cache" "lru_capacity cache = cap" "tk_callback t = UserCallback k" "unat (tk_index t) < n" "Successful (Validate (tk_request t))"
    "pending_requests d < max_pending_requests d" "inputs_given (tk_request t) = inputs_given request"
  have "batches_inv (batches d) (scheduled d @ [t]) (batch_calls d)" "broadcasts_inv n (broadcasts d) (scheduled d @ [t]) (broadcast_calls d)"
    using bb e(4) by (auto intro: batches_same broadcasts_same)
  moreover have "task_ok n (length (batches d)) (length (broadcasts d)) t" using e assms(2) by (simp add: task_ok_def)
  ultimately show ?thesis
    using accepted_inv [OF inv e(2,3,7), of t "batches d" "broadcasts d" "user_returns d @ [(k, SuccessExecutionResult)]" wi] e(1,4)
    by (simp add: Roma_Dispatch_def)
qed simp

lemma batch_step:
  assumes inv: "roma_inv S n cap mp d" and b: "b < length (batches d)"
  shows "\<exists>d'. DispatchBatch_try S b answer d = Inr d' \<and> roma_inv S n cap mp d'"
proof (cases "bt_returned (batches d ! b)")
  case None
  let ?bt = "batches d ! b" and ?request = "bt_requests (batches d ! b) ! bt_at (batches d ! b)"
  have bb: "batches_inv (batches d) (scheduled d) (batch_calls d)" "broadcasts_inv n (broadcasts d) (scheduled d) (broadcast_calls d)"
    using inv by (simp_all add: roma_inv_def)
  have given: "inputs_given ?request" using batch_now [OF bb(1) b] None by (simp add: batch_inv_def)
  show ?thesis
  proof (rule dispatch_effect [OF inv, of "-1" ?request "BatchCallback b (bt_at ?bt)" answer])
    fix r wi cache
    assume e: "InternalDispatch S ?request (BatchCallback b (bt_at ?bt)) (-1) answer d = Inr (r, d\<lparr>worker_index := wi, code_object_cache := cache\<rparr>)"
      "\<not> Successful r" "lru_inv (sb_map S) cache" "lru_capacity cache = cap"
    have r: "r \<noteq> SuccessExecutionResult" using e(2) by auto
    show ?thesis
    proof (cases "bt_at ?bt = 0")
      case True
      then show ?thesis
        using refused_inv [OF inv e(3,4) batch_refused [OF bb(1) b None True e(2)] bb(2), of "user_returns d" wi] e(1) None r
        by (simp add: DispatchBatch_try_def Let_def)
    next
      case False
      then show ?thesis
        using refused_inv [OF inv e(3,4) bb, of "user_returns d" wi] e(1) None r by (simp add: DispatchBatch_try_def Let_def)
    qed
  next
    fix wi cache t
    assume e: "InternalDispatch S ?request (BatchCallback b (bt_at ?bt)) (-1) answer d = Inr (SuccessExecutionResult,
        d\<lparr>worker_index := wi, code_object_cache := cache, scheduled := scheduled d @ [t], pending_requests := pending_requests d + 1\<rparr>)"
      "lru_inv (sb_map S) cache" "lru_capacity cache = cap" "tk_callback t = BatchCallback b (bt_at ?bt)" "unat (tk_index t) < n"
      "Successful (Validate (tk_request t))" "pending_requests d < max_pending_requests d" "inputs_given (tk_request t) = inputs_given ?request"
    have "broadcasts_inv n (broadcasts d) (scheduled d @ [t]) (broadcast_calls d)" using bb(2) e(4) by (auto intro: broadcasts_same)
    moreover have "task_ok n (length (batches d)) (length (broadcasts d)) t" using e given b by (simp add: task_ok_def)
    ultimately show ?thesis
      using accepted_inv [OF inv e(2,3,7) _ batch_went_on [OF bb(1) b None e(4)], of "broadcasts d" "user_returns d" wi] e(1,4) None
      by (simp add: DispatchBatch_try_def Let_def)
  qed simp
qed (use inv in \<open>simp add: DispatchBatch_try_def Let_def\<close>)

lemma broadcast_step:
  assumes inv: "roma_inv S n cap mp d" and b: "b < length (broadcasts d)"
  shows "\<exists>d'. Broadcast_try S b answer d = Inr d' \<and> roma_inv S n cap mp d'"
proof (cases "bc_returned (broadcasts d ! b)")
  case None
  let ?bc = "broadcasts d ! b" and ?request = "LoadCode (bc_code_object (broadcasts d ! b))"
  have bb: "batches_inv (batches d) (scheduled d) (batch_calls d)" "broadcasts_inv n (broadcasts d) (scheduled d) (broadcast_calls d)" "n < 2 ^ 64"
    using inv by (simp_all add: roma_inv_def)
  have at: "unat (bc_at ?bc) < n" "n < 2 ^ 31" using inv broadcast_now [OF bb(2) b] None by (simp_all add: broadcast_inv_def roma_inv_def)
  then have idx: "(ucast (bc_at ?bc) :: int32_t) \<noteq> -1" "scast (ucast (bc_at ?bc) :: int32_t) = bc_at ?bc"
    using int32_of_size_t [of "bc_at ?bc"] by simp_all
  show ?thesis
  proof (rule dispatch_effect [OF inv, of "ucast (bc_at ?bc)" ?request "BroadcastCallback b (unat (bc_at ?bc))" answer])
    fix r wi cache
    assume e: "InternalDispatch S ?request (BroadcastCallback b (unat (bc_at ?bc))) (ucast (bc_at ?bc)) answer d =
        Inr (r, d\<lparr>worker_index := wi, code_object_cache := cache\<rparr>)" "\<not> Successful r" "lru_inv (sb_map S) cache" "lru_capacity cache = cap"
    show ?thesis
      using refused_inv [OF inv e(3,4) bb(1) broadcast_refused [OF bb(2) b None e(2)], of "user_returns d" wi] e(1,2) None
      by (simp add: Broadcast_try_def Let_def)
  next
    fix wi cache t
    assume e: "InternalDispatch S ?request (BroadcastCallback b (unat (bc_at ?bc))) (ucast (bc_at ?bc)) answer d = Inr (SuccessExecutionResult,
        d\<lparr>worker_index := wi, code_object_cache := cache, scheduled := scheduled d @ [t], pending_requests := pending_requests d + 1\<rparr>)"
      "lru_inv (sb_map S) cache" "lru_capacity cache = cap" "tk_callback t = BroadcastCallback b (unat (bc_at ?bc))" "unat (tk_index t) < n"
      "Successful (Validate (tk_request t))" "pending_requests d < max_pending_requests d" "inputs_given (tk_request t) = inputs_given ?request"
      "ucast (bc_at ?bc) = (-1 :: int32_t) \<or> tk_index t = scast (ucast (bc_at ?bc) :: int32_t)"
    have "batches_inv (batches d) (scheduled d @ [t]) (batch_calls d)" using bb(1) e(4) by (auto intro: batches_same)
    moreover have "task_ok n (length (batches d)) (length (broadcasts d)) t" using e b idx by (simp add: task_ok_def inputs_given_def)
    ultimately show ?thesis
      using accepted_inv [OF inv e(2,3,7) _ _ broadcast_went_on [OF bb(2) b bb(3) None e(4)], of "batches d" "user_returns d" wi] e(1,4) None
      by (simp add: Broadcast_try_def Let_def)
  qed (use at idx in simp)
qed (use inv in \<open>simp add: Broadcast_try_def Let_def\<close>)

lemma start_steps:
  assumes inv: "roma_inv S n cap mp d"
  shows "length requests < 2 ^ 64 \<Longrightarrow> \<forall>r \<in> set requests. inputs_given r \<Longrightarrow> roma_inv S n cap mp (DispatchBatch requests d)"
    "roma_inv S n cap mp (Broadcast code d)"
proof -
  have bb: "batches_inv (batches d) (scheduled d) (batch_calls d)" "broadcasts_inv n (broadcasts d) (scheduled d) (broadcast_calls d)"
    "\<forall>t \<in> set (scheduled d). task_ok n (length (batches d)) (length (broadcasts d)) t" "0 < n" "length (worker_pool d) = n" "n < 2 ^ 64"
    using inv by (simp_all add: roma_inv_def)
  have more: "\<forall>t \<in> set (scheduled d). task_ok n (Suc (length (batches d))) (length (broadcasts d)) t"
    "\<forall>t \<in> set (scheduled d). task_ok n (length (batches d)) (Suc (length (broadcasts d))) t"
    using bb(3) by (fastforce simp: task_ok_def split: callback.splits)+
  show "roma_inv S n cap mp (DispatchBatch requests d)" if "length requests < 2 ^ 64" "\<forall>r \<in> set requests. inputs_given r"
    using inv batch_started [OF bb(1,3) that refl] more(1) by (simp add: roma_inv_def DispatchBatch_def)
  have "GetPoolSize d \<noteq> 0" using bb(4-6) size_t_of_nat(2) [of n 0] by (simp add: GetPoolSize_def)
  then show "roma_inv S n cap mp (Broadcast code d)"
    using inv broadcast_started [OF bb(2,3,4) refl] more(2) bb(5) by (simp add: roma_inv_def Broadcast_def)
qed

lemma task_step:
  assumes inv: "roma_inv S n cap mp d" and "workers_answer S" and i: "i < length (scheduled d)"
  shows "\<exists>d'. roma_step S d (TaskRuns i) = Inr d' \<and> roma_inv S n cap mp d' \<and>
    scheduled d' = take i (scheduled d) @ drop (Suc i) (scheduled d)"
proof -
  let ?t = "scheduled d ! i" and ?rest = "take i (scheduled d) @ drop (Suc i) (scheduled d)"
  let ?d = "d\<lparr>scheduled := ?rest\<rparr>"
  have split: "scheduled d = take i (scheduled d) @ ?t # drop (Suc i) (scheduled d)" using i by (rule id_take_nth_drop)
  have "?t \<in> set (scheduled d)" using i by simp
  then have "task_ok n (length (batches d)) (length (broadcasts d)) ?t" using inv by (simp add: roma_inv_def)
  then have "unat (tk_index ?t) < length (worker_pool ?d)" "inputs_given (tk_request ?t)" using inv by (simp_all add: task_ok_def roma_inv_def)
  moreover have d: "length (worker_pool ?d) < 2 ^ 64" "lru_inv (sb_map S) (code_object_cache ?d)" "lru_capacity (code_object_cache ?d) = cap"
    "length (worker_pool ?d) = n"
    using inv by (simp_all add: roma_inv_def)
  ultimately obtain resp cache pool where r: "run_task S ?t ?d = Inr (task_respond ?t resp (?d\<lparr>code_object_cache := cache, worker_pool := pool\<rparr>))"
    "lru_inv (sb_map S) cache" "lru_capacity cache = lru_capacity (code_object_cache ?d)" "length pool = length (worker_pool ?d)"
    using run_effect [OF assms(2), of ?t ?d] by metis
  have "scheduled (task_respond ?t resp (?d\<lparr>code_object_cache := cache, worker_pool := pool\<rparr>)) = ?rest"
    by (cases "tk_callback ?t") (simp_all add: task_respond_def Let_def)
  then show ?thesis
    using respond_inv [OF inv split r(2) _ _, of pool resp] r d i by simp
qed

lemma step_ok:
  assumes "roma_inv S n cap mp d" "workers_answer S" "whole_event e" "event_given e"
  shows "\<exists>d'. roma_step S d e = Inr d' \<and> roma_inv S n cap mp d'"
proof (cases e)
  case (TaskRuns i)
  then show ?thesis using task_step [OF assms(1,2), of i] assms(1) by (cases "i < length (scheduled d)") auto
next
  case (Dispatches request k answer)
  then show ?thesis using dispatch_step [OF assms(1)] assms(4) by simp
next
  case (BatchTries b answer)
  then show ?thesis using batch_step [OF assms(1), of b answer] assms(1) by (cases "b < length (batches d)") auto
next
  case (BroadcastTries b answer)
  then show ?thesis using broadcast_step [OF assms(1), of b answer] assms(1) by (cases "b < length (broadcasts d)") auto
qed (use assms start_steps [OF assms(1)] in auto)

lemma run_ok:
  assumes "roma_inv S n cap mp d" "workers_answer S" "\<forall>e \<in> set es. whole_event e \<and> event_given e"
  shows "\<exists>d'. roma_run S d es = Inr d' \<and> roma_inv S n cap mp d'"
  using assms(1,3)
proof (induction es arbitrary: d)
  case (Cons e es)
  then obtain d1 where "roma_step S d e = Inr d1" "roma_inv S n cap mp d1" using step_ok [OF _ assms(2)] by (meson list.set_intros(1))
  then show ?case using Cons.IH [of d1] Cons.prems(2) by simp
qed simp

lemma start_ok:
  assumes "pool \<noteq> []" "length pool < 2 ^ 31" "0 < max_pending" "0 < cache_size"
  shows "\<exists>d. Dispatcher S pool max_pending cache_size = Inr d \<and> roma_inv S (length pool) (unat cache_size) max_pending d"
  using assms new_inv(1,3) [where cap = "unat cache_size"]
  by (simp add: Dispatcher_def assertE_def roma_inv_def batches_inv_def broadcasts_inv_def unat_gt_0)

text \<open>The executor empties when its tasks run.\<close>

lemma drain_ok:
  assumes "roma_inv S n cap mp d" "workers_answer S"
  shows "\<exists>d'. roma_run S d (replicate (length (scheduled d)) (TaskRuns 0)) = Inr d' \<and> roma_inv S n cap mp d' \<and> scheduled d' = []"
  using assms(1)
proof (induction "length (scheduled d)" arbitrary: d)
  case (Suc k)
  then have ne: "0 < length (scheduled d)" by arith
  obtain d1 where d1: "roma_step S d (TaskRuns 0) = Inr d1" "roma_inv S n cap mp d1" "scheduled d1 = take 0 (scheduled d) @ drop (Suc 0) (scheduled d)"
    using task_step [OF Suc.prems assms(2) ne] by blast
  then have "k = length (scheduled d1)" using Suc.hyps(2) by simp
  then show ?case using Suc.hyps(1) [of d1] d1(1,2) Suc.hyps(2) [symmetric] by (simp del: roma_step.simps)
qed (use assms in auto)

end

section \<open>A sandbox\<close>

text \<open>Workers that answer with the code or the first input they are given, and count what they have run.\<close>

definition echo_sandbox :: "((u64 \<times> nat option \<times> CodeObject) list, nat) sandbox" where
  "echo_sandbox = \<lparr>sb_map = al_flat,
     sb_default = \<lparr>co_id = [], co_version_num = 0, co_js = [], co_wasm = [], co_wasm_bin = [], co_tags = Map.empty\<rparr>,
     sb_message = (\<lambda>_. ''error''),
     sb_RunCode = (\<lambda>w req. (HoldsValue \<lparr>rr_response = Some (case rc_input req of [] \<Rightarrow> rc_code req | x # _ \<Rightarrow> x), rr_errors = [], rr_metrics = Map.empty\<rparr>, Suc w)),
     sb_entries = (\<lambda>m. List.map_filter m [1, 2])\<rparr>"

interpretation echo: roma echo_sandbox
  unfolding roma_def by (simp add: echo_sandbox_def al_lru.lru_map_axioms)

lemma echo_answers: "workers_answer echo_sandbox"
  by (simp add: workers_answer_def echo_sandbox_def)

section \<open>Properties\<close>

lemma roma_reaches:
  assumes "roma S" "workers_answer S" "pool \<noteq> []" "length pool < 2 ^ 31" "0 < max_pending" "0 < cache_size"
    "\<forall>e \<in> set es. whole_event e \<and> event_given e"
  shows "\<exists>d. bindE (Dispatcher S pool max_pending cache_size) (\<lambda>d0. roma_run S d0 es) = Inr d \<and>
    roma_inv S (length pool) (unat cache_size) max_pending d"
proof -
  obtain d0 where d0: "Dispatcher S pool max_pending cache_size = Inr d0" "roma_inv S (length pool) (unat cache_size) max_pending d0"
    using roma.start_ok [OF assms(1,3-6)] by blast
  then show ?thesis using roma.run_ok [OF assms(1) d0(2) assms(2,7)] by auto
qed

text \<open>
  C18: Every sequence of dispatches, batches, broadcasts and tasks, each call of \<open>Dispatch\<close> and each task running
  without an interruption by another, with inputs that are not null and workers that answer a success with a response, runs without a fault and keeps
  the dispatcher well typed: the pool has the workers it started with, every task on the
  executor has a valid request and the number of a worker that exists, the loading of a
  broadcast being for the worker its response is stored for, and the cache holds no more than its capacity.
\<close>

theorem roma_types:
  assumes "roma S" "workers_answer S" "pool \<noteq> []" "length pool < 2 ^ 31" "0 < max_pending" "0 < cache_size"
    "\<forall>e \<in> set es. whole_event e \<and> event_given e"
  shows "\<exists>d. bindE (Dispatcher S pool max_pending cache_size) (\<lambda>d0. roma_run S d0 es) = Inr d \<and>
    length (worker_pool d) = length pool \<and>
    (\<forall>t \<in> set (scheduled d). (\<exists>w. GetWorker d (tk_index t) = HoldsValue w) \<and> Validate (tk_request t) = SuccessExecutionResult \<and>
       request_id (tk_request t) \<noteq> [] \<and> version_num (tk_request t) \<noteq> 0 \<and>
       (\<forall>b i. tk_callback t = BroadcastCallback b i \<longrightarrow> unat (tk_index t) = i)) \<and>
    LruCache_Size (sb_map S) (code_object_cache d) \<le> unat cache_size"
proof -
  obtain d where d: "bindE (Dispatcher S pool max_pending cache_size) (\<lambda>d0. roma_run S d0 es) = Inr d"
    "roma_inv S (length pool) (unat cache_size) max_pending d"
    using roma_reaches [OF assms] by blast
  have F: "lru_map (sb_map S)" using assms(1) by (simp add: roma_def)
  have "LruCache_Size (sb_map S) (code_object_cache d) \<le> unat cache_size"
    using d(2) lru_map.abs_facts [OF F, of "code_object_cache d" "sb_default S"] by (simp add: roma_inv_def LruCache_Size_def)
  moreover have "(\<exists>w. GetWorker d (tk_index t) = HoldsValue w) \<and> Validate (tk_request t) = SuccessExecutionResult \<and>
       request_id (tk_request t) \<noteq> [] \<and> version_num (tk_request t) \<noteq> 0 \<and>
       (\<forall>b i. tk_callback t = BroadcastCallback b i \<longrightarrow> unat (tk_index t) = i)" if "t \<in> set (scheduled d)" for t
  proof -
    have t: "task_ok (length pool) (length (batches d)) (length (broadcasts d)) t" "length (worker_pool d) = length pool"
      using d(2) that by (simp_all add: roma_inv_def)
    then have "tk_index t < GetPoolSize d" using assms(4) by (simp add: task_ok_def GetPoolSize_def word_less_nat_alt size_t_of_nat)
    then show ?thesis using t(1) validated [of "tk_request t"] by (auto simp: GetWorker_def task_ok_def Successful_def)
  qed
  ultimately show ?thesis using d by (auto simp: roma_inv_def)
qed

definition load_v :: "u64 \<Rightarrow> request" where
  "load_v v = LoadCode \<lparr>co_id = ''a'', co_version_num = v, co_js = ''f'', co_wasm = [], co_wasm_bin = [], co_tags = Map.empty\<rparr>"

definition invoke_v :: "u64 \<Rightarrow> request" where
  "invoke_v v = InvokeStr \<lparr>ir_id = [], ir_version_num = v, ir_handler_name = ''h'', ir_wasm_return_type = kString, ir_tags = Map.empty, ir_input = [''x'']\<rparr>"

theorem roma_types_witness:
  "workers_answer echo_sandbox \<and>
   (\<exists>d. bindE (Dispatcher echo_sandbox [0, 0] 5 1) (\<lambda>d0. roma_run echo_sandbox d0
        [Dispatches (load_v 1) 0 SuccessExecutionResult, TaskRuns 0, BatchStarts [invoke_v 1], BatchTries 0 SuccessExecutionResult]) = Inr d \<and>
      length (worker_pool d) = 2 \<and> LruCache_Size (sb_map echo_sandbox) (code_object_cache d) \<le> 1)"
  using roma_types [OF echo.roma_axioms echo_answers, of "[0, 0]" 5 1
      "[Dispatches (load_v 1) 0 SuccessExecutionResult, TaskRuns 0, BatchStarts [invoke_v 1], BatchTries 0 SuccessExecutionResult]"]
    echo_answers
  by (auto simp: inputs_given_def load_v_def invoke_v_def)

text \<open>
  C17: In every state that is reached with no call of \<open>Dispatch\<close> and no task being interrupted by another, with inputs that are not
  null and workers that answer a success with a response, the count of pending requests is the number of requests that
  wait on the executor, which stays within the limit, and the callbacks of the accepted
  requests are those still waiting and those that have been called, each as often as it was accepted.
\<close>

theorem roma_accounts:
  assumes "roma S" "workers_answer S" "pool \<noteq> []" "length pool < 2 ^ 31" "0 < max_pending" "0 < cache_size"
    "\<forall>e \<in> set es. whole_event e \<and> event_given e"
  shows "\<exists>d. bindE (Dispatcher S pool max_pending cache_size) (\<lambda>d0. roma_run S d0 es) = Inr d \<and>
    unat (pending_requests d) = length (scheduled d) \<and> length (scheduled d) \<le> unat max_pending \<and>
    mset (map fst (filter (\<lambda>x. Successful (snd x)) (user_returns d))) = mset (gather user_id (scheduled d)) + mset (map fst (user_calls d))"
proof -
  obtain d where d: "bindE (Dispatcher S pool max_pending cache_size) (\<lambda>d0. roma_run S d0 es) = Inr d"
    "roma_inv S (length pool) (unat cache_size) max_pending d"
    using roma_reaches [OF assms] by blast
  moreover have "unat max_pending < 2 ^ 64" using unsigned_less [of max_pending] by simp
  ultimately show ?thesis by (simp add: roma_inv_def size_t_of_nat)
qed

theorem roma_accounts_witness:
  "\<exists>d. bindE (Dispatcher echo_sandbox [0] 1 1) (\<lambda>d0. roma_run echo_sandbox d0
        [Dispatches (load_v 1) 0 SuccessExecutionResult, Dispatches (invoke_v 1) 1 SuccessExecutionResult]) = Inr d \<and>
     length (scheduled d) \<le> 1 \<and>
     mset (map fst (filter (\<lambda>x. Successful (snd x)) (user_returns d))) = mset (gather user_id (scheduled d)) + mset (map fst (user_calls d))"
  using roma_accounts [OF echo.roma_axioms echo_answers, of "[0]" 1 1
      "[Dispatches (load_v 1) 0 SuccessExecutionResult, Dispatches (invoke_v 1) 1 SuccessExecutionResult]"]
  by (auto simp: inputs_given_def load_v_def invoke_v_def)

text \<open>
  C16: From every state that is reached with no call of \<open>Dispatch\<close> and no task being interrupted by another, with inputs that are
  not null and workers that answer a success with a response, the executor empties by running its tasks, and then every accepted
  request has had its callback called once for each time it was accepted; the callback of a batch of at least one
  request or of a broadcast that was accepted has been called exactly once, that of a batch with
  a response for every request, that of a broadcast with the first failure of a worker or the
  first response; those of refused ones have not been called.
\<close>

theorem roma_drains:
  assumes "roma S" "workers_answer S" "pool \<noteq> []" "length pool < 2 ^ 31" "0 < max_pending" "0 < cache_size"
    "\<forall>e \<in> set es. whole_event e \<and> event_given e"
  shows "\<exists>d d'. bindE (Dispatcher S pool max_pending cache_size) (\<lambda>d0. roma_run S d0 es) = Inr d \<and>
    roma_run S d (replicate (length (scheduled d)) (TaskRuns 0)) = Inr d' \<and> scheduled d' = [] \<and> pending_requests d' = 0 \<and>
    mset (map fst (filter (\<lambda>x. Successful (snd x)) (user_returns d'))) = mset (map fst (user_calls d')) \<and>
    (\<forall>b < length (batches d'). \<forall>r. bt_returned (batches d' ! b) = Some r \<and> bt_requests (batches d' ! b) \<noteq> [] \<longrightarrow>
       (if Successful r then \<exists>responses. calls_of b (batch_calls d') = [map Some responses] \<and> length responses = length (bt_requests (batches d' ! b))
        else calls_of b (batch_calls d') = [])) \<and>
    (\<forall>b < length (broadcasts d'). \<forall>r. bc_returned (broadcasts d' ! b) = Some r \<longrightarrow>
       (if Successful r then \<exists>responses. calls_of b (broadcast_calls d') = [first_failed (map Some responses)] \<and> length responses = length pool
        else calls_of b (broadcast_calls d') = []))"
proof -
  obtain d where d: "bindE (Dispatcher S pool max_pending cache_size) (\<lambda>d0. roma_run S d0 es) = Inr d"
    "roma_inv S (length pool) (unat cache_size) max_pending d"
    using roma_reaches [OF assms] by blast
  obtain d' where d': "roma_run S d (replicate (length (scheduled d)) (TaskRuns 0)) = Inr d'"
    "roma_inv S (length pool) (unat cache_size) max_pending d'" "scheduled d' = []"
    using roma.drain_ok [OF assms(1) d(2) assms(2)] by blast
  have bb: "batches_inv (batches d') [] (batch_calls d')" "broadcasts_inv (length pool) (broadcasts d') [] (broadcast_calls d')"
    using d'(2,3) by (simp_all add: roma_inv_def)
  have "if Successful r then \<exists>responses. calls_of b (batch_calls d') = [map Some responses] \<and> length responses = length (bt_requests (batches d' ! b))
      else calls_of b (batch_calls d') = []"
    if "b < length (batches d')" "bt_returned (batches d' ! b) = Some r \<and> bt_requests (batches d' ! b) \<noteq> []" for b r
    using batch_now [OF bb(1) that(1)] that(2) group_all [of "bt_response (batches d' ! b)"] by (cases "Successful r") (auto simp: batch_inv_def)
  moreover have "if Successful r then \<exists>responses. calls_of b (broadcast_calls d') = [first_failed (map Some responses)] \<and> length responses = length pool
      else calls_of b (broadcast_calls d') = []"
    if "b < length (broadcasts d')" "bc_returned (broadcasts d' ! b) = Some r" for b r
  proof (cases "Successful r")
    case True
    then have calls: "calls_of b (broadcast_calls d') = [first_failed (bc_responses_storage (broadcasts d' ! b))]"
      and len: "length (bc_responses_storage (broadcasts d' ! b)) = length pool"
      and "group_inv (length (bc_responses_storage (broadcasts d' ! b))) (bc_responses_storage (broadcasts d' ! b)) (bc_finished_counter (broadcasts d' ! b)) []"
      using broadcast_now [OF bb(2) that(1)] that(2) assms(3) by (auto simp: broadcast_inv_def)
    then obtain rs where "bc_responses_storage (broadcasts d' ! b) = map Some rs" "length rs = length pool" using group_all len by metis
    then show ?thesis using True unfolding calls by auto
  qed (use broadcast_now [OF bb(2) that(1)] that(2) in \<open>simp add: broadcast_inv_def\<close>)
  ultimately show ?thesis using d(1) d' by (auto simp: roma_inv_def)
qed

theorem roma_drains_witness:
  "\<exists>d d'. bindE (Dispatcher echo_sandbox [0, 0] 5 1) (\<lambda>d0. roma_run echo_sandbox d0
        [Dispatches (load_v 1) 0 SuccessExecutionResult, BatchStarts [invoke_v 1], BatchTries 0 SuccessExecutionResult]) = Inr d \<and>
     roma_run echo_sandbox d (replicate (length (scheduled d)) (TaskRuns 0)) = Inr d' \<and> scheduled d' = [] \<and>
     mset (map fst (filter (\<lambda>x. Successful (snd x)) (user_returns d'))) = mset (map fst (user_calls d'))"
  using roma_drains [OF echo.roma_axioms echo_answers, of "[0, 0]" 5 1
      "[Dispatches (load_v 1) 0 SuccessExecutionResult, BatchStarts [invoke_v 1], BatchTries 0 SuccessExecutionResult]"]
  by (auto simp: inputs_given_def load_v_def invoke_v_def)

lemma dispatch_refused:
  assumes "\<not> Successful (Validate (if request_id request = [] then with_request_id request kDefaultRomaRequestId else request))"
  shows "InternalDispatch S request cb widx answer d =
    Inr (if max_pending_requests d \<le> pending_requests d then FailureExecutionResult SC_ROMA_DISPATCHER_DISPATCH_DISALLOWED_DUE_TO_CAPACITY
         else Validate (if request_id request = [] then with_request_id request kDefaultRomaRequestId else request), d)"
  using assms by (simp add: InternalDispatch_def InternalDispatch_schedule_def Let_def del: Validate.simps)

text \<open>
  C40: A batch whose request behind the first is invalid never returns: every call of
  \<open>Dispatch\<close> for it is refused and leaves the dispatcher as it was, so the loop of \<open>DispatchBatch\<close> goes
  round without end, whatever the executor answers.
\<close>

theorem roma_batch_spins:
  assumes "b < length (batches d)" "bt_returned (batches d ! b) = None" "0 < bt_at (batches d ! b)"
    "bt_requests (batches d ! b) ! bt_at (batches d ! b) = InvokeStr r" "ir_version_num r = 0 \<or> ir_handler_name r = []"
  shows "roma_run S d (map (BatchTries b) answers) = Inr d"
proof -
  let ?request1 = "if request_id (InvokeStr r) = [] then with_request_id (InvokeStr r) kDefaultRomaRequestId else InvokeStr r"
  have bad: "\<not> Successful (Validate ?request1)"
    using assms(5) by (auto simp: InvocationRequestCommon_validate_def)
  then have "Validate ?request1 \<noteq> SuccessExecutionResult" by (simp add: Successful_def)
  then have res: "\<exists>res. InternalDispatch S (InvokeStr r) (BatchCallback b (bt_at (batches d ! b))) (-1) answer d = Inr (res, d) \<and>
      res \<noteq> SuccessExecutionResult" for answer
    unfolding dispatch_refused [OF bad]
    by (cases "max_pending_requests d \<le> pending_requests d") (simp_all del: Validate.simps request_id.simps with_request_id.simps)
  have "DispatchBatch_try S b answer d = Inr d" for answer
    using assms(2-4) res [of answer] by (auto simp: DispatchBatch_try_def Let_def)
  then show ?thesis using assms(1) by (induction answers) auto
qed

definition bad_invoke :: request where
  "bad_invoke = InvokeStr \<lparr>ir_id = [], ir_version_num = 0, ir_handler_name = ''h'', ir_wasm_return_type = kString, ir_tags = Map.empty, ir_input = []\<rparr>"

theorem roma_batch_spins_witness:
  "\<exists>d. bindE (Dispatcher echo_sandbox [0] 5 1) (\<lambda>d0. roma_run echo_sandbox d0
       [BatchStarts [invoke_v 1, bad_invoke], BatchTries 0 SuccessExecutionResult]) = Inr d \<and>
     bt_returned (batches d ! 0) = None \<and>
     roma_run echo_sandbox d (map (BatchTries 0) [SuccessExecutionResult, SuccessExecutionResult]) = Inr d"
proof -
  let ?run = "bindE (Dispatcher echo_sandbox [0] 5 1) (\<lambda>d0. roma_run echo_sandbox d0
       [BatchStarts [invoke_v 1, bad_invoke], BatchTries 0 SuccessExecutionResult])"
  have run: "map_sum (\<lambda>x. x) (\<lambda>d. (length (batches d), bt_returned (batches d ! 0), bt_at (batches d ! 0))) ?run = Inr (1, None, 1)"
    by code_simp
  have req: "map_sum (\<lambda>x. x) (\<lambda>d. bt_requests (batches d ! 0) ! 1) ?run = Inr bad_invoke"
    by (simp add: Dispatcher_def assertE_def DispatchBatch_def DispatchBatch_try_def Let_def InternalDispatch_def
        InternalDispatch_schedule_def InternalDispatch_count_def invoke_v_def InvocationRequestCommon_validate_def
        pick_worker_def GetPoolSize_def cache_code_def kDefaultRomaRequestId_def)
  obtain d where d: "?run = Inr d" using run by (cases ?run) auto
  then have "bt_requests (batches d ! 0) ! 1 = bad_invoke" "length (batches d) = 1" "bt_returned (batches d ! 0) = None" "bt_at (batches d ! 0) = 1"
    using run req unfolding d by simp_all
  then show ?thesis
    using roma_batch_spins [of 0 d _ echo_sandbox "[SuccessExecutionResult, SuccessExecutionResult]"] d
    by (simp add: bad_invoke_def del: roma_step.simps)
qed

text \<open>
  What interleaves inside a dispatch or a task can go wrong. A code object that is evicted
  between the \<open>Contains\<close> and the \<open>Get\<close> of a task is undefined behaviour, and a task that finishes
  before its dispatch is counted wraps the count of pending requests, so that an idle dispatcher
  refuses the next request.
\<close>

lemma roma_races:
  "map_sum (\<lambda>x. x) user_returns (bindE (Dispatcher echo_sandbox [0] 5 1) (\<lambda>d0. roma_run echo_sandbox d0
     [Dispatches (load_v 1) 0 SuccessExecutionResult, TaskRuns 0, Dispatches (invoke_v 1) 1 SuccessExecutionResult,
      TaskLooksUp 0, Dispatches (load_v 2) 2 SuccessExecutionResult, TaskGoesOn 0])) = Inl UndefinedBehaviour \<and>
   map_sum (\<lambda>x. x) (\<lambda>d. (length (scheduled d), map (\<lambda>x. Successful (snd x)) (user_returns d)))
     (bindE (Dispatcher echo_sandbox [0] 5 1) (\<lambda>d0. roma_run echo_sandbox d0
       [DispatchSchedules (load_v 1) 0 SuccessExecutionResult, TaskRuns 0, Dispatches (invoke_v 1) 1 SuccessExecutionResult])) =
   Inr (0, [True, False])"
  by code_simp

end
