(* ===== verification/Job_Items.thy ===== *)
theory Job_Items
  imports Base64
begin

text \<open>
  Jobs and the database items they are kept in:
  cc/cpio/client_providers/job_client_provider/src/job_client_utils.h and job_client_utils.cc, with the messages of
  cc/public/cpio/proto/job_service and nosql_database_service. Time stamps, JSON and the
  serialization of \<open>Any\<close> are libraries and therefore parameters. A job that was turned into the
  request that creates its item is read back from any item with the same attributes.
\<close>

section \<open>Messages\<close>

text \<open>A protobuf enumeration is open: every integer is a value.\<close>

type_synonym JobStatus = int

definition JOB_STATUS_UNKNOWN :: JobStatus where "JOB_STATUS_UNKNOWN = 0"
definition JOB_STATUS_CREATED :: JobStatus where "JOB_STATUS_CREATED = 1"
definition JOB_STATUS_PROCESSING :: JobStatus where "JOB_STATUS_PROCESSING = 2"
definition JOB_STATUS_FAILURE :: JobStatus where "JOB_STATUS_FAILURE = 3"
definition JOB_STATUS_SUCCESS :: JobStatus where "JOB_STATUS_SUCCESS = 4"

lemmas job_status_defs = JOB_STATUS_UNKNOWN_def JOB_STATUS_CREATED_def JOB_STATUS_PROCESSING_def JOB_STATUS_FAILURE_def JOB_STATUS_SUCCESS_def

record 't Job =
  jb_job_id :: string
  jb_server_job_id :: string
  jb_job_body :: string
  jb_job_status :: JobStatus
  jb_created_time :: 't
  jb_updated_time :: 't
  jb_retry_count :: int
  jb_processing_started_time :: 't

text \<open>The alternatives of the value; reading another one than is set gives the default.\<close>

datatype attribute_value = ValueInt int | ValueFloat u32 | ValueDouble u64 | ValueString string

record ItemAttribute =
  at_name :: string
  at_value :: "attribute_value option"

definition value_string :: "ItemAttribute \<Rightarrow> string" where
  "value_string a = (case at_value a of Some (ValueString s) \<Rightarrow> s | _ \<Rightarrow> [])"

definition value_int :: "ItemAttribute \<Rightarrow> int" where
  "value_int a = (case at_value a of Some (ValueInt i) \<Rightarrow> i | _ \<Rightarrow> 0)"

record ItemKey =
  ik_table_name :: string
  ik_partition_key :: "ItemAttribute option"
  ik_sort_key :: "ItemAttribute option"

record Item =
  it_key :: "ItemKey option"
  it_attributes :: "ItemAttribute list"

record GetDatabaseItemRequest =
  gd_key :: ItemKey
  gd_required_attributes :: "ItemAttribute list"

record CreateDatabaseItemRequest =
  cd_key :: ItemKey
  cd_attributes :: "ItemAttribute list"

record UpsertDatabaseItemRequest =
  ud_key :: ItemKey
  ud_required_attributes :: "ItemAttribute list"
  ud_new_attributes :: "ItemAttribute list"

section \<open>Error codes and columns\<close>

definition SC_JOB_CLIENT_PROVIDER_JOB_CLIENT_OPTIONS_REQUIRED :: StatusCode where
  "SC_JOB_CLIENT_PROVIDER_JOB_CLIENT_OPTIONS_REQUIRED = MakeErrorCode 0x0231 0x0001"

definition SC_JOB_CLIENT_PROVIDER_SERIALIZATION_FAILED :: StatusCode where
  "SC_JOB_CLIENT_PROVIDER_SERIALIZATION_FAILED = MakeErrorCode 0x0231 0x0002"

definition SC_JOB_CLIENT_PROVIDER_DESERIALIZATION_FAILED :: StatusCode where
  "SC_JOB_CLIENT_PROVIDER_DESERIALIZATION_FAILED = MakeErrorCode 0x0231 0x0003"

definition SC_JOB_CLIENT_PROVIDER_INVALID_JOB_ITEM :: StatusCode where
  "SC_JOB_CLIENT_PROVIDER_INVALID_JOB_ITEM = MakeErrorCode 0x0231 0x0004"

definition SC_JOB_CLIENT_PROVIDER_MISSING_JOB_ID :: StatusCode where
  "SC_JOB_CLIENT_PROVIDER_MISSING_JOB_ID = MakeErrorCode 0x0231 0x0005"

definition SC_JOB_CLIENT_PROVIDER_INVALID_JOB_STATUS :: StatusCode where
  "SC_JOB_CLIENT_PROVIDER_INVALID_JOB_STATUS = MakeErrorCode 0x0231 0x0006"

definition SC_JOB_CLIENT_PROVIDER_INVALID_RECEIPT_INFO :: StatusCode where
  "SC_JOB_CLIENT_PROVIDER_INVALID_RECEIPT_INFO = MakeErrorCode 0x0231 0x0007"

definition SC_JOB_CLIENT_PROVIDER_INVALID_DURATION :: StatusCode where
  "SC_JOB_CLIENT_PROVIDER_INVALID_DURATION = MakeErrorCode 0x0231 0x0008"

definition SC_JOB_CLIENT_PROVIDER_UPDATION_CONFLICT :: StatusCode where
  "SC_JOB_CLIENT_PROVIDER_UPDATION_CONFLICT = MakeErrorCode 0x0231 0x0009"

definition SC_JOB_CLIENT_PROVIDER_JOB_ENTRY_CREATION_FAILED :: StatusCode where
  "SC_JOB_CLIENT_PROVIDER_JOB_ENTRY_CREATION_FAILED = MakeErrorCode 0x0231 0x000A"

definition SC_JOB_CLIENT_PROVIDER_DUPLICATE_JOB_ENTRY_CREATION :: StatusCode where
  "SC_JOB_CLIENT_PROVIDER_DUPLICATE_JOB_ENTRY_CREATION = MakeErrorCode 0x0231 0x000B"

definition kJobsTablePartitionKeyName :: string where "kJobsTablePartitionKeyName = ''JobId''"
definition kServerJobIdColumnName :: string where "kServerJobIdColumnName = ''ServerJobId''"
definition kJobBodyColumnName :: string where "kJobBodyColumnName = ''JobBody''"
definition kJobStatusColumnName :: string where "kJobStatusColumnName = ''JobStatus''"
definition kCreatedTimeColumnName :: string where "kCreatedTimeColumnName = ''CreatedTime''"
definition kUpdatedTimeColumnName :: string where "kUpdatedTimeColumnName = ''UpdatedTime''"
definition kRetryCountColumnName :: string where "kRetryCountColumnName = ''RetryCount''"
definition kProcessingStartedTimeColumnName :: string where "kProcessingStartedTimeColumnName = ''ProcessingStartedTime''"

lemmas column_defs = kServerJobIdColumnName_def kJobBodyColumnName_def kJobStatusColumnName_def kCreatedTimeColumnName_def
  kUpdatedTimeColumnName_def kRetryCountColumnName_def kProcessingStartedTimeColumnName_def

definition kJobsTableRequiredColumns :: "string list" where
  "kJobsTableRequiredColumns =
     [kServerJobIdColumnName, kJobBodyColumnName, kJobStatusColumnName, kCreatedTimeColumnName,
      kUpdatedTimeColumnName, kRetryCountColumnName, kProcessingStartedTimeColumnName]"

definition allowed_status_to_update :: "(JobStatus \<times> JobStatus list) list" where
  "allowed_status_to_update =
     [(JOB_STATUS_CREATED, [JOB_STATUS_PROCESSING, JOB_STATUS_SUCCESS, JOB_STATUS_FAILURE]),
      (JOB_STATUS_PROCESSING, [JOB_STATUS_PROCESSING, JOB_STATUS_SUCCESS, JOB_STATUS_FAILURE])]"

section \<open>Operations\<close>

text \<open>
  The time stamps of the protobuf library: printing, parsing (the value left in the
  out-parameter; whether parsing succeeded is not looked at), and zero seconds.
\<close>

record 't time_util =
  tu_ToString :: "'t \<Rightarrow> string"
  tu_FromString :: "string \<Rightarrow> 't"
  kDefaultTimestampValue :: 't

definition ValidateJobItem :: "Item \<Rightarrow> ExecutionResult" where
  "ValidateJobItem item =
     (case it_key item of
        None \<Rightarrow> FailureExecutionResult SC_JOB_CLIENT_PROVIDER_INVALID_JOB_ITEM
      | Some key \<Rightarrow>
          if ik_partition_key key = None \<or> length (it_attributes item) \<noteq> length kJobsTableRequiredColumns
          then FailureExecutionResult SC_JOB_CLIENT_PROVIDER_INVALID_JOB_ITEM
          else if list_ex (\<lambda>column. \<not> list_ex (\<lambda>attribute. at_name attribute = column) (it_attributes item)) kJobsTableRequiredColumns
          then FailureExecutionResult SC_JOB_CLIENT_PROVIDER_INVALID_JOB_ITEM
          else SuccessExecutionResult)"

text \<open>\<open>insert\<close> keeps the entry that is there.\<close>

definition GetItemAttributes :: "Item \<Rightarrow> string \<rightharpoonup> ItemAttribute" where
  "GetItemAttributes item = map_of (map (\<lambda>attribute. (at_name attribute, attribute)) (it_attributes item))"

definition MakeStringAttribute :: "string \<Rightarrow> string \<Rightarrow> ItemAttribute" where
  "MakeStringAttribute name v = \<lparr>at_name = name, at_value = Some (ValueString v)\<rparr>"

definition MakeIntAttribute :: "string \<Rightarrow> int \<Rightarrow> ItemAttribute" where
  "MakeIntAttribute name v = \<lparr>at_name = name, at_value = Some (ValueInt v)\<rparr>"

definition CreateJob :: "string \<Rightarrow> string \<Rightarrow> string \<Rightarrow> JobStatus \<Rightarrow> 't \<Rightarrow> 't \<Rightarrow> 't \<Rightarrow> int \<Rightarrow> 't Job" where
  "CreateJob job_id server_job_id job_body job_status created_time updated_time processing_started_time retry_count =
     \<lparr>jb_job_id = job_id, jb_server_job_id = server_job_id, jb_job_body = job_body, jb_job_status = job_status,
      jb_created_time = created_time, jb_updated_time = updated_time, jb_retry_count = retry_count,
      jb_processing_started_time = processing_started_time\<rparr>"

text \<open>A \<open>Job\<close> as it is constructed.\<close>

definition default_Job :: "'t time_util \<Rightarrow> 't Job" where
  "default_Job TU = CreateJob [] [] [] JOB_STATUS_UNKNOWN (kDefaultTimestampValue TU) (kDefaultTimestampValue TU) (kDefaultTimestampValue TU) 0"

definition ConvertAnyToBase64String :: "evp \<Rightarrow> ('a \<Rightarrow> string option) \<Rightarrow> 'a \<Rightarrow> string ExecutionResultOr" where
  "ConvertAnyToBase64String ssl SerializeToString any =
     (case SerializeToString any of
        None \<Rightarrow> HoldsResult (FailureExecutionResult SC_JOB_CLIENT_PROVIDER_SERIALIZATION_FAILED)
      | Some converted_string \<Rightarrow>
          let (r, encoded_string) = Base64Encode ssl converted_string []
          in if \<not> Successful r then HoldsResult r else HoldsValue encoded_string)"

definition ConvertBase64StringToAny :: "evp \<Rightarrow> (string \<Rightarrow> 'a option) \<Rightarrow> string \<Rightarrow> 'a ExecutionResultOr" where
  "ConvertBase64StringToAny ssl ParseFromString str =
     (let (r, decoded_string) = Base64Decode ssl str []
      in if \<not> Successful r then HoldsResult r
         else case ParseFromString decoded_string of
                None \<Rightarrow> HoldsResult (FailureExecutionResult SC_JOB_CLIENT_PROVIDER_DESERIALIZATION_FAILED)
              | Some converted_any \<Rightarrow> HoldsValue converted_any)"

text \<open>\<open>std::map::at\<close> throws when the key is missing.\<close>

definition map_at :: "('k \<rightharpoonup> 'v) \<Rightarrow> 'k \<Rightarrow> cpp_fault + 'v" where
  "map_at m k = (case m k of None \<Rightarrow> Inl ThrowsException | Some v \<Rightarrow> Inr v)"

definition ConvertDatabaseItemToJob :: "evp \<Rightarrow> 't time_util \<Rightarrow> Item \<Rightarrow> cpp_fault + 't Job ExecutionResultOr" where
  "ConvertDatabaseItemToJob ssl TU item =
     (let validation = ValidateJobItem item
      in if \<not> Successful validation then Inr (HoldsResult validation)
         else let job_id = (case it_key item of None \<Rightarrow> [] | Some key \<Rightarrow>
                     (case ik_partition_key key of None \<Rightarrow> [] | Some a \<Rightarrow> value_string a));
                  attributes = GetItemAttributes item
              in bindE (map_at attributes kServerJobIdColumnName) (\<lambda>server_job_id.
                 bindE (map_at attributes kJobBodyColumnName) (\<lambda>body.
                 let (r, job_body) = Base64Decode ssl (value_string body) []
                 in if \<not> Successful r then Inr (HoldsResult r)
                    else bindE (map_at attributes kJobStatusColumnName) (\<lambda>job_status.
                         bindE (map_at attributes kCreatedTimeColumnName) (\<lambda>created_time.
                         bindE (map_at attributes kUpdatedTimeColumnName) (\<lambda>updated_time.
                         bindE (map_at attributes kRetryCountColumnName) (\<lambda>retry_count.
                         bindE (map_at attributes kProcessingStartedTimeColumnName) (\<lambda>started_time.
                           Inr (HoldsValue (CreateJob job_id (value_string server_job_id) job_body (value_int job_status)
                             (tu_FromString TU (value_string created_time)) (tu_FromString TU (value_string updated_time))
                             (tu_FromString TU (value_string started_time)) (value_int retry_count)))))))))))"

definition job_key :: "string \<Rightarrow> string \<Rightarrow> ItemKey" where
  "job_key job_table_name job_id =
     \<lparr>ik_table_name = job_table_name, ik_partition_key = Some (MakeStringAttribute kJobsTablePartitionKeyName job_id), ik_sort_key = None\<rparr>"

definition CreatePutJobRequest :: "evp \<Rightarrow> 't time_util \<Rightarrow> string \<Rightarrow> 't Job \<Rightarrow> CreateDatabaseItemRequest ExecutionResultOr" where
  "CreatePutJobRequest ssl TU job_table_name job =
     (let (r, encoded_job_body) = Base64Encode ssl (jb_job_body job) []
      in if \<not> Successful r then HoldsResult r
         else HoldsValue \<lparr>cd_key = job_key job_table_name (jb_job_id job), cd_attributes =
           [MakeStringAttribute kServerJobIdColumnName (jb_server_job_id job),
            MakeStringAttribute kJobBodyColumnName encoded_job_body,
            MakeIntAttribute kJobStatusColumnName (jb_job_status job),
            MakeStringAttribute kCreatedTimeColumnName (tu_ToString TU (jb_created_time job)),
            MakeStringAttribute kUpdatedTimeColumnName (tu_ToString TU (jb_updated_time job)),
            MakeIntAttribute kRetryCountColumnName (jb_retry_count job),
            MakeStringAttribute kProcessingStartedTimeColumnName (tu_ToString TU (jb_processing_started_time job))]\<rparr>)"

text \<open>Only what is set in the job is written, except for the retry count, which always is.\<close>

definition CreateUpsertJobRequest :: "evp \<Rightarrow> 't time_util \<Rightarrow> string \<Rightarrow> 't Job \<Rightarrow> UpsertDatabaseItemRequest ExecutionResultOr" where
  "CreateUpsertJobRequest ssl TU job_table_name job =
     (let server_job_id = (if jb_server_job_id job = [] then [] else [MakeStringAttribute kServerJobIdColumnName (jb_server_job_id job)]);
          (r, encoded_job_body) = (if jb_job_body job = [] then (SuccessExecutionResult, []) else Base64Encode ssl (jb_job_body job) [])
      in if \<not> Successful r then HoldsResult r
         else let body = (if jb_job_body job = [] then [] else [MakeStringAttribute kJobBodyColumnName encoded_job_body]);
                  job_status = (if jb_job_status job = JOB_STATUS_UNKNOWN then [] else [MakeIntAttribute kJobStatusColumnName (jb_job_status job)]);
                  created = (if jb_created_time job = kDefaultTimestampValue TU then []
                    else [MakeStringAttribute kCreatedTimeColumnName (tu_ToString TU (jb_created_time job))]);
                  updated = (if jb_updated_time job = kDefaultTimestampValue TU then []
                    else [MakeStringAttribute kUpdatedTimeColumnName (tu_ToString TU (jb_updated_time job))]);
                  started = (if jb_processing_started_time job = kDefaultTimestampValue TU then []
                    else [MakeStringAttribute kProcessingStartedTimeColumnName (tu_ToString TU (jb_processing_started_time job))])
              in HoldsValue \<lparr>ud_key = job_key job_table_name (jb_job_id job), ud_required_attributes = [],
                   ud_new_attributes = server_job_id @ body @ job_status @ created @ updated @
                     [MakeIntAttribute kRetryCountColumnName (jb_retry_count job)] @ started\<rparr>)"

definition CreateGetJobByJobIdRequest :: "string \<Rightarrow> string \<Rightarrow> GetDatabaseItemRequest" where
  "CreateGetJobByJobIdRequest job_table_name job_id = \<lparr>gd_key = job_key job_table_name job_id, gd_required_attributes = []\<rparr>"

definition CreateGetNextJobRequest :: "string \<Rightarrow> string \<Rightarrow> string \<Rightarrow> GetDatabaseItemRequest" where
  "CreateGetNextJobRequest job_table_name job_id server_job_id =
     (CreateGetJobByJobIdRequest job_table_name job_id)\<lparr>gd_required_attributes := [MakeStringAttribute kServerJobIdColumnName server_job_id]\<rparr>"

definition ValidateJobStatus :: "JobStatus \<Rightarrow> JobStatus \<Rightarrow> ExecutionResult" where
  "ValidateJobStatus current_status update_status =
     (case map_of allowed_status_to_update current_status of
        None \<Rightarrow> FailureExecutionResult SC_JOB_CLIENT_PROVIDER_INVALID_JOB_STATUS
      | Some current_status_set \<Rightarrow>
          if update_status \<in> set current_status_set then SuccessExecutionResult
          else FailureExecutionResult SC_JOB_CLIENT_PROVIDER_INVALID_JOB_STATUS)"

text \<open>
  The message in the queue. The JSON library prints an object of strings and parses a text
  into the members that are strings; it throws when a text cannot be printed or parsed, and
  when a member that is read is no string.
\<close>

record json_lib =
  js_dump :: "(string \<times> string) list \<Rightarrow> string option"
  js_parse :: "string \<Rightarrow> (string \<rightharpoonup> string) option"

definition JobMessageBody_ToJsonString :: "json_lib \<Rightarrow> string \<Rightarrow> string \<Rightarrow> cpp_fault + string" where
  "JobMessageBody_ToJsonString js job_id server_job_id =
     (case js_dump js [(kJobsTablePartitionKeyName, job_id), (kServerJobIdColumnName, server_job_id)] of
        None \<Rightarrow> Inl ThrowsException | Some s \<Rightarrow> Inr s)"

definition JobMessageBody :: "json_lib \<Rightarrow> string \<Rightarrow> cpp_fault + (string \<times> string)" where
  "JobMessageBody js json_string =
     (case js_parse js json_string of
        None \<Rightarrow> Inl ThrowsException
      | Some message_body \<Rightarrow>
          bindE (map_at message_body kJobsTablePartitionKeyName) (\<lambda>job_id.
          bindE (map_at message_body kServerJobIdColumnName) (\<lambda>server_job_id. Inr (job_id, server_job_id))))"

end
