(* ===== verification/Job_Client.thy ===== *)
theory Job_Client
  imports Job_Items
begin

text \<open>
  The client of the job service: cc/cpio/client_providers/job_client_provider/src/job_client_provider.cc. Its seven
  operations call the providers of the queue and the database, which answer later through a
  callback. What a provider returns at once, its answers and the clock come from outside and are arguments; calls
  that wait for an answer are in the state, so that operations interleave as events. What is written to the log is left
  out, and with it that three messages about a wrong status pass an enumeration where the format expects a string.
\<close>

section \<open>State\<close>

text \<open>The fields of the requests; each operation reads those its own message has.\<close>

record 't job_request =
  rq_job_id :: string
  rq_job_body :: string
  rq_job_status :: JobStatus
  rq_most_recent_updated_time :: 't
  rq_duration_to_update :: int
  rq_receipt_info :: string

datatype 't job_response =
    PutJobResponse "'t Job"
  | GetNextJobResponse "('t Job \<times> string) option"
  | GetJobByIdResponse "'t Job"
  | UpdateJobBodyResponse 't
  | UpdateJobStatusResponse JobStatus 't int
  | UpdateJobVisibilityTimeoutResponse
  | DeleteOrphanedJobMessageResponse

text \<open>
  Calls of the providers that have not been answered, with the number of the context they are made for and
  what is bound to their callback.
\<close>

datatype 't pending_call =
    EnqueueMessage nat string string string
  | CreateDatabaseItem nat CreateDatabaseItemRequest "'t Job"
  | GetTopMessage nat
  | GetNextJobItem nat GetDatabaseItemRequest string string "string option"
  | GetJobItemByJobId nat GetDatabaseItemRequest
  | GetJobItemForUpdateJobBody nat GetDatabaseItemRequest
  | UpsertUpdatedJobBody nat UpsertDatabaseItemRequest 't
  | GetJobItemForUpdateJobStatus nat GetDatabaseItemRequest
  | UpsertUpdatedJobStatus nat UpsertDatabaseItemRequest 't int
  | DeleteMessageForUpdatingJobStatus nat string 't int
  | UpdateMessageVisibilityTimeout nat int string
  | GetJobItemForDeleteOrphanedJobMessage nat GetDatabaseItemRequest
  | DeleteMessageForDeleteOrphanedJobMessage nat string

text \<open>
  The requests of the contexts, what the operations returned, and the calls of \<open>Finish\<close>.
\<close>

record 't job_client =
  job_table_name :: string
  jc_requests :: "'t job_request list"
  jc_returned :: "ExecutionResult list"
  jc_pending :: "'t pending_call list"
  jc_finished :: "(nat \<times> ExecutionResult \<times> 't job_response option) list"

record 't job_lib =
  jl_ssl :: evp
  jl_time :: "'t time_util"
  jl_json :: json_lib
  jl_ConvertDatabaseErrorForPutJob :: "StatusCode \<Rightarrow> ExecutionResult"

text \<open>
  A provider accepts a call and will answer it, refuses it, or finishes its context with a
  failure, which runs the callback, and refuses it as well.
\<close>

datatype provider_answer = Accepts | Refuses ExecutionResult | FinishesAndRefuses ExecutionResult

text \<open>
  What a finished call brings: a failure, an empty response, a message with its receipt, or an
  item. A receipt that was never set is released as a null pointer.
\<close>

datatype reply = Failed ExecutionResult | Done | TopMessage string "string option" | GotItem Item

definition SC_NO_SQL_DATABASE_PROVIDER_RECORD_NOT_FOUND :: StatusCode where
  "SC_NO_SQL_DATABASE_PROVIDER_RECORD_NOT_FOUND = MakeErrorCode 0x0208 0x0002"

definition SC_NO_SQL_DATABASE_PROVIDER_CONDITIONAL_CHECKED_FAILED :: StatusCode where
  "SC_NO_SQL_DATABASE_PROVIDER_CONDITIONAL_CHECKED_FAILED = MakeErrorCode 0x0208 0x000C"

definition SC_GCP_ALREADY_EXISTS :: StatusCode where
  "SC_GCP_ALREADY_EXISTS = MakeErrorCode 0x0230 0x0007"

definition Aws_ConvertDatabaseErrorForPutJob :: "StatusCode \<Rightarrow> ExecutionResult" where
  "Aws_ConvertDatabaseErrorForPutJob status_code_from_database =
     (if status_code_from_database = SC_NO_SQL_DATABASE_PROVIDER_CONDITIONAL_CHECKED_FAILED
      then FailureExecutionResult SC_JOB_CLIENT_PROVIDER_DUPLICATE_JOB_ENTRY_CREATION
      else FailureExecutionResult SC_JOB_CLIENT_PROVIDER_JOB_ENTRY_CREATION_FAILED)"

definition Gcp_ConvertDatabaseErrorForPutJob :: "StatusCode \<Rightarrow> ExecutionResult" where
  "Gcp_ConvertDatabaseErrorForPutJob status_code_from_database =
     (if status_code_from_database = SC_GCP_ALREADY_EXISTS
      then FailureExecutionResult SC_JOB_CLIENT_PROVIDER_DUPLICATE_JOB_ENTRY_CREATION
      else FailureExecutionResult SC_JOB_CLIENT_PROVIDER_JOB_ENTRY_CREATION_FAILED)"

definition kDefaultRetryCount :: int where "kDefaultRetryCount = 0"
definition kMaximumVisibilityTimeoutInSeconds :: int where "kMaximumVisibilityTimeoutInSeconds = 600"

text \<open>\<open>Init\<close> takes the name of the table out of the options, which may be null.\<close>

definition JobClientProvider_Init :: "string option \<Rightarrow> 't job_client \<Rightarrow> ExecutionResult \<times> 't job_client" where
  "JobClientProvider_Init job_client_options s =
     (case job_client_options of
        None \<Rightarrow> (FailureExecutionResult SC_JOB_CLIENT_PROVIDER_JOB_CLIENT_OPTIONS_REQUIRED, s)
      | Some name \<Rightarrow> (SuccessExecutionResult, s\<lparr>job_table_name := name\<rparr>))"

definition finish_job :: "nat \<Rightarrow> ExecutionResult \<Rightarrow> 't job_response option \<Rightarrow> 't job_client \<Rightarrow> 't job_client" where
  "finish_job c r response s = s\<lparr>jc_finished := jc_finished s @ [(c, r, response)]\<rparr>"

definition call_provider ::
  "'t pending_call \<Rightarrow> (ExecutionResult \<Rightarrow> 't job_client \<Rightarrow> cpp_fault + 't job_client) \<Rightarrow> provider_answer \<Rightarrow> 't job_client \<Rightarrow>
   cpp_fault + (ExecutionResult \<times> 't job_client)" where
  "call_provider call on_failed answer s =
     (case answer of
        Accepts \<Rightarrow> Inr (SuccessExecutionResult, s\<lparr>jc_pending := jc_pending s @ [call]\<rparr>)
      | Refuses r \<Rightarrow> Inr (r, s)
      | FinishesAndRefuses r \<Rightarrow> bindE (on_failed r s) (\<lambda>s1. Inr (r, s1)))"

text \<open>What a callback does behind a call of a provider: it finishes its context when the call was refused.\<close>

definition finish_if_refused :: "nat \<Rightarrow> cpp_fault + (ExecutionResult \<times> 't job_client) \<Rightarrow> cpp_fault + 't job_client" where
  "finish_if_refused c m = bindE m (\<lambda>(execution_result, s).
     Inr (if \<not> Successful execution_result then finish_job c execution_result None s else s))"

text \<open>The item in a response, which is there when the call has succeeded.\<close>

fun item_of :: "reply \<Rightarrow> cpp_fault + Item" where
  "item_of (GotItem item) = Inr item"
| "item_of _ = Inl UndefinedBehaviour"

section \<open>Putting a job\<close>

definition OnCreateNewJobItemCallback ::
  "'t job_lib \<Rightarrow> nat \<Rightarrow> 't Job \<Rightarrow> reply \<Rightarrow> 't job_client \<Rightarrow> cpp_fault + 't job_client" where
  "OnCreateNewJobItemCallback L c job rep s =
     (case rep of
        Failed r \<Rightarrow> Inr (finish_job c (jl_ConvertDatabaseErrorForPutJob L (status_code r)) None s)
      | _ \<Rightarrow> Inr (finish_job c SuccessExecutionResult (Some (PutJobResponse job)) s))"

definition OnEnqueueMessageCallback ::
  "'t job_lib \<Rightarrow> nat \<Rightarrow> string \<Rightarrow> string \<Rightarrow> reply \<Rightarrow> 't \<Rightarrow> provider_answer \<Rightarrow> 't job_client \<Rightarrow> cpp_fault + 't job_client" where
  "OnEnqueueMessageCallback L c job_id server_job_id rep current_time answer s =
     (case rep of
        Failed r \<Rightarrow> Inr (finish_job c r None s)
      | _ \<Rightarrow>
          let job = CreateJob job_id server_job_id (rq_job_body (jc_requests s ! c)) JOB_STATUS_CREATED current_time current_time
                (kDefaultTimestampValue (jl_time L)) kDefaultRetryCount
          in case CreatePutJobRequest (jl_ssl L) (jl_time L) (job_table_name s) job of
               HoldsResult r \<Rightarrow> Inr (finish_job c r None s)
             | HoldsValue request \<Rightarrow>
                 finish_if_refused c (call_provider (CreateDatabaseItem c request job)
                   (\<lambda>r. OnCreateNewJobItemCallback L c job (Failed r)) answer s))"

definition PutJob ::
  "'t job_lib \<Rightarrow> string \<Rightarrow> provider_answer \<Rightarrow> nat \<Rightarrow> 't job_client \<Rightarrow> cpp_fault + (ExecutionResult \<times> 't job_client)" where
  "PutJob L server_job_id answer c s =
     (let job_id = rq_job_id (jc_requests s ! c)
      in if job_id = [] then
           let r = FailureExecutionResult SC_JOB_CLIENT_PROVIDER_MISSING_JOB_ID in Inr (r, finish_job c r None s)
         else bindE (JobMessageBody_ToJsonString (jl_json L) job_id server_job_id) (\<lambda>message_body.
           call_provider (EnqueueMessage c message_body job_id server_job_id) (\<lambda>r s. Inr (finish_job c r None s)) answer s))"

section \<open>Getting jobs\<close>

definition OnGetNextJobItemCallback ::
  "'t job_lib \<Rightarrow> nat \<Rightarrow> string option \<Rightarrow> reply \<Rightarrow> 't job_client \<Rightarrow> cpp_fault + 't job_client" where
  "OnGetNextJobItemCallback L c receipt_info rep s =
     (case rep of
        Failed r \<Rightarrow> Inr (finish_job c r None s)
      | _ \<Rightarrow> bindE (item_of rep) (\<lambda>item. bindE (ConvertDatabaseItemToJob (jl_ssl L) (jl_time L) item) (\<lambda>job_or.
          case job_or of
            HoldsResult r \<Rightarrow> Inr (finish_job c r None s)
          | HoldsValue job \<Rightarrow>
              (case receipt_info of
                 None \<Rightarrow> Inl UndefinedBehaviour
               | Some receipt \<Rightarrow> Inr (finish_job c SuccessExecutionResult (Some (GetNextJobResponse (Some (job, receipt)))) s)))))"

definition OnGetTopMessageCallback ::
  "'t job_lib \<Rightarrow> nat \<Rightarrow> reply \<Rightarrow> provider_answer \<Rightarrow> 't job_client \<Rightarrow> cpp_fault + 't job_client" where
  "OnGetTopMessageCallback L c rep answer s =
     (case rep of
        Failed r \<Rightarrow> Inr (finish_job c r None s)
      | TopMessage message_body receipt_info \<Rightarrow>
          if message_body = [] then Inr (finish_job c SuccessExecutionResult (Some (GetNextJobResponse None)) s)
          else bindE (JobMessageBody (jl_json L) message_body) (\<lambda>(job_id, server_job_id).
            finish_if_refused c (call_provider
              (GetNextJobItem c (CreateGetNextJobRequest (job_table_name s) job_id server_job_id) job_id server_job_id receipt_info)
              (\<lambda>r. OnGetNextJobItemCallback L c receipt_info (Failed r)) answer s))
      | _ \<Rightarrow> Inl UndefinedBehaviour)"

definition GetNextJob :: "'t job_lib \<Rightarrow> provider_answer \<Rightarrow> nat \<Rightarrow> 't job_client \<Rightarrow> cpp_fault + (ExecutionResult \<times> 't job_client)" where
  "GetNextJob L answer c s = call_provider (GetTopMessage c) (\<lambda>r s. Inr (finish_job c r None s)) answer s"

definition OnGetJobItemByJobIdCallback ::
  "'t job_lib \<Rightarrow> nat \<Rightarrow> reply \<Rightarrow> 't job_client \<Rightarrow> cpp_fault + 't job_client" where
  "OnGetJobItemByJobIdCallback L c rep s =
     (case rep of
        Failed r \<Rightarrow> Inr (finish_job c r None s)
      | _ \<Rightarrow> bindE (item_of rep) (\<lambda>item. bindE (ConvertDatabaseItemToJob (jl_ssl L) (jl_time L) item) (\<lambda>job_or.
          case job_or of
            HoldsResult r \<Rightarrow> Inr (finish_job c r None s)
          | HoldsValue job \<Rightarrow> Inr (finish_job c SuccessExecutionResult (Some (GetJobByIdResponse job)) s))))"

definition GetJobById :: "'t job_lib \<Rightarrow> provider_answer \<Rightarrow> nat \<Rightarrow> 't job_client \<Rightarrow> cpp_fault + (ExecutionResult \<times> 't job_client)" where
  "GetJobById L answer c s =
     (let job_id = rq_job_id (jc_requests s ! c)
      in if job_id = [] then
           let r = FailureExecutionResult SC_JOB_CLIENT_PROVIDER_MISSING_JOB_ID in Inr (r, finish_job c r None s)
         else call_provider (GetJobItemByJobId c (CreateGetJobByJobIdRequest (job_table_name s) job_id))
                (\<lambda>r. OnGetJobItemByJobIdCallback L c (Failed r)) answer s)"

section \<open>Updating the body of a job\<close>

text \<open>Releasing a field of a request leaves it empty.\<close>

definition release_job_id :: "nat \<Rightarrow> 't job_client \<Rightarrow> 't job_client" where
  "release_job_id c s = s\<lparr>jc_requests := (jc_requests s)[c := (jc_requests s ! c)\<lparr>rq_job_id := []\<rparr>]\<rparr>"

definition release_receipt_info :: "nat \<Rightarrow> 't job_client \<Rightarrow> 't job_client" where
  "release_receipt_info c s = s\<lparr>jc_requests := (jc_requests s)[c := (jc_requests s ! c)\<lparr>rq_receipt_info := []\<rparr>]\<rparr>"

definition OnUpsertUpdatedJobBodyJobItemCallback ::
  "nat \<Rightarrow> 't \<Rightarrow> reply \<Rightarrow> 't job_client \<Rightarrow> cpp_fault + 't job_client" where
  "OnUpsertUpdatedJobBodyJobItemCallback c update_time rep s =
     (case rep of
        Failed r \<Rightarrow> Inr (finish_job c r None s)
      | _ \<Rightarrow> Inr (finish_job c SuccessExecutionResult (Some (UpdateJobBodyResponse update_time)) s))"

definition OnGetJobItemForUpdateJobBodyCallback ::
  "('t :: linorder) job_lib \<Rightarrow> nat \<Rightarrow> reply \<Rightarrow> 't \<Rightarrow> provider_answer \<Rightarrow> 't job_client \<Rightarrow> cpp_fault + 't job_client" where
  "OnGetJobItemForUpdateJobBodyCallback L c rep update_time answer s =
     (case rep of
        Failed r \<Rightarrow> Inr (finish_job c r None s)
      | _ \<Rightarrow> bindE (item_of rep) (\<lambda>item. bindE (ConvertDatabaseItemToJob (jl_ssl L) (jl_time L) item) (\<lambda>job_or.
          case job_or of
            HoldsResult r \<Rightarrow> Inr (finish_job c r None s)
          | HoldsValue job \<Rightarrow>
              let request = jc_requests s ! c
              in if jb_updated_time job > rq_most_recent_updated_time request
                 then Inr (finish_job c (FailureExecutionResult SC_JOB_CLIENT_PROVIDER_UPDATION_CONFLICT) None s)
                 else let job_for_update = (default_Job (jl_time L))\<lparr>jb_job_id := rq_job_id request,
                            jb_job_body := rq_job_body request, jb_updated_time := update_time\<rparr>;
                          s1 = release_job_id c s
                      in case CreateUpsertJobRequest (jl_ssl L) (jl_time L) (job_table_name s1) job_for_update of
                           HoldsResult r \<Rightarrow> Inr (finish_job c r None s1)
                         | HoldsValue upsert_job_request \<Rightarrow>
                             finish_if_refused c (call_provider (UpsertUpdatedJobBody c upsert_job_request update_time)
                               (\<lambda>r. OnUpsertUpdatedJobBodyJobItemCallback c update_time (Failed r)) answer s1))))"

definition UpdateJobBody ::
  "('t :: linorder) job_lib \<Rightarrow> provider_answer \<Rightarrow> nat \<Rightarrow> 't job_client \<Rightarrow> cpp_fault + (ExecutionResult \<times> 't job_client)" where
  "UpdateJobBody L answer c s =
     (let job_id = rq_job_id (jc_requests s ! c)
      in if job_id = [] then
           let r = FailureExecutionResult SC_JOB_CLIENT_PROVIDER_MISSING_JOB_ID in Inr (r, finish_job c r None s)
         else call_provider (GetJobItemForUpdateJobBody c (CreateGetJobByJobIdRequest (job_table_name s) job_id))
                (\<lambda>r s. Inr (finish_job c r None s)) answer s)"

section \<open>Updating the status of a job\<close>

definition OnDeleteJobMessageForUpdatingJobStatusCallback ::
  "nat \<Rightarrow> 't \<Rightarrow> int \<Rightarrow> reply \<Rightarrow> 't job_client \<Rightarrow> cpp_fault + 't job_client" where
  "OnDeleteJobMessageForUpdatingJobStatusCallback c update_time retry_count rep s =
     (case rep of
        Failed r \<Rightarrow> Inr (finish_job c r None s)
      | _ \<Rightarrow> Inr (finish_job c SuccessExecutionResult
          (Some (UpdateJobStatusResponse (rq_job_status (jc_requests s ! c)) update_time retry_count)) s))"

definition DeleteJobMessageForUpdatingJobStatus ::
  "nat \<Rightarrow> 't \<Rightarrow> int \<Rightarrow> provider_answer \<Rightarrow> 't job_client \<Rightarrow> cpp_fault + 't job_client" where
  "DeleteJobMessageForUpdatingJobStatus c update_time retry_count answer s =
     finish_if_refused c (call_provider
       (DeleteMessageForUpdatingJobStatus c (rq_receipt_info (jc_requests s ! c)) update_time retry_count)
       (\<lambda>r. OnDeleteJobMessageForUpdatingJobStatusCallback c update_time retry_count (Failed r)) answer (release_receipt_info c s))"

definition OnUpsertUpdatedJobStatusJobItemCallback ::
  "nat \<Rightarrow> 't \<Rightarrow> int \<Rightarrow> reply \<Rightarrow> provider_answer \<Rightarrow> 't job_client \<Rightarrow> cpp_fault + 't job_client" where
  "OnUpsertUpdatedJobStatusJobItemCallback c update_time retry_count rep answer s =
     (case rep of
        Failed r \<Rightarrow> Inr (finish_job c r None s)
      | _ \<Rightarrow>
          let job_status_in_request = rq_job_status (jc_requests s ! c)
          in if job_status_in_request = JOB_STATUS_FAILURE \<or> job_status_in_request = JOB_STATUS_SUCCESS
             then DeleteJobMessageForUpdatingJobStatus c update_time retry_count answer s
             else Inr (finish_job c SuccessExecutionResult
               (Some (UpdateJobStatusResponse job_status_in_request update_time retry_count)) s))"

definition UpsertUpdatedJobStatusJobItem ::
  "('t :: linorder) job_lib \<Rightarrow> nat \<Rightarrow> int \<Rightarrow> 't \<Rightarrow> provider_answer \<Rightarrow> 't job_client \<Rightarrow> cpp_fault + 't job_client" where
  "UpsertUpdatedJobStatusJobItem L c retry_count update_time answer s =
     (let request = jc_requests s ! c;
          job = (default_Job (jl_time L))\<lparr>jb_job_id := rq_job_id request, jb_updated_time := update_time,
            jb_job_status := rq_job_status request, jb_retry_count := retry_count\<rparr>;
          job_for_update = (if rq_job_status request = JOB_STATUS_PROCESSING then job\<lparr>jb_processing_started_time := update_time\<rparr> else job);
          s1 = release_job_id c s
      in case CreateUpsertJobRequest (jl_ssl L) (jl_time L) (job_table_name s1) job_for_update of
           HoldsResult r \<Rightarrow> Inr (finish_job c r None s1)
         | HoldsValue upsert_job_request \<Rightarrow>
             finish_if_refused c (call_provider (UpsertUpdatedJobStatus c upsert_job_request update_time retry_count)
               (\<lambda>r s2. OnUpsertUpdatedJobStatusJobItemCallback c update_time retry_count (Failed r) Accepts s2) answer s1))"

text \<open>The case of a job that is processed goes on into the next; a counter at its maximum overflows.\<close>

definition OnGetJobItemForUpdateJobStatusCallback ::
  "('t :: linorder) job_lib \<Rightarrow> nat \<Rightarrow> reply \<Rightarrow> 't \<Rightarrow> provider_answer \<Rightarrow> 't job_client \<Rightarrow> cpp_fault + 't job_client" where
  "OnGetJobItemForUpdateJobStatusCallback L c rep update_time answer s =
     (case rep of
        Failed r \<Rightarrow> Inr (finish_job c r None s)
      | _ \<Rightarrow> bindE (item_of rep) (\<lambda>item. bindE (ConvertDatabaseItemToJob (jl_ssl L) (jl_time L) item) (\<lambda>job_or.
          case job_or of
            HoldsResult r \<Rightarrow> Inr (finish_job c r None s)
          | HoldsValue job \<Rightarrow>
              let request = jc_requests s ! c;
                  job_status_in_request = rq_job_status request;
                  validation = ValidateJobStatus (jb_job_status job) job_status_in_request
              in if jb_updated_time job > rq_most_recent_updated_time request
                 then Inr (finish_job c (FailureExecutionResult SC_JOB_CLIENT_PROVIDER_UPDATION_CONFLICT) None s)
                 else if \<not> Successful validation then Inr (finish_job c validation None s)
                 else if job_status_in_request = JOB_STATUS_PROCESSING
                 then if jb_retry_count job \<ge> 2 ^ 31 - 1 then Inl UndefinedBehaviour
                      else UpsertUpdatedJobStatusJobItem L c (jb_retry_count job + 1) update_time answer s
                 else if job_status_in_request = JOB_STATUS_FAILURE \<or> job_status_in_request = JOB_STATUS_SUCCESS
                 then UpsertUpdatedJobStatusJobItem L c (jb_retry_count job) update_time answer s
                 else Inr (finish_job c (FailureExecutionResult SC_JOB_CLIENT_PROVIDER_INVALID_JOB_STATUS) None s))))"

definition UpdateJobStatus ::
  "('t :: linorder) job_lib \<Rightarrow> provider_answer \<Rightarrow> nat \<Rightarrow> 't job_client \<Rightarrow> cpp_fault + (ExecutionResult \<times> 't job_client)" where
  "UpdateJobStatus L answer c s =
     (let request = jc_requests s ! c; job_id = rq_job_id request; job_status = rq_job_status request
      in if job_id = [] then
           let r = FailureExecutionResult SC_JOB_CLIENT_PROVIDER_MISSING_JOB_ID in Inr (r, finish_job c r None s)
         else if rq_receipt_info request = [] \<and> (job_status = JOB_STATUS_SUCCESS \<or> job_status = JOB_STATUS_FAILURE) then
           let r = FailureExecutionResult SC_JOB_CLIENT_PROVIDER_INVALID_RECEIPT_INFO in Inr (r, finish_job c r None s)
         else call_provider (GetJobItemForUpdateJobStatus c (CreateGetJobByJobIdRequest (job_table_name s) job_id))
                (\<lambda>r s. Inr (finish_job c r None s)) answer s)"

section \<open>Visibility of messages\<close>

definition OnUpdateMessageVisibilityTimeoutCallback :: "nat \<Rightarrow> reply \<Rightarrow> 't job_client \<Rightarrow> cpp_fault + 't job_client" where
  "OnUpdateMessageVisibilityTimeoutCallback c rep s =
     (let s1 = release_job_id c s
      in case rep of
           Failed r \<Rightarrow> Inr (finish_job c r None s1)
         | _ \<Rightarrow> Inr (finish_job c SuccessExecutionResult (Some UpdateJobVisibilityTimeoutResponse) s1))"

definition UpdateJobVisibilityTimeout ::
  "provider_answer \<Rightarrow> nat \<Rightarrow> 't job_client \<Rightarrow> cpp_fault + (ExecutionResult \<times> 't job_client)" where
  "UpdateJobVisibilityTimeout answer c s =
     (let request = jc_requests s ! c; duration = rq_duration_to_update request
      in if rq_job_id request = [] then
           let r = FailureExecutionResult SC_JOB_CLIENT_PROVIDER_MISSING_JOB_ID in Inr (r, finish_job c r None s)
         else if duration < 0 \<or> duration > kMaximumVisibilityTimeoutInSeconds then
           let r = FailureExecutionResult SC_JOB_CLIENT_PROVIDER_INVALID_DURATION in Inr (r, finish_job c r None s)
         else if rq_receipt_info request = [] then
           let r = FailureExecutionResult SC_JOB_CLIENT_PROVIDER_INVALID_RECEIPT_INFO in Inr (r, finish_job c r None s)
         else call_provider (UpdateMessageVisibilityTimeout c duration (rq_receipt_info request))
                (\<lambda>r. OnUpdateMessageVisibilityTimeoutCallback c (Failed r)) answer (release_receipt_info c s))"

section \<open>Deleting orphaned messages\<close>

definition OnDeleteJobMessageForDeleteOrphanedJobMessageCallback :: "nat \<Rightarrow> reply \<Rightarrow> 't job_client \<Rightarrow> cpp_fault + 't job_client" where
  "OnDeleteJobMessageForDeleteOrphanedJobMessageCallback c rep s =
     (case rep of
        Failed r \<Rightarrow> Inr (finish_job c r None s)
      | _ \<Rightarrow> Inr (finish_job c SuccessExecutionResult (Some DeleteOrphanedJobMessageResponse) s))"

definition DeleteJobMessageForDeletingOrphanedJob :: "nat \<Rightarrow> provider_answer \<Rightarrow> 't job_client \<Rightarrow> cpp_fault + 't job_client" where
  "DeleteJobMessageForDeletingOrphanedJob c answer s =
     finish_if_refused c (call_provider (DeleteMessageForDeleteOrphanedJobMessage c (rq_receipt_info (jc_requests s ! c)))
       (\<lambda>r. OnDeleteJobMessageForDeleteOrphanedJobMessageCallback c (Failed r)) answer (release_receipt_info c s))"

definition OnGetJobItemForDeleteOrphanedJobMessageCallback ::
  "'t job_lib \<Rightarrow> nat \<Rightarrow> reply \<Rightarrow> provider_answer \<Rightarrow> 't job_client \<Rightarrow> cpp_fault + 't job_client" where
  "OnGetJobItemForDeleteOrphanedJobMessageCallback L c rep answer s =
     (case rep of
        Failed r \<Rightarrow>
          if status_code r = SC_NO_SQL_DATABASE_PROVIDER_RECORD_NOT_FOUND then DeleteJobMessageForDeletingOrphanedJob c answer s
          else Inr (finish_job c r None s)
      | _ \<Rightarrow> bindE (item_of rep) (\<lambda>item. bindE (ConvertDatabaseItemToJob (jl_ssl L) (jl_time L) item) (\<lambda>job_or.
          case job_or of
            HoldsResult r \<Rightarrow> Inr (finish_job c r None s)
          | HoldsValue job \<Rightarrow>
              if jb_job_status job = JOB_STATUS_SUCCESS \<or> jb_job_status job = JOB_STATUS_FAILURE
              then DeleteJobMessageForDeletingOrphanedJob c answer s
              else Inr (finish_job c (FailureExecutionResult SC_JOB_CLIENT_PROVIDER_INVALID_JOB_STATUS) None s))))"

definition DeleteOrphanedJobMessage ::
  "'t job_lib \<Rightarrow> provider_answer \<Rightarrow> provider_answer \<Rightarrow> nat \<Rightarrow> 't job_client \<Rightarrow> cpp_fault + (ExecutionResult \<times> 't job_client)" where
  "DeleteOrphanedJobMessage L answer answer_delete c s =
     (let request = jc_requests s ! c
      in if rq_job_id request = [] then
           let r = FailureExecutionResult SC_JOB_CLIENT_PROVIDER_MISSING_JOB_ID in Inr (r, finish_job c r None s)
         else if rq_receipt_info request = [] then
           let r = FailureExecutionResult SC_JOB_CLIENT_PROVIDER_INVALID_RECEIPT_INFO in Inr (r, finish_job c r None s)
         else call_provider (GetJobItemForDeleteOrphanedJobMessage c (CreateGetJobByJobIdRequest (job_table_name s) (rq_job_id request)))
                (\<lambda>r. OnGetJobItemForDeleteOrphanedJobMessageCallback L c (Failed r) answer_delete) answer s)"

section \<open>Interleaving\<close>

datatype job_call = CallPutJob string | CallGetNextJob | CallGetJobById | CallUpdateJobBody | CallUpdateJobStatus
  | CallUpdateJobVisibilityTimeout | CallDeleteOrphanedJobMessage

text \<open>
  A caller makes a call with a new context, or the call at a position of the pending ones is answered. The
  provider that is called then answers \<open>answer\<close>; the time is that of the clock.
\<close>

datatype 't job_event =
    Calls job_call "'t job_request" provider_answer provider_answer
  | Replies nat reply 't provider_answer

fun run_call ::
  "('t :: linorder) job_lib \<Rightarrow> job_call \<Rightarrow> provider_answer \<Rightarrow> provider_answer \<Rightarrow> nat \<Rightarrow> 't job_client \<Rightarrow>
   cpp_fault + (ExecutionResult \<times> 't job_client)" where
  "run_call L (CallPutJob server_job_id) a1 a2 c s = PutJob L server_job_id a1 c s"
| "run_call L CallGetNextJob a1 a2 c s = GetNextJob L a1 c s"
| "run_call L CallGetJobById a1 a2 c s = GetJobById L a1 c s"
| "run_call L CallUpdateJobBody a1 a2 c s = UpdateJobBody L a1 c s"
| "run_call L CallUpdateJobStatus a1 a2 c s = UpdateJobStatus L a1 c s"
| "run_call L CallUpdateJobVisibilityTimeout a1 a2 c s = UpdateJobVisibilityTimeout a1 c s"
| "run_call L CallDeleteOrphanedJobMessage a1 a2 c s = DeleteOrphanedJobMessage L a1 a2 c s"

fun run_callback ::
  "('t :: linorder) job_lib \<Rightarrow> 't pending_call \<Rightarrow> reply \<Rightarrow> 't \<Rightarrow> provider_answer \<Rightarrow> 't job_client \<Rightarrow> cpp_fault + 't job_client" where
  "run_callback L (EnqueueMessage c _ job_id server_job_id) rep now answer s = OnEnqueueMessageCallback L c job_id server_job_id rep now answer s"
| "run_callback L (CreateDatabaseItem c _ job) rep now answer s = OnCreateNewJobItemCallback L c job rep s"
| "run_callback L (GetTopMessage c) rep now answer s = OnGetTopMessageCallback L c rep answer s"
| "run_callback L (GetNextJobItem c _ _ _ receipt_info) rep now answer s = OnGetNextJobItemCallback L c receipt_info rep s"
| "run_callback L (GetJobItemByJobId c _) rep now answer s = OnGetJobItemByJobIdCallback L c rep s"
| "run_callback L (GetJobItemForUpdateJobBody c _) rep now answer s = OnGetJobItemForUpdateJobBodyCallback L c rep now answer s"
| "run_callback L (UpsertUpdatedJobBody c _ t) rep now answer s = OnUpsertUpdatedJobBodyJobItemCallback c t rep s"
| "run_callback L (GetJobItemForUpdateJobStatus c _) rep now answer s = OnGetJobItemForUpdateJobStatusCallback L c rep now answer s"
| "run_callback L (UpsertUpdatedJobStatus c _ t n) rep now answer s = OnUpsertUpdatedJobStatusJobItemCallback c t n rep answer s"
| "run_callback L (DeleteMessageForUpdatingJobStatus c _ t n) rep now answer s = OnDeleteJobMessageForUpdatingJobStatusCallback c t n rep s"
| "run_callback L (UpdateMessageVisibilityTimeout c _ _) rep now answer s = OnUpdateMessageVisibilityTimeoutCallback c rep s"
| "run_callback L (GetJobItemForDeleteOrphanedJobMessage c _) rep now answer s = OnGetJobItemForDeleteOrphanedJobMessageCallback L c rep answer s"
| "run_callback L (DeleteMessageForDeleteOrphanedJobMessage c _) rep now answer s =
     OnDeleteJobMessageForDeleteOrphanedJobMessageCallback c rep s"

definition take_pending :: "nat \<Rightarrow> 't job_client \<Rightarrow> 't job_client" where
  "take_pending i s = s\<lparr>jc_pending := take i (jc_pending s) @ drop (Suc i) (jc_pending s)\<rparr>"

fun job_step :: "('t :: linorder) job_lib \<Rightarrow> 't job_client \<Rightarrow> 't job_event \<Rightarrow> cpp_fault + 't job_client" where
  "job_step L s (Calls call request a1 a2) =
     bindE (run_call L call a1 a2 (length (jc_requests s)) (s\<lparr>jc_requests := jc_requests s @ [request]\<rparr>)) (\<lambda>(r, s1).
       Inr (s1\<lparr>jc_returned := jc_returned s1 @ [r]\<rparr>))"
| "job_step L s (Replies i rep now answer) =
     (if i < length (jc_pending s) then run_callback L (jc_pending s ! i) rep now answer (take_pending i s) else Inr s)"

fun job_run :: "('t :: linorder) job_lib \<Rightarrow> 't job_client \<Rightarrow> 't job_event list \<Rightarrow> cpp_fault + 't job_client" where
  "job_run L s [] = Inr s"
| "job_run L s (e # es) = bindE (job_step L s e) (\<lambda>s1. job_run L s1 es)"

definition new_job_client :: "string \<Rightarrow> 't job_client" where
  "new_job_client name = \<lparr>job_table_name = name, jc_requests = [], jc_returned = [], jc_pending = [], jc_finished = []\<rparr>"

end
