(* ===== verification/Job_Table.thy ===== *)
theory Job_Table
  imports Job_Client
begin

text \<open>
  The job client over a database that behaves as the messages of its service are documented
  (cc/public/cpio/proto/nosql_database_service): operations that are not interrupted by others do what a plain
  table of jobs does, results and error codes included.
\<close>

section \<open>Rows of attributes\<close>

type_synonym row = "string \<rightharpoonup> attribute_value option"

definition item_row :: "ItemAttribute list \<Rightarrow> row" where
  "item_row attributes = map_of (map (\<lambda>a. (at_name a, at_value a)) attributes)"

definition job_row :: "evp \<Rightarrow> 't time_util \<Rightarrow> 't Job \<Rightarrow> row" where
  "job_row ssl TU job =
     [kServerJobIdColumnName \<mapsto> Some (ValueString (jb_server_job_id job)),
      kJobBodyColumnName \<mapsto> Some (ValueString (EVP_EncodeBlock ssl (jb_job_body job))),
      kJobStatusColumnName \<mapsto> Some (ValueInt (jb_job_status job)),
      kCreatedTimeColumnName \<mapsto> Some (ValueString (tu_ToString TU (jb_created_time job))),
      kUpdatedTimeColumnName \<mapsto> Some (ValueString (tu_ToString TU (jb_updated_time job))),
      kRetryCountColumnName \<mapsto> Some (ValueInt (jb_retry_count job)),
      kProcessingStartedTimeColumnName \<mapsto> Some (ValueString (tu_ToString TU (jb_processing_started_time job)))]"

lemma dom_job_row: "dom (job_row ssl TU job) = set kJobsTableRequiredColumns"
  by (auto simp: job_row_def kJobsTableRequiredColumns_def)

lemma dom_item_row: "dom (item_row attributes) = at_name ` set attributes"
  by (force simp: item_row_def dom_map_of_conv_image_fst)

lemma distinct_columns: "distinct kJobsTableRequiredColumns"
  by (simp add: kJobsTableRequiredColumns_def column_defs)

text \<open>Looking a column up in an item is looking it up in its row.\<close>

lemma attributes_row: "map_option at_value (GetItemAttributes item c) = item_row (it_attributes item) c"
proof -
  have "map_option at_value (map_of (map (\<lambda>a. (at_name a, a)) as) c) = map_of (map (\<lambda>a. (at_name a, at_value a)) as) c" for as
    by (induction as) auto
  then show ?thesis by (simp add: GetItemAttributes_def item_row_def)
qed

lemma column_found:
  assumes "item_row (it_attributes item) c = Some v"
  shows "\<exists>a. map_at (GetItemAttributes item) c = Inr a \<and> at_value a = v"
  using assms attributes_row [of item c] by (auto simp: map_at_def)

text \<open>Time stamps are read back as they were printed.\<close>

locale job_codec = base64_coder ssl for ssl :: evp +
  fixes TU :: "'t time_util"
  assumes from_to: "tu_FromString TU (tu_ToString TU t) = t"
begin

lemma job_row_valid:
  assumes "it_key item = Some key" "ik_partition_key key = Some a" "distinct (map at_name (it_attributes item))"
    "item_row (it_attributes item) = job_row ssl TU job"
  shows "ValidateJobItem item = SuccessExecutionResult"
proof -
  have names: "at_name ` set (it_attributes item) = set kJobsTableRequiredColumns"
    using dom_item_row [of "it_attributes item"] dom_job_row [of ssl TU job] assms(4) by simp
  then have "length (it_attributes item) = length kJobsTableRequiredColumns"
    using distinct_card [OF assms(3)] distinct_card [OF distinct_columns] by simp
  moreover have "list_all (\<lambda>column. list_ex (\<lambda>attribute. at_name attribute = column) (it_attributes item)) kJobsTableRequiredColumns"
    using names by (auto simp: list_all_iff list_ex_iff) (metis imageE)
  ultimately show ?thesis using assms(1,2) by (auto simp: ValidateJobItem_def list_ex_iff list_all_iff)
qed

lemma convert_row:
  assumes "it_key item = Some key" "ik_partition_key key = Some a" "value_string a = jb_job_id job" "distinct (map at_name (it_attributes item))"
    "item_row (it_attributes item) = job_row ssl TU job"
  shows "ConvertDatabaseItemToJob ssl TU item = Inr (HoldsValue job)"
proof -
  have row: "\<exists>x. map_at (GetItemAttributes item) c = Inr x \<and> at_value x = v" if "job_row ssl TU job c = Some v" for c v
    using column_found assms(5) that by simp
  obtain x1 x2 x3 x4 x5 x6 x7 where x:
    "map_at (GetItemAttributes item) kServerJobIdColumnName = Inr x1" "at_value x1 = Some (ValueString (jb_server_job_id job))"
    "map_at (GetItemAttributes item) kJobBodyColumnName = Inr x2" "at_value x2 = Some (ValueString (EVP_EncodeBlock ssl (jb_job_body job)))"
    "map_at (GetItemAttributes item) kJobStatusColumnName = Inr x3" "at_value x3 = Some (ValueInt (jb_job_status job))"
    "map_at (GetItemAttributes item) kCreatedTimeColumnName = Inr x4" "at_value x4 = Some (ValueString (tu_ToString TU (jb_created_time job)))"
    "map_at (GetItemAttributes item) kUpdatedTimeColumnName = Inr x5" "at_value x5 = Some (ValueString (tu_ToString TU (jb_updated_time job)))"
    "map_at (GetItemAttributes item) kRetryCountColumnName = Inr x6" "at_value x6 = Some (ValueInt (jb_retry_count job))"
    "map_at (GetItemAttributes item) kProcessingStartedTimeColumnName = Inr x7"
    "at_value x7 = Some (ValueString (tu_ToString TU (jb_processing_started_time job)))"
    using row [of kServerJobIdColumnName] row [of kJobBodyColumnName] row [of kJobStatusColumnName] row [of kCreatedTimeColumnName]
      row [of kUpdatedTimeColumnName] row [of kRetryCountColumnName] row [of kProcessingStartedTimeColumnName]
    by (auto simp: job_row_def column_defs)
  show ?thesis
    using x job_row_valid [OF assms(1,2,4,5)] decode_ok [of "jb_job_body job" "[]"] assms(1-3)
    by (simp add: ConvertDatabaseItemToJob_def Let_def value_string_def [of x1] value_string_def [of x2] value_string_def [of x4]
        value_string_def [of x5] value_string_def [of x7] value_int_def from_to CreateJob_def)
qed

text \<open>The request that creates the item of a job writes its row.\<close>

lemma put_row:
  assumes "jb_job_body job \<noteq> []"
  shows "\<exists>request. CreatePutJobRequest ssl TU name job = HoldsValue request \<and> cd_key request = job_key name (jb_job_id job) \<and>
    item_row (cd_attributes request) = job_row ssl TU job"
  using assms encode_ok [of "jb_job_body job" "[]"]
  by (auto simp: CreatePutJobRequest_def item_row_def job_row_def MakeStringAttribute_def MakeIntAttribute_def column_defs fun_eq_iff)

lemma put_empty: "jb_job_body job = [] \<Longrightarrow> CreatePutJobRequest ssl TU name job = HoldsResult (FailureExecutionResult SC_CORE_UTILS_INVALID_INPUT)"
  using encode_ok [of "[]" "[]"] by (simp add: CreatePutJobRequest_def)

text \<open>The updates of the body and of the status, on the row of a job.\<close>

lemma body_row:
  assumes "now \<noteq> kDefaultTimestampValue TU"
  shows "\<exists>request. CreateUpsertJobRequest ssl TU name ((default_Job TU)\<lparr>jb_job_id := job_id, jb_job_body := body, jb_updated_time := now\<rparr>) = HoldsValue request \<and>
    ud_key request = job_key name job_id \<and> ud_required_attributes request = [] \<and>
    job_row ssl TU job ++ item_row (ud_new_attributes request) =
      job_row ssl TU (job\<lparr>jb_job_body := (if body = [] then jb_job_body job else body), jb_updated_time := now, jb_retry_count := 0\<rparr>)"
  using assms encode_ok [of body "[]"]
  by (auto simp: CreateUpsertJobRequest_def Let_def default_Job_def CreateJob_def item_row_def job_row_def MakeStringAttribute_def
      MakeIntAttribute_def column_defs fun_eq_iff map_add_def)

lemma status_row:
  assumes "now \<noteq> kDefaultTimestampValue TU" "new_status \<noteq> JOB_STATUS_UNKNOWN" "started = kDefaultTimestampValue TU \<or> started = now"
  shows "\<exists>request. CreateUpsertJobRequest ssl TU name ((default_Job TU)\<lparr>jb_job_id := job_id, jb_updated_time := now,
      jb_job_status := new_status, jb_retry_count := n, jb_processing_started_time := started\<rparr>) = HoldsValue request \<and>
    ud_key request = job_key name job_id \<and> ud_required_attributes request = [] \<and>
    job_row ssl TU job ++ item_row (ud_new_attributes request) =
      job_row ssl TU (job\<lparr>jb_updated_time := now, jb_job_status := new_status, jb_retry_count := n,
        jb_processing_started_time := (if started = now then now else jb_processing_started_time job)\<rparr>)"
  using assms
  by (auto simp: CreateUpsertJobRequest_def Let_def default_Job_def CreateJob_def item_row_def job_row_def MakeStringAttribute_def
      MakeIntAttribute_def column_defs fun_eq_iff map_add_def)

end

section \<open>The database\<close>

text \<open>
  The three operations the client uses on a database in some state, the row under a key, and the code
  with which the creation of an item that exists is refused.
\<close>

record 'd nosql =
  db_get :: "'d \<Rightarrow> GetDatabaseItemRequest \<Rightarrow> Item ExecutionResultOr"
  db_create :: "'d \<Rightarrow> CreateDatabaseItemRequest \<Rightarrow> ExecutionResult \<times> 'd"
  db_upsert :: "'d \<Rightarrow> UpsertDatabaseItemRequest \<Rightarrow> ExecutionResult \<times> 'd"
  db_row :: "'d \<Rightarrow> ItemKey \<Rightarrow> row option"
  db_exists_code :: StatusCode

definition has_attributes :: "row \<Rightarrow> ItemAttribute list \<Rightarrow> bool" where
  "has_attributes r required \<longleftrightarrow> list_all (\<lambda>a. r (at_name a) = Some (at_value a)) required"

text \<open>
  Creation fails if the key exists; an update adds its attributes to those that are there, the new ones
  preferred; an item that does not exist or lacks a required attribute is not found.
\<close>

locale nosql_database =
  fixes DB :: "'d nosql"
  assumes get_found: "db_row DB d (gd_key request) = Some r \<Longrightarrow> has_attributes r (gd_required_attributes request) \<Longrightarrow>
      \<exists>item. db_get DB d request = HoldsValue item \<and> it_key item = Some (gd_key request) \<and>
        distinct (map at_name (it_attributes item)) \<and> item_row (it_attributes item) = r"
    and get_missing: "(\<And>r. db_row DB d (gd_key request) = Some r \<Longrightarrow> \<not> has_attributes r (gd_required_attributes request)) \<Longrightarrow>
      db_get DB d request = HoldsResult (FailureExecutionResult SC_NO_SQL_DATABASE_PROVIDER_RECORD_NOT_FOUND)"
    and create_new: "db_row DB d (cd_key new) = None \<Longrightarrow>
      \<exists>d'. db_create DB d new = (SuccessExecutionResult, d') \<and> db_row DB d' = (db_row DB d)(cd_key new \<mapsto> item_row (cd_attributes new))"
    and create_old: "db_row DB d (cd_key new) = Some r \<Longrightarrow> db_create DB d new = (FailureExecutionResult (db_exists_code DB), d)"
    and upsert: "ud_required_attributes change = [] \<Longrightarrow>
      \<exists>d'. db_upsert DB d change = (SuccessExecutionResult, d') \<and>
        db_row DB d' = (db_row DB d)(ud_key change \<mapsto> (case db_row DB d (ud_key change) of None \<Rightarrow> Map.empty | Some r \<Rightarrow> r) ++ item_row (ud_new_attributes change))"

text \<open>A list of keys with their attributes.\<close>

definition put_attribute :: "ItemAttribute list \<Rightarrow> ItemAttribute \<Rightarrow> ItemAttribute list" where
  "put_attribute as a = filter (\<lambda>x. at_name x \<noteq> at_name a) as @ [a]"

definition dedup :: "ItemAttribute list \<Rightarrow> ItemAttribute list" where
  "dedup as = foldl put_attribute [] (rev as)"

definition al_nosql :: "(ItemKey \<times> ItemAttribute list) list nosql" where
  "al_nosql =
     \<lparr>db_get = (\<lambda>d request. case map_of d (gd_key request) of
        None \<Rightarrow> HoldsResult (FailureExecutionResult SC_NO_SQL_DATABASE_PROVIDER_RECORD_NOT_FOUND)
      | Some as \<Rightarrow> if has_attributes (item_row as) (gd_required_attributes request)
                   then HoldsValue \<lparr>it_key = Some (gd_key request), it_attributes = dedup as\<rparr>
                   else HoldsResult (FailureExecutionResult SC_NO_SQL_DATABASE_PROVIDER_RECORD_NOT_FOUND)),
      db_create = (\<lambda>d new. case map_of d (cd_key new) of
        None \<Rightarrow> (SuccessExecutionResult, (cd_key new, cd_attributes new) # d)
      | Some _ \<Rightarrow> (FailureExecutionResult SC_NO_SQL_DATABASE_PROVIDER_CONDITIONAL_CHECKED_FAILED, d)),
      db_upsert = (\<lambda>d change. (SuccessExecutionResult,
        (ud_key change, ud_new_attributes change @ (case map_of d (ud_key change) of None \<Rightarrow> [] | Some as \<Rightarrow> as)) # d)),
      db_row = (\<lambda>d key. map_option item_row (map_of d key)),
      db_exists_code = SC_NO_SQL_DATABASE_PROVIDER_CONDITIONAL_CHECKED_FAILED\<rparr>"

lemma item_row_simps [simp]:
  "item_row [] = Map.empty" "item_row (a # as) = (item_row as)(at_name a \<mapsto> at_value a)" "item_row (xs @ ys) = item_row ys ++ item_row xs"
  by (simp_all add: item_row_def)

lemma put_attribute_row: "item_row (put_attribute as a) = (item_row as)(at_name a \<mapsto> at_value a)"
proof
  fix c
  have "item_row (filter (\<lambda>x. at_name x \<noteq> at_name a) as) c = (if c = at_name a then None else item_row as c)"
    by (induction as) auto
  then show "item_row (put_attribute as a) c = ((item_row as)(at_name a \<mapsto> at_value a)) c"
    by (auto simp: put_attribute_def map_add_def split: option.split)
qed

lemma dedup_row: "item_row (dedup as) = item_row as" "distinct (map at_name (dedup as))"
proof -
  have "item_row (foldl put_attribute bs (rev as)) = item_row bs ++ item_row as" for bs
    by (induction as arbitrary: bs) (auto simp: put_attribute_row map_add_upd)
  then show "item_row (dedup as) = item_row as" by (simp add: dedup_def)
  have "distinct (map at_name bs) \<Longrightarrow> distinct (map at_name (put_attribute bs a))" for bs a
    by (auto simp: put_attribute_def distinct_map_filter)
  then have "distinct (map at_name bs) \<Longrightarrow> distinct (map at_name (foldl put_attribute bs xs))" for bs xs
    by (induction xs arbitrary: bs) simp_all
  then show "distinct (map at_name (dedup as))" by (simp add: dedup_def)
qed

interpretation al_db: nosql_database al_nosql
proof
  fix d :: "(ItemKey \<times> ItemAttribute list) list" and request :: GetDatabaseItemRequest and new :: CreateDatabaseItemRequest
    and change :: UpsertDatabaseItemRequest and r :: row
  show "\<exists>item. db_get al_nosql d request = HoldsValue item \<and> it_key item = Some (gd_key request) \<and>
      distinct (map at_name (it_attributes item)) \<and> item_row (it_attributes item) = r"
    if "db_row al_nosql d (gd_key request) = Some r" "has_attributes r (gd_required_attributes request)"
    using that by (cases "map_of d (gd_key request)") (auto simp: al_nosql_def dedup_row simp del: map_of_None_iff)
  show "db_get al_nosql d request = HoldsResult (FailureExecutionResult SC_NO_SQL_DATABASE_PROVIDER_RECORD_NOT_FOUND)"
    if "\<And>r. db_row al_nosql d (gd_key request) = Some r \<Longrightarrow> \<not> has_attributes r (gd_required_attributes request)"
    using that by (cases "map_of d (gd_key request)") (auto simp: al_nosql_def simp del: map_of_None_iff)
  show "\<exists>d'. db_create al_nosql d new = (SuccessExecutionResult, d') \<and>
      db_row al_nosql d' = (db_row al_nosql d)(cd_key new \<mapsto> item_row (cd_attributes new))" if "db_row al_nosql d (cd_key new) = None"
    using that by (cases "map_of d (cd_key new)") (auto simp: al_nosql_def simp del: map_of_None_iff)
  show "db_create al_nosql d new = (FailureExecutionResult (db_exists_code al_nosql), d)" if "db_row al_nosql d (cd_key new) = Some r"
    using that by (cases "map_of d (cd_key new)") (auto simp: al_nosql_def simp del: map_of_None_iff)
  show "\<exists>d'. db_upsert al_nosql d change = (SuccessExecutionResult, d') \<and> db_row al_nosql d' =
      (db_row al_nosql d)(ud_key change \<mapsto> (case db_row al_nosql d (ud_key change) of None \<Rightarrow> Map.empty | Some r \<Rightarrow> r) ++ item_row (ud_new_attributes change))"
    by (cases "map_of d (ud_key change)") (auto simp: al_nosql_def simp del: map_of_None_iff)
qed

section \<open>Client and database together\<close>

record ('d, 't) job_world =
  jw_client :: "'t job_client"
  jw_db :: 'd

text \<open>The database performs a call that is for it; a call to the queue is answered by \<open>queue_reply\<close>.\<close>

definition get_reply :: "Item ExecutionResultOr \<Rightarrow> reply" where
  "get_reply m = (case m of HoldsResult r \<Rightarrow> Failed r | HoldsValue item \<Rightarrow> GotItem item)"

definition write_reply :: "ExecutionResult \<times> 'd \<Rightarrow> reply \<times> 'd" where
  "write_reply m = (case m of (r, d) \<Rightarrow> (if Successful r then Done else Failed r, d))"

fun serve :: "'d nosql \<Rightarrow> reply \<Rightarrow> 't pending_call \<Rightarrow> 'd \<Rightarrow> reply \<times> 'd" where
  "serve DB q (CreateDatabaseItem _ request _) d = write_reply (db_create DB d request)"
| "serve DB q (UpsertUpdatedJobBody _ request _) d = write_reply (db_upsert DB d request)"
| "serve DB q (UpsertUpdatedJobStatus _ request _ _) d = write_reply (db_upsert DB d request)"
| "serve DB q (GetNextJobItem _ request _ _ _) d = (get_reply (db_get DB d request), d)"
| "serve DB q (GetJobItemByJobId _ request) d = (get_reply (db_get DB d request), d)"
| "serve DB q (GetJobItemForUpdateJobBody _ request) d = (get_reply (db_get DB d request), d)"
| "serve DB q (GetJobItemForUpdateJobStatus _ request) d = (get_reply (db_get DB d request), d)"
| "serve DB q (GetJobItemForDeleteOrphanedJobMessage _ request) d = (get_reply (db_get DB d request), d)"
| "serve DB q _ d = (q, d)"

datatype 't world_event = WorldCalls job_call "'t job_request" | WorldServes nat 't reply

fun world_step :: "('t :: linorder) job_lib \<Rightarrow> 'd nosql \<Rightarrow> ('d, 't) job_world \<Rightarrow> 't world_event \<Rightarrow> cpp_fault + ('d, 't) job_world" where
  "world_step L DB w (WorldCalls call request) =
     bindE (job_step L (jw_client w) (Calls call request Accepts Accepts)) (\<lambda>s. Inr (w\<lparr>jw_client := s\<rparr>))"
| "world_step L DB w (WorldServes i now q) =
     (if i < length (jc_pending (jw_client w))
      then let (rep, d) = serve DB q (jc_pending (jw_client w) ! i) (jw_db w)
           in bindE (job_step L (jw_client w) (Replies i rep now Accepts)) (\<lambda>s. Inr \<lparr>jw_client = s, jw_db = d\<rparr>)
      else Inr w)"

fun world_run :: "('t :: linorder) job_lib \<Rightarrow> 'd nosql \<Rightarrow> ('d, 't) job_world \<Rightarrow> 't world_event list \<Rightarrow> cpp_fault + ('d, 't) job_world" where
  "world_run L DB w [] = Inr w"
| "world_run L DB w (e # es) = bindE (world_step L DB w e) (\<lambda>w1. world_run L DB w1 es)"

text \<open>An operation with nothing in between: at most three calls are served.\<close>

definition whole_op :: "job_call \<Rightarrow> 't job_request \<Rightarrow> 't \<Rightarrow> reply \<Rightarrow> 't world_event list" where
  "whole_op call request now q = [WorldCalls call request, WorldServes 0 now q, WorldServes 0 now q, WorldServes 0 now q]"

section \<open>A plain table of jobs\<close>

type_synonym 't jobs = "string \<rightharpoonup> 't Job"
type_synonym 't outcome = "ExecutionResult \<times> 't job_response option"

definition failing :: "StatusCode \<Rightarrow> 't jobs \<Rightarrow> 't outcome \<times> 't jobs" where
  "failing code jobs = ((FailureExecutionResult code, None), jobs)"

text \<open>What the queue answers to the last call of an operation.\<close>

definition queue_outcome :: "reply \<Rightarrow> 't job_response \<Rightarrow> 't jobs \<Rightarrow> 't outcome \<times> 't jobs" where
  "queue_outcome q response jobs =
     ((case q of Failed r \<Rightarrow> (r, None) | _ \<Rightarrow> (SuccessExecutionResult, Some response)), jobs)"

definition spec_put ::
  "'t time_util \<Rightarrow> ExecutionResult \<Rightarrow> string \<Rightarrow> 't job_request \<Rightarrow> 't \<Rightarrow> reply \<Rightarrow> 't jobs \<Rightarrow> 't outcome \<times> 't jobs" where
  "spec_put TU duplicate server_job_id request now q jobs =
     (let job_id = rq_job_id request;
          job = CreateJob job_id server_job_id (rq_job_body request) JOB_STATUS_CREATED now now (kDefaultTimestampValue TU) 0
      in if job_id = [] then failing SC_JOB_CLIENT_PROVIDER_MISSING_JOB_ID jobs
         else case q of
                Failed r \<Rightarrow> ((r, None), jobs)
              | _ \<Rightarrow> if rq_job_body request = [] then failing SC_CORE_UTILS_INVALID_INPUT jobs
                     else if jobs job_id \<noteq> None then ((duplicate, None), jobs)
                     else ((SuccessExecutionResult, Some (PutJobResponse job)), jobs(job_id \<mapsto> job)))"

definition spec_get :: "'t job_request \<Rightarrow> 't jobs \<Rightarrow> 't outcome \<times> 't jobs" where
  "spec_get request jobs =
     (if rq_job_id request = [] then failing SC_JOB_CLIENT_PROVIDER_MISSING_JOB_ID jobs
      else case jobs (rq_job_id request) of
             None \<Rightarrow> failing SC_NO_SQL_DATABASE_PROVIDER_RECORD_NOT_FOUND jobs
           | Some job \<Rightarrow> ((SuccessExecutionResult, Some (GetJobByIdResponse job)), jobs))"

definition spec_next :: "json_lib \<Rightarrow> reply \<Rightarrow> 't jobs \<Rightarrow> 't outcome \<times> 't jobs" where
  "spec_next js q jobs =
     (case q of
        TopMessage body receipt \<Rightarrow>
          if body = [] then ((SuccessExecutionResult, Some (GetNextJobResponse None)), jobs)
          else (case JobMessageBody js body of
                  Inr (job_id, server_job_id) \<Rightarrow>
                    (case jobs job_id of
                       None \<Rightarrow> failing SC_NO_SQL_DATABASE_PROVIDER_RECORD_NOT_FOUND jobs
                     | Some job \<Rightarrow>
                         if jb_server_job_id job = server_job_id
                         then ((SuccessExecutionResult, Some (GetNextJobResponse (Some (job, the receipt)))), jobs)
                         else failing SC_NO_SQL_DATABASE_PROVIDER_RECORD_NOT_FOUND jobs)
                | Inl _ \<Rightarrow> failing SC_UNKNOWN jobs)
      | Failed r \<Rightarrow> ((r, None), jobs)
      | _ \<Rightarrow> failing SC_UNKNOWN jobs)"

text \<open>The body is replaced unless the new one is empty, and the retry count starts again at zero.\<close>

definition spec_body :: "('t :: linorder) job_request \<Rightarrow> 't \<Rightarrow> 't jobs \<Rightarrow> 't outcome \<times> 't jobs" where
  "spec_body request now jobs =
     (if rq_job_id request = [] then failing SC_JOB_CLIENT_PROVIDER_MISSING_JOB_ID jobs
      else case jobs (rq_job_id request) of
             None \<Rightarrow> failing SC_NO_SQL_DATABASE_PROVIDER_RECORD_NOT_FOUND jobs
           | Some job \<Rightarrow>
               if jb_updated_time job > rq_most_recent_updated_time request then failing SC_JOB_CLIENT_PROVIDER_UPDATION_CONFLICT jobs
               else ((SuccessExecutionResult, Some (UpdateJobBodyResponse now)),
                 jobs(rq_job_id request \<mapsto> job\<lparr>jb_job_body := (if rq_job_body request = [] then jb_job_body job else rq_job_body request),
                   jb_updated_time := now, jb_retry_count := 0\<rparr>)))"

definition finished_status :: "JobStatus \<Rightarrow> bool" where
  "finished_status st \<longleftrightarrow> st = JOB_STATUS_SUCCESS \<or> st = JOB_STATUS_FAILURE"

text \<open>A job goes from created or processing to processing, success or failure.\<close>

definition spec_status :: "('t :: linorder) job_request \<Rightarrow> 't \<Rightarrow> reply \<Rightarrow> 't jobs \<Rightarrow> 't outcome \<times> 't jobs" where
  "spec_status request now q jobs =
     (let job_id = rq_job_id request; new_status = rq_job_status request
      in if job_id = [] then failing SC_JOB_CLIENT_PROVIDER_MISSING_JOB_ID jobs
         else if rq_receipt_info request = [] \<and> finished_status new_status then failing SC_JOB_CLIENT_PROVIDER_INVALID_RECEIPT_INFO jobs
         else case jobs job_id of
                None \<Rightarrow> failing SC_NO_SQL_DATABASE_PROVIDER_RECORD_NOT_FOUND jobs
              | Some job \<Rightarrow>
                  if jb_updated_time job > rq_most_recent_updated_time request then failing SC_JOB_CLIENT_PROVIDER_UPDATION_CONFLICT jobs
                  else if jb_job_status job \<notin> {JOB_STATUS_CREATED, JOB_STATUS_PROCESSING} \<or>
                    \<not> (new_status = JOB_STATUS_PROCESSING \<or> finished_status new_status) then failing SC_JOB_CLIENT_PROVIDER_INVALID_JOB_STATUS jobs
                  else if new_status = JOB_STATUS_PROCESSING
                  then ((SuccessExecutionResult, Some (UpdateJobStatusResponse new_status now (jb_retry_count job + 1))),
                    jobs(job_id \<mapsto> job\<lparr>jb_updated_time := now, jb_job_status := new_status, jb_retry_count := jb_retry_count job + 1,
                      jb_processing_started_time := now\<rparr>))
                  else queue_outcome q (UpdateJobStatusResponse new_status now (jb_retry_count job))
                    (jobs(job_id \<mapsto> job\<lparr>jb_updated_time := now, jb_job_status := new_status\<rparr>)))"

definition spec_visibility :: "'t job_request \<Rightarrow> reply \<Rightarrow> 't jobs \<Rightarrow> 't outcome \<times> 't jobs" where
  "spec_visibility request q jobs =
     (if rq_job_id request = [] then failing SC_JOB_CLIENT_PROVIDER_MISSING_JOB_ID jobs
      else if rq_duration_to_update request < 0 \<or> rq_duration_to_update request > 600 then failing SC_JOB_CLIENT_PROVIDER_INVALID_DURATION jobs
      else if rq_receipt_info request = [] then failing SC_JOB_CLIENT_PROVIDER_INVALID_RECEIPT_INFO jobs
      else queue_outcome q UpdateJobVisibilityTimeoutResponse jobs)"

definition spec_orphan :: "'t job_request \<Rightarrow> reply \<Rightarrow> 't jobs \<Rightarrow> 't outcome \<times> 't jobs" where
  "spec_orphan request q jobs =
     (if rq_job_id request = [] then failing SC_JOB_CLIENT_PROVIDER_MISSING_JOB_ID jobs
      else if rq_receipt_info request = [] then failing SC_JOB_CLIENT_PROVIDER_INVALID_RECEIPT_INFO jobs
      else case jobs (rq_job_id request) of
             None \<Rightarrow> queue_outcome q DeleteOrphanedJobMessageResponse jobs
           | Some job \<Rightarrow> if finished_status (jb_job_status job) then queue_outcome q DeleteOrphanedJobMessageResponse jobs
                         else failing SC_JOB_CLIENT_PROVIDER_INVALID_JOB_STATUS jobs)"

fun spec_op ::
  "('t :: linorder) job_lib \<Rightarrow> 'd nosql \<Rightarrow> job_call \<Rightarrow> 't job_request \<Rightarrow> 't \<Rightarrow> reply \<Rightarrow> 't jobs \<Rightarrow> 't outcome \<times> 't jobs" where
  "spec_op L DB (CallPutJob server_job_id) request now q jobs =
     spec_put (jl_time L) (jl_ConvertDatabaseErrorForPutJob L (db_exists_code DB)) server_job_id request now q jobs"
| "spec_op L DB CallGetNextJob request now q jobs = spec_next (jl_json L) q jobs"
| "spec_op L DB CallGetJobById request now q jobs = spec_get request jobs"
| "spec_op L DB CallUpdateJobBody request now q jobs = spec_body request now jobs"
| "spec_op L DB CallUpdateJobStatus request now q jobs = spec_status request now q jobs"
| "spec_op L DB CallUpdateJobVisibilityTimeout request now q jobs = spec_visibility request q jobs"
| "spec_op L DB CallDeleteOrphanedJobMessage request now q jobs = spec_orphan request q jobs"

end
