(* ===== verification/Job_Client_Correct.thy ===== *)
theory Job_Client_Correct
  imports Job_Client
begin

text \<open>
  Every callback of the job client finishes its context or makes one more call for it, and every operation that
  succeeds waits for a call, as long as no provider both finishes a call that a callback makes and refuses it: an
  invariant of all runs.
\<close>

section \<open>Items never throw\<close>

text \<open>An item that passes validation has every column.\<close>

lemma valid_item_columns:
  assumes "Successful (ValidateJobItem item)" "column \<in> set kJobsTableRequiredColumns"
  shows "\<exists>a. GetItemAttributes item column = Some a"
proof -
  have "\<exists>a \<in> set (it_attributes item). at_name a = column"
    using assms unfolding ValidateJobItem_def by (auto simp: list_ex_iff split: option.splits if_splits)
  then have "column \<in> fst ` set (map (\<lambda>a. (at_name a, a)) (it_attributes item))" by force
  then show ?thesis unfolding GetItemAttributes_def by (metis map_of_eq_None_iff not_None_eq)
qed

lemma convert_never_throws: "\<exists>job_or. ConvertDatabaseItemToJob ssl TU item = Inr job_or"
proof (cases "Successful (ValidateJobItem item)")
  case True
  have "\<exists>a. GetItemAttributes item c = Some a" if "c \<in> set kJobsTableRequiredColumns" for c
    using valid_item_columns [OF True that] .
  then obtain a where a: "map_at (GetItemAttributes item) c = Inr (a c)" if "c \<in> set kJobsTableRequiredColumns" for c
    unfolding map_at_def by (metis option.simps(5))
  show ?thesis
    using a True by (simp add: ConvertDatabaseItemToJob_def Let_def kJobsTableRequiredColumns_def split: prod.splits)
qed (simp add: ConvertDatabaseItemToJob_def Let_def)

section \<open>What the environment does\<close>

fun call_context :: "'t pending_call \<Rightarrow> nat" where
  "call_context (EnqueueMessage c _ _ _) = c"
| "call_context (CreateDatabaseItem c _ _) = c"
| "call_context (GetTopMessage c) = c"
| "call_context (GetNextJobItem c _ _ _ _) = c"
| "call_context (GetJobItemByJobId c _) = c"
| "call_context (GetJobItemForUpdateJobBody c _) = c"
| "call_context (UpsertUpdatedJobBody c _ _) = c"
| "call_context (GetJobItemForUpdateJobStatus c _) = c"
| "call_context (UpsertUpdatedJobStatus c _ _ _) = c"
| "call_context (DeleteMessageForUpdatingJobStatus c _ _ _) = c"
| "call_context (UpdateMessageVisibilityTimeout c _ _) = c"
| "call_context (GetJobItemForDeleteOrphanedJobMessage c _) = c"
| "call_context (DeleteMessageForDeleteOrphanedJobMessage c _) = c"

text \<open>A provider that refuses a call reports a failure, and a callback's call that is refused is not finished as well.\<close>

fun answer_ok :: "provider_answer \<Rightarrow> bool" where
  "answer_ok Accepts = True"
| "answer_ok (Refuses r) = (\<not> Successful r)"
| "answer_ok (FinishesAndRefuses r) = False"

fun first_answer_ok :: "provider_answer \<Rightarrow> bool" where
  "first_answer_ok (FinishesAndRefuses r) = (\<not> Successful r \<and> status_code r \<noteq> SC_NO_SQL_DATABASE_PROVIDER_RECORD_NOT_FOUND)"
| "first_answer_ok answer = answer_ok answer"

text \<open>
  A reply has the form of the call: items for reads, a message with a receipt that the JSON
  library can parse, and a failed reply is a failure. The retry count of an item is below its maximum.
\<close>

fun reads_item :: "'t pending_call \<Rightarrow> bool" where
  "reads_item (GetNextJobItem _ _ _ _ _) = True"
| "reads_item (GetJobItemByJobId _ _) = True"
| "reads_item (GetJobItemForUpdateJobBody _ _) = True"
| "reads_item (GetJobItemForUpdateJobStatus _ _) = True"
| "reads_item (GetJobItemForDeleteOrphanedJobMessage _ _) = True"
| "reads_item _ = False"

definition item_fits :: "'t job_lib \<Rightarrow> Item \<Rightarrow> bool" where
  "item_fits L item = (case ConvertDatabaseItemToJob (jl_ssl L) (jl_time L) item of
     Inr (HoldsValue job) \<Rightarrow> jb_retry_count job < 2 ^ 31 - 1 | _ \<Rightarrow> True)"

fun message_fits :: "'t job_lib \<Rightarrow> reply \<Rightarrow> bool" where
  "message_fits L (TopMessage body receipt) = (body = [] \<or> (\<not> isl (JobMessageBody (jl_json L) body) \<and> receipt \<noteq> None))"
| "message_fits L _ = False"

definition reply_fits :: "'t job_lib \<Rightarrow> 't pending_call \<Rightarrow> reply \<Rightarrow> bool" where
  "reply_fits L call rep =
     (case rep of
        Failed r \<Rightarrow> \<not> Successful r
      | _ \<Rightarrow> if reads_item call then (case rep of GotItem item \<Rightarrow> item_fits L item | _ \<Rightarrow> False)
             else (case call of GetTopMessage _ \<Rightarrow> message_fits L rep | _ \<Rightarrow> True))"

fun has_receipt :: "'t pending_call \<Rightarrow> bool" where
  "has_receipt (GetNextJobItem _ _ _ _ receipt) = (receipt \<noteq> None)"
| "has_receipt _ = True"

section \<open>One step\<close>

definition finishes :: "nat \<Rightarrow> 't job_client \<Rightarrow> 't job_client \<Rightarrow> bool" where
  "finishes c s s' \<longleftrightarrow> jc_returned s' = jc_returned s \<and> length (jc_requests s') = length (jc_requests s) \<and>
     jc_pending s' = jc_pending s \<and> (\<exists>x. jc_finished s' = jc_finished s @ [(c, x)])"

definition waits :: "nat \<Rightarrow> 't job_client \<Rightarrow> 't job_client \<Rightarrow> bool" where
  "waits c s s' \<longleftrightarrow> jc_returned s' = jc_returned s \<and> length (jc_requests s') = length (jc_requests s) \<and>
     jc_finished s' = jc_finished s \<and> (\<exists>call. call_context call = c \<and> has_receipt call \<and> jc_pending s' = jc_pending s @ [call])"

lemma finish_finishes [simp]: "finishes c s (finish_job c r resp s)"
  "finishes c s (finish_job c r resp (release_job_id c' s))" "finishes c s (finish_job c r resp (release_receipt_info c' s))"
  by (simp_all add: finishes_def finish_job_def release_job_id_def release_receipt_info_def)

lemma refused_or_waits:
  assumes "answer_ok answer" "call_context call = c" "has_receipt call"
    "jc_returned s1 = jc_returned s" "length (jc_requests s1) = length (jc_requests s)" "jc_pending s1 = jc_pending s" "jc_finished s1 = jc_finished s"
  shows "\<exists>s'. finish_if_refused c (call_provider call on_failed answer s1) = Inr s' \<and> (finishes c s s' \<or> waits c s s')"
  using assms by (cases answer) (auto simp: finish_if_refused_def call_provider_def finishes_def waits_def finish_job_def)

lemma released_same [simp]:
  "jc_returned (release_job_id c s) = jc_returned s" "length (jc_requests (release_job_id c s)) = length (jc_requests s)"
  "jc_pending (release_job_id c s) = jc_pending s" "jc_finished (release_job_id c s) = jc_finished s"
  "jc_returned (release_receipt_info c s) = jc_returned s" "length (jc_requests (release_receipt_info c s)) = length (jc_requests s)"
  "jc_pending (release_receipt_info c s) = jc_pending s" "jc_finished (release_receipt_info c s) = jc_finished s"
  by (simp_all add: release_job_id_def release_receipt_info_def)

text \<open>A callback ends by finishing its context or with one more call for it.\<close>

definition handled :: "nat \<Rightarrow> 't job_client \<Rightarrow> cpp_fault + 't job_client \<Rightarrow> bool" where
  "handled c s m \<longleftrightarrow> (\<exists>s'. m = Inr s' \<and> (finishes c s s' \<or> waits c s s'))"

named_theorems handling

lemma handled_finish [handling]:
  "handled c s (Inr (finish_job c r resp s))" "handled c s (Inr (finish_job c r resp (release_job_id c' s)))"
  "handled c s (Inr (finish_job c r resp (release_receipt_info c' s)))"
  by (auto simp: handled_def)

lemma handled_call [handling]:
  "answer_ok answer \<Longrightarrow> call_context call = c \<Longrightarrow> has_receipt call \<Longrightarrow> handled c s (finish_if_refused c (call_provider call on_failed answer s))"
  "answer_ok answer \<Longrightarrow> call_context call = c \<Longrightarrow> has_receipt call \<Longrightarrow>
   handled c s (finish_if_refused c (call_provider call on_failed answer (release_job_id c' s)))"
  "answer_ok answer \<Longrightarrow> call_context call = c \<Longrightarrow> has_receipt call \<Longrightarrow>
   handled c s (finish_if_refused c (call_provider call on_failed answer (release_receipt_info c' s)))"
  unfolding handled_def by (rule refused_or_waits; simp)+

lemma upsert_handled [handling]:
  "answer_ok answer \<Longrightarrow> handled c s (UpsertUpdatedJobStatusJobItem L c n t answer s)"
  by (simp add: UpsertUpdatedJobStatusJobItem_def Let_def handling split: ExecutionResultOr.split)

lemma delete_handled [handling]:
  "answer_ok answer \<Longrightarrow> handled c s (DeleteJobMessageForUpdatingJobStatus c t n answer s)"
  "answer_ok answer \<Longrightarrow> handled c s (DeleteJobMessageForDeletingOrphanedJob c answer s)"
  by (simp_all add: DeleteJobMessageForUpdatingJobStatus_def DeleteJobMessageForDeletingOrphanedJob_def handling)

lemmas callback_defs = OnEnqueueMessageCallback_def OnCreateNewJobItemCallback_def OnGetTopMessageCallback_def OnGetNextJobItemCallback_def
  OnGetJobItemByJobIdCallback_def OnGetJobItemForUpdateJobBodyCallback_def OnUpsertUpdatedJobBodyJobItemCallback_def
  OnGetJobItemForUpdateJobStatusCallback_def OnUpsertUpdatedJobStatusJobItemCallback_def OnDeleteJobMessageForUpdatingJobStatusCallback_def
  OnUpdateMessageVisibilityTimeoutCallback_def OnGetJobItemForDeleteOrphanedJobMessageCallback_def
  OnDeleteJobMessageForDeleteOrphanedJobMessageCallback_def

text \<open>Replies other than failures to the reads, with the item converted.\<close>

lemma item_reply:
  assumes "reply_fits L call rep" "reads_item call" "\<And>r. rep \<noteq> Failed r"
  obtains item job_or where "rep = GotItem item" "ConvertDatabaseItemToJob (jl_ssl L) (jl_time L) item = Inr job_or"
    "\<And>job. job_or = HoldsValue job \<Longrightarrow> jb_retry_count job < 2 ^ 31 - 1"
proof -
  obtain item where item: "rep = GotItem item" "item_fits L item"
    using assms by (cases rep) (auto simp: reply_fits_def)
  obtain job_or where "ConvertDatabaseItemToJob (jl_ssl L) (jl_time L) item = Inr job_or" using convert_never_throws by blast
  moreover from this have "jb_retry_count job < 2 ^ 31 - 1" if "job_or = HoldsValue job" for job
    using item(2) that by (simp add: item_fits_def)
  ultimately show ?thesis using that item(1) by blast
qed

lemma read_handled:
  assumes "reply_fits L call rep" "reads_item call" "has_receipt call" "answer_ok answer"
  shows "handled (call_context call) s (run_callback L call rep now answer s)"
proof (cases "\<exists>r. rep = Failed r")
  case True
  then show ?thesis using assms by (cases call) (auto simp: callback_defs handling)
next
  case False
  then obtain item job_or where it: "rep = GotItem item" "ConvertDatabaseItemToJob (jl_ssl L) (jl_time L) item = Inr job_or"
    "\<And>job. job_or = HoldsValue job \<Longrightarrow> jb_retry_count job < 2 ^ 31 - 1"
    using item_reply [OF assms(1,2)] by metis
  show ?thesis
  proof (cases job_or)
    case (HoldsResult r)
    then show ?thesis using assms it by (cases call) (auto simp: callback_defs handling)
  next
    case (HoldsValue job)
    then have "jb_retry_count job < 2 ^ 31 - 1" using it(3) by simp
    then show ?thesis using assms it(1,2) HoldsValue
      by (cases call) (auto simp: callback_defs handling Let_def split: ExecutionResultOr.split)
  qed
qed

lemma callback_handled:
  assumes "reply_fits L call rep" "has_receipt call" "answer_ok answer"
  shows "handled (call_context call) s (run_callback L call rep now answer s)"
proof (cases "reads_item call")
  case True
  then show ?thesis using read_handled assms by blast
next
  case False
  show ?thesis
  proof (cases "\<exists>c body receipt. call = GetTopMessage c \<and> rep = TopMessage body receipt \<and> body \<noteq> []")
    case True
    then obtain c body receipt where top: "call = GetTopMessage c" "rep = TopMessage body receipt" "body \<noteq> []" by blast
    then obtain ids where "JobMessageBody (jl_json L) body = Inr ids" "receipt \<noteq> None"
      using assms(1) by (cases "JobMessageBody (jl_json L) body") (auto simp: reply_fits_def)
    then show ?thesis using top assms(3) by (cases ids) (simp add: callback_defs handling)
  next
    case no_top: False
    then show ?thesis
      using assms False
      by (cases call; cases rep) (auto simp: callback_defs handling Let_def reply_fits_def split: ExecutionResultOr.split)
  qed
qed

definition idle :: "'t job_client \<Rightarrow> 't job_client \<Rightarrow> bool" where
  "idle s s' \<longleftrightarrow> jc_returned s' = jc_returned s \<and> length (jc_requests s') = length (jc_requests s) \<and>
     jc_pending s' = jc_pending s \<and> jc_finished s' = jc_finished s"

text \<open>An operation that returns success waits for a call; one that returns a failure has finished its context at most once.\<close>

definition called :: "nat \<Rightarrow> 't job_client \<Rightarrow> cpp_fault + (ExecutionResult \<times> 't job_client) \<Rightarrow> bool" where
  "called c s m \<longleftrightarrow> (\<exists>r s'. m = Inr (r, s') \<and> (if Successful r then waits c s s' else finishes c s s' \<or> idle s s'))"

lemma called_refused: "\<not> Successful r \<Longrightarrow> called c s (Inr (r, finish_job c r resp s))"
  by (auto simp: called_def)

lemma called_call:
  assumes "first_answer_ok answer" "call_context call = c" "has_receipt call" "idle s s1"
    "\<And>r. answer = FinishesAndRefuses r \<Longrightarrow> \<exists>s'. on_failed r s1 = Inr s' \<and> finishes c s s'"
  shows "called c s (call_provider call on_failed answer s1)"
  using assms by (cases answer) (force simp: called_def call_provider_def waits_def idle_def)+

lemma finishes_released [simp]: "finishes c s (finish_job c r resp (release_job_id c' (release_receipt_info c' s)))"
  by (simp add: finishes_def finish_job_def)

lemma idle_same [simp]: "idle s s" "idle s (release_receipt_info c s)"
  by (simp_all add: idle_def)

definition call_fits :: "'t job_lib \<Rightarrow> job_call \<Rightarrow> 't job_request \<Rightarrow> bool" where
  "call_fits L call request = (case call of CallPutJob server_job_id \<Rightarrow> \<not> isl (JobMessageBody_ToJsonString (jl_json L) (rq_job_id request) server_job_id) | _ \<Rightarrow> True)"

lemma call_called:
  assumes "first_answer_ok a1" "call_fits L call (jc_requests s ! c)"
  shows "called c s (run_call L call a1 a2 c s)"
proof (cases call)
  case (CallPutJob server_job_id)
  then obtain body where "JobMessageBody_ToJsonString (jl_json L) (rq_job_id (jc_requests s ! c)) server_job_id = Inr body"
    using assms(2) by (cases "JobMessageBody_ToJsonString (jl_json L) (rq_job_id (jc_requests s ! c)) server_job_id") (auto simp: call_fits_def)
  then show ?thesis using CallPutJob assms(1) by (auto simp: PutJob_def Let_def intro!: called_refused called_call)
next
  case CallDeleteOrphanedJobMessage
  then show ?thesis using assms(1)
    by (auto simp: DeleteOrphanedJobMessage_def Let_def callback_defs intro!: called_refused called_call)
qed (use assms(1) in \<open>auto simp: GetNextJob_def GetJobById_def UpdateJobBody_def UpdateJobStatus_def UpdateJobVisibilityTimeout_def Let_def
    callback_defs intro!: called_refused called_call\<close>)

section \<open>Every run\<close>

definition finish_count :: "nat \<Rightarrow> 't job_client \<Rightarrow> nat" where
  "finish_count c s = length (filter (\<lambda>x. fst x = c) (jc_finished s))"

definition wait_count :: "nat \<Rightarrow> 't job_client \<Rightarrow> nat" where
  "wait_count c s = length (filter (\<lambda>call. call_context call = c) (jc_pending s))"

definition context_ok :: "ExecutionResult \<Rightarrow> nat \<Rightarrow> nat \<Rightarrow> bool" where
  "context_ok r finished waiting \<longleftrightarrow> (if Successful r then finished + waiting = 1 else waiting = 0 \<and> finished \<le> 1)"

definition job_inv :: "'t job_client \<Rightarrow> bool" where
  "job_inv s \<longleftrightarrow> length (jc_returned s) = length (jc_requests s) \<and>
     (\<forall>call \<in> set (jc_pending s). has_receipt call \<and> call_context call < length (jc_requests s)) \<and>
     (fst ` set (jc_finished s) \<subseteq> {..<length (jc_requests s)}) \<and>
     (\<forall>c < length (jc_requests s). context_ok (jc_returned s ! c) (finish_count c s) (wait_count c s))"

fun event_fits :: "'t job_lib \<Rightarrow> 't job_client \<Rightarrow> 't job_event \<Rightarrow> bool" where
  "event_fits L s (Calls call request a1 a2) = (first_answer_ok a1 \<and> call_fits L call request)"
| "event_fits L s (Replies i rep now answer) = (i < length (jc_pending s) \<longrightarrow> reply_fits L (jc_pending s ! i) rep \<and> answer_ok answer)"

fun run_fits :: "('t :: linorder) job_lib \<Rightarrow> 't job_client \<Rightarrow> 't job_event list \<Rightarrow> bool" where
  "run_fits L s [] = True"
| "run_fits L s (e # es) = (event_fits L s e \<and> (case job_step L s e of Inl _ \<Rightarrow> True | Inr s1 \<Rightarrow> run_fits L s1 es))"

lemma counts_new:
  assumes "fst ` set (jc_finished s) \<subseteq> {..<n}" "\<forall>call \<in> set (jc_pending s). call_context call < n"
  shows "finish_count n s = 0" "wait_count n s = 0"
  using assms by (auto simp: finish_count_def wait_count_def filter_empty_conv)

lemma counts_step:
  "waits c s s' \<Longrightarrow> finish_count x s' = finish_count x s" "waits c s s' \<Longrightarrow> wait_count x s' = wait_count x s + (if x = c then 1 else 0)"
  "finishes c s s' \<Longrightarrow> finish_count x s' = finish_count x s + (if x = c then 1 else 0)" "finishes c s s' \<Longrightarrow> wait_count x s' = wait_count x s"
  "idle s s' \<Longrightarrow> finish_count x s' = finish_count x s" "idle s s' \<Longrightarrow> wait_count x s' = wait_count x s"
  by (auto simp: waits_def finishes_def idle_def finish_count_def wait_count_def)

lemma counts_same [simp]:
  "finish_count x (s\<lparr>jc_requests := a\<rparr>) = finish_count x s" "wait_count x (s\<lparr>jc_requests := a\<rparr>) = wait_count x s"
  "finish_count x (s\<lparr>jc_returned := b\<rparr>) = finish_count x s" "wait_count x (s\<lparr>jc_returned := b\<rparr>) = wait_count x s"
  "finish_count x (take_pending i s) = finish_count x s"
  by (simp_all add: finish_count_def wait_count_def take_pending_def)

text \<open>What a step leaves of the lists of calls and contexts.\<close>

lemma step_lists:
  assumes "waits c s s' \<or> finishes c s s' \<or> idle s s'" "c < length (jc_requests s)"
    "\<forall>call \<in> set (jc_pending s). has_receipt call \<and> call_context call < length (jc_requests s)"
    "fst ` set (jc_finished s) \<subseteq> {..<length (jc_requests s)}"
  shows "jc_returned s' = jc_returned s" "length (jc_requests s') = length (jc_requests s)"
    "\<forall>call \<in> set (jc_pending s'). has_receipt call \<and> call_context call < length (jc_requests s')"
    "fst ` set (jc_finished s') \<subseteq> {..<length (jc_requests s')}"
  using assms unfolding waits_def finishes_def idle_def by (elim disjE conjE exE; simp)+

lemma call_inv:
  assumes "job_inv s" "event_fits L s (Calls call request a1 a2)"
  shows "\<exists>s'. job_step L s (Calls call request a1 a2) = Inr s' \<and> job_inv s'"
proof -
  let ?n = "length (jc_requests s)" and ?s = "s\<lparr>jc_requests := jc_requests s @ [request]\<rparr>"
  have "called ?n ?s (run_call L call a1 a2 ?n ?s)" using assms(2) by (intro call_called) simp_all
  then obtain r s' where r: "run_call L call a1 a2 ?n ?s = Inr (r, s')" "if Successful r then waits ?n ?s s' else finishes ?n ?s s' \<or> idle ?s s'"
    by (auto simp: called_def)
  have new: "finish_count ?n s = 0" "wait_count ?n s = 0" using assms(1) counts_new [of s ?n] by (auto simp: job_inv_def)
  have cases: "waits ?n ?s s' \<or> finishes ?n ?s s' \<or> idle ?s s'" using r(2) by (cases "Successful r") auto
  have old: "\<forall>call \<in> set (jc_pending ?s). has_receipt call \<and> call_context call < length (jc_requests ?s)"
    "fst ` set (jc_finished ?s) \<subseteq> {..<length (jc_requests ?s)}" using assms(1) by (auto simp: job_inv_def)
  note lists = step_lists [OF cases _ old, simplified]
  have here: "context_ok r (finish_count ?n s') (wait_count ?n s')"
    using r(2) new by (cases "Successful r") (auto simp: context_ok_def counts_step)
  have other: "finish_count c s' = finish_count c s" "wait_count c s' = wait_count c s" if "c \<noteq> ?n" for c
    using cases that by (auto simp: counts_step)
  have "job_inv (s'\<lparr>jc_returned := jc_returned s' @ [r]\<rparr>)"
    using assms(1) lists here other unfolding job_inv_def by (auto simp: nth_append less_Suc_eq)
  then show ?thesis using r(1) by simp
qed

lemma reply_inv:
  assumes "job_inv s" "event_fits L s (Replies i rep now answer)"
  shows "\<exists>s'. job_step L s (Replies i rep now answer) = Inr s' \<and> job_inv s'"
proof (cases "i < length (jc_pending s)")
  case True
  let ?call = "jc_pending s ! i" and ?s = "take_pending i s"
  have split: "jc_pending s = take i (jc_pending s) @ ?call # drop (Suc i) (jc_pending s)" using True by (rule id_take_nth_drop)
  then have sub: "set (jc_pending ?s) \<subseteq> set (jc_pending s)" "?call \<in> set (jc_pending s)"
    using True by (auto simp: take_pending_def dest: in_set_takeD in_set_dropD)
  then have c: "has_receipt ?call" "call_context ?call < length (jc_requests s)" using assms(1) by (auto simp: job_inv_def)
  have count: "wait_count x s = wait_count x ?s + (if x = call_context ?call then 1 else 0)" for x
    unfolding wait_count_def take_pending_def by (subst split) simp
  have "handled (call_context ?call) ?s (run_callback L ?call rep now answer ?s)"
    using assms(2) True c(1) by (intro callback_handled) simp_all
  then obtain s' where s': "run_callback L ?call rep now answer ?s = Inr s'" "finishes (call_context ?call) ?s s' \<or> waits (call_context ?call) ?s s'"
    by (auto simp: handled_def)
  have sum: "finish_count x s' + wait_count x s' = finish_count x s + wait_count x s"
    "wait_count x s = 0 \<Longrightarrow> finish_count x s' = finish_count x s \<and> wait_count x s' = 0" for x
    using s'(2) count [of x] by (auto simp: counts_step split: if_splits)
  have ok: "context_ok (jc_returned s ! x) (finish_count x s') (wait_count x s')" if "x < length (jc_requests s)" for x
    using assms(1) that sum [of x] by (cases "Successful (jc_returned s ! x)") (auto simp: job_inv_def context_ok_def)
  have old: "\<forall>call \<in> set (jc_pending ?s). has_receipt call \<and> call_context call < length (jc_requests ?s)"
    "fst ` set (jc_finished ?s) \<subseteq> {..<length (jc_requests ?s)}" "jc_returned ?s = jc_returned s" "jc_requests ?s = jc_requests s"
    using assms(1) sub(1) by (auto simp: job_inv_def take_pending_def)
  have cases: "waits (call_context ?call) ?s s' \<or> finishes (call_context ?call) ?s s' \<or> idle ?s s'" using s'(2) by blast
  note lists = step_lists [OF cases _ old(1,2), unfolded old, OF c(2)]
  have "job_inv s'" using assms(1) lists ok unfolding job_inv_def by simp
  then show ?thesis using s'(1) True by simp
qed (use assms in simp)

lemma job_run_inv:
  "job_inv s \<Longrightarrow> run_fits L s es \<Longrightarrow> \<exists>s'. job_run L s es = Inr s' \<and> job_inv s'"
proof (induction es arbitrary: s)
  case (Cons e es)
  have "\<exists>s1. job_step L s e = Inr s1 \<and> job_inv s1"
    using Cons.prems call_inv [of s L] reply_inv [of s L] by (cases e) (simp_all del: job_step.simps event_fits.simps)
  then show ?case using Cons by (auto simp del: job_step.simps)
qed simp

end
