(* ===== verification/Job_Refinement.thy ===== *)
theory Job_Refinement
  imports Job_Table Job_Client_Correct
begin

text \<open>
  Operations of the job client that are not interrupted by others refine the plain table of jobs, for
  every sequence of them; what follows for the status of a job; and what goes wrong when they
  are interrupted.
\<close>

section \<open>One operation\<close>

text \<open>The table in the database holds the jobs.\<close>

definition table_holds :: "'t job_lib \<Rightarrow> 'd nosql \<Rightarrow> string \<Rightarrow> 'd \<Rightarrow> 't jobs \<Rightarrow> bool" where
  "table_holds L DB name d jobs \<longleftrightarrow>
     (\<forall>job_id. db_row DB d (job_key name job_id) = map_option (job_row (jl_ssl L) (jl_time L)) (jobs job_id)) \<and>
     (\<forall>job_id job. jobs job_id = Some job \<longrightarrow> jb_job_id job = job_id)"

lemma job_key_eq [simp]: "job_key name a = job_key name b \<longleftrightarrow> a = b"
  by (auto simp: job_key_def MakeStringAttribute_def)

text \<open>What the environment of an operation provides.\<close>

fun op_fits :: "'t job_lib \<Rightarrow> job_call \<Rightarrow> 't job_request \<Rightarrow> 't \<Rightarrow> reply \<Rightarrow> bool" where
  "op_fits L (CallPutJob server_job_id) request now q = (call_fits L (CallPutJob server_job_id) request \<and> now \<noteq> kDefaultTimestampValue (jl_time L))"
| "op_fits L CallGetNextJob request now q = (case q of Failed r \<Rightarrow> True | _ \<Rightarrow> message_fits L q)"
| "op_fits L call request now q = (now \<noteq> kDefaultTimestampValue (jl_time L))"

locale job_service = job_codec "jl_ssl L" "jl_time L" + nosql_database DB for L :: "('t :: linorder) job_lib" and DB :: "'d nosql"
begin

lemma read_job:
  assumes "table_holds L DB name d jobs"
  obtains "jobs job_id = None" "db_get DB d (CreateGetJobByJobIdRequest name job_id) = HoldsResult (FailureExecutionResult SC_NO_SQL_DATABASE_PROVIDER_RECORD_NOT_FOUND)"
  | job item where "jobs job_id = Some job" "jb_job_id job = job_id" "db_get DB d (CreateGetJobByJobIdRequest name job_id) = HoldsValue item"
    "ConvertDatabaseItemToJob (jl_ssl L) (jl_time L) item = Inr (HoldsValue job)"
proof (cases "jobs job_id")
  case None
  then show ?thesis using that(1) assms get_missing [of d "CreateGetJobByJobIdRequest name job_id"]
    by (simp add: table_holds_def CreateGetJobByJobIdRequest_def)
next
  case (Some job)
  then have row: "db_row DB d (job_key name job_id) = Some (job_row (jl_ssl L) (jl_time L) job)" and id: "jb_job_id job = job_id"
    using assms by (simp_all add: table_holds_def)
  then obtain item where item: "db_get DB d (CreateGetJobByJobIdRequest name job_id) = HoldsValue item" "it_key item = Some (job_key name job_id)"
    "distinct (map at_name (it_attributes item))" "item_row (it_attributes item) = job_row (jl_ssl L) (jl_time L) job"
    using get_found [of d "CreateGetJobByJobIdRequest name job_id"] by (auto simp: CreateGetJobByJobIdRequest_def has_attributes_def)
  have "ConvertDatabaseItemToJob (jl_ssl L) (jl_time L) item = Inr (HoldsValue job)"
    using item(2-4) id by (intro convert_row) (auto simp: job_key_def MakeStringAttribute_def value_string_def)
  then show ?thesis using that(2) Some id item(1) by blast
qed

lemma read_next_job:
  assumes "table_holds L DB name d jobs"
  obtains "\<And>job. jobs job_id = Some job \<Longrightarrow> jb_server_job_id job \<noteq> server_job_id"
    "db_get DB d (CreateGetNextJobRequest name job_id server_job_id) = HoldsResult (FailureExecutionResult SC_NO_SQL_DATABASE_PROVIDER_RECORD_NOT_FOUND)"
  | job item where "jobs job_id = Some job" "jb_server_job_id job = server_job_id"
    "db_get DB d (CreateGetNextJobRequest name job_id server_job_id) = HoldsValue item"
    "ConvertDatabaseItemToJob (jl_ssl L) (jl_time L) item = Inr (HoldsValue job)"
proof (cases "\<exists>job. jobs job_id = Some job \<and> jb_server_job_id job = server_job_id")
  case False
  then have "\<not> has_attributes r [MakeStringAttribute kServerJobIdColumnName server_job_id]" if "db_row DB d (job_key name job_id) = Some r" for r
    using assms that by (auto simp: table_holds_def has_attributes_def MakeStringAttribute_def job_row_def column_defs)
  then have "db_get DB d (CreateGetNextJobRequest name job_id server_job_id) = HoldsResult (FailureExecutionResult SC_NO_SQL_DATABASE_PROVIDER_RECORD_NOT_FOUND)"
    by (intro get_missing) (simp add: CreateGetNextJobRequest_def CreateGetJobByJobIdRequest_def)
  then show ?thesis using that(1) False by blast
next
  case True
  then obtain job where job: "jobs job_id = Some job" "jb_server_job_id job = server_job_id" by blast
  then have row: "db_row DB d (job_key name job_id) = Some (job_row (jl_ssl L) (jl_time L) job)" and id: "jb_job_id job = job_id"
    using assms by (simp_all add: table_holds_def)
  have "has_attributes (job_row (jl_ssl L) (jl_time L) job) [MakeStringAttribute kServerJobIdColumnName server_job_id]"
    using job(2) by (simp add: has_attributes_def MakeStringAttribute_def job_row_def column_defs)
  then obtain item where item: "db_get DB d (CreateGetNextJobRequest name job_id server_job_id) = HoldsValue item" "it_key item = Some (job_key name job_id)"
    "distinct (map at_name (it_attributes item))" "item_row (it_attributes item) = job_row (jl_ssl L) (jl_time L) job"
    using get_found [of d "CreateGetNextJobRequest name job_id server_job_id"] row
    by (auto simp: CreateGetNextJobRequest_def CreateGetJobByJobIdRequest_def)
  have "ConvertDatabaseItemToJob (jl_ssl L) (jl_time L) item = Inr (HoldsValue job)"
    using item(2-4) id by (intro convert_row) (auto simp: job_key_def MakeStringAttribute_def value_string_def)
  then show ?thesis using that(2) job item(1) by blast
qed

text \<open>A row that is written is a job that is put.\<close>

lemma table_put:
  assumes "table_holds L DB name d jobs" "db_row DB d' = (db_row DB d)(job_key name job_id \<mapsto> job_row (jl_ssl L) (jl_time L) job)" "jb_job_id job = job_id"
  shows "table_holds L DB name d' (jobs(job_id \<mapsto> job))"
  using assms by (auto simp: table_holds_def)

end

text \<open>One whole operation ends, finishes its context with the result of the plain table, and leaves the database with the plain table's jobs.\<close>

definition op_refines :: "('t :: linorder) job_lib \<Rightarrow> 'd nosql \<Rightarrow> ('d, 't) job_world \<Rightarrow> 't jobs \<Rightarrow> job_call \<Rightarrow> 't job_request \<Rightarrow> 't \<Rightarrow> reply \<Rightarrow> bool" where
  "op_refines L DB w jobs call request now q \<longleftrightarrow>
     (\<exists>w'. world_run L DB w (whole_op call request now q) = Inr w' \<and>
        jc_pending (jw_client w') = [] \<and> job_table_name (jw_client w') = job_table_name (jw_client w) \<and>
        length (jc_requests (jw_client w')) = Suc (length (jc_requests (jw_client w))) \<and>
        jc_finished (jw_client w') = jc_finished (jw_client w) @ [(length (jc_requests (jw_client w)), fst (spec_op L DB call request now q jobs))] \<and>
        table_holds L DB (job_table_name (jw_client w)) (jw_db w') (snd (spec_op L DB call request now q jobs)))"

lemma failure_code [simp]: "status_code (FailureExecutionResult code) = code"
  by (simp add: FailureExecutionResult_def)

text \<open>The statuses between which a job changes.\<close>

definition may_change :: "JobStatus \<Rightarrow> JobStatus \<Rightarrow> bool" where
  "may_change current new \<longleftrightarrow> current \<in> {JOB_STATUS_CREATED, JOB_STATUS_PROCESSING} \<and> (new = JOB_STATUS_PROCESSING \<or> finished_status new)"

lemma validate_status:
  "Successful (ValidateJobStatus current new) \<longleftrightarrow> may_change current new"
  "\<not> may_change current new \<Longrightarrow> ValidateJobStatus current new = FailureExecutionResult SC_JOB_CLIENT_PROVIDER_INVALID_JOB_STATUS"
  by (auto simp: ValidateJobStatus_def allowed_status_to_update_def may_change_def finished_status_def job_status_defs)

lemma may_change_known: "may_change current new \<Longrightarrow> new \<noteq> JOB_STATUS_UNKNOWN"
  by (auto simp: may_change_def finished_status_def job_status_defs)

lemma status_apart [simp]: "JOB_STATUS_PROCESSING \<noteq> JOB_STATUS_FAILURE" "JOB_STATUS_PROCESSING \<noteq> JOB_STATUS_SUCCESS"
  by (simp_all add: job_status_defs)

lemmas op_defs = op_refines_def whole_op_def call_provider_def finish_if_refused_def finish_job_def take_pending_def
  release_job_id_def release_receipt_info_def failing_def queue_outcome_def write_reply_def get_reply_def callback_defs

context job_service
begin

lemma op_refused:
  assumes "jc_pending (jw_client w) = []" "table_holds L DB (job_table_name (jw_client w)) (jw_db w) jobs"
    "run_call L call Accepts Accepts (length (jc_requests (jw_client w))) (jw_client w\<lparr>jc_requests := jc_requests (jw_client w) @ [request]\<rparr>) =
      Inr (r, finish_job (length (jc_requests (jw_client w))) r None (jw_client w\<lparr>jc_requests := jc_requests (jw_client w) @ [request]\<rparr>))"
    "spec_op L DB call request now q jobs = ((r, None), jobs)"
  shows "op_refines L DB w jobs call request now q"
  using assms by (simp add: op_refines_def whole_op_def finish_job_def)

lemma get_refines:
  assumes "jc_pending (jw_client w) = []" "table_holds L DB (job_table_name (jw_client w)) (jw_db w) jobs"
  shows "op_refines L DB w jobs CallGetJobById request now q"
proof (cases "rq_job_id request = []")
  case True
  then show ?thesis using assms by (intro op_refused) (simp_all add: GetJobById_def spec_get_def failing_def Let_def)
next
  case False
  show ?thesis
    by (rule read_job [OF assms(2), of "rq_job_id request"]) (use assms False in \<open>simp_all add: op_defs GetJobById_def spec_get_def Let_def\<close>)
qed

lemma next_refines:
  assumes "jc_pending (jw_client w) = []" "table_holds L DB (job_table_name (jw_client w)) (jw_db w) jobs" "op_fits L CallGetNextJob request now q"
  shows "op_refines L DB w jobs CallGetNextJob request now q"
proof (cases q)
  case (TopMessage body receipt)
  show ?thesis
  proof (cases "body = []")
    case False
    then obtain job_id server_job_id rc where b: "JobMessageBody (jl_json L) body = Inr (job_id, server_job_id)" "receipt = Some rc"
      using assms(3) TopMessage by (cases "JobMessageBody (jl_json L) body") auto
    show ?thesis
      by (rule read_next_job [OF assms(2), of job_id server_job_id])
        (use assms b False TopMessage in \<open>simp_all add: op_defs GetNextJob_def spec_next_def Let_def split: option.split\<close>)
  qed (use assms TopMessage in \<open>simp add: op_defs GetNextJob_def spec_next_def\<close>)
qed (use assms in \<open>simp_all add: op_defs GetNextJob_def spec_next_def\<close>)

lemma visibility_refines:
  assumes "jc_pending (jw_client w) = []" "table_holds L DB (job_table_name (jw_client w)) (jw_db w) jobs"
  shows "op_refines L DB w jobs CallUpdateJobVisibilityTimeout request now q"
proof -
  let ?duration = "rq_duration_to_update request"
  consider "rq_job_id request = []" | "rq_job_id request \<noteq> []" "?duration < 0 \<or> ?duration > 600"
    | "rq_job_id request \<noteq> []" "\<not> (?duration < 0 \<or> ?duration > 600)" "rq_receipt_info request = []"
    | "rq_job_id request \<noteq> []" "\<not> (?duration < 0 \<or> ?duration > 600)" "rq_receipt_info request \<noteq> []" by blast
  then show ?thesis
  proof cases
    case 4
    then show ?thesis using assms
      by (cases q) (simp_all add: op_defs UpdateJobVisibilityTimeout_def spec_visibility_def Let_def kMaximumVisibilityTimeoutInSeconds_def)
  qed (use assms in \<open>intro op_refused; simp add: UpdateJobVisibilityTimeout_def spec_visibility_def failing_def Let_def
      kMaximumVisibilityTimeoutInSeconds_def\<close>)+
qed

lemma orphan_refines:
  assumes "jc_pending (jw_client w) = []" "table_holds L DB (job_table_name (jw_client w)) (jw_db w) jobs"
  shows "op_refines L DB w jobs CallDeleteOrphanedJobMessage request now q"
proof -
  consider "rq_job_id request = []" | "rq_job_id request \<noteq> []" "rq_receipt_info request = []"
    | "rq_job_id request \<noteq> []" "rq_receipt_info request \<noteq> []" by blast
  then show ?thesis
  proof cases
    case 3
    note defs = op_defs DeleteOrphanedJobMessage_def DeleteJobMessageForDeletingOrphanedJob_def spec_orphan_def Let_def finished_status_def
    show ?thesis
    proof (rule read_job [OF assms(2), of "rq_job_id request"])
      fix job item
      assume "jobs (rq_job_id request) = Some job" "db_get DB (jw_db w) (CreateGetJobByJobIdRequest (job_table_name (jw_client w)) (rq_job_id request)) = HoldsValue item"
        "ConvertDatabaseItemToJob (jl_ssl L) (jl_time L) item = Inr (HoldsValue job)"
      then show ?thesis using assms 3
        by (cases "jb_job_status job = JOB_STATUS_SUCCESS \<or> jb_job_status job = JOB_STATUS_FAILURE"; cases q) (simp_all add: defs)
    qed (use assms 3 in \<open>cases q; simp add: defs\<close>)
  qed (use assms in \<open>intro op_refused; simp add: DeleteOrphanedJobMessage_def spec_orphan_def failing_def Let_def\<close>)+
qed

text \<open>A row that is there is updated.\<close>

lemma upsert_job:
  assumes "table_holds L DB name d jobs" "jobs job_id = Some job" "ud_key change = job_key name job_id" "ud_required_attributes change = []"
    "job_row (jl_ssl L) (jl_time L) job ++ item_row (ud_new_attributes change) = job_row (jl_ssl L) (jl_time L) job'" "jb_job_id job' = job_id"
  shows "\<exists>d'. db_upsert DB d change = (SuccessExecutionResult, d') \<and> table_holds L DB name d' (jobs(job_id \<mapsto> job'))"
proof -
  obtain d' where d': "db_upsert DB d change = (SuccessExecutionResult, d')"
    "db_row DB d' = (db_row DB d)(ud_key change \<mapsto> (case db_row DB d (ud_key change) of None \<Rightarrow> Map.empty | Some r \<Rightarrow> r) ++ item_row (ud_new_attributes change))"
    using upsert [OF assms(4)] by blast
  have "db_row DB d (job_key name job_id) = Some (job_row (jl_ssl L) (jl_time L) job)" using assms(1,2) by (simp add: table_holds_def)
  then have "db_row DB d' = (db_row DB d)(job_key name job_id \<mapsto> job_row (jl_ssl L) (jl_time L) job')" using d'(2) assms(3,5) by simp
  then show ?thesis using d'(1) table_put [OF assms(1) _ assms(6)] by blast
qed

lemma body_refines:
  assumes "jc_pending (jw_client w) = []" "table_holds L DB (job_table_name (jw_client w)) (jw_db w) jobs" "op_fits L CallUpdateJobBody request now q"
  shows "op_refines L DB w jobs CallUpdateJobBody request now q"
proof (cases "rq_job_id request = []")
  case True
  then show ?thesis using assms by (intro op_refused) (simp_all add: UpdateJobBody_def spec_body_def failing_def Let_def)
next
  case False
  note defs = op_defs UpdateJobBody_def spec_body_def Let_def
  show ?thesis
  proof (rule read_job [OF assms(2), of "rq_job_id request"])
    fix job item
    assume job: "jobs (rq_job_id request) = Some job" "jb_job_id job = rq_job_id request"
      "db_get DB (jw_db w) (CreateGetJobByJobIdRequest (job_table_name (jw_client w)) (rq_job_id request)) = HoldsValue item"
      "ConvertDatabaseItemToJob (jl_ssl L) (jl_time L) item = Inr (HoldsValue job)"
    show ?thesis
    proof (cases "jb_updated_time job > rq_most_recent_updated_time request")
      case True
      then show ?thesis using assms False job by (simp add: defs)
    next
      case current: False
      let ?job = "job\<lparr>jb_job_body := (if rq_job_body request = [] then jb_job_body job else rq_job_body request), jb_updated_time := now, jb_retry_count := 0\<rparr>"
      obtain change where change: "CreateUpsertJobRequest (jl_ssl L) (jl_time L) (job_table_name (jw_client w))
          ((default_Job (jl_time L))\<lparr>jb_job_id := rq_job_id request, jb_job_body := rq_job_body request, jb_updated_time := now\<rparr>) = HoldsValue change"
        "ud_key change = job_key (job_table_name (jw_client w)) (rq_job_id request)" "ud_required_attributes change = []"
        "job_row (jl_ssl L) (jl_time L) job ++ item_row (ud_new_attributes change) = job_row (jl_ssl L) (jl_time L) ?job"
        using body_row [of now "job_table_name (jw_client w)" "rq_job_body request" "rq_job_id request" job] assms(3) by auto
      obtain d' where "db_upsert DB (jw_db w) change = (SuccessExecutionResult, d')"
        "table_holds L DB (job_table_name (jw_client w)) d' (jobs(rq_job_id request \<mapsto> ?job))"
        using upsert_job [OF assms(2) job(1) change(2-4)] job(2) by auto
      then show ?thesis using assms(1) False job current change(1) by (simp add: defs)
    qed
  qed (use assms False in \<open>simp add: defs\<close>)
qed

lemma put_refines:
  assumes "jc_pending (jw_client w) = []" "table_holds L DB (job_table_name (jw_client w)) (jw_db w) jobs" "op_fits L (CallPutJob server_job_id) request now q"
  shows "op_refines L DB w jobs (CallPutJob server_job_id) request now q"
proof (cases "rq_job_id request = []")
  case True
  then show ?thesis using assms by (intro op_refused) (simp_all add: PutJob_def spec_put_def failing_def Let_def)
next
  case False
  note defs = op_defs PutJob_def spec_put_def Let_def kDefaultRetryCount_def
  let ?job = "CreateJob (rq_job_id request) server_job_id (rq_job_body request) JOB_STATUS_CREATED now now (kDefaultTimestampValue (jl_time L)) 0"
  obtain m where m: "JobMessageBody_ToJsonString (jl_json L) (rq_job_id request) server_job_id = Inr m"
    using assms(3) by (cases "JobMessageBody_ToJsonString (jl_json L) (rq_job_id request) server_job_id") (auto simp: call_fits_def)
  have fields: "jb_job_id ?job = rq_job_id request" "jb_job_body ?job = rq_job_body request" by (simp_all add: CreateJob_def)
  consider r where "q = Failed r" | "\<nexists>r. q = Failed r" "rq_job_body request = []" | "\<nexists>r. q = Failed r" "rq_job_body request \<noteq> []"
    by blast
  then show ?thesis
  proof cases
    case 2
    then show ?thesis using assms False m put_empty [of ?job] fields by (cases q) (simp_all add: defs)
  next
    case 3
    obtain new where new: "CreatePutJobRequest (jl_ssl L) (jl_time L) (job_table_name (jw_client w)) ?job = HoldsValue new"
      "cd_key new = job_key (job_table_name (jw_client w)) (rq_job_id request)" "item_row (cd_attributes new) = job_row (jl_ssl L) (jl_time L) ?job"
      using put_row [of ?job "job_table_name (jw_client w)"] 3(2) fields by auto
    show ?thesis
    proof (cases "jobs (rq_job_id request)")
      case None
      then have "db_row DB (jw_db w) (cd_key new) = None" using assms(2) new(2) by (simp add: table_holds_def)
      then obtain d' where d': "db_create DB (jw_db w) new = (SuccessExecutionResult, d')"
        "db_row DB d' = (db_row DB (jw_db w))(cd_key new \<mapsto> item_row (cd_attributes new))" using create_new by blast
      then have "table_holds L DB (job_table_name (jw_client w)) d' (jobs(rq_job_id request \<mapsto> ?job))"
        using table_put [OF assms(2) _ fields(1)] new(2,3) by simp
      then show ?thesis using assms(1) False m 3 new(1) None d'(1) by (cases q) (simp_all add: defs)
    next
      case (Some job)
      then have "db_row DB (jw_db w) (cd_key new) = Some (job_row (jl_ssl L) (jl_time L) job)" using assms(2) new(2) by (simp add: table_holds_def)
      then have "db_create DB (jw_db w) new = (FailureExecutionResult (db_exists_code DB), jw_db w)" by (rule create_old)
      then show ?thesis using assms(1,2) False m 3 new(1) Some by (cases q) (simp_all add: defs)
    qed
  qed (use assms False m in \<open>simp add: defs\<close>)
qed

lemma status_refines:
  assumes "jc_pending (jw_client w) = []" "table_holds L DB (job_table_name (jw_client w)) (jw_db w) jobs" "op_fits L CallUpdateJobStatus request now q"
    "\<And>job. jobs (rq_job_id request) = Some job \<Longrightarrow> jb_retry_count job < 2 ^ 31 - 1"
  shows "op_refines L DB w jobs CallUpdateJobStatus request now q"
proof -
  let ?id = "rq_job_id request" and ?new = "rq_job_status request" and ?name = "job_table_name (jw_client w)"
  note defs = op_defs UpdateJobStatus_def spec_status_def Let_def finished_status_def
  consider "?id = []" | "?id \<noteq> []" "rq_receipt_info request = []" "finished_status ?new"
    | "?id \<noteq> []" "\<not> (rq_receipt_info request = [] \<and> finished_status ?new)" by blast
  then show ?thesis
  proof cases
    case 3
    then have guard: "\<not> (rq_receipt_info request = [] \<and> (?new = JOB_STATUS_SUCCESS \<or> ?new = JOB_STATUS_FAILURE))" by (simp add: finished_status_def)
    note defs = defs guard
    show ?thesis
    proof (rule read_job [OF assms(2), of ?id])
      fix job item
      assume job: "jobs ?id = Some job" "jb_job_id job = ?id" "db_get DB (jw_db w) (CreateGetJobByJobIdRequest ?name ?id) = HoldsValue item"
        "ConvertDatabaseItemToJob (jl_ssl L) (jl_time L) item = Inr (HoldsValue job)"
      consider "jb_updated_time job > rq_most_recent_updated_time request"
        | "\<not> jb_updated_time job > rq_most_recent_updated_time request" "\<not> may_change (jb_job_status job) ?new"
        | "\<not> jb_updated_time job > rq_most_recent_updated_time request" "may_change (jb_job_status job) ?new" by blast
      then show ?thesis
      proof cases
        case 1
        then show ?thesis using assms 3(1) job by (simp add: defs)
      next
        case 2
        then show ?thesis using assms 3(1) job by (simp add: defs validate_status may_change_def)
      next
        case ok: 3
        let ?n = "if ?new = JOB_STATUS_PROCESSING then jb_retry_count job + 1 else jb_retry_count job"
        let ?started = "if ?new = JOB_STATUS_PROCESSING then now else kDefaultTimestampValue (jl_time L)"
        let ?job = "job\<lparr>jb_updated_time := now, jb_job_status := ?new, jb_retry_count := ?n,
          jb_processing_started_time := (if ?started = now then now else jb_processing_started_time job)\<rparr>"
        have started: "?started = kDefaultTimestampValue (jl_time L) \<or> ?started = now" and set: "now \<noteq> kDefaultTimestampValue (jl_time L)"
          using assms(3) by simp_all
        obtain change where change: "CreateUpsertJobRequest (jl_ssl L) (jl_time L) ?name ((default_Job (jl_time L))\<lparr>jb_job_id := ?id, jb_updated_time := now,
              jb_job_status := ?new, jb_retry_count := ?n, jb_processing_started_time := ?started\<rparr>) = HoldsValue change"
          "ud_key change = job_key ?name ?id" "ud_required_attributes change = []"
          "job_row (jl_ssl L) (jl_time L) job ++ item_row (ud_new_attributes change) = job_row (jl_ssl L) (jl_time L) ?job"
          using status_row [OF set may_change_known [OF ok(2)] started, of ?name ?n ?id job] by blast
        obtain d' where d': "db_upsert DB (jw_db w) change = (SuccessExecutionResult, d')" "table_holds L DB ?name d' (jobs(?id \<mapsto> ?job))"
          using upsert_job [OF assms(2) job(1) change(2-4)] job(2) by auto
        show ?thesis
        proof (cases "?new = JOB_STATUS_PROCESSING")
          case True
          then show ?thesis using assms(1) assms(4) [OF job(1)] 3(1) job ok d' change(1)
            by (simp add: defs validate_status may_change_def UpsertUpdatedJobStatusJobItem_def)
        next
          case False
          then have ended: "?new = JOB_STATUS_FAILURE \<or> ?new = JOB_STATUS_SUCCESS" "?new = JOB_STATUS_SUCCESS \<or> ?new = JOB_STATUS_FAILURE"
            using ok(2) by (auto simp: may_change_def finished_status_def)
          then have "rq_receipt_info request \<noteq> []" using guard by simp
          then show ?thesis using assms(1,3) 3(1) job ok d' change(1) False
            by (cases q) (simp_all add: ended defs validate_status may_change_def UpsertUpdatedJobStatusJobItem_def DeleteJobMessageForUpdatingJobStatus_def default_Job_def CreateJob_def)
        qed
      qed
    qed (use assms 3(1) in \<open>simp add: defs\<close>)
  qed (use assms in \<open>intro op_refused; simp add: UpdateJobStatus_def spec_status_def finished_status_def failing_def Let_def\<close>)+
qed

end

section \<open>Sequences of operations\<close>

text \<open>An operation with its request, the time it reads from the clock and what the queue answers.\<close>

type_synonym 't job_op = "job_call \<times> 't job_request \<times> 't \<times> reply"

fun ops_events :: "'t job_op list \<Rightarrow> 't world_event list" where
  "ops_events [] = []"
| "ops_events ((call, request, now, q) # ops) = whole_op call request now q @ ops_events ops"

text \<open>The plain table, with the contexts numbered from \<open>n\<close>.\<close>

fun spec_ops ::
  "('t :: linorder) job_lib \<Rightarrow> 'd nosql \<Rightarrow> nat \<Rightarrow> 't jobs \<Rightarrow> 't job_op list \<Rightarrow> (nat \<times> 't outcome) list \<times> 't jobs" where
  "spec_ops L DB n jobs [] = ([], jobs)"
| "spec_ops L DB n jobs ((call, request, now, q) # ops) =
     (let (out, jobs1) = spec_op L DB call request now q jobs; (outs, jobs2) = spec_ops L DB (Suc n) jobs1 ops
      in ((n, out) # outs, jobs2))"

definition ops_fit :: "'t job_lib \<Rightarrow> 't job_op list \<Rightarrow> bool" where
  "ops_fit L ops \<longleftrightarrow> list_all (\<lambda>(call, request, now, q). op_fits L call request now q) ops"

definition few_retries :: "nat \<Rightarrow> 't jobs \<Rightarrow> bool" where
  "few_retries n jobs \<longleftrightarrow> (\<forall>job_id job. jobs job_id = Some job \<longrightarrow> jb_retry_count job \<le> int n)"

lemma world_run_append: "world_run L DB w (xs @ ys) = bindE (world_run L DB w xs) (\<lambda>w1. world_run L DB w1 ys)"
proof (induction xs arbitrary: w)
  case (Cons x xs)
  then show ?case by (cases "world_step L DB w x") simp_all
qed simp

lemmas spec_defs = spec_put_def spec_get_def spec_next_def spec_body_def spec_status_def spec_visibility_def spec_orphan_def failing_def
  queue_outcome_def Let_def

text \<open>What an operation does to a table: nothing, a new job, or a change of one job.\<close>

definition new_job :: "'t Job \<Rightarrow> bool" where
  "new_job job \<longleftrightarrow> jb_job_status job = JOB_STATUS_CREATED \<and> jb_retry_count job = 0"

definition job_changes :: "'t Job \<Rightarrow> 't Job \<Rightarrow> bool" where
  "job_changes job job' \<longleftrightarrow> jb_server_job_id job' = jb_server_job_id job \<and> jb_created_time job' = jb_created_time job \<and>
     (jb_job_status job' = jb_job_status job \<or> may_change (jb_job_status job) (jb_job_status job')) \<and>
     jb_retry_count job' \<in> {0, jb_retry_count job, jb_retry_count job + 1}"

inductive table_step :: "'t jobs \<Rightarrow> 't jobs \<Rightarrow> bool" where
  same: "table_step jobs jobs"
| new: "jobs job_id = None \<Longrightarrow> new_job job \<Longrightarrow> table_step jobs (jobs(job_id \<mapsto> job))"
| change: "jobs job_id = Some job \<Longrightarrow> job_changes job job' \<Longrightarrow> table_step jobs (jobs(job_id \<mapsto> job'))"

lemma spec_steps: "table_step jobs (snd (spec_op L DB call request now q jobs))"
proof (cases call)
  case (CallPutJob server_job_id)
  then show ?thesis
    by (cases "jobs (rq_job_id request)"; cases q) (auto simp: spec_defs new_job_def CreateJob_def intro!: table_step.same table_step.new)
next
  case CallGetNextJob
  then show ?thesis by (auto simp: spec_defs split: reply.split sum.split option.split intro!: table_step.same table_step.change)
next
  case CallUpdateJobBody
  then show ?thesis
    by (cases "jobs (rq_job_id request)") (auto simp: spec_defs job_changes_def intro!: table_step.same table_step.change)
next
  case CallUpdateJobStatus
  then show ?thesis
    by (cases "jobs (rq_job_id request)") (auto simp: spec_defs job_changes_def may_change_def intro!: table_step.same table_step.change)
qed (auto simp: spec_defs split: option.split intro!: table_step.same table_step.change)

lemma few_retries_more: "few_retries n jobs \<Longrightarrow> few_retries (Suc n) jobs"
  unfolding few_retries_def by force

lemma few_retries_put: "few_retries n jobs \<Longrightarrow> jb_retry_count job \<le> int n \<Longrightarrow> few_retries n (jobs(job_id \<mapsto> job))"
  by (simp add: few_retries_def)

lemma step_retries: "table_step jobs jobs' \<Longrightarrow> few_retries n jobs \<Longrightarrow> few_retries (Suc n) jobs'"
proof (induction rule: table_step.induct)
  case (change jobs job_id job job')
  then have "jb_retry_count job \<le> int n" by (simp add: few_retries_def)
  then have "jb_retry_count job' \<le> int (Suc n)" using change(2) by (auto simp: job_changes_def)
  then show ?case using change(3) few_retries_more few_retries_put by blast
qed (simp_all add: few_retries_more few_retries_put new_job_def)

lemmas spec_retries = step_retries [OF spec_steps]

context job_service
begin

lemma op_refined:
  assumes "jc_pending (jw_client w) = []" "table_holds L DB (job_table_name (jw_client w)) (jw_db w) jobs" "op_fits L call request now q"
    "few_retries n jobs" "n < 2 ^ 31 - 1"
  shows "op_refines L DB w jobs call request now q"
proof (cases call)
  case CallUpdateJobStatus
  have "jb_retry_count job < 2 ^ 31 - 1" if "jobs (rq_job_id request) = Some job" for job
  proof -
    have "jb_retry_count job \<le> int n" using assms(4) that by (simp add: few_retries_def)
    then show ?thesis using assms(5) by simp
  qed
  then show ?thesis using status_refines [OF assms(1,2)] assms(3) CallUpdateJobStatus by simp
qed (use assms(3) put_refines [OF assms(1,2)] next_refines [OF assms(1,2)] get_refines [OF assms(1,2)] body_refines [OF assms(1,2)]
    visibility_refines [OF assms(1,2)] orphan_refines [OF assms(1,2)] in simp_all)

lemma ops_refined:
  assumes "jc_pending (jw_client w) = []" "table_holds L DB (job_table_name (jw_client w)) (jw_db w) jobs" "ops_fit L ops"
    "few_retries n jobs" "n + length ops \<le> 2 ^ 31 - 1"
  shows "\<exists>w'. world_run L DB w (ops_events ops) = Inr w' \<and> jc_pending (jw_client w') = [] \<and>
    job_table_name (jw_client w') = job_table_name (jw_client w) \<and>
    jc_finished (jw_client w') = jc_finished (jw_client w) @ fst (spec_ops L DB (length (jc_requests (jw_client w))) jobs ops) \<and>
    table_holds L DB (job_table_name (jw_client w)) (jw_db w') (snd (spec_ops L DB (length (jc_requests (jw_client w))) jobs ops)) \<and>
    few_retries (n + length ops) (snd (spec_ops L DB (length (jc_requests (jw_client w))) jobs ops))"
  using assms
proof (induction ops arbitrary: w jobs n)
  case (Cons op ops)
  obtain call request now q where op: "op = (call, request, now, q)" by (cases op)
  have "op_refines L DB w jobs call request now q"
    using op_refined [OF Cons.prems(1,2) _ Cons.prems(4)] Cons.prems(3,5) op by (simp add: ops_fit_def)
  then obtain w1 where w1: "world_run L DB w (whole_op call request now q) = Inr w1" "jc_pending (jw_client w1) = []"
    "job_table_name (jw_client w1) = job_table_name (jw_client w)" "length (jc_requests (jw_client w1)) = Suc (length (jc_requests (jw_client w)))"
    "jc_finished (jw_client w1) = jc_finished (jw_client w) @ [(length (jc_requests (jw_client w)), fst (spec_op L DB call request now q jobs))]"
    "table_holds L DB (job_table_name (jw_client w)) (jw_db w1) (snd (spec_op L DB call request now q jobs))"
    by (auto simp: op_refines_def)
  have "ops_fit L ops" "Suc n + length ops \<le> 2 ^ 31 - 1" using Cons.prems(3,5) by (simp_all add: ops_fit_def)
  then obtain w2 where "world_run L DB w1 (ops_events ops) = Inr w2" "jc_pending (jw_client w2) = []"
    "job_table_name (jw_client w2) = job_table_name (jw_client w)"
    "jc_finished (jw_client w2) = jc_finished (jw_client w1) @
      fst (spec_ops L DB (Suc (length (jc_requests (jw_client w)))) (snd (spec_op L DB call request now q jobs)) ops)"
    "table_holds L DB (job_table_name (jw_client w)) (jw_db w2)
      (snd (spec_ops L DB (Suc (length (jc_requests (jw_client w)))) (snd (spec_op L DB call request now q jobs)) ops))"
    "few_retries (Suc n + length ops)
      (snd (spec_ops L DB (Suc (length (jc_requests (jw_client w)))) (snd (spec_op L DB call request now q jobs)) ops))"
    using Cons.IH [OF w1(2) _ _ spec_retries [OF Cons.prems(4)], of L DB call request now q] w1(3,4,6) by auto
  then show ?case using w1(1,5) op by (simp add: world_run_append split_beta Let_def)
qed simp

end

end
