(* ===== verification/Job_Correct.thy ===== *)
theory Job_Correct
  imports Job_Refinement
begin

text \<open>
  The properties of the job client over a database, with a time stamp, a JSON and a Base64 library on which
  they are evaluated: runs of whole operations, and what goes wrong between interrupted ones.
\<close>

section \<open>Libraries\<close>

text \<open>Printing and parsing an object whose members are strings.\<close>

locale json_object =
  fixes js :: json_lib
  assumes parse_dump: "distinct (map fst members) \<Longrightarrow> js_dump js members = Some json \<Longrightarrow> json \<noteq> [] \<and> js_parse js json = Some (map_of members)"
begin

lemma message_roundtrip:
  assumes "JobMessageBody_ToJsonString js job_id server_job_id = Inr json"
  shows "json \<noteq> []" "JobMessageBody js json = Inr (job_id, server_job_id)"
proof -
  have "js_dump js [(kJobsTablePartitionKeyName, job_id), (kServerJobIdColumnName, server_job_id)] = Some json"
    using assms by (auto simp: JobMessageBody_ToJsonString_def split: option.splits)
  note d = parse_dump [OF _ this]
  show "json \<noteq> []" "JobMessageBody js json = Inr (job_id, server_job_id)"
    using d by (simp_all add: JobMessageBody_def map_at_def kJobsTablePartitionKeyName_def kServerJobIdColumnName_def)
qed

end

text \<open>Strings behind their lengths in unary.\<close>

definition unary_string :: "string \<Rightarrow> string" where
  "unary_string s = replicate (length s) (CHR ''1'') @ CHR ''0'' # s"

definition parse_unary :: "string \<Rightarrow> string \<times> string" where
  "parse_unary s = (let n = length (takeWhile (\<lambda>c. c = CHR ''1'') s); r = drop (Suc n) s in (take n r, drop n r))"

fun parse_members :: "nat \<Rightarrow> string \<Rightarrow> (string \<times> string) list" where
  "parse_members 0 s = []"
| "parse_members (Suc fuel) s =
     (if s = [] then [] else let (k, s1) = parse_unary s; (v, s2) = parse_unary s1 in (k, v) # parse_members fuel s2)"

definition unary_json :: json_lib where
  "unary_json = \<lparr>js_dump = \<lambda>members. Some (CHR ''o'' # concat (map (\<lambda>(k, v). unary_string k @ unary_string v) members)),
     js_parse = \<lambda>s. (case s of [] \<Rightarrow> None | _ # t \<Rightarrow> Some (map_of (parse_members (length t) t)))\<rparr>"

lemma parse_unary_string: "parse_unary (unary_string s @ t) = (s, t)"
proof -
  have "takeWhile (\<lambda>c. c = CHR ''1'') (replicate n (CHR ''1'') @ CHR ''0'' # s @ t) = replicate n (CHR ''1'')" for n
    by (induction n) simp_all
  then show ?thesis by (simp add: parse_unary_def unary_string_def Let_def)
qed

lemma unary_string_nonempty [simp]: "unary_string s \<noteq> []"
  by (simp add: unary_string_def)

lemma parse_members_dump:
  "length members \<le> fuel \<Longrightarrow> parse_members fuel (concat (map (\<lambda>(k, v). unary_string k @ unary_string v) members)) = members"
proof (induction members arbitrary: fuel)
  case Nil
  then show ?case by (cases fuel) simp_all
next
  case (Cons kv members)
  then show ?case by (cases fuel; cases kv) (auto simp: parse_unary_string)
qed

lemma dump_length: "length members \<le> length (concat (map (\<lambda>(k, v). unary_string k @ unary_string v) members))"
  by (induction members) (auto simp: unary_string_def)

interpretation un_json: json_object unary_json
  by unfold_locales (auto simp: unary_json_def parse_members_dump [OF dump_length])

definition unary_time :: "nat time_util" where
  "unary_time = \<lparr>tu_ToString = \<lambda>t. replicate t (CHR ''1''), tu_FromString = length, kDefaultTimestampValue = 0\<rparr>"

interpretation un_codec: job_codec rfc4648 unary_time
  by unfold_locales (simp add: unary_time_def)

definition aws_job_lib :: "nat job_lib" where
  "aws_job_lib = \<lparr>jl_ssl = rfc4648, jl_time = unary_time, jl_json = unary_json, jl_ConvertDatabaseErrorForPutJob = Aws_ConvertDatabaseErrorForPutJob\<rparr>"

interpretation aws_jobs: job_service aws_job_lib al_nosql
  by (simp add: job_service_def aws_job_lib_def un_codec.job_codec_axioms al_db.nosql_database_axioms)

section \<open>Whole operations\<close>

definition new_world :: "string \<Rightarrow> 'd \<Rightarrow> ('d, 't) job_world" where
  "new_world name d = \<lparr>jw_client = new_job_client name, jw_db = d\<rparr>"

lemma spec_ops_append:
  "spec_ops L DB n jobs (xs @ ys) =
     (fst (spec_ops L DB n jobs xs) @ fst (spec_ops L DB (n + length xs) (snd (spec_ops L DB n jobs xs)) ys),
      snd (spec_ops L DB (n + length xs) (snd (spec_ops L DB n jobs xs)) ys))"
  by (induction xs arbitrary: n jobs) (auto simp: split_beta Let_def)

text \<open>The server's id and the time of creation stay, and so does the status of a job that has ended.\<close>

definition job_kept :: "'t Job \<Rightarrow> 't Job \<Rightarrow> bool" where
  "job_kept job job' \<longleftrightarrow> jb_server_job_id job' = jb_server_job_id job \<and> jb_created_time job' = jb_created_time job \<and>
     (finished_status (jb_job_status job) \<longrightarrow> jb_job_status job' = jb_job_status job)"

lemma step_keeps: "table_step jobs jobs' \<Longrightarrow> jobs job_id = Some job \<Longrightarrow> \<exists>job'. jobs' job_id = Some job' \<and> job_kept job job'"
  by (induction rule: table_step.induct)
    (auto simp: job_kept_def job_changes_def may_change_def finished_status_def job_status_defs)

lemma ops_keep: "jobs job_id = Some job \<Longrightarrow> \<exists>job'. snd (spec_ops L DB n jobs ops) job_id = Some job' \<and> job_kept job job'"
proof (induction ops arbitrary: n jobs job)
  case (Cons op ops)
  obtain call request now q where op: "op = (call, request, now, q)" by (cases op)
  obtain job1 where job1: "snd (spec_op L DB call request now q jobs) job_id = Some job1" "job_kept job job1"
    using step_keeps [where jobs = jobs, OF spec_steps Cons.prems] by blast
  then show ?case using Cons.IH [where jobs = "snd (spec_op L DB call request now q jobs)", OF job1(1), of "Suc n"] op by (auto simp: job_kept_def split_beta Let_def)
qed (simp add: job_kept_def)

lemma ops_run:
  assumes "job_service L DB" "ops_fit L ops" "length ops < 2 ^ 31" "\<forall>key. db_row DB d key = None"
  shows "\<exists>w. world_run L DB (new_world name d) (ops_events ops) = Inr w \<and> jc_pending (jw_client w) = [] \<and>
    jc_finished (jw_client w) = fst (spec_ops L DB 0 Map.empty ops) \<and> table_holds L DB name (jw_db w) (snd (spec_ops L DB 0 Map.empty ops))"
proof -
  have "table_holds L DB name d Map.empty" "few_retries 0 Map.empty" using assms(4) by (simp_all add: table_holds_def few_retries_def)
  then show ?thesis
    using job_service.ops_refined [OF assms(1), of "new_world name d" Map.empty ops 0] assms(2,3)
    by (auto simp: new_world_def new_job_client_def)
qed

section \<open>Properties\<close>

text \<open>A job with one letter as its id and its body; its updates know of every update up to time 9.\<close>

definition job_example :: "JobStatus \<Rightarrow> nat job_request" where
  "job_example st = \<lparr>rq_job_id = ''j'', rq_job_body = ''b'', rq_job_status = st, rq_most_recent_updated_time = 9, rq_duration_to_update = 0,
     rq_receipt_info = ''r''\<rparr>"

definition message_example :: string where
  "message_example = (case JobMessageBody_ToJsonString unary_json ''j'' ''s'' of Inr m \<Rightarrow> m | Inl _ \<Rightarrow> [])"

definition put_example :: "nat job_op" where
  "put_example = (CallPutJob ''s'', job_example JOB_STATUS_UNKNOWN, 1, Done)"

definition next_example :: "nat job_op" where
  "next_example = (CallGetNextJob, job_example JOB_STATUS_UNKNOWN, 2, TopMessage message_example (Some ''r''))"

definition status_example :: "JobStatus \<Rightarrow> nat \<Rightarrow> nat job_op" where
  "status_example st now = (CallUpdateJobStatus, job_example st, now, Done)"

text \<open>
  C10: Any sequence of operations of the job client, each performed without interruption on a database that starts empty, runs to its
  end without a fault; every operation finishes with exactly the result, error code and response
  that a plain table of jobs gives, and the rows in the database are those of that table's jobs.
\<close>

theorem job_ops_refine:
  assumes "job_service L DB" "ops_fit L ops" "length ops < 2 ^ 31" "\<forall>key. db_row DB d key = None"
  shows "\<exists>w. world_run L DB (new_world name d) (ops_events ops) = Inr w \<and> jc_pending (jw_client w) = [] \<and>
    jc_finished (jw_client w) = fst (spec_ops L DB 0 Map.empty ops) \<and>
    (\<forall>job_id. db_row DB (jw_db w) (job_key name job_id) =
       map_option (job_row (jl_ssl L) (jl_time L)) (snd (spec_ops L DB 0 Map.empty ops) job_id))"
  using ops_run [OF assms, of name] unfolding table_holds_def by blast

theorem job_ops_refine_witness:
  "\<exists>w. world_run aws_job_lib al_nosql (new_world ''t'' []) (ops_events [put_example, put_example, next_example, status_example JOB_STATUS_SUCCESS 3]) = Inr w \<and>
    map (\<lambda>x. Successful (fst (snd x))) (jc_finished (jw_client w)) = [True, False, True, True]"
proof -
  let ?ops = "[put_example, put_example, next_example, status_example JOB_STATUS_SUCCESS 3]"
  have fits: "ops_fit aws_job_lib ?ops" by code_simp
  have len: "length ?ops < 2 ^ 31" by simp
  have empty: "\<forall>key. db_row al_nosql [] key = None" by (simp add: al_nosql_def)
  have "map (\<lambda>x. Successful (fst (snd x))) (fst (spec_ops aws_job_lib al_nosql 0 Map.empty ?ops)) = [True, False, True, True]"
    by code_simp
  then show ?thesis using job_ops_refine [OF aws_jobs.job_service_axioms fits len empty, of "''t''"] by fastforce
qed

text \<open>
  C13: Once the row of a job says success or failure, no later sequence of uninterrupted operations changes its
  status, the server's id or the time of creation.
\<close>

theorem job_finished_stays:
  assumes "job_service L DB" "ops_fit L (before @ later)" "length (before @ later) < 2 ^ 31" "\<forall>key. db_row DB d key = None"
    "world_run L DB (new_world name d) (ops_events before) = Inr w1" "db_row DB (jw_db w1) (job_key name job_id) = Some r1"
    "r1 kJobStatusColumnName = Some (Some (ValueInt st))" "finished_status st"
    "world_run L DB (new_world name d) (ops_events (before @ later)) = Inr w2"
  shows "\<exists>r2. db_row DB (jw_db w2) (job_key name job_id) = Some r2 \<and> r2 kJobStatusColumnName = r1 kJobStatusColumnName \<and>
    r2 kServerJobIdColumnName = r1 kServerJobIdColumnName \<and> r2 kCreatedTimeColumnName = r1 kCreatedTimeColumnName"
proof -
  have fits: "ops_fit L before" "length before < 2 ^ 31" using assms(2,3) by (simp_all add: ops_fit_def)
  let ?jobs1 = "snd (spec_ops L DB 0 Map.empty before)" and ?jobs2 = "snd (spec_ops L DB 0 Map.empty (before @ later))"
  have holds: "table_holds L DB name (jw_db w1) ?jobs1" "table_holds L DB name (jw_db w2) ?jobs2"
    using ops_run [OF assms(1) fits assms(4), of name] ops_run [OF assms(1-4), of name] assms(5,9) by auto
  then obtain job1 where job1: "?jobs1 job_id = Some job1" "r1 = job_row (jl_ssl L) (jl_time L) job1"
    using assms(6) by (auto simp: table_holds_def)
  then have "finished_status (jb_job_status job1)" using assms(7,8) by (simp add: job_row_def column_defs)
  moreover obtain job2 where "?jobs2 job_id = Some job2" "job_kept job1 job2"
    using ops_keep [where jobs = ?jobs1, OF job1(1), of L DB "0 + length before" later] by (auto simp: spec_ops_append)
  ultimately show ?thesis using holds(2) job1(2) by (auto simp: table_holds_def job_kept_def job_row_def column_defs)
qed

theorem job_finished_stays_witness:
  "\<exists>w r. world_run aws_job_lib al_nosql (new_world ''t'' []) (ops_events ([put_example, status_example JOB_STATUS_SUCCESS 3] @ [status_example JOB_STATUS_PROCESSING 4])) = Inr w \<and>
    db_row al_nosql (jw_db w) (job_key ''t'' ''j'') = Some r \<and> r kJobStatusColumnName = Some (Some (ValueInt JOB_STATUS_SUCCESS))"
proof -
  let ?before = "[put_example, status_example JOB_STATUS_SUCCESS 3]" and ?later = "[status_example JOB_STATUS_PROCESSING 4]"
  have fits: "ops_fit aws_job_lib ?before" "ops_fit aws_job_lib (?before @ ?later)" by code_simp+
  have len: "length ?before < 2 ^ 31" "length (?before @ ?later) < 2 ^ 31" by simp_all
  have empty: "\<forall>key. db_row al_nosql [] key = None" by (simp add: al_nosql_def)
  obtain w1 where w1: "world_run aws_job_lib al_nosql (new_world ''t'' []) (ops_events ?before) = Inr w1"
    "table_holds aws_job_lib al_nosql ''t'' (jw_db w1) (snd (spec_ops aws_job_lib al_nosql 0 Map.empty ?before))"
    using ops_run [OF aws_jobs.job_service_axioms fits(1) len(1) empty, of "''t''"] by blast
  obtain w2 where w2: "world_run aws_job_lib al_nosql (new_world ''t'' []) (ops_events (?before @ ?later)) = Inr w2"
    using ops_run [OF aws_jobs.job_service_axioms fits(2) len(2) empty, of "''t''"] by blast
  have "map_option jb_job_status (snd (spec_ops aws_job_lib al_nosql 0 Map.empty ?before) ''j'') = Some JOB_STATUS_SUCCESS" by code_simp
  then obtain job where "snd (spec_ops aws_job_lib al_nosql 0 Map.empty ?before) ''j'' = Some job" "jb_job_status job = JOB_STATUS_SUCCESS" by blast
  then have r: "db_row al_nosql (jw_db w1) (job_key ''t'' ''j'') = Some (job_row (jl_ssl aws_job_lib) (jl_time aws_job_lib) job)"
    "job_row (jl_ssl aws_job_lib) (jl_time aws_job_lib) job kJobStatusColumnName = Some (Some (ValueInt JOB_STATUS_SUCCESS))"
    using w1(2) by (simp_all add: table_holds_def job_row_def column_defs)
  show ?thesis
    using job_finished_stays [OF aws_jobs.job_service_axioms fits(2) len(2) empty w1(1) r _ w2] w2 r(2) by (auto simp: finished_status_def)
qed

text \<open>
  C12: A job that was put under a new id is the one that a later \<open>GetNextJob\<close> returns when the queue delivers the message of the put, whatever
  uninterrupted operations come in between: with the same ids and time of creation, and exactly the job that was put if nothing comes in between.
\<close>

theorem job_put_next:
  assumes "job_service L DB" "json_object (jl_json L)" "\<forall>key. db_row DB d key = None"
    "ops = before @ (CallPutJob server_job_id, request, now, Done) # between @ [(CallGetNextJob, request', now', TopMessage message (Some receipt))]"
    "ops_fit L ops" "length ops < 2 ^ 31" "rq_job_id request \<noteq> []" "rq_job_body request \<noteq> []"
    "JobMessageBody_ToJsonString (jl_json L) (rq_job_id request) server_job_id = Inr message"
    "world_run L DB (new_world name d) (ops_events before) = Inr w1" "db_row DB (jw_db w1) (job_key name (rq_job_id request)) = None"
  shows "\<exists>w job. world_run L DB (new_world name d) (ops_events ops) = Inr w \<and>
    last (jc_finished (jw_client w)) = (length before + length between + 1, SuccessExecutionResult, Some (GetNextJobResponse (Some (job, receipt)))) \<and>
    jb_job_id job = rq_job_id request \<and> jb_server_job_id job = server_job_id \<and> jb_created_time job = now \<and>
    (between = [] \<longrightarrow> job = CreateJob (rq_job_id request) server_job_id (rq_job_body request) JOB_STATUS_CREATED now now (kDefaultTimestampValue (jl_time L)) 0)"
proof -
  let ?job = "CreateJob (rq_job_id request) server_job_id (rq_job_body request) JOB_STATUS_CREATED now now (kDefaultTimestampValue (jl_time L)) 0"
  let ?jobs1 = "snd (spec_ops L DB 0 Map.empty before)" and ?id = "rq_job_id request"
  let ?jobs2 = "snd (spec_ops L DB (Suc (length before)) (?jobs1(?id \<mapsto> ?job)) between)"
  have fits: "ops_fit L before" "length before < 2 ^ 31" using assms(4-6) by (simp_all add: ops_fit_def)
  have "table_holds L DB name (jw_db w1) ?jobs1" using ops_run [OF assms(1) fits assms(3), of name] assms(10) by auto
  then have none: "?jobs1 ?id = None" using assms(11) by (simp add: table_holds_def)
  have put: "spec_op L DB (CallPutJob server_job_id) request now Done ?jobs1 =
      ((SuccessExecutionResult, Some (PutJobResponse ?job)), ?jobs1(?id \<mapsto> ?job))"
    using none assms(7,8) by (simp add: spec_put_def Let_def)
  obtain job where job: "?jobs2 ?id = Some job" "job_kept ?job job"
    using ops_keep [where jobs = "?jobs1(?id \<mapsto> ?job)" and job = ?job and job_id = ?id and n = "Suc (length before)" and L = L and DB = DB and ops = between]
    by (metis fun_upd_same)
  note m = json_object.message_roundtrip [OF assms(2,9)]
  have next_op: "spec_op L DB CallGetNextJob request' now' (TopMessage message (Some receipt)) ?jobs2 =
      ((SuccessExecutionResult, Some (GetNextJobResponse (Some (job, receipt)))), ?jobs2)"
    using m job by (simp add: spec_next_def job_kept_def CreateJob_def)
  have all: "last (fst (spec_ops L DB 0 Map.empty ops)) =
      (length before + length between + 1, SuccessExecutionResult, Some (GetNextJobResponse (Some (job, receipt))))"
    "snd (spec_ops L DB 0 Map.empty ops) = ?jobs2"
    using put next_op by (simp_all add: assms(4) spec_ops_append split_beta Let_def)
  obtain w where w: "world_run L DB (new_world name d) (ops_events ops) = Inr w"
    "jc_finished (jw_client w) = fst (spec_ops L DB 0 Map.empty ops)" "table_holds L DB name (jw_db w) (snd (spec_ops L DB 0 Map.empty ops))"
    using ops_run [OF assms(1,5,6,3), of name] by blast
  have "jb_job_id job = ?id" using w(3) all(2) job(1) by (simp add: table_holds_def)
  moreover have "job = ?job" if "between = []" using that job(1) by simp
  ultimately show ?thesis using w(1,2) all(1) job(2) by (auto simp: job_kept_def CreateJob_def)
qed

theorem job_put_next_witness:
  "\<exists>w job. world_run aws_job_lib al_nosql (new_world ''t'' []) (ops_events [put_example, next_example]) = Inr w \<and>
    last (jc_finished (jw_client w)) = (1, SuccessExecutionResult, Some (GetNextJobResponse (Some (job, ''r'')))) \<and>
    jb_job_body job = ''b'' \<and> jb_created_time job = 1"
proof -
  have fits: "ops_fit aws_job_lib [put_example, next_example]" by code_simp
  have len: "length [put_example, next_example] < 2 ^ 31" by simp
  have empty: "\<forall>key. db_row al_nosql [] key = None" by (simp add: al_nosql_def)
  have js: "json_object (jl_json aws_job_lib)" by (simp add: aws_job_lib_def un_json.json_object_axioms)
  have m: "JobMessageBody_ToJsonString (jl_json aws_job_lib) (rq_job_id (job_example JOB_STATUS_UNKNOWN)) ''s'' = Inr message_example" by code_simp
  have ops: "[put_example, next_example] = [] @ (CallPutJob ''s'', job_example JOB_STATUS_UNKNOWN, 1, Done) # [] @
      [(CallGetNextJob, job_example JOB_STATUS_UNKNOWN, 2, TopMessage message_example (Some ''r''))]"
    by (simp add: put_example_def next_example_def)
  show ?thesis
    using job_put_next [OF aws_jobs.job_service_axioms js empty ops fits len _ _ m, of "''t''" "new_world ''t'' []"]
    by (auto simp: job_example_def new_world_def al_nosql_def CreateJob_def)
qed

text \<open>
  C11: Whatever callers do and in whatever order the providers answer, the job client does not fault, logging aside, every context is finished at most once, and once nothing
  waits for an answer the context of every operation that was started is finished exactly once. It is assumed that JSON texts of
  job ids can be printed, that a message from the queue has a receipt and a body that can be parsed, that an item that was read has a retry
  count that can be increased, that failed answers and refusals are failures, and that a provider does not both finish and refuse a call that a callback makes.
\<close>

theorem job_finishes_once:
  assumes "run_fits L (new_job_client name) es"
  shows "\<exists>s. job_run L (new_job_client name) es = Inr s \<and> length (jc_returned s) = length (jc_requests s) \<and>
    (\<forall>c < length (jc_requests s). finish_count c s \<le> 1 \<and> (Successful (jc_returned s ! c) \<and> jc_pending s = [] \<longrightarrow> finish_count c s = 1))"
proof -
  have "job_inv (new_job_client name)" by (simp add: job_inv_def new_job_client_def)
  then obtain s where s: "job_run L (new_job_client name) es = Inr s" "job_inv s" using job_run_inv assms by blast
  have "finish_count c s \<le> 1 \<and> (Successful (jc_returned s ! c) \<and> jc_pending s = [] \<longrightarrow> finish_count c s = 1)"
    if "c < length (jc_requests s)" for c
  proof -
    have "context_ok (jc_returned s ! c) (finish_count c s) (wait_count c s)" using s(2) that by (simp add: job_inv_def)
    then show ?thesis by (auto simp: context_ok_def wait_count_def split: if_splits)
  qed
  then show ?thesis using s by (auto simp: job_inv_def)
qed

theorem job_finishes_once_witness:
  "\<exists>s. job_run aws_job_lib (new_job_client ''t'')
      [Calls (CallPutJob ''s'') (job_example JOB_STATUS_UNKNOWN) Accepts Accepts, Calls CallGetJobById (job_example JOB_STATUS_UNKNOWN) Accepts Accepts,
       Replies 1 (Failed (FailureExecutionResult SC_UNKNOWN)) 1 Accepts, Replies 0 Done 1 Accepts, Replies 0 Done 2 Accepts] = Inr s \<and>
    length (jc_requests s) = 2 \<and> finish_count 0 s = 1 \<and> finish_count 1 s = 1"
proof -
  let ?es = "[Calls (CallPutJob ''s'') (job_example JOB_STATUS_UNKNOWN) Accepts Accepts, Calls CallGetJobById (job_example JOB_STATUS_UNKNOWN) Accepts Accepts,
       Replies 1 (Failed (FailureExecutionResult SC_UNKNOWN)) 1 Accepts, Replies 0 Done 1 Accepts, Replies 0 Done 2 Accepts]"
  have fits: "run_fits aws_job_lib (new_job_client ''t'') ?es" by code_simp
  have run: "map_sum id (\<lambda>s. (length (jc_requests s), length (jc_pending s), map Successful (jc_returned s))) (job_run aws_job_lib (new_job_client ''t'') ?es) =
      Inr (2, 0, [True, True])" by code_simp
  obtain s where s: "job_run aws_job_lib (new_job_client ''t'') ?es = Inr s" "length (jc_returned s) = length (jc_requests s)"
    "\<forall>c < length (jc_requests s). finish_count c s \<le> 1 \<and> (Successful (jc_returned s ! c) \<and> jc_pending s = [] \<longrightarrow> finish_count c s = 1)"
    using job_finishes_once [OF fits] by blast
  have "length (jc_requests s) = 2" "jc_pending s = []" "map Successful (jc_returned s) = [True, True]" using run s(1) by simp_all
  then have "Successful (jc_returned s ! 0)" "Successful (jc_returned s ! 1)" by auto
  then show ?thesis using s \<open>length (jc_requests s) = 2\<close> \<open>jc_pending s = []\<close> by simp
qed

text \<open>What a run shows: the contexts that were finished with their success, and the status and the retries of the row.\<close>

definition finish_summary :: "'t job_client \<Rightarrow> (nat \<times> bool) list" where
  "finish_summary s = map (\<lambda>(c, r, _). (c, Successful r)) (jc_finished s)"

definition row_summary :: "row option \<Rightarrow> attribute_value option option \<times> attribute_value option option" where
  "row_summary r = (case r of None \<Rightarrow> (None, None) | Some m \<Rightarrow> (m kJobStatusColumnName, m kRetryCountColumnName))"

definition world_summary :: "((ItemKey \<times> ItemAttribute list) list, nat) job_world \<Rightarrow> (nat \<times> bool) list \<times> attribute_value option option \<times> attribute_value option option" where
  "world_summary w = (finish_summary (jw_client w), row_summary (db_row al_nosql (jw_db w) (job_key ''t'' ''j'')))"

definition interrupted_updates :: "nat world_event list" where
  "interrupted_updates = ops_events [put_example] @
     [WorldCalls CallUpdateJobStatus (job_example JOB_STATUS_PROCESSING), WorldCalls CallUpdateJobStatus (job_example JOB_STATUS_SUCCESS),
      WorldServes 0 2 Done, WorldServes 0 3 Done, WorldServes 1 3 Done, WorldServes 1 3 Done, WorldServes 0 3 Done]"

text \<open>
  Updates of a status read the job, check it and write it in separate steps with nothing that ties them together: when one is interrupted by another
  that reports success, ends the job and deletes its message, the first one still succeeds and sets the job back to processing. An
  update of the body sets the number of retries back to zero.
\<close>

lemma job_update_flaws:
  "map_sum id world_summary (world_run aws_job_lib al_nosql (new_world ''t'' []) interrupted_updates) =
     Inr ([(0, True), (2, True), (1, True)], Some (Some (ValueInt JOB_STATUS_PROCESSING)), Some (Some (ValueInt 1))) \<and>
   map_sum id world_summary (world_run aws_job_lib al_nosql (new_world ''t'' [])
       (ops_events [put_example, status_example JOB_STATUS_PROCESSING 2, (CallUpdateJobBody, job_example JOB_STATUS_UNKNOWN, 3, Done)])) =
     Inr ([(0, True), (1, True), (2, True)], Some (Some (ValueInt JOB_STATUS_PROCESSING)), Some (Some (ValueInt 0)))"
  by code_simp

text \<open>
  A database provider that finishes the creation of an item with a failure and returns it as well makes the context of \<open>PutJob\<close> be
  finished twice. A job without a body is refused only after its message was put into the queue, where it stays
  behind: whoever gets the message is told that the job is not found.
\<close>

lemma job_put_flaws:
  "map_sum id finish_summary (job_run aws_job_lib (new_job_client ''t'')
       [Calls (CallPutJob ''s'') (job_example JOB_STATUS_UNKNOWN) Accepts Accepts, Replies 0 Done 1 (FinishesAndRefuses (FailureExecutionResult SC_UNKNOWN))]) =
     Inr [(0, False), (0, False)] \<and>
   map_sum id (\<lambda>s. (length (jc_pending s), finish_summary s)) (job_run aws_job_lib (new_job_client ''t'')
       [Calls (CallPutJob ''s'') ((job_example JOB_STATUS_UNKNOWN)\<lparr>rq_job_body := []\<rparr>) Accepts Accepts]) = Inr (1, []) \<and>
   map_sum id (\<lambda>w. (finish_summary (jw_client w), map (\<lambda>x. status_code (fst (snd x)) = SC_NO_SQL_DATABASE_PROVIDER_RECORD_NOT_FOUND) (jc_finished (jw_client w))))
     (world_run aws_job_lib al_nosql (new_world ''t'' [])
       (ops_events [(CallPutJob ''s'', (job_example JOB_STATUS_UNKNOWN)\<lparr>rq_job_body := []\<rparr>, 1, Done), next_example])) =
     Inr ([(0, False), (1, False)], [False, True])"
  by code_simp

end
