(* ===== verification/Metric_Client.thy ===== *)
theory Metric_Client
  imports Error_Codes
begin

text \<open>
  The client that pushes metrics in batches:
  cc/cpio/client_providers/metric_client_provider/src/metric_client_provider.cc, metric_client_utils.cc and, for the push
  to CloudWatch, aws/aws_metric_client_provider.cc and aws_metric_client_utils.cc. Contexts are numbered by the calls of
  \<open>PutMetrics\<close>. What is done under the mutex is one event; a call, a timer and a stop can be interrupted
  before they take it, and \<open>Run\<close> and a timer also between the steps in which they schedule the next timer. The
  clock is read for every metric of every context. The size of a payload and the conversion of a text to
  a \<open>double\<close> are parameters.
\<close>

section \<open>Messages\<close>

text \<open>The labels are those of a protobuf map; the time stamp is in milliseconds.\<close>

record Metric =
  mt_name :: string
  mt_value :: string
  mt_unit :: int
  mt_labels :: "(string \<times> string) list"
  mt_timestamp :: int

record PutMetricsRequest =
  pm_metric_namespace :: string
  pm_metrics :: "Metric list"

record MetricBatchingOptions =
  mo_metric_namespace :: string
  mo_enable_batch_recording :: bool

datatype StandardUnit = NOT_SET | Seconds | Microseconds | Milliseconds | Bits | Kilobits | Megabits | Gigabits | Terabits
  | Bytes | Kilobytes | Megabytes | Gigabytes | Terabytes | Count | Percent | Bits_Second | Kilobits_Second | Megabits_Second
  | Gigabits_Second | Terabits_Second | Bytes_Second | Kilobytes_Second | Megabytes_Second | Gigabytes_Second | Terabytes_Second
  | Count_Second

definition kAwsMetricUnitMap :: "int \<rightharpoonup> StandardUnit" where
  "kAwsMetricUnitMap = map_of
     [(0, NOT_SET), (1, Seconds), (2, Microseconds), (3, Milliseconds), (4, Bits), (5, Kilobits), (6, Megabits), (7, Gigabits),
      (8, Terabits), (9, Bytes), (10, Kilobytes), (11, Megabytes), (12, Gigabytes), (13, Terabytes), (14, Count), (15, Percent),
      (16, Bits_Second), (17, Kilobits_Second), (18, Megabits_Second), (19, Gigabits_Second), (20, Terabits_Second),
      (21, Bytes_Second), (22, Kilobytes_Second), (23, Megabytes_Second), (24, Gigabytes_Second), (25, Terabytes_Second),
      (26, Count_Second)]"

record 'v MetricDatum =
  md_timestamp :: int
  md_metric_name :: string
  md_value :: 'v
  md_unit :: StandardUnit
  md_dimensions :: "(string \<times> string) list"

record 'v metric_lib =
  ml_stod :: "string \<Rightarrow> 'v option"
  ml_payload :: "string \<Rightarrow> 'v MetricDatum list \<Rightarrow> nat"

definition SC_METRIC_CLIENT_PROVIDER_IS_NOT_RUNNING :: StatusCode where
  "SC_METRIC_CLIENT_PROVIDER_IS_NOT_RUNNING = MakeErrorCode 0x0216 0x0001"
definition SC_METRIC_CLIENT_PROVIDER_IS_ALREADY_RUNNING :: StatusCode where
  "SC_METRIC_CLIENT_PROVIDER_IS_ALREADY_RUNNING = MakeErrorCode 0x0216 0x0002"
definition SC_METRIC_CLIENT_PROVIDER_NAMESPACE_NOT_SET :: StatusCode where
  "SC_METRIC_CLIENT_PROVIDER_NAMESPACE_NOT_SET = MakeErrorCode 0x0216 0x0003"
definition SC_METRIC_CLIENT_PROVIDER_METRIC_NOT_SET :: StatusCode where
  "SC_METRIC_CLIENT_PROVIDER_METRIC_NOT_SET = MakeErrorCode 0x0216 0x0004"
definition SC_METRIC_CLIENT_PROVIDER_METRIC_NAME_NOT_SET :: StatusCode where
  "SC_METRIC_CLIENT_PROVIDER_METRIC_NAME_NOT_SET = MakeErrorCode 0x0216 0x0005"
definition SC_METRIC_CLIENT_PROVIDER_METRIC_VALUE_NOT_SET :: StatusCode where
  "SC_METRIC_CLIENT_PROVIDER_METRIC_VALUE_NOT_SET = MakeErrorCode 0x0216 0x0006"
definition SC_METRIC_CLIENT_PROVIDER_EXECUTOR_NOT_AVAILABLE :: StatusCode where
  "SC_METRIC_CLIENT_PROVIDER_EXECUTOR_NOT_AVAILABLE = MakeErrorCode 0x0216 0x0007"

definition SC_AWS_METRIC_CLIENT_PROVIDER_METRIC_LIMIT_REACHED_PER_REQUEST :: StatusCode where
  "SC_AWS_METRIC_CLIENT_PROVIDER_METRIC_LIMIT_REACHED_PER_REQUEST = MakeErrorCode 0x0213 0x0001"
definition SC_AWS_METRIC_CLIENT_PROVIDER_REQUEST_PAYLOAD_OVERSIZE :: StatusCode where
  "SC_AWS_METRIC_CLIENT_PROVIDER_REQUEST_PAYLOAD_OVERSIZE = MakeErrorCode 0x0213 0x0002"
definition SC_AWS_METRIC_CLIENT_PROVIDER_INVALID_TIMESTAMP :: StatusCode where
  "SC_AWS_METRIC_CLIENT_PROVIDER_INVALID_TIMESTAMP = MakeErrorCode 0x0213 0x0003"
definition SC_AWS_METRIC_CLIENT_PROVIDER_INVALID_METRIC_VALUE :: StatusCode where
  "SC_AWS_METRIC_CLIENT_PROVIDER_INVALID_METRIC_VALUE = MakeErrorCode 0x0213 0x0004"
definition SC_AWS_METRIC_CLIENT_PROVIDER_OVERSIZE_DATUM_DIMENSIONS :: StatusCode where
  "SC_AWS_METRIC_CLIENT_PROVIDER_OVERSIZE_DATUM_DIMENSIONS = MakeErrorCode 0x0213 0x0005"
definition SC_AWS_METRIC_CLIENT_PROVIDER_INVALID_METRIC_UNIT :: StatusCode where
  "SC_AWS_METRIC_CLIENT_PROVIDER_INVALID_METRIC_UNIT = MakeErrorCode 0x0213 0x0006"
definition SC_AWS_METRIC_CLIENT_PROVIDER_SHOULD_ENABLE_BATCH_RECORDING :: StatusCode where
  "SC_AWS_METRIC_CLIENT_PROVIDER_SHOULD_ENABLE_BATCH_RECORDING = MakeErrorCode 0x0213 0x0007"

definition kMetricsBatchSize :: size_t where "kMetricsBatchSize = 1000"
definition kAwsMetricDatumSizeLimit :: int where "kAwsMetricDatumSizeLimit = 1000"
definition kAwsPayloadSizeLimit :: int where "kAwsPayloadSizeLimit = 1024 * 1024"
definition kTwoWeeksSecondsCount :: int where "kTwoWeeksSecondsCount = 24 * 14 * 3600"
definition kTwoHoursSecondsCount :: int where "kTwoHoursSecondsCount = 2 * 3600"

text \<open>What \<open>c_str\<close> keeps of a string.\<close>

definition c_str :: "string \<Rightarrow> string" where
  "c_str t = takeWhile (\<lambda>c. c \<noteq> CHR 0x00) t"

text \<open>The times a push reads, by the context and the position of the metric.\<close>

type_synonym clock = "nat \<Rightarrow> nat \<Rightarrow> int"

section \<open>Requests\<close>

fun invalid_metric :: "Metric list \<Rightarrow> ExecutionResult" where
  "invalid_metric [] = SuccessExecutionResult"
| "invalid_metric (metric # metrics) =
     (if mt_name metric = [] then FailureExecutionResult SC_METRIC_CLIENT_PROVIDER_METRIC_NAME_NOT_SET
      else if mt_value metric = [] then FailureExecutionResult SC_METRIC_CLIENT_PROVIDER_METRIC_VALUE_NOT_SET
      else invalid_metric metrics)"

definition ValidateRequest :: "PutMetricsRequest \<Rightarrow> MetricBatchingOptions \<Rightarrow> ExecutionResult" where
  "ValidateRequest request options =
     (if \<not> mo_enable_batch_recording options \<and> pm_metric_namespace request = [] then FailureExecutionResult SC_METRIC_CLIENT_PROVIDER_NAMESPACE_NOT_SET
      else if pm_metrics request = [] then FailureExecutionResult SC_METRIC_CLIENT_PROVIDER_METRIC_NOT_SET
      else invalid_metric (pm_metrics request))"

text \<open>A cast of milliseconds to seconds rounds towards zero.\<close>

definition seconds_of :: "int \<Rightarrow> int" where
  "seconds_of ms = (if ms < 0 then - (- ms div 1000) else ms div 1000)"

definition parse_metric :: "'v metric_lib \<Rightarrow> int \<Rightarrow> Metric \<Rightarrow> StatusCode + 'v MetricDatum" where
  "parse_metric L now metric =
     (if length (mt_labels metric) > 30 then Inl SC_AWS_METRIC_CLIENT_PROVIDER_OVERSIZE_DATUM_DIMENSIONS
      else if mt_timestamp metric < 0 then Inl SC_AWS_METRIC_CLIENT_PROVIDER_INVALID_TIMESTAMP
      else let difference = seconds_of (now - mt_timestamp metric)
           in if mt_timestamp metric > 0 \<and> (difference > kTwoWeeksSecondsCount \<or> difference < - kTwoHoursSecondsCount)
              then Inl SC_AWS_METRIC_CLIENT_PROVIDER_INVALID_TIMESTAMP
              else case ml_stod L (mt_value metric) of
                     None \<Rightarrow> Inl SC_AWS_METRIC_CLIENT_PROVIDER_INVALID_METRIC_VALUE
                   | Some v \<Rightarrow>
                       let unit = (case kAwsMetricUnitMap (mt_unit metric) of None \<Rightarrow> NOT_SET | Some u \<Rightarrow> u)
                       in if unit = NOT_SET then Inl SC_AWS_METRIC_CLIENT_PROVIDER_INVALID_METRIC_UNIT
                          else Inr \<lparr>md_timestamp = (if mt_timestamp metric > 0 then mt_timestamp metric else now),
                                 md_metric_name = c_str (mt_name metric), md_value = v, md_unit = unit,
                                 md_dimensions = map (\<lambda>(name, value). (c_str name, c_str value)) (mt_labels metric)\<rparr>)"

fun parse_metrics :: "'v metric_lib \<Rightarrow> (nat \<Rightarrow> int) \<Rightarrow> Metric list \<Rightarrow> StatusCode + 'v MetricDatum list" where
  "parse_metrics L now [] = Inr []"
| "parse_metrics L now (metric # metrics) =
     bindE (parse_metric L (now 0) metric) (\<lambda>datum. bindE (parse_metrics L (\<lambda>i. now (Suc i)) metrics) (\<lambda>datum_list. Inr (datum # datum_list)))"

text \<open>The result is a failure with which the context is finished, or the data.\<close>

definition ParseRequestToDatum :: "'v metric_lib \<Rightarrow> (nat \<Rightarrow> int) \<Rightarrow> PutMetricsRequest \<Rightarrow> int \<Rightarrow> StatusCode + 'v MetricDatum list" where
  "ParseRequestToDatum L now request request_metric_limit =
     (if int (length (pm_metrics request)) > request_metric_limit
      then Inl SC_AWS_METRIC_CLIENT_PROVIDER_METRIC_LIMIT_REACHED_PER_REQUEST
      else parse_metrics L now (pm_metrics request))"

section \<open>State\<close>

text \<open>
  \<open>mc_checked\<close> are the calls of \<open>PutMetrics\<close> that passed their checks and wait for the mutex, \<open>mc_waking\<close> counts the timers
  that do. \<open>mc_schedulers\<close> are the threads that are in \<open>ScheduleMetricsBatchPush\<close>: whether a timer called it, and whether
  it has seen that the client is running. \<open>mc_mutex_lost\<close>: a call returned without releasing the mutex. \<open>mc_sent\<close> are the requests under way with
  their contexts, \<open>mc_finishing\<close> the contexts the executor has been given to finish.
\<close>

record 'v metric_client =
  mc_options :: MetricBatchingOptions
  mc_has_executor :: bool
  mc_has_client :: bool
  mc_is_running :: bool
  mc_mutex_lost :: bool
  mc_requests :: "PutMetricsRequest list"
  mc_checked :: "nat list"
  mc_vector :: "nat list"
  mc_number_metrics_in_vector :: u64
  mc_active_push_count :: size_t
  mc_timers :: "nat list"
  mc_next_timer :: nat
  mc_cancellation :: "nat option"
  mc_schedulers :: "(bool \<times> bool) list"
  mc_waking :: nat
  mc_sent :: "(nat list \<times> string \<times> 'v MetricDatum list) list"
  mc_finishing :: "(nat \<times> ExecutionResult) list"
  mc_finished :: "(nat \<times> ExecutionResult) list"

definition new_metric_client :: "MetricBatchingOptions \<Rightarrow> bool \<Rightarrow> 'v metric_client" where
  "new_metric_client options has_executor =
     \<lparr>mc_options = options, mc_has_executor = has_executor, mc_has_client = False, mc_is_running = False, mc_mutex_lost = False, mc_requests = [],
      mc_checked = [], mc_vector = [], mc_number_metrics_in_vector = 0, mc_active_push_count = 0, mc_timers = [], mc_next_timer = 0,
      mc_cancellation = None, mc_schedulers = [], mc_waking = 0, mc_sent = [], mc_finishing = [], mc_finished = []\<rparr>"

definition finish_metrics :: "nat \<Rightarrow> ExecutionResult \<Rightarrow> 'v metric_client \<Rightarrow> 'v metric_client" where
  "finish_metrics c r s = s\<lparr>mc_finished := mc_finished s @ [(c, r)]\<rparr>"

definition MetricClientProvider_Init :: "'v metric_client \<Rightarrow> ExecutionResult" where
  "MetricClientProvider_Init s =
     (if mo_enable_batch_recording (mc_options s) \<and> mo_metric_namespace (mc_options s) = []
      then FailureExecutionResult SC_METRIC_CLIENT_PROVIDER_NAMESPACE_NOT_SET
      else if mo_enable_batch_recording (mc_options s) \<and> \<not> mc_has_executor s
      then FailureExecutionResult SC_METRIC_CLIENT_PROVIDER_EXECUTOR_NOT_AVAILABLE
      else SuccessExecutionResult)"

section \<open>Pushing to CloudWatch\<close>

text \<open>The sizes of a chunk stay below twice the limits, so that they do not wrap around.\<close>

record 'v chunk =
  context_chunk :: "nat list"
  request_chunk :: "'v MetricDatum list"
  chunk_size :: int
  chunk_payload :: int

definition empty_chunk :: "'v chunk" where
  "empty_chunk = \<lparr>context_chunk = [], request_chunk = [], chunk_size = 0, chunk_payload = 0\<rparr>"

definition PutMetricDataAsync :: "string \<Rightarrow> 'v chunk \<Rightarrow> 'v metric_client \<Rightarrow> cpp_fault + 'v metric_client" where
  "PutMetricDataAsync name_space chunk s =
     (if \<not> mc_has_client s then Inl UndefinedBehaviour
      else Inr (s\<lparr>mc_sent := mc_sent s @ [(context_chunk chunk, name_space, request_chunk chunk)],
                  mc_active_push_count := mc_active_push_count s + 1\<rparr>))"

fun push_contexts ::
  "'v metric_lib \<Rightarrow> clock \<Rightarrow> string \<Rightarrow> nat list \<Rightarrow> 'v chunk \<Rightarrow> 'v metric_client \<Rightarrow> cpp_fault + ('v chunk \<times> 'v metric_client)" where
  "push_contexts L now name_space [] chunk s = Inr (chunk, s)"
| "push_contexts L now name_space (c # contexts) chunk s =
     (case ParseRequestToDatum L (now c) (mc_requests s ! c) kAwsMetricDatumSizeLimit of
        Inl code \<Rightarrow> push_contexts L now name_space contexts chunk (finish_metrics c (FailureExecutionResult code) s)
      | Inr datum_list \<Rightarrow>
          let datums_payload = int (ml_payload L name_space datum_list)
          in if datums_payload > kAwsPayloadSizeLimit
             then push_contexts L now name_space contexts chunk
               (finish_metrics c (FailureExecutionResult SC_AWS_METRIC_CLIENT_PROVIDER_REQUEST_PAYLOAD_OVERSIZE) s)
             else bindE
               (if chunk_size chunk + int (length datum_list) > kAwsMetricDatumSizeLimit \<or> chunk_payload chunk + datums_payload > kAwsPayloadSizeLimit
                then bindE (PutMetricDataAsync name_space chunk s) (\<lambda>s1. Inr (empty_chunk, s1))
                else Inr (chunk, s))
               (\<lambda>(chunk1, s1). push_contexts L now name_space contexts
                  \<lparr>context_chunk = context_chunk chunk1 @ [c], request_chunk = request_chunk chunk1 @ datum_list,
                   chunk_size = chunk_size chunk1 + int (length datum_list), chunk_payload = chunk_payload chunk1 + datums_payload\<rparr> s1))"

definition batch_namespace :: "nat list \<Rightarrow> 'v metric_client \<Rightarrow> string" where
  "batch_namespace metric_requests_vector s = c_str
     (if mo_metric_namespace (mc_options s) \<noteq> [] then mo_metric_namespace (mc_options s)
      else pm_metric_namespace (mc_requests s ! hd metric_requests_vector))"

definition MetricsBatchPush ::
  "'v metric_lib \<Rightarrow> clock \<Rightarrow> nat list \<Rightarrow> 'v metric_client \<Rightarrow> cpp_fault + (ExecutionResult \<times> 'v metric_client)" where
  "MetricsBatchPush L now metric_requests_vector s =
     (if metric_requests_vector = [] then Inr (SuccessExecutionResult, s)
      else if \<not> mo_enable_batch_recording (mc_options s) \<and> length metric_requests_vector > 1
      then Inr (FailureExecutionResult SC_AWS_METRIC_CLIENT_PROVIDER_SHOULD_ENABLE_BATCH_RECORDING, s)
      else let name_space = batch_namespace metric_requests_vector s
           in bindE (push_contexts L now name_space metric_requests_vector empty_chunk s) (\<lambda>(chunk, s1).
                bindE (if context_chunk chunk \<noteq> [] then PutMetricDataAsync name_space chunk s1 else Inr s1) (\<lambda>s2.
                  Inr (SuccessExecutionResult, s2))))"

text \<open>\<open>FinishContext\<close> gives the context to the executor, which must exist, or finishes it if the executor refuses.\<close>

fun finish_contexts :: "(nat \<Rightarrow> ExecutionResult) \<Rightarrow> ExecutionResult \<Rightarrow> nat list \<Rightarrow> 'v metric_client \<Rightarrow> cpp_fault + 'v metric_client" where
  "finish_contexts scheduled r [] s = Inr s"
| "finish_contexts scheduled r (c # contexts) s =
     (if \<not> mc_has_executor s then Inl UndefinedBehaviour
      else finish_contexts scheduled r contexts
       (if Successful (scheduled c) then s\<lparr>mc_finishing := mc_finishing s @ [(c, r)]\<rparr> else finish_metrics c r s))"

definition OnPutMetricDataAsyncCallback ::
  "nat list \<Rightarrow> ExecutionResult \<Rightarrow> (nat \<Rightarrow> ExecutionResult) \<Rightarrow> 'v metric_client \<Rightarrow> cpp_fault + 'v metric_client" where
  "OnPutMetricDataAsyncCallback metric_requests_vector outcome scheduled s =
     (let s1 = s\<lparr>mc_active_push_count := mc_active_push_count s - 1\<rparr>
      in if Successful outcome then finish_contexts scheduled SuccessExecutionResult metric_requests_vector s1
         else if metric_requests_vector = [] then Inl UndefinedBehaviour
         else finish_contexts scheduled outcome metric_requests_vector s1)"

section \<open>The client\<close>

definition RunMetricsBatchPush :: "'v metric_lib \<Rightarrow> clock \<Rightarrow> 'v metric_client \<Rightarrow> cpp_fault + 'v metric_client" where
  "RunMetricsBatchPush L now s =
     (let requests_vector_copy = mc_vector s;
          s1 = s\<lparr>mc_vector := [], mc_number_metrics_in_vector := 0\<rparr>
      in if requests_vector_copy = [] then Inr s1
         else bindE (MetricsBatchPush L now requests_vector_copy s1) (\<lambda>(execution_result, s2). Inr s2))"

text \<open>
  \<open>ScheduleMetricsBatchPush\<close> is entered by \<open>Run\<close>, after it has released the mutex, and by a timer, which waits for the mutex after
  it. Its first step checks that the client is running. In the second the executor answers \<open>scheduled\<close>; a task it accepts can
  be cancelled.
\<close>

definition ScheduleMetricsBatchPush_check :: "'v metric_client \<Rightarrow> ExecutionResult" where
  "ScheduleMetricsBatchPush_check s =
     (if \<not> mc_is_running s then FailureExecutionResult SC_METRIC_CLIENT_PROVIDER_IS_NOT_RUNNING else SuccessExecutionResult)"

definition ScheduleMetricsBatchPush :: "ExecutionResult \<Rightarrow> 'v metric_client \<Rightarrow> cpp_fault + (ExecutionResult \<times> 'v metric_client)" where
  "ScheduleMetricsBatchPush scheduled s =
     (if \<not> mc_has_executor s then Inl UndefinedBehaviour
      else if \<not> Successful scheduled then Inr (scheduled, s)
      else Inr (scheduled, s\<lparr>mc_timers := mc_timers s @ [mc_next_timer s],
                  mc_cancellation := Some (mc_next_timer s), mc_next_timer := mc_next_timer s + 1\<rparr>))"

text \<open>Nothing but the timer goes on when it returns.\<close>

definition ScheduleMetricsBatchPush_return :: "bool \<Rightarrow> 'v metric_client \<Rightarrow> 'v metric_client" where
  "ScheduleMetricsBatchPush_return timer s = (if timer then s\<lparr>mc_waking := mc_waking s + 1\<rparr> else s)"

definition MetricClientProvider_Run :: "'v metric_client \<Rightarrow> ExecutionResult \<times> 'v metric_client" where
  "MetricClientProvider_Run s =
     (if mc_is_running s then (FailureExecutionResult SC_METRIC_CLIENT_PROVIDER_IS_ALREADY_RUNNING, s\<lparr>mc_mutex_lost := True\<rparr>)
      else let s1 = s\<lparr>mc_is_running := True\<rparr>
           in (SuccessExecutionResult,
               if mo_enable_batch_recording (mc_options s1) then s1\<lparr>mc_schedulers := mc_schedulers s1 @ [(False, False)]\<rparr> else s1))"

text \<open>What the client for AWS does behind it, when the instance client answers \<open>region_code\<close>.\<close>

definition AwsMetricClientProvider_Run_client :: "ExecutionResult \<Rightarrow> 'v metric_client \<Rightarrow> ExecutionResult \<times> 'v metric_client" where
  "AwsMetricClientProvider_Run_client region_code s =
     (if \<not> Successful region_code then (region_code, s) else (SuccessExecutionResult, s\<lparr>mc_has_client := True\<rparr>))"

text \<open>\<open>Stop\<close> up to its loop, which waits until no push is active.\<close>

definition MetricClientProvider_Stop :: "'v metric_lib \<Rightarrow> clock \<Rightarrow> 'v metric_client \<Rightarrow> cpp_fault + 'v metric_client" where
  "MetricClientProvider_Stop L now s =
     (let s1 = s\<lparr>mc_is_running := False\<rparr>
      in if mo_enable_batch_recording (mc_options s1)
         then case mc_cancellation s1 of
                None \<Rightarrow> Inl ThrowsException
              | Some timer \<Rightarrow> RunMetricsBatchPush L now (s1\<lparr>mc_timers := removeAll timer (mc_timers s1)\<rparr>)
         else Inr s1)"

definition MetricClientProvider_Stop_returns :: "'v metric_client \<Rightarrow> bool" where
  "MetricClientProvider_Stop_returns s \<longleftrightarrow> mc_active_push_count s = 0"

definition PutMetrics :: "PutMetricsRequest \<Rightarrow> 'v metric_client \<Rightarrow> ExecutionResult \<times> 'v metric_client" where
  "PutMetrics request s =
     (let c = length (mc_requests s); s1 = s\<lparr>mc_requests := mc_requests s @ [request]\<rparr>; validation = ValidateRequest request (mc_options s)
      in if \<not> mc_is_running s1 then
           let r = FailureExecutionResult SC_METRIC_CLIENT_PROVIDER_IS_NOT_RUNNING in (r, finish_metrics c r s1)
         else if \<not> Successful validation then (validation, finish_metrics c validation s1)
         else (SuccessExecutionResult, s1\<lparr>mc_checked := mc_checked s1 @ [c]\<rparr>))"

definition PutMetrics_locked :: "'v metric_lib \<Rightarrow> clock \<Rightarrow> nat \<Rightarrow> 'v metric_client \<Rightarrow> cpp_fault + 'v metric_client" where
  "PutMetrics_locked L now c s =
     (let s1 = s\<lparr>mc_vector := mc_vector s @ [c],
            mc_number_metrics_in_vector := mc_number_metrics_in_vector s + of_nat (length (pm_metrics (mc_requests s ! c)))\<rparr>
      in if \<not> mo_enable_batch_recording (mc_options s1) \<or> mc_number_metrics_in_vector s1 \<ge> kMetricsBatchSize
         then RunMetricsBatchPush L now s1 else Inr s1)"

section \<open>Interleaving\<close>

text \<open>
  Calls of the four operations; \<open>Schedules i\<close>: the \<open>i\<close>-th thread in \<open>ScheduleMetricsBatchPush\<close> goes on; \<open>Locks i\<close>: the \<open>i\<close>-th
  waiting call gets the mutex; \<open>Fires i\<close>: the executor runs the \<open>i\<close>-th timer, which schedules the next one; \<open>Wakes\<close>: a timer that did
  gets the mutex; \<open>Answers i\<close>: CloudWatch answers the \<open>i\<close>-th request under
  way; \<open>Finishes i\<close>: the executor finishes the \<open>i\<close>-th context it was given. Nothing that needs a lost mutex goes on.
\<close>

datatype metric_event = Runs | Schedules nat ExecutionResult | RunsClient ExecutionResult | Stops clock | Puts PutMetricsRequest | Locks nat clock
  | Fires nat | Wakes clock | Answers nat ExecutionResult "nat \<Rightarrow> ExecutionResult" | Finishes nat

definition remove_nth :: "nat \<Rightarrow> 'a list \<Rightarrow> 'a list" where
  "remove_nth i xs = take i xs @ drop (Suc i) xs"

fun metric_step :: "'v metric_lib \<Rightarrow> 'v metric_client \<Rightarrow> metric_event \<Rightarrow> cpp_fault + 'v metric_client" where
  "metric_step L s Runs = (if mc_mutex_lost s then Inr s else Inr (snd (MetricClientProvider_Run s)))"
| "metric_step L s (Schedules i scheduled) =
     (if i \<ge> length (mc_schedulers s) then Inr s
      else let s1 = s\<lparr>mc_schedulers := remove_nth i (mc_schedulers s)\<rparr>
           in case mc_schedulers s ! i of
                (timer, False) \<Rightarrow>
                  Inr (if Successful (ScheduleMetricsBatchPush_check s1) then s1\<lparr>mc_schedulers := mc_schedulers s1 @ [(timer, True)]\<rparr>
                       else ScheduleMetricsBatchPush_return timer s1)
              | (timer, True) \<Rightarrow>
                  bindE (ScheduleMetricsBatchPush scheduled s1) (\<lambda>(execution_result, s2). Inr (ScheduleMetricsBatchPush_return timer s2)))"
| "metric_step L s (RunsClient region_code) = Inr (snd (AwsMetricClientProvider_Run_client region_code s))"
| "metric_step L s (Stops now) = (if mc_mutex_lost s then Inr s else MetricClientProvider_Stop L now s)"
| "metric_step L s (Puts request) = Inr (snd (PutMetrics request s))"
| "metric_step L s (Locks i now) =
     (if mc_mutex_lost s \<or> i \<ge> length (mc_checked s) then Inr s
      else PutMetrics_locked L now (mc_checked s ! i) (s\<lparr>mc_checked := remove_nth i (mc_checked s)\<rparr>))"
| "metric_step L s (Fires i) =
     (if i \<ge> length (mc_timers s) then Inr s
      else Inr (s\<lparr>mc_timers := remove_nth i (mc_timers s), mc_schedulers := mc_schedulers s @ [(True, False)]\<rparr>))"
| "metric_step L s (Wakes now) =
     (if mc_mutex_lost s \<or> mc_waking s = 0 then Inr s else RunMetricsBatchPush L now (s\<lparr>mc_waking := mc_waking s - 1\<rparr>))"
| "metric_step L s (Answers i outcome scheduled) =
     (if i \<ge> length (mc_sent s) then Inr s
      else OnPutMetricDataAsyncCallback (fst (mc_sent s ! i)) outcome scheduled (s\<lparr>mc_sent := remove_nth i (mc_sent s)\<rparr>))"
| "metric_step L s (Finishes i) =
     (if i \<ge> length (mc_finishing s) then Inr s
      else Inr (finish_metrics (fst (mc_finishing s ! i)) (snd (mc_finishing s ! i)) (s\<lparr>mc_finishing := remove_nth i (mc_finishing s)\<rparr>)))"

fun metric_run :: "'v metric_lib \<Rightarrow> 'v metric_client \<Rightarrow> metric_event list \<Rightarrow> cpp_fault + 'v metric_client" where
  "metric_run L s [] = Inr s"
| "metric_run L s (e # es) = bindE (metric_step L s e) (\<lambda>s1. metric_run L s1 es)"

end
