(* ===== verification/Metric_Client_Correct.thy ===== *)
theory Metric_Client_Correct
  imports Metric_Client "HOL-Library.Multiset"
begin

text \<open>
  A push splits its requests into chunks within the limits of CloudWatch and loses none; however calls, timers, answers and a stop
  interleave, every context is in one place and is finished at most once; and the ways in which the client loses a call, blocks or fails.
\<close>

section \<open>A push\<close>

definition push_check :: "'v metric_lib \<Rightarrow> (nat \<Rightarrow> int) \<Rightarrow> string \<Rightarrow> PutMetricsRequest \<Rightarrow> StatusCode + 'v MetricDatum list" where
  "push_check L now name_space request =
     bindE (ParseRequestToDatum L now request kAwsMetricDatumSizeLimit) (\<lambda>datum_list.
       if int (ml_payload L name_space datum_list) > kAwsPayloadSizeLimit then Inl SC_AWS_METRIC_CLIENT_PROVIDER_REQUEST_PAYLOAD_OVERSIZE
       else Inr datum_list)"

definition pushed :: "'v metric_lib \<Rightarrow> clock \<Rightarrow> string \<Rightarrow> PutMetricsRequest list \<Rightarrow> nat list \<Rightarrow> nat list" where
  "pushed L now name_space requests = filter (\<lambda>c. \<not> isl (push_check L (now c) name_space (requests ! c)))"

definition push_data :: "'v metric_lib \<Rightarrow> clock \<Rightarrow> string \<Rightarrow> PutMetricsRequest list \<Rightarrow> nat \<Rightarrow> 'v MetricDatum list" where
  "push_data L now name_space requests c = projr (push_check L (now c) name_space (requests ! c))"

definition rejected :: "'v metric_lib \<Rightarrow> clock \<Rightarrow> string \<Rightarrow> PutMetricsRequest list \<Rightarrow> nat list \<Rightarrow> (nat \<times> ExecutionResult) list" where
  "rejected L now name_space requests contexts =
     map (\<lambda>c. (c, FailureExecutionResult (projl (push_check L (now c) name_space (requests ! c)))))
       (filter (\<lambda>c. isl (push_check L (now c) name_space (requests ! c))) contexts)"

text \<open>A chunk is within both limits, and it has data only with contexts.\<close>

definition chunk_ok :: "'v metric_lib \<Rightarrow> clock \<Rightarrow> string \<Rightarrow> PutMetricsRequest list \<Rightarrow> 'v chunk \<Rightarrow> bool" where
  "chunk_ok L now name_space requests chunk \<longleftrightarrow>
     request_chunk chunk = concat (map (push_data L now name_space requests) (context_chunk chunk)) \<and>
     chunk_size chunk = int (length (request_chunk chunk)) \<and> chunk_size chunk \<le> kAwsMetricDatumSizeLimit \<and>
     chunk_payload chunk = int (sum_list (map (\<lambda>c. ml_payload L name_space (push_data L now name_space requests c)) (context_chunk chunk))) \<and>
     chunk_payload chunk \<le> kAwsPayloadSizeLimit"

lemma parse_metrics_length: "parse_metrics L now metrics = Inr datum_list \<Longrightarrow> length datum_list = length metrics"
  by (induction metrics arbitrary: now datum_list) (auto simp: bindE_Inr_iff)

lemma push_check_small: "push_check L now name_space request = Inr datum_list \<Longrightarrow>
  int (length datum_list) \<le> kAwsMetricDatumSizeLimit \<and> int (ml_payload L name_space datum_list) \<le> kAwsPayloadSizeLimit"
  by (auto simp: push_check_def ParseRequestToDatum_def bindE_Inr_iff parse_metrics_length split: if_splits)

lemma chunk_ok_empty [simp]: "chunk_ok L now name_space requests empty_chunk"
  by (simp add: chunk_ok_def empty_chunk_def kAwsMetricDatumSizeLimit_def kAwsPayloadSizeLimit_def)

definition add_to_chunk :: "nat \<Rightarrow> 'v MetricDatum list \<Rightarrow> int \<Rightarrow> 'v chunk \<Rightarrow> 'v chunk" where
  "add_to_chunk c datum_list payload chunk =
     \<lparr>context_chunk = context_chunk chunk @ [c], request_chunk = request_chunk chunk @ datum_list,
      chunk_size = chunk_size chunk + int (length datum_list), chunk_payload = chunk_payload chunk + payload\<rparr>"

lemma chunk_ok_add:
  assumes "chunk_ok L now name_space requests chunk" "push_check L (now c) name_space (requests ! c) = Inr datum_list"
    "chunk_size chunk + int (length datum_list) \<le> kAwsMetricDatumSizeLimit"
    "chunk_payload chunk + int (ml_payload L name_space datum_list) \<le> kAwsPayloadSizeLimit"
  shows "chunk_ok L now name_space requests (add_to_chunk c datum_list (int (ml_payload L name_space datum_list)) chunk)"
  using assms by (simp add: chunk_ok_def add_to_chunk_def push_data_def)

text \<open>One context of a push.\<close>

lemma push_context:
  "push_contexts L now name_space (c # contexts) chunk s =
     (case push_check L (now c) name_space (mc_requests s ! c) of
        Inl code \<Rightarrow> push_contexts L now name_space contexts chunk (finish_metrics c (FailureExecutionResult code) s)
      | Inr datum_list \<Rightarrow>
          bindE (if chunk_size chunk + int (length datum_list) > kAwsMetricDatumSizeLimit \<or>
                   chunk_payload chunk + int (ml_payload L name_space datum_list) > kAwsPayloadSizeLimit
                 then bindE (PutMetricDataAsync name_space chunk s) (\<lambda>s1. Inr (empty_chunk, s1)) else Inr (chunk, s))
            (\<lambda>(chunk1, s1). push_contexts L now name_space contexts (add_to_chunk c datum_list (int (ml_payload L name_space datum_list)) chunk1) s1))"
  by (cases "ParseRequestToDatum L (now c) (mc_requests s ! c) kAwsMetricDatumSizeLimit")
    (simp_all add: push_check_def Let_def add_to_chunk_def del: push_contexts.simps(1))

definition sent_chunk :: "string \<Rightarrow> 'v chunk \<Rightarrow> nat list \<times> string \<times> 'v MetricDatum list" where
  "sent_chunk name_space chunk = (context_chunk chunk, name_space, request_chunk chunk)"

definition after_push :: "string \<Rightarrow> 'v chunk list \<Rightarrow> (nat \<times> ExecutionResult) list \<Rightarrow> 'v metric_client \<Rightarrow> 'v metric_client" where
  "after_push name_space chunks failed s =
     s\<lparr>mc_sent := mc_sent s @ map (sent_chunk name_space) chunks, mc_active_push_count := mc_active_push_count s + of_nat (length chunks),
       mc_finished := mc_finished s @ failed\<rparr>"

lemma after_push_simps [simp]:
  "mc_requests (after_push name_space chunks failed s) = mc_requests s" "mc_has_client (after_push name_space chunks failed s) = mc_has_client s"
  "after_push name_space [] [] s = s"
  "after_push name_space chunks2 failed2 (after_push name_space chunks failed s) = after_push name_space (chunks @ chunks2) (failed @ failed2) s"
  "mc_has_client s \<Longrightarrow> PutMetricDataAsync name_space chunk s = Inr (after_push name_space [chunk] [] s)"
  by (simp_all add: after_push_def PutMetricDataAsync_def sent_chunk_def)

lemma finish_as_push: "finish_metrics c r s = after_push name_space [] [(c, r)] s"
  by (simp add: after_push_def finish_metrics_def)

definition chunks_ok :: "'v metric_lib \<Rightarrow> clock \<Rightarrow> string \<Rightarrow> PutMetricsRequest list \<Rightarrow> 'v chunk list \<Rightarrow> bool" where
  "chunks_ok L now name_space requests chunks \<longleftrightarrow>
     list_all (\<lambda>chunk. chunk_ok L now name_space requests chunk \<and> context_chunk chunk \<noteq> []) chunks"

lemma push_contexts_exact:
  assumes "mc_has_client s" "chunk_ok L now name_space (mc_requests s) chunk"
  shows "\<exists>chunks chunk'. push_contexts L now name_space contexts chunk s =
      Inr (chunk', after_push name_space chunks (rejected L now name_space (mc_requests s) contexts) s) \<and>
    chunk_ok L now name_space (mc_requests s) chunk' \<and> chunks_ok L now name_space (mc_requests s) chunks \<and>
    concat (map context_chunk (chunks @ [chunk'])) = context_chunk chunk @ pushed L now name_space (mc_requests s) contexts"
  using assms
proof (induction contexts arbitrary: chunk s)
  case Nil
  then show ?case by (intro exI [of _ "[]"]) (simp add: rejected_def pushed_def chunks_ok_def)
next
  case (Cons c contexts)
  let ?requests = "mc_requests s"
  show ?case
  proof (cases "push_check L (now c) name_space (?requests ! c)")
    case (Inl code)
    obtain chunks chunk' where "push_contexts L now name_space contexts chunk (finish_metrics c (FailureExecutionResult code) s) =
        Inr (chunk', after_push name_space chunks ((c, FailureExecutionResult code) # rejected L now name_space ?requests contexts) s)"
      "chunk_ok L now name_space ?requests chunk'" "chunks_ok L now name_space ?requests chunks"
      "concat (map context_chunk (chunks @ [chunk'])) = context_chunk chunk @ pushed L now name_space ?requests contexts"
      using Cons.IH [of "after_push name_space [] [(c, FailureExecutionResult code)] s" chunk] Cons.prems
      by (auto simp: finish_as_push [where name_space = name_space])
    then show ?thesis unfolding push_context using Inl by (auto simp: rejected_def pushed_def)
  next
    case (Inr datum_list)
    let ?payload = "int (ml_payload L name_space datum_list)"
    let ?full = "chunk_size chunk + int (length datum_list) > kAwsMetricDatumSizeLimit \<or> chunk_payload chunk + ?payload > kAwsPayloadSizeLimit"
    note small = push_check_small [OF Inr]
    show ?thesis
    proof (cases ?full)
      case True
      have ne: "context_chunk chunk \<noteq> []" using True small Cons.prems(2) by (auto simp: chunk_ok_def)
      have "chunk_ok L now name_space ?requests (add_to_chunk c datum_list ?payload empty_chunk)"
        using small Inr by (intro chunk_ok_add) (simp_all, simp_all add: empty_chunk_def)
      then obtain chunks chunk' where "push_contexts L now name_space contexts (add_to_chunk c datum_list ?payload empty_chunk) (after_push name_space [chunk] [] s) =
          Inr (chunk', after_push name_space (chunk # chunks) (rejected L now name_space ?requests contexts) s)"
        "chunk_ok L now name_space ?requests chunk'" "chunks_ok L now name_space ?requests chunks"
        "concat (map context_chunk (chunks @ [chunk'])) = c # pushed L now name_space ?requests contexts"
        using Cons.IH [of "after_push name_space [chunk] [] s" "add_to_chunk c datum_list ?payload empty_chunk"] Cons.prems(1)
        by (auto simp: add_to_chunk_def empty_chunk_def)
      then show ?thesis unfolding push_context using Inr True Cons.prems ne
        by (intro exI [of _ "chunk # chunks"] exI [of _ chunk']) (simp add: rejected_def pushed_def chunks_ok_def)
    next
      case False
      have "chunk_ok L now name_space ?requests (add_to_chunk c datum_list ?payload chunk)"
        using False Inr Cons.prems(2) by (intro chunk_ok_add) simp_all
      then obtain chunks chunk' where "push_contexts L now name_space contexts (add_to_chunk c datum_list ?payload chunk) s =
          Inr (chunk', after_push name_space chunks (rejected L now name_space ?requests contexts) s)"
        "chunk_ok L now name_space ?requests chunk'" "chunks_ok L now name_space ?requests chunks"
        "concat (map context_chunk (chunks @ [chunk'])) = context_chunk chunk @ c # pushed L now name_space ?requests contexts"
        using Cons.IH [of s "add_to_chunk c datum_list ?payload chunk"] Cons.prems(1) by (auto simp: add_to_chunk_def)
      then show ?thesis unfolding push_context using Inr False
        by (intro exI [of _ chunks] exI [of _ chunk']) (simp add: rejected_def pushed_def)
    qed
  qed
qed

lemma batch_push_exact:
  assumes "mc_has_client s" "contexts \<noteq> []" "mo_enable_batch_recording (mc_options s) \<or> length contexts = 1" "name_space = batch_namespace contexts s"
  shows "\<exists>chunks. MetricsBatchPush L now contexts s =
      Inr (SuccessExecutionResult, after_push name_space chunks (rejected L now name_space (mc_requests s) contexts) s) \<and>
    chunks_ok L now name_space (mc_requests s) chunks \<and> concat (map context_chunk chunks) = pushed L now name_space (mc_requests s) contexts"
proof -
  obtain chunks chunk' where p: "push_contexts L now name_space contexts empty_chunk s =
      Inr (chunk', after_push name_space chunks (rejected L now name_space (mc_requests s) contexts) s)"
    "chunk_ok L now name_space (mc_requests s) chunk'" "chunks_ok L now name_space (mc_requests s) chunks"
    "concat (map context_chunk (chunks @ [chunk'])) = pushed L now name_space (mc_requests s) contexts"
    using push_contexts_exact [OF assms(1) chunk_ok_empty, of L now name_space contexts] by (auto simp: empty_chunk_def)
  have guard: "\<not> (\<not> mo_enable_batch_recording (mc_options s) \<and> length contexts > 1)" using assms(3) by auto
  show ?thesis
  proof (cases "context_chunk chunk' = []")
    case True
    then show ?thesis using p assms(1,2,4) guard by (intro exI [of _ chunks]) (simp add: MetricsBatchPush_def Let_def)
  next
    case False
    then show ?thesis using p assms(1,2,4) guard
      by (intro exI [of _ "chunks @ [chunk']"]) (simp add: MetricsBatchPush_def Let_def chunks_ok_def)
  qed
qed

section \<open>Every run\<close>

text \<open>Where the contexts are.\<close>

definition places :: "'v metric_client \<Rightarrow> nat multiset" where
  "places s = mset (mc_checked s) + mset (mc_vector s) + mset (concat (map fst (mc_sent s))) + mset (map fst (mc_finishing s)) +
     mset (map fst (mc_finished s))"

definition metrics_of :: "PutMetricsRequest list \<Rightarrow> nat list \<Rightarrow> nat" where
  "metrics_of requests contexts = sum_list (map (\<lambda>c. length (pm_metrics (requests ! c))) contexts)"

definition sent_ok :: "nat list \<times> string \<times> 'v MetricDatum list \<Rightarrow> bool" where
  "sent_ok x \<longleftrightarrow> fst x \<noteq> [] \<and> length (snd (snd x)) \<le> 1000"

definition counts_ok :: "'v metric_client \<Rightarrow> bool" where
  "counts_ok s \<longleftrightarrow> mc_has_executor s \<and> (\<forall>request \<in> set (mc_requests s). length (pm_metrics request) < 2 ^ 31) \<and>
     mc_number_metrics_in_vector s = of_nat (metrics_of (mc_requests s) (mc_vector s)) \<and> metrics_of (mc_requests s) (mc_vector s) < 1000 \<and>
     (mo_enable_batch_recording (mc_options s) \<or> mc_vector s = []) \<and>
     (\<forall>x \<in> set (mc_sent s). sent_ok x) \<and> mc_active_push_count s = of_nat (length (mc_sent s))"

definition metric_inv :: "'v metric_client \<Rightarrow> bool" where
  "metric_inv s \<longleftrightarrow> places s = mset [0..<length (mc_requests s)] \<and> counts_ok s"

lemma remove_nth_mset: "i < length xs \<Longrightarrow> mset xs = mset (remove_nth i xs) + {#xs ! i#}"
  unfolding remove_nth_def by (subst (1) id_take_nth_drop [of i xs]) simp_all

lemma rejected_or_pushed:
  "mset (pushed L now name_space requests contexts) + mset (map fst (rejected L now name_space requests contexts)) = mset contexts"
  by (induction contexts) (auto simp: pushed_def rejected_def)

lemma chunks_sent:
  assumes "chunks_ok L now name_space requests chunks"
  shows "\<forall>x \<in> set (map (sent_chunk name_space) chunks). sent_ok x"
  using assms by (auto simp: chunks_ok_def list_all_iff sent_chunk_def sent_ok_def chunk_ok_def kAwsMetricDatumSizeLimit_def)

text \<open>What is left of the invariant while the vector is being pushed, and after.\<close>

definition vector_free :: "'v metric_client \<Rightarrow> bool" where
  "vector_free s \<longleftrightarrow> places s = mset [0..<length (mc_requests s)] \<and> mc_has_executor s \<and> (\<forall>request \<in> set (mc_requests s). length (pm_metrics request) < 2 ^ 31) \<and>
     (mo_enable_batch_recording (mc_options s) \<or> length (mc_vector s) \<le> 1) \<and>
     (\<forall>x \<in> set (mc_sent s). sent_ok x) \<and> mc_active_push_count s = of_nat (length (mc_sent s))"

lemma run_push_inv:
  assumes "vector_free s" "mc_has_client s"
  shows "\<exists>s'. RunMetricsBatchPush L now s = Inr s' \<and> metric_inv s' \<and> mc_vector s' = [] \<and> mc_checked s' = mc_checked s"
proof (cases "mc_vector s = []")
  case True
  then show ?thesis using assms(1) by (simp add: RunMetricsBatchPush_def Let_def metric_inv_def counts_ok_def vector_free_def places_def metrics_of_def)
next
  case False
  let ?s = "s\<lparr>mc_vector := [], mc_number_metrics_in_vector := 0\<rparr>"
  let ?name_space = "batch_namespace (mc_vector s) ?s"
  have "mo_enable_batch_recording (mc_options ?s) \<or> length (mc_vector s) = 1" using assms(1) False
    by (cases "mc_vector s") (auto simp: vector_free_def)
  then obtain chunks where chunks: "MetricsBatchPush L now (mc_vector s) ?s =
      Inr (SuccessExecutionResult, after_push ?name_space chunks (rejected L now ?name_space (mc_requests s) (mc_vector s)) ?s)"
    "chunks_ok L now ?name_space (mc_requests s) chunks" "concat (map context_chunk chunks) = pushed L now ?name_space (mc_requests s) (mc_vector s)"
    using batch_push_exact [of ?s "mc_vector s" ?name_space L now] assms(2) False by auto
  let ?s' = "after_push ?name_space chunks (rejected L now ?name_space (mc_requests s) (mc_vector s)) ?s"
  have "mset (concat (map fst (mc_sent ?s'))) = mset (concat (map fst (mc_sent s))) + mset (pushed L now ?name_space (mc_requests s) (mc_vector s))"
    by (simp add: after_push_def chunks(3) [symmetric] sent_chunk_def comp_def)
  then have "places ?s' = places s"
    using rejected_or_pushed [of L now ?name_space "mc_requests s" "mc_vector s"] by (simp add: places_def after_push_def)
  then have "metric_inv ?s'"
    using assms(1) chunks_sent [OF chunks(2)] by (auto simp: metric_inv_def counts_ok_def vector_free_def after_push_def metrics_of_def)
  then show ?thesis using chunks(1) False by (simp add: RunMetricsBatchPush_def Let_def) (simp add: after_push_def)
qed

lemma inv_vector_free: "metric_inv s \<Longrightarrow> vector_free s"
  by (auto simp: metric_inv_def counts_ok_def vector_free_def)

text \<open>
  The client exists before metrics are pushed, and one that batches has scheduled a timer before it is stopped. Fewer than \<open>2 ^ 31\<close>
  metrics fit into a message.
\<close>

fun metric_fits :: "'v metric_client \<Rightarrow> metric_event \<Rightarrow> bool" where
  "metric_fits s (Puts request) = (int (length (pm_metrics request)) < 2 ^ 31)"
| "metric_fits s (Stops now) = (mo_enable_batch_recording (mc_options s) \<longrightarrow> mc_has_client s \<and> mc_cancellation s \<noteq> None)"
| "metric_fits s (Locks i now) = mc_has_client s"
| "metric_fits s (Wakes now) = mc_has_client s"
| "metric_fits s _ = True"

fun metric_run_fits :: "'v metric_lib \<Rightarrow> 'v metric_client \<Rightarrow> metric_event list \<Rightarrow> bool" where
  "metric_run_fits L s [] = True"
| "metric_run_fits L s (e # es) = (metric_fits s e \<and> (case metric_step L s e of Inl _ \<Rightarrow> True | Inr s1 \<Rightarrow> metric_run_fits L s1 es))"

lemma finish_contexts_same:
  assumes "mc_has_executor s"
  shows "\<exists>s'. finish_contexts scheduled r contexts s = Inr s' \<and> places s' = places s + mset contexts \<and>
    counts_ok s' = counts_ok s \<and> mc_requests s' = mc_requests s"
  using assms
proof (induction contexts arbitrary: s)
  case (Cons c contexts)
  let ?s = "if Successful (scheduled c) then s\<lparr>mc_finishing := mc_finishing s @ [(c, r)]\<rparr> else finish_metrics c r s"
  have "mc_has_executor ?s" "places ?s = places s + {#c#}" "counts_ok ?s = counts_ok s" "mc_requests ?s = mc_requests s"
    using Cons.prems by (simp_all add: places_def counts_ok_def finish_metrics_def)
  then show ?case using Cons.IH [of ?s] Cons.prems by auto
qed simp

lemma answer_inv:
  assumes "metric_inv s"
  shows "\<exists>s'. metric_step L s (Answers i outcome scheduled) = Inr s' \<and> metric_inv s'"
proof (cases "i < length (mc_sent s)")
  case True
  let ?s = "s\<lparr>mc_sent := remove_nth i (mc_sent s), mc_active_push_count := mc_active_push_count s - 1\<rparr>"
  have sent: "mset (mc_sent s) = mset (remove_nth i (mc_sent s)) + {#mc_sent s ! i#}" using True by (rule remove_nth_mset)
  then have "set (mc_sent s) = insert (mc_sent s ! i) (set (remove_nth i (mc_sent s)))" by (metis add_mset_add_single set_mset_add_mset_insert set_mset_mset)
  moreover have "length (mc_sent s) = Suc (length (remove_nth i (mc_sent s)))" using True by (simp add: remove_nth_def)
  moreover have "mset (concat (map fst (mc_sent s))) = mset (concat (map fst (remove_nth i (mc_sent s)))) + mset (fst (mc_sent s ! i))"
    unfolding remove_nth_def by (subst (1) id_take_nth_drop [OF True]) simp
  then have places: "places ?s + mset (fst (mc_sent s ! i)) = places s" by (simp add: places_def ac_simps)
  ultimately have ok: "counts_ok ?s" "fst (mc_sent s ! i) \<noteq> []"
    using assms by (simp_all add: metric_inv_def counts_ok_def sent_ok_def)
  have "\<exists>s'. finish_contexts scheduled r (fst (mc_sent s ! i)) ?s = Inr s' \<and> metric_inv s'" for r
    using finish_contexts_same [of ?s scheduled r "fst (mc_sent s ! i)"] ok assms places
    by (auto simp: metric_inv_def counts_ok_def)
  then show ?thesis using True ok(2) by (simp add: OnPutMetricDataAsyncCallback_def Let_def)
qed (use assms in simp)

lemma metrics_of_more: "(\<forall>c \<in> set contexts. c < length requests) \<Longrightarrow> metrics_of (requests @ [request]) contexts = metrics_of requests contexts"
  by (simp add: metrics_of_def nth_append cong: map_cong)

lemma places_bound:
  assumes "places s = mset [0..<n]"
  shows "\<forall>c \<in> set (mc_vector s). c < n" "\<forall>c \<in> set (mc_checked s). c < n"
proof -
  have "c \<in># places s" if "c \<in> set (mc_vector s) \<or> c \<in> set (mc_checked s)" for c using that by (auto simp: places_def)
  then show "\<forall>c \<in> set (mc_vector s). c < n" "\<forall>c \<in> set (mc_checked s). c < n" unfolding assms by auto
qed

lemma put_inv:
  assumes "metric_inv s" "length (pm_metrics request) < 2 ^ 31"
  shows "metric_inv (snd (PutMetrics request s))"
proof -
  have "metrics_of (mc_requests s @ [request]) (mc_vector s) = metrics_of (mc_requests s) (mc_vector s)"
    using assms(1) places_bound(1) by (intro metrics_of_more) (auto simp: metric_inv_def)
  then have "counts_ok (snd (PutMetrics request s))"
    using assms by (simp add: metric_inv_def counts_ok_def PutMetrics_def Let_def finish_metrics_def)
  moreover have "places (snd (PutMetrics request s)) = places s + {#length (mc_requests s)#}"
    "length (mc_requests (snd (PutMetrics request s))) = Suc (length (mc_requests s))"
    by (simp_all add: places_def PutMetrics_def Let_def finish_metrics_def)
  ultimately show ?thesis using assms(1) by (simp add: metric_inv_def)
qed

lemma lock_inv:
  assumes "metric_inv s" "mc_has_client s"
  shows "\<exists>s'. metric_step L s (Locks i now) = Inr s' \<and> metric_inv s'"
proof (cases "mc_mutex_lost s \<or> i \<ge> length (mc_checked s)")
  case False
  let ?c = "mc_checked s ! i"
  let ?n = "length (pm_metrics (mc_requests s ! ?c))"
  let ?s = "s\<lparr>mc_checked := remove_nth i (mc_checked s), mc_vector := mc_vector s @ [?c],
    mc_number_metrics_in_vector := mc_number_metrics_in_vector s + of_nat ?n\<rparr>"
  have "mset (mc_checked s) = mset (remove_nth i (mc_checked s)) + {#?c#}" using False by (intro remove_nth_mset) simp
  then have places: "places ?s = places s" by (simp add: places_def)
  have number: "mc_number_metrics_in_vector ?s = of_nat (metrics_of (mc_requests ?s) (mc_vector ?s))"
    "metrics_of (mc_requests s) (mc_vector s) < 1000" using assms(1) by (simp_all add: metric_inv_def counts_ok_def metrics_of_def)
  have "?c \<in> set (mc_checked s)" using False by simp
  then have "?c < length (mc_requests s)" using assms(1) places_bound(2) by (auto simp: metric_inv_def)
  then have "?n < 2 ^ 31" using assms(1) by (simp add: metric_inv_def counts_ok_def)
  then have small: "metrics_of (mc_requests ?s) (mc_vector ?s) < 2 ^ 64" using number(2) by (simp add: metrics_of_def)
  show ?thesis
  proof (cases "\<not> mo_enable_batch_recording (mc_options s) \<or> mc_number_metrics_in_vector ?s \<ge> kMetricsBatchSize")
    case True
    have "vector_free ?s" using assms(1) places by (auto simp: vector_free_def metric_inv_def counts_ok_def)
    then obtain s' where "RunMetricsBatchPush L now ?s = Inr s'" "metric_inv s'" using run_push_inv [of ?s L now] assms(2) by auto
    then show ?thesis using False True by (simp add: PutMetrics_locked_def Let_def)
  next
    case keep: False
    then have "metrics_of (mc_requests ?s) (mc_vector ?s) < 1000"
      using small unfolding number(1) by (simp add: kMetricsBatchSize_def word_le_nat_alt unat_of_nat)
    then have "metric_inv ?s" using assms(1) places keep number(1) by (simp add: metric_inv_def counts_ok_def)
    then show ?thesis using False keep by (simp add: PutMetrics_locked_def Let_def)
  qed
qed (use assms in auto)

lemma step_metric_inv:
  assumes "metric_inv s" "metric_fits s e"
  shows "\<exists>s'. metric_step L s e = Inr s' \<and> metric_inv s'"
proof (cases e)
  case Runs
  then show ?thesis using assms by (auto simp: MetricClientProvider_Run_def Let_def metric_inv_def counts_ok_def places_def)
next
  case (Schedules i scheduled)
  have "mc_has_executor s" using assms by (simp add: metric_inv_def counts_ok_def)
  then show ?thesis using Schedules assms
    by (auto simp: ScheduleMetricsBatchPush_def ScheduleMetricsBatchPush_return_def Let_def metric_inv_def counts_ok_def places_def
        split: prod.split bool.split)
next
  case (RunsClient region_code)
  then show ?thesis using assms by (simp add: AwsMetricClientProvider_Run_client_def metric_inv_def counts_ok_def places_def)
next
  case (Stops now)
  show ?thesis
  proof (cases "mc_mutex_lost s \<or> \<not> mo_enable_batch_recording (mc_options s)")
    case True
    then show ?thesis using Stops assms
      by (auto simp: MetricClientProvider_Stop_def metric_inv_def counts_ok_def places_def Let_def)
  next
    case False
    obtain timer where timer: "mc_cancellation s = Some timer" "mc_has_client s" using False Stops assms(2) by auto
    let ?s = "s\<lparr>mc_is_running := False, mc_timers := removeAll timer (mc_timers s)\<rparr>"
    have "vector_free ?s" using inv_vector_free [OF assms(1)] by (simp add: vector_free_def places_def)
    then obtain s' where "RunMetricsBatchPush L now ?s = Inr s'" "metric_inv s'" using run_push_inv [of ?s L now] timer(2) by auto
    then show ?thesis using Stops False timer(1) by (simp add: MetricClientProvider_Stop_def Let_def)
  qed
next
  case (Puts request)
  then show ?thesis using put_inv assms by simp
next
  case (Locks i now)
  then show ?thesis using lock_inv [OF assms(1), of L i now] assms(2) by simp
next
  case (Fires i)
  then show ?thesis using assms by (simp add: metric_inv_def counts_ok_def places_def)
next
  case (Wakes now)
  have "vector_free (s\<lparr>mc_waking := mc_waking s - 1\<rparr>)" using inv_vector_free [OF assms(1)] by (simp add: vector_free_def places_def)
  then obtain s' where "RunMetricsBatchPush L now (s\<lparr>mc_waking := mc_waking s - 1\<rparr>) = Inr s'" "metric_inv s'"
    using run_push_inv [of "s\<lparr>mc_waking := mc_waking s - 1\<rparr>" L now] Wakes assms(2) by auto
  then show ?thesis using Wakes assms by auto
next
  case (Answers i outcome scheduled)
  then show ?thesis using answer_inv assms by blast
next
  case (Finishes i)
  show ?thesis
  proof (cases "i < length (mc_finishing s)")
    case True
    then have "image_mset fst (mset (mc_finishing s)) = image_mset fst (mset (remove_nth i (mc_finishing s))) + {#fst (mc_finishing s ! i)#}"
      by (subst remove_nth_mset [OF True]) simp
    then show ?thesis using Finishes True assms by (simp add: finish_metrics_def metric_inv_def counts_ok_def places_def)
  qed (use Finishes assms in simp)
qed

lemma run_metric_inv:
  "metric_inv s \<Longrightarrow> metric_run_fits L s es \<Longrightarrow> \<exists>s'. metric_run L s es = Inr s' \<and> metric_inv s'"
proof (induction es arbitrary: s)
  case (Cons e es)
  obtain s1 where "metric_step L s e = Inr s1" "metric_inv s1" using step_metric_inv Cons.prems by (metis metric_run_fits.simps(2))
  then show ?case using Cons by simp
qed simp

text \<open>A lost mutex.\<close>

lemma finish_contexts_waiting:
  "finish_contexts scheduled r contexts s = Inr s' \<Longrightarrow>
    mc_checked s' = mc_checked s \<and> mc_vector s' = mc_vector s \<and> mc_mutex_lost s' = mc_mutex_lost s"
proof (induction contexts arbitrary: s)
  case (Cons c contexts)
  then show ?case by (fastforce simp: finish_metrics_def split: if_splits)
qed simp

lemma step_lost:
  assumes "mc_mutex_lost s" "metric_step L s e = Inr s'"
  shows "mc_mutex_lost s' \<and> mc_vector s' = mc_vector s \<and> (\<exists>more. mc_checked s' = mc_checked s @ more)"
proof (cases e)
  case (Schedules i scheduled)
  then show ?thesis using assms
    by (auto simp: ScheduleMetricsBatchPush_def ScheduleMetricsBatchPush_return_def Let_def split: prod.splits bool.splits if_splits)
next
  case (Answers i outcome scheduled)
  then show ?thesis using assms
    by (auto simp: OnPutMetricDataAsyncCallback_def Let_def dest!: finish_contexts_waiting split: if_splits)
qed (use assms in \<open>auto simp: AwsMetricClientProvider_Run_client_def PutMetrics_def Let_def finish_metrics_def split: if_splits\<close>)

lemma run_lost:
  "mc_mutex_lost s \<Longrightarrow> metric_run L s es = Inr s' \<Longrightarrow> mc_vector s' = mc_vector s \<and> (\<exists>more. mc_checked s' = mc_checked s @ more)"
proof (induction es arbitrary: s)
  case (Cons e es)
  then obtain s1 where s1: "metric_step L s e = Inr s1" "metric_run L s1 es = Inr s'" by (auto simp: bindE_Inr_iff)
  then show ?case using step_lost [OF Cons.prems(1) s1(1)] Cons.IH [of s1] by auto
qed simp











lemma new_metric_inv: "metric_inv (new_metric_client options True)"
  by (simp add: metric_inv_def counts_ok_def places_def new_metric_client_def metrics_of_def)

lemma distinct_part:
  assumes "mset xs \<subseteq># mset ys" "distinct ys"
  shows "distinct xs"
proof -
  obtain zs where "mset ys = mset (xs @ zs)" using assms(1) by (metis ex_mset mset_append subset_mset.le_iff_add)
  then have "distinct (xs @ zs)" using assms(2) mset_eq_imp_distinct_iff by blast
  then show ?thesis by simp
qed

section \<open>Properties\<close>

text \<open>Payloads of one byte for every datum, and texts that are all numbers: their lengths.\<close>

definition unary_metric_lib :: "nat metric_lib" where
  "unary_metric_lib = \<lparr>ml_stod = \<lambda>t. Some (length t), ml_payload = \<lambda>name_space datum_list. length datum_list\<rparr>"

definition metric_example :: PutMetricsRequest where
  "metric_example = \<lparr>pm_metric_namespace = ''n'',
     pm_metrics = [\<lparr>mt_name = ''m'', mt_value = ''1'', mt_unit = 14, mt_labels = [], mt_timestamp = 0\<rparr>]\<rparr>"

definition batching_example :: "bool \<Rightarrow> MetricBatchingOptions" where
  "batching_example enable = \<lparr>mo_metric_namespace = ''n'', mo_enable_batch_recording = enable\<rparr>"

text \<open>
  C15: A push to CloudWatch sends the data of every acceptable request, in order and each together with its context, in chunks of at
  most 1000 data and one megabyte, none of them empty, and finishes the contexts of all other requests at once with the reason.
\<close>

theorem metrics_push_exact:
  assumes "mc_has_client s" "contexts \<noteq> []" "mo_enable_batch_recording (mc_options s) \<or> length contexts = 1" "name_space = batch_namespace contexts s"
  shows "\<exists>sent s'. MetricsBatchPush L now contexts s = Inr (SuccessExecutionResult, s') \<and> mc_sent s' = mc_sent s @ sent \<and>
    concat (map fst sent) = pushed L now name_space (mc_requests s) contexts \<and>
    list_all (\<lambda>(chunk, sent_to, datum_list). chunk \<noteq> [] \<and> sent_to = name_space \<and>
      datum_list = concat (map (push_data L now name_space (mc_requests s)) chunk) \<and> length datum_list \<le> 1000 \<and>
      sum_list (map (\<lambda>c. ml_payload L name_space (push_data L now name_space (mc_requests s) c)) chunk) \<le> 1024 * 1024) sent \<and>
    mc_finished s' = mc_finished s @ rejected L now name_space (mc_requests s) contexts"
proof -
  obtain chunks where chunks: "MetricsBatchPush L now contexts s =
      Inr (SuccessExecutionResult, after_push name_space chunks (rejected L now name_space (mc_requests s) contexts) s)"
    "chunks_ok L now name_space (mc_requests s) chunks" "concat (map context_chunk chunks) = pushed L now name_space (mc_requests s) contexts"
    using batch_push_exact [OF assms] by blast
  show ?thesis
    using chunks by (intro exI [of _ "map (sent_chunk name_space) chunks"] exI)
      (auto simp: after_push_def sent_chunk_def comp_def list_all_iff chunks_ok_def chunk_ok_def kAwsMetricDatumSizeLimit_def kAwsPayloadSizeLimit_def)
qed

definition push_example :: "nat metric_client" where
  "push_example = (new_metric_client (batching_example True) True)\<lparr>mc_has_client := True,
     mc_requests := [metric_example, metric_example\<lparr>pm_metrics := map (\<lambda>metric. metric\<lparr>mt_unit := 0\<rparr>) (pm_metrics metric_example)\<rparr>]\<rparr>"

theorem metrics_push_exact_witness:
  "\<exists>s'. MetricsBatchPush unary_metric_lib (\<lambda>_ _. 5) [0, 1] push_example = Inr (SuccessExecutionResult, s') \<and>
    concat (map fst (mc_sent s')) = [0] \<and> map fst (mc_finished s') = [1]"
proof -
  have s: "mc_has_client push_example" "[0, 1] \<noteq> ([] :: nat list)" "mo_enable_batch_recording (mc_options push_example) \<or> length [0, 1 :: nat] = 1"
    "mc_sent push_example = []" "mc_finished push_example = []" "''n'' = batch_namespace [0, 1] push_example"
    by (simp_all add: push_example_def new_metric_client_def batching_example_def batch_namespace_def c_str_def)
  have p: "pushed unary_metric_lib (\<lambda>_ _. 5) ''n'' (mc_requests push_example) [0, 1] = [0]" by code_simp
  have r: "map fst (rejected unary_metric_lib (\<lambda>_ _. 5) ''n'' (mc_requests push_example) [0, 1]) = [1]" by code_simp
  obtain sent s' where "MetricsBatchPush unary_metric_lib (\<lambda>_ _. 5) [0, 1] push_example = Inr (SuccessExecutionResult, s')" "mc_sent s' = mc_sent push_example @ sent"
    "concat (map fst sent) = pushed unary_metric_lib (\<lambda>_ _. 5) ''n'' (mc_requests push_example) [0, 1]"
    "mc_finished s' = mc_finished push_example @ rejected unary_metric_lib (\<lambda>_ _. 5) ''n'' (mc_requests push_example) [0, 1]"
    using metrics_push_exact [OF s(1-3,6), of unary_metric_lib "\<lambda>_ _. 5"] by blast
  then show ?thesis using s(4,5) p r by simp
qed

text \<open>
  C14: However calls, timers, answers and stops interleave, if the client has an executor, the CloudWatch client exists before
  anything is pushed, and a client that batches has scheduled a timer before it is stopped, nothing faults, no context of \<open>PutMetrics\<close> is finished twice, fewer than 1000 metrics wait to be pushed, and once nothing is
  waiting or under way every context has been finished.
\<close>

theorem metrics_finish_once:
  assumes "metric_run_fits L (new_metric_client options True) es"
  shows "\<exists>s. metric_run L (new_metric_client options True) es = Inr s \<and> distinct (map fst (mc_finished s)) \<and>
    set (map fst (mc_finished s)) \<subseteq> {..<length (mc_requests s)} \<and> metrics_of (mc_requests s) (mc_vector s) < 1000 \<and>
    (mc_checked s = [] \<and> mc_vector s = [] \<and> mc_sent s = [] \<and> mc_finishing s = [] \<longrightarrow> set (map fst (mc_finished s)) = {..<length (mc_requests s)})"
proof -
  obtain s where s: "metric_run L (new_metric_client options True) es = Inr s" "metric_inv s"
    using run_metric_inv [OF new_metric_inv assms] by blast
  have part: "mset (map fst (mc_finished s)) \<subseteq># mset [0..<length (mc_requests s)]"
    using s(2) unfolding metric_inv_def places_def by (metis mset_subset_eq_add_right)
  have "distinct (map fst (mc_finished s))" using distinct_part [OF part] by simp
  moreover have "set (map fst (mc_finished s)) \<subseteq> {..<length (mc_requests s)}"
    using set_mset_mono [OF part] by (metis lessThan_atLeast0 set_mset_mset set_upt)
  moreover have "set (map fst (mc_finished s)) = {..<length (mc_requests s)}"
    if "mc_checked s = []" "mc_vector s = []" "mc_sent s = []" "mc_finishing s = []"
  proof -
    have "mset (map fst (mc_finished s)) = mset [0..<length (mc_requests s)]" using s(2) that by (simp add: metric_inv_def places_def)
    then show ?thesis by (metis lessThan_atLeast0 set_mset_mset set_upt)
  qed
  ultimately show ?thesis using s by (metis counts_ok_def metric_inv_def)
qed

theorem metrics_finish_once_witness:
  "\<exists>s. metric_run unary_metric_lib (new_metric_client (batching_example True) True)
      [Runs, Schedules 0 SuccessExecutionResult, Schedules 0 SuccessExecutionResult, RunsClient SuccessExecutionResult, Puts metric_example, Locks 0 (\<lambda>_ _. 1), Fires 0, Schedules 0 SuccessExecutionResult, Schedules 0 SuccessExecutionResult, Wakes (\<lambda>_ _. 2),
       Answers 0 SuccessExecutionResult (\<lambda>c. SuccessExecutionResult), Finishes 0, Stops (\<lambda>_ _. 3)] = Inr s \<and> set (map fst (mc_finished s)) = {0}"
proof -
  let ?es = "[Runs, Schedules 0 SuccessExecutionResult, Schedules 0 SuccessExecutionResult, RunsClient SuccessExecutionResult, Puts metric_example, Locks 0 (\<lambda>_ _. 1), Fires 0, Schedules 0 SuccessExecutionResult, Schedules 0 SuccessExecutionResult, Wakes (\<lambda>_ _. 2),
       Answers 0 SuccessExecutionResult (\<lambda>c. SuccessExecutionResult), Finishes 0, Stops (\<lambda>_ _. 3)]"
  have fits: "metric_run_fits unary_metric_lib (new_metric_client (batching_example True) True) ?es" by code_simp
  have run: "map_sum id (\<lambda>s. (length (mc_requests s), mc_checked s, mc_vector s, length (mc_sent s), length (mc_finishing s)))
      (metric_run unary_metric_lib (new_metric_client (batching_example True) True) ?es) = Inr (1, [], [], 0, 0)" by code_simp
  obtain s where "metric_run unary_metric_lib (new_metric_client (batching_example True) True) ?es = Inr s"
    "mc_checked s = [] \<and> mc_vector s = [] \<and> mc_sent s = [] \<and> mc_finishing s = [] \<longrightarrow> set (map fst (mc_finished s)) = {..<length (mc_requests s)}"
    using metrics_finish_once [OF fits] by blast
  then show ?thesis using run by (auto simp: lessThan_Suc)
qed

text \<open>
  C38: Running a client that is running returns without releasing the mutex: from then on, whatever happens, no metric is pushed from the vector and no call of
  \<open>PutMetrics\<close> that waits for the mutex ever goes on.
\<close>

theorem metric_run_twice_blocks:
  assumes "mc_is_running s" "\<not> mc_mutex_lost s" "metric_run L s (Runs # es) = Inr s'"
  shows "mc_vector s' = mc_vector s \<and> (\<exists>more. mc_checked s' = mc_checked s @ more)"
  using assms run_lost [of "s\<lparr>mc_mutex_lost := True\<rparr>" L es s'] by (simp add: MetricClientProvider_Run_def)

definition blocked_example :: "nat metric_client" where
  "blocked_example = (new_metric_client (batching_example True) True)\<lparr>mc_is_running := True, mc_has_client := True, mc_requests := [metric_example], mc_vector := [0]\<rparr>"

theorem metric_run_twice_blocks_witness:
  "\<exists>s'. metric_run unary_metric_lib blocked_example [Runs, Puts metric_example, Locks 0 (\<lambda>_ _. 1), Stops (\<lambda>_ _. 2)] = Inr s' \<and> mc_vector s' = [0]"
proof -
  let ?es = "[Puts metric_example, Locks 0 (\<lambda>_ _. 1), Stops (\<lambda>_ _. 2)]"
  have s: "mc_is_running blocked_example" "\<not> mc_mutex_lost blocked_example" "mc_vector blocked_example = [0]"
    by (simp_all add: blocked_example_def new_metric_client_def)
  have "\<not> isl (metric_run unary_metric_lib blocked_example (Runs # ?es))" by code_simp
  then obtain s' where s': "metric_run unary_metric_lib blocked_example (Runs # ?es) = Inr s'"
    by (cases "metric_run unary_metric_lib blocked_example (Runs # ?es)") auto
  then show ?thesis using metric_run_twice_blocks [OF s(1,2) s'] s(3) by auto
qed



text \<open>
  The other ways in which the client fails: one that batches throws when it is stopped before its first timer was scheduled, also if
  \<open>Run\<close> has started; a push before the CloudWatch client exists goes through a null pointer, and so does the answer
  to a push of a client that has no executor, which \<open>Init\<close> accepts if it does not batch.
\<close>

lemma stop_early_throws:
  assumes "mo_enable_batch_recording (mc_options s)" "mc_cancellation s = None" "\<not> mc_mutex_lost s"
  shows "metric_step L s (Stops now) = Inl ThrowsException"
  using assms by (simp add: MetricClientProvider_Stop_def Let_def)

lemma push_without_client:
  assumes "\<not> mc_has_client s" "\<not> mo_enable_batch_recording (mc_options s)" "mc_vector s = []" "\<not> mc_mutex_lost s" "mc_checked s = [c]"
    "push_check L (now c) (batch_namespace [c] s) (mc_requests s ! c) = Inr datum_list"
  shows "metric_step L s (Locks 0 now) = Inl UndefinedBehaviour"
proof -
  let ?s = "s\<lparr>mc_checked := [], mc_vector := [], mc_number_metrics_in_vector := 0\<rparr>"
  have n: "batch_namespace [c] ?s = batch_namespace [c] s" by (simp add: batch_namespace_def)
  have "push_contexts L now (batch_namespace [c] s) [c] empty_chunk ?s =
      Inr (add_to_chunk c datum_list (int (ml_payload L (batch_namespace [c] s) datum_list)) empty_chunk, ?s)"
    unfolding push_context using assms(6) push_check_small [OF assms(6)] by (simp add: empty_chunk_def)
  then show ?thesis using assms(1-5) n
    by (simp add: PutMetrics_locked_def RunMetricsBatchPush_def MetricsBatchPush_def Let_def remove_nth_def add_to_chunk_def
        PutMetricDataAsync_def del: push_contexts.simps(2))
qed

lemma answer_without_executor:
  assumes "\<not> mc_has_executor s" "i < length (mc_sent s)" "fst (mc_sent s ! i) \<noteq> []"
  shows "metric_step L s (Answers i outcome scheduled) = Inl UndefinedBehaviour"
  using assms by (cases "fst (mc_sent s ! i)") (simp_all add: OnPutMetricDataAsyncCallback_def Let_def)

end
