(* ===== verification/Public_Key_Client.thy ===== *)
theory Public_Key_Client
  imports Error_Codes
begin

text \<open>
  The client that lists public keys: cc/cpio/client_providers/public_key_client_provider/src/public_key_client_provider.cc and
  public_key_client_utils.cc. All endpoints are asked, and the first good answer finishes the context. Callbacks can be interrupted between
  their look at the flag and what they do to it or to the counter. The JSON library and the calendar time of a date are parameters.
\<close>

section \<open>Answers\<close>

definition SC_PUBLIC_KEY_CLIENT_PROVIDER_PUBLIC_KEYS_FETCH_FAILED :: StatusCode where
  "SC_PUBLIC_KEY_CLIENT_PROVIDER_PUBLIC_KEYS_FETCH_FAILED = MakeErrorCode 0x0219 0x0001"
definition SC_PUBLIC_KEY_CLIENT_PROVIDER_EXPIRED_TIME_FETCH_FAILED :: StatusCode where
  "SC_PUBLIC_KEY_CLIENT_PROVIDER_EXPIRED_TIME_FETCH_FAILED = MakeErrorCode 0x0219 0x0002"
definition SC_PUBLIC_KEY_CLIENT_PROVIDER_INVALID_CONFIG_OPTIONS :: StatusCode where
  "SC_PUBLIC_KEY_CLIENT_PROVIDER_INVALID_CONFIG_OPTIONS = MakeErrorCode 0x0219 0x0003"
definition SC_PUBLIC_KEY_CLIENT_PROVIDER_HTTP_CLIENT_REQUIRED :: StatusCode where
  "SC_PUBLIC_KEY_CLIENT_PROVIDER_HTTP_CLIENT_REQUIRED = MakeErrorCode 0x0219 0x0004"
definition SC_PUBLIC_KEY_CLIENT_PROVIDER_ALL_URIS_REQUEST_PERFORM_FAILED :: StatusCode where
  "SC_PUBLIC_KEY_CLIENT_PROVIDER_ALL_URIS_REQUEST_PERFORM_FAILED = MakeErrorCode 0x0219 0x0005"

text \<open>A parsed JSON text; the library gives the parsed text or throws, and a date in seconds, negative if there is none.\<close>

datatype json = JString string | JArray "json list" | JObject "(string \<times> json) list" | JNull | JScalar

record key_lib =
  kl_parse :: "string \<Rightarrow> json option"
  kl_mktime :: "string \<Rightarrow> int"

text \<open>Every occurrence of a text removed, from the left; and \<open>stoi\<close>: blanks, a sign and digits, the rest is not looked at.\<close>

function remove_text :: "string \<Rightarrow> string \<Rightarrow> string" where
  "remove_text pat [] = []"
| "remove_text pat (c # cs) =
     (if pat \<noteq> [] \<and> take (length pat) (c # cs) = pat then remove_text pat (drop (length pat) (c # cs)) else c # remove_text pat cs)"
  by pat_completeness auto

termination
  by (relation "measure (\<lambda>(pat, s). length s)") (auto simp: neq_Nil_conv)

definition digit_value :: "char \<Rightarrow> int" where
  "digit_value c = of_char c - 48"

definition is_digit :: "char \<Rightarrow> bool" where
  "is_digit c \<longleftrightarrow> 0 \<le> digit_value c \<and> digit_value c \<le> 9"

definition is_blank :: "char \<Rightarrow> bool" where
  "is_blank c \<longleftrightarrow> c = CHR '' '' \<or> (9 \<le> (of_char c :: int) \<and> (of_char c :: int) \<le> 13)"

definition stoi :: "string \<Rightarrow> int option" where
  "stoi s =
     (let s1 = dropWhile is_blank s;
          negative = (s1 \<noteq> [] \<and> hd s1 = CHR ''-'');
          s2 = (if s1 \<noteq> [] \<and> (hd s1 = CHR ''-'' \<or> hd s1 = CHR ''+'') then tl s1 else s1);
          digits = takeWhile is_digit s2;
          n = foldl (\<lambda>acc c. acc * 10 + digit_value c) 0 digits;
          v = (if negative then - n else n)
      in if digits = [] \<or> v < - (2 ^ 31) \<or> v > 2 ^ 31 - 1 then None else Some v)"

definition ParseExpiredTimeFromHeaders :: "key_lib \<Rightarrow> (string \<times> string) list \<Rightarrow> ExecutionResult \<times> u64 option" where
  "ParseExpiredTimeFromHeaders L headers =
     (let failed = (FailureExecutionResult SC_PUBLIC_KEY_CLIENT_PROVIDER_EXPIRED_TIME_FETCH_FAILED, None)
      in case (map_of headers ''date'', map_of headers ''cache-control'') of
           (Some created_date, Some cache_control) \<Rightarrow>
             let max_age = remove_text ''max-age='' cache_control; mt_time = kl_mktime L created_date
             in if mt_time < 0 then failed
                else (case stoi max_age of None \<Rightarrow> failed | Some age \<Rightarrow> (SuccessExecutionResult, Some (of_int (mt_time + age))))
         | _ \<Rightarrow> failed)"

text \<open>
  \<open>find\<close> of anything that is no object finds nothing; a member that is no string cannot be converted to one; and only an
  array has elements by number, though other values have a size.
\<close>

fun json_find :: "json \<Rightarrow> string \<Rightarrow> json option" where
  "json_find (JObject members) k = map_of members k"
| "json_find _ k = None"

fun json_string :: "json \<Rightarrow> cpp_fault + string" where
  "json_string (JString s) = Inr s"
| "json_string _ = Inl ThrowsException"

fun json_elements :: "json \<Rightarrow> cpp_fault + json list" where
  "json_elements (JArray js) = Inr js"
| "json_elements JNull = Inr []"
| "json_elements (JObject members) = (if members = [] then Inr [] else Inl ThrowsException)"
| "json_elements _ = Inl ThrowsException"

type_synonym PublicKey = "string \<times> string"

fun parse_keys :: "json list \<Rightarrow> cpp_fault + (ExecutionResult \<times> PublicKey list)" where
  "parse_keys [] = Inr (SuccessExecutionResult, [])"
| "parse_keys (j # js) =
     (let failed = FailureExecutionResult SC_PUBLIC_KEY_CLIENT_PROVIDER_PUBLIC_KEYS_FETCH_FAILED
      in case json_find j ''id'' of
           None \<Rightarrow> Inr (failed, [])
         | Some i \<Rightarrow> bindE (json_string i) (\<lambda>key_id.
             case json_find j ''key'' of
               None \<Rightarrow> Inr (failed, [])
             | Some k \<Rightarrow> bindE (json_string k) (\<lambda>public_key. bindE (parse_keys js) (\<lambda>(r, keys).
                 Inr (r, (key_id, public_key) # keys)))))"

definition ParsePublicKeysFromBody :: "key_lib \<Rightarrow> string \<Rightarrow> cpp_fault + (ExecutionResult \<times> PublicKey list)" where
  "ParsePublicKeysFromBody L body =
     (case kl_parse L body of
        None \<Rightarrow> Inl ThrowsException
      | Some json_response \<Rightarrow>
          (case json_find json_response ''keys'' of
             None \<Rightarrow> Inr (FailureExecutionResult SC_PUBLIC_KEY_CLIENT_PROVIDER_PUBLIC_KEYS_FETCH_FAILED, [])
           | Some json_keys \<Rightarrow> bindE (json_elements json_keys) parse_keys))"

section \<open>Listing\<close>

text \<open>
  The answer to a request. The pointers to the response, to its headers and to the bytes of its body may be null.
\<close>

record http_response =
  hr_headers :: "(string \<times> string) list option"
  hr_body :: "string option"

record http_answer =
  ha_result :: ExecutionResult
  ha_response :: "http_response option"

text \<open>
  A listing: the endpoints still to be asked, each with what the HTTP client returns and how often it will call back, whether one took the request, the
  shared flag and counter, the callbacks that are still to come, those that found the flag unset, what the operation returned, and how
  the context was finished.
\<close>

record public_keys =
  pk_left :: "(ExecutionResult \<times> nat) list"
  pk_accepted :: bool
  pk_got_success_result :: bool
  pk_unfinished_counter :: size_t
  pk_waiting :: nat
  pk_entered :: "http_answer list"
  pk_returned :: "ExecutionResult option"
  pk_finished :: "(ExecutionResult \<times> (u64 \<times> PublicKey list) option) list"

definition PublicKeyClientProvider_Init :: "nat option \<Rightarrow> bool \<Rightarrow> ExecutionResult" where
  "PublicKeyClientProvider_Init endpoints has_http_client =
     (if endpoints = None \<or> endpoints = Some 0 then FailureExecutionResult SC_PUBLIC_KEY_CLIENT_PROVIDER_INVALID_CONFIG_OPTIONS
      else if \<not> has_http_client then FailureExecutionResult SC_PUBLIC_KEY_CLIENT_PROVIDER_HTTP_CLIENT_REQUIRED
      else SuccessExecutionResult)"

definition ListPublicKeys :: "(ExecutionResult \<times> nat) list \<Rightarrow> public_keys" where
  "ListPublicKeys endpoints =
     \<lparr>pk_left = endpoints, pk_accepted = False, pk_got_success_result = False, pk_unfinished_counter = of_nat (length endpoints), pk_waiting = 0,
      pk_entered = [], pk_returned = None, pk_finished = []\<rparr>"

definition ListPublicKeys_perform :: "ExecutionResult \<Rightarrow> nat \<Rightarrow> public_keys \<Rightarrow> public_keys" where
  "ListPublicKeys_perform execution_result callbacks s =
     (let s1 = s\<lparr>pk_waiting := pk_waiting s + callbacks\<rparr>
      in if Successful execution_result then s1\<lparr>pk_accepted := True\<rparr> else s1)"

definition ListPublicKeys_return :: "public_keys \<Rightarrow> public_keys" where
  "ListPublicKeys_return s =
     (if pk_accepted s then s\<lparr>pk_returned := Some SuccessExecutionResult\<rparr>
      else let r = FailureExecutionResult SC_PUBLIC_KEY_CLIENT_PROVIDER_ALL_URIS_REQUEST_PERFORM_FAILED
           in s\<lparr>pk_finished := pk_finished s @ [(r, None)], pk_returned := Some r\<rparr>)"

definition ExecutionResultCheckingHelper :: "ExecutionResult \<Rightarrow> public_keys \<Rightarrow> public_keys" where
  "ExecutionResultCheckingHelper r s =
     (let previous_unfinished = pk_unfinished_counter s; s1 = s\<lparr>pk_unfinished_counter := previous_unfinished - 1\<rparr>
      in if previous_unfinished = 1 then s1\<lparr>pk_finished := pk_finished s1 @ [(r, None)]\<rparr> else s1)"

definition OnPerformRequestCallback_enter :: "http_answer \<Rightarrow> public_keys \<Rightarrow> public_keys" where
  "OnPerformRequestCallback_enter answer s = (if pk_got_success_result s then s else s\<lparr>pk_entered := pk_entered s @ [answer]\<rparr>)"

text \<open>What a pointer points to.\<close>

definition deref :: "'a option \<Rightarrow> cpp_fault + 'a" where
  "deref pointer = (case pointer of None \<Rightarrow> Inl UndefinedBehaviour | Some x \<Rightarrow> Inr x)"

definition OnPerformRequestCallback :: "key_lib \<Rightarrow> http_answer \<Rightarrow> public_keys \<Rightarrow> cpp_fault + public_keys" where
  "OnPerformRequestCallback L answer s =
     (if \<not> Successful (ha_result answer) then Inr (ExecutionResultCheckingHelper (ha_result answer) s)
      else bindE (deref (ha_response answer)) (\<lambda>response. bindE (deref (hr_headers response)) (\<lambda>headers.
        case ParseExpiredTimeFromHeaders L headers of
          (r, None) \<Rightarrow> Inr (ExecutionResultCheckingHelper r s)
        | (r, Some expired_time_in_s) \<Rightarrow>
            bindE (deref (hr_body response)) (\<lambda>body. bindE (ParsePublicKeysFromBody L body) (\<lambda>(r1, keys).
              if \<not> Successful r1 then Inr (ExecutionResultCheckingHelper r1 s)
              else if pk_got_success_result s then Inr s
              else Inr (s\<lparr>pk_got_success_result := True,
                pk_finished := pk_finished s @ [(SuccessExecutionResult, Some (expired_time_in_s, keys))]\<rparr>))))))"

text \<open>
  The events: the next endpoint is asked, the operation returns, a callback starts, and the \<open>i\<close>-th
  callback that found the flag unset goes on.
\<close>

datatype key_event = Performs | Returns | Enters http_answer | Proceeds nat

fun key_step :: "key_lib \<Rightarrow> public_keys \<Rightarrow> key_event \<Rightarrow> cpp_fault + public_keys" where
  "key_step L s Performs =
     (case pk_left s of
        [] \<Rightarrow> Inr s
      | (execution_result, callbacks) # left \<Rightarrow> Inr (ListPublicKeys_perform execution_result callbacks (s\<lparr>pk_left := left\<rparr>)))"
| "key_step L s Returns = Inr (if pk_left s = [] \<and> pk_returned s = None then ListPublicKeys_return s else s)"
| "key_step L s (Enters answer) =
     Inr (if pk_waiting s > 0 then OnPerformRequestCallback_enter answer (s\<lparr>pk_waiting := pk_waiting s - 1\<rparr>) else s)"
| "key_step L s (Proceeds i) =
     (if i < length (pk_entered s)
      then OnPerformRequestCallback L (pk_entered s ! i) (s\<lparr>pk_entered := take i (pk_entered s) @ drop (Suc i) (pk_entered s)\<rparr>)
      else Inr s)"

fun key_run :: "key_lib \<Rightarrow> public_keys \<Rightarrow> key_event list \<Rightarrow> cpp_fault + public_keys" where
  "key_run L s [] = Inr s"
| "key_run L s (e # es) = bindE (key_step L s e) (\<lambda>s1. key_run L s1 es)"

section \<open>Every run\<close>

text \<open>
  What an answer is worth: keys and the time they expire, if it is good; nothing, if the code can tell that it is not.
  An answer fits if there is a response with headers and a body that can be parsed as JSON, with strings where strings are expected.
\<close>

definition answer_keys :: "key_lib \<Rightarrow> (string \<times> string) list \<Rightarrow> string \<Rightarrow> cpp_fault + (u64 \<times> PublicKey list) option" where
  "answer_keys L headers body =
     bindE (ParsePublicKeysFromBody L body) (\<lambda>(r, keys).
       Inr (case snd (ParseExpiredTimeFromHeaders L headers) of
              None \<Rightarrow> None
            | Some expired_time_in_s \<Rightarrow> if Successful r then Some (expired_time_in_s, keys) else None))"

definition answer_worth :: "key_lib \<Rightarrow> http_answer \<Rightarrow> cpp_fault + (u64 \<times> PublicKey list) option" where
  "answer_worth L answer =
     (if \<not> Successful (ha_result answer) then Inr None
      else bindE (deref (ha_response answer)) (\<lambda>response. bindE (deref (hr_headers response)) (\<lambda>headers.
        bindE (deref (hr_body response)) (answer_keys L headers))))"

fun key_fits :: "key_lib \<Rightarrow> key_event \<Rightarrow> bool" where
  "key_fits L (Enters answer) = (\<not> isl (answer_worth L answer))"
| "key_fits L _ = True"

text \<open>
  The HTTP client calls back at most once for a request. It may do so for a request it refuses, if it takes another one.
\<close>

definition http_fits :: "(ExecutionResult \<times> nat) list \<Rightarrow> bool" where
  "http_fits endpoints \<longleftrightarrow> list_all (\<lambda>(r, callbacks). callbacks \<le> 1) endpoints \<and>
     (list_ex (\<lambda>(r, callbacks). Successful r) endpoints \<or> list_all (\<lambda>(r, callbacks). callbacks = 0) endpoints)"

lemma callback_worth:
  assumes "answer_worth L answer = Inr worth"
  shows "\<exists>r. OnPerformRequestCallback L answer s =
     Inr (case worth of
            None \<Rightarrow> ExecutionResultCheckingHelper r s
          | Some x \<Rightarrow> if pk_got_success_result s then s
                      else s\<lparr>pk_got_success_result := True, pk_finished := pk_finished s @ [(SuccessExecutionResult, Some x)]\<rparr>)"
proof (cases "Successful (ha_result answer)")
  case True
  then obtain response headers body where r: "ha_response answer = Some response" "hr_headers response = Some headers" "hr_body response = Some body"
    using assms by (auto simp: answer_worth_def deref_def bindE_Inr_iff split: option.splits)
  then have "answer_keys L headers body = Inr worth" using assms True by (simp add: answer_worth_def deref_def)
  then obtain r1 keys where keys: "ParsePublicKeysFromBody L body = Inr (r1, keys)"
    "worth = (case snd (ParseExpiredTimeFromHeaders L headers) of None \<Rightarrow> None
       | Some expired_time_in_s \<Rightarrow> if Successful r1 then Some (expired_time_in_s, keys) else None)"
    by (auto simp: answer_keys_def bindE_Inr_iff)
  obtain r0 time where headers: "ParseExpiredTimeFromHeaders L headers = (r0, time)" by fastforce
  show ?thesis
    using True r keys headers by (cases time) (auto simp: OnPerformRequestCallback_def deref_def)
qed (use assms in \<open>auto simp: answer_worth_def OnPerformRequestCallback_def\<close>)

text \<open>
  Of the callbacks of the endpoints that were asked some are still to come, some have entered, some have failed, and some
  have ended because there is a success. The context has been finished for a success, for the last failure, or at the return.
\<close>

definition key_counts :: "key_lib \<Rightarrow> (ExecutionResult \<times> nat) list \<Rightarrow> (ExecutionResult \<times> nat) list \<Rightarrow> nat \<Rightarrow> nat \<Rightarrow> public_keys \<Rightarrow> bool" where
  "key_counts L endpoints asked failed ended s \<longleftrightarrow>
     endpoints = asked @ pk_left s \<and> pk_waiting s + length (pk_entered s) + failed + ended = sum_list (map snd asked) \<and>
     pk_unfinished_counter s = of_nat (length endpoints - failed) \<and>
     (pk_got_success_result s \<longleftrightarrow> ended > 0) \<and> (pk_accepted s \<longleftrightarrow> list_ex (\<lambda>(r, callbacks). Successful r) asked) \<and>
     (pk_returned s \<noteq> None \<longrightarrow> pk_left s = []) \<and>
     length (pk_finished s) = (if pk_got_success_result s then 1 else 0) + (if failed = length endpoints then 1 else 0) +
       (if pk_returned s \<noteq> None \<and> \<not> pk_accepted s then 1 else 0) \<and>
     (pk_got_success_result s \<longrightarrow> (\<exists>x. (SuccessExecutionResult, Some x) \<in> set (pk_finished s))) \<and>
     (\<forall>answer \<in> set (pk_entered s). \<not> isl (answer_worth L answer))"

definition key_inv :: "key_lib \<Rightarrow> (ExecutionResult \<times> nat) list \<Rightarrow> public_keys \<Rightarrow> bool" where
  "key_inv L endpoints s \<longleftrightarrow> (\<exists>asked failed ended. key_counts L endpoints asked failed ended s)"

lemma key_invI: "key_counts L endpoints asked failed ended s \<Longrightarrow> key_inv L endpoints s"
  by (auto simp: key_inv_def)

lemma counter_one:
  assumes "m < 2 ^ 64"
  shows "(of_nat m :: size_t) = 1 \<longleftrightarrow> m = 1"
proof
  assume "(of_nat m :: size_t) = 1"
  then have "unat (of_nat m :: size_t) = 1" by simp
  then show "m = 1" using assms by (simp add: unat_of_nat)
qed simp

lemma callbacks_bound:
  assumes "http_fits (asked @ left)"
  shows "sum_list (map snd asked) \<le> length asked"
proof -
  have "list_all (\<lambda>(r, callbacks). callbacks \<le> 1) asked" using assms by (simp add: http_fits_def)
  then show ?thesis by (induction asked) auto
qed

lemma helper_inv:
  assumes "key_inv L endpoints s" "pk_entered s = xs @ answer # ys" "http_fits endpoints" "length endpoints < 2 ^ 64"
  shows "key_inv L endpoints (ExecutionResultCheckingHelper r (s\<lparr>pk_entered := xs @ ys\<rparr>))"
proof -
  obtain asked failed ended where i: "key_counts L endpoints asked failed ended s" using assms(1) by (auto simp: key_inv_def)
  let ?n = "length endpoints"
  have "sum_list (map snd asked) \<le> ?n" using callbacks_bound [of asked "pk_left s"] i assms(3) by (simp add: key_counts_def)
  then have less: "failed < ?n" and counter: "pk_unfinished_counter s = of_nat (?n - failed)" using i assms(2) by (simp_all add: key_counts_def)
  have one: "pk_unfinished_counter s = 1 \<longleftrightarrow> Suc failed = ?n"
    unfolding counter using counter_one [of "?n - failed"] assms(4) less by auto
  have "of_nat (?n - failed) - 1 = (of_nat (?n - Suc failed) :: size_t)" using less by (simp add: of_nat_diff)
  then have "key_counts L endpoints asked (Suc failed) ended (ExecutionResultCheckingHelper r (s\<lparr>pk_entered := xs @ ys\<rparr>))"
    using i less one assms(2) by (auto simp: key_counts_def ExecutionResultCheckingHelper_def Let_def)
  then show ?thesis by (rule key_invI)
qed

lemma ended_inv:
  assumes "key_inv L endpoints s" "pk_entered s = xs @ answer # ys"
  shows "pk_got_success_result s \<Longrightarrow> key_inv L endpoints (s\<lparr>pk_entered := xs @ ys\<rparr>)"
    "\<not> pk_got_success_result s \<Longrightarrow>
      key_inv L endpoints (s\<lparr>pk_entered := xs @ ys, pk_got_success_result := True, pk_finished := pk_finished s @ [(SuccessExecutionResult, Some x)]\<rparr>)"
proof -
  obtain asked failed ended where i: "key_counts L endpoints asked failed ended s" using assms(1) by (auto simp: key_inv_def)
  show "key_inv L endpoints (s\<lparr>pk_entered := xs @ ys\<rparr>)" if "pk_got_success_result s"
    by (rule key_invI [of _ _ asked failed "Suc ended"]) (use i assms(2) that in \<open>simp add: key_counts_def\<close>)
  show "key_inv L endpoints (s\<lparr>pk_entered := xs @ ys, pk_got_success_result := True, pk_finished := pk_finished s @ [(SuccessExecutionResult, Some x)]\<rparr>)"
    if "\<not> pk_got_success_result s"
    by (rule key_invI [of _ _ asked failed "Suc ended"], cases x) (use i assms(2) that in \<open>auto simp: key_counts_def\<close>)
qed

lemma proceed_inv:
  assumes "key_inv L endpoints s" "http_fits endpoints" "length endpoints < 2 ^ 64"
  shows "\<exists>s'. key_step L s (Proceeds i) = Inr s' \<and> key_inv L endpoints s'"
proof (cases "i < length (pk_entered s)")
  case True
  let ?answer = "pk_entered s ! i" and ?xs = "take i (pk_entered s)" and ?ys = "drop (Suc i) (pk_entered s)"
  have split: "pk_entered s = ?xs @ ?answer # ?ys" using True by (rule id_take_nth_drop)
  note helper = helper_inv [OF assms(1) split assms(2,3)] and ended = ended_inv [OF assms(1) split]
  have "\<not> isl (answer_worth L ?answer)" using assms(1) True by (auto simp: key_inv_def key_counts_def)
  then obtain worth where worth: "answer_worth L ?answer = Inr worth" by (cases "answer_worth L ?answer") auto
  then show ?thesis
    using True helper ended callback_worth [OF worth, of "s\<lparr>pk_entered := ?xs @ ?ys\<rparr>"]
    by (cases worth; cases "pk_got_success_result s") auto
qed (use assms in simp)

lemma step_key_inv:
  assumes "key_inv L endpoints s" "key_fits L e" "http_fits endpoints" "length endpoints < 2 ^ 64"
  shows "\<exists>s'. key_step L s e = Inr s' \<and> key_inv L endpoints s'"
proof -
  obtain asked failed ended where i: "key_counts L endpoints asked failed ended s" using assms(1) by (auto simp: key_inv_def)
  show ?thesis
  proof (cases e)
    case Performs
    show ?thesis
    proof (cases "pk_left s")
      case (Cons x left)
      obtain r callbacks where x: "x = (r, callbacks)" by fastforce
      have "key_counts L endpoints (asked @ [x]) failed ended (ListPublicKeys_perform r callbacks (s\<lparr>pk_left := left\<rparr>))"
        using i Cons x by (auto simp: key_counts_def ListPublicKeys_perform_def Let_def)
      then show ?thesis using Performs Cons x key_invI by auto
    qed (use Performs assms in simp)
  next
    case Returns
    show ?thesis
    proof (cases "pk_left s = [] \<and> pk_returned s = None")
      case True
      have "key_counts L endpoints asked failed ended (ListPublicKeys_return s)"
        using True i by (auto simp: key_counts_def ListPublicKeys_return_def Let_def)
      then show ?thesis using Returns True key_invI by auto
    qed (use Returns assms in auto)
  next
    case (Enters answer)
    show ?thesis
    proof (cases "pk_waiting s > 0")
      case True
      have "key_counts L endpoints asked failed (if pk_got_success_result s then Suc ended else ended)
          (OnPerformRequestCallback_enter answer (s\<lparr>pk_waiting := pk_waiting s - 1\<rparr>))"
        using True i assms(2) Enters by (auto simp: key_counts_def OnPerformRequestCallback_enter_def)
      then show ?thesis using Enters True key_invI by auto
    qed (use Enters assms in simp)
  next
    case (Proceeds i)
    then show ?thesis using proceed_inv [OF assms(1,3,4)] by blast
  qed
qed

lemma run_key_inv:
  assumes "key_inv L endpoints s" "list_all (key_fits L) es" "http_fits endpoints" "length endpoints < 2 ^ 64"
  shows "\<exists>s'. key_run L s es = Inr s' \<and> key_inv L endpoints s'"
  using assms
proof (induction es arbitrary: s)
  case (Cons e es)
  obtain s1 where s1: "key_step L s e = Inr s1" "key_inv L endpoints s1" using step_key_inv [OF Cons.prems(1) _ Cons.prems(3,4), of e] Cons.prems(2) by auto
  then show ?case using Cons.IH [OF s1(2)] Cons.prems(2-4) by simp
qed simp

lemma start_key_inv: "endpoints \<noteq> [] \<Longrightarrow> key_inv L endpoints (ListPublicKeys endpoints)"
  by (rule key_invI [of _ _ "[]" 0 0]) (simp add: key_counts_def ListPublicKeys_def)

text \<open>What the invariant gives.\<close>

lemma key_inv_once:
  assumes "key_inv L endpoints s" "http_fits endpoints" "endpoints \<noteq> []"
  shows "length (pk_finished s) \<le> 1"
    "pk_got_success_result s \<Longrightarrow> \<exists>x. pk_finished s = [(SuccessExecutionResult, Some x)]"
    "pk_entered s \<noteq> [] \<Longrightarrow> pk_finished s \<noteq> [] \<Longrightarrow> pk_got_success_result s"
    "list_all (\<lambda>(r, callbacks). callbacks = 1) endpoints \<Longrightarrow> pk_left s = [] \<Longrightarrow> pk_waiting s = 0 \<Longrightarrow> pk_entered s = [] \<Longrightarrow>
      length (pk_finished s) = 1"
proof -
  obtain asked failed ended where i: "key_counts L endpoints asked failed ended s" using assms(1) by (auto simp: key_inv_def)
  define total where "total = sum_list (map snd asked)"
  have parts: "pk_waiting s + length (pk_entered s) + failed + ended = total" "pk_got_success_result s \<longleftrightarrow> ended > 0"
    "length (pk_finished s) = (if pk_got_success_result s then 1 else 0) + (if failed = length endpoints then 1 else 0) +
       (if pk_returned s \<noteq> None \<and> \<not> pk_accepted s then 1 else 0)"
    using i by (simp_all add: key_counts_def total_def)
  have bound: "total \<le> length endpoints" using callbacks_bound [of asked "pk_left s"] i assms(2) by (simp add: key_counts_def total_def)
  have none: "total = 0" if "pk_returned s \<noteq> None" "\<not> pk_accepted s"
  proof -
    have "asked = endpoints" using i that by (simp add: key_counts_def)
    then have "list_all (\<lambda>(r, callbacks). callbacks = 0) asked" using i that assms(2) by (auto simp: key_counts_def http_fits_def)
    then show ?thesis unfolding total_def by (induction asked) auto
  qed
  have some: "length endpoints > 0" using assms(3) by simp
  show one: "length (pk_finished s) \<le> 1" using parts bound none some by (auto split: if_splits)
  show "\<exists>x. pk_finished s = [(SuccessExecutionResult, Some x)]" if "pk_got_success_result s"
    using i that one by (cases "pk_finished s") (auto simp: key_counts_def)
  show "pk_got_success_result s" if "pk_entered s \<noteq> []" "pk_finished s \<noteq> []"
    using parts that bound none by (auto split: if_splits)
  show "length (pk_finished s) = 1"
    if "list_all (\<lambda>(r, callbacks). callbacks = 1) endpoints" "pk_left s = []" "pk_waiting s = 0" "pk_entered s = []"
  proof -
    have "sum_list (map snd endpoints) = length endpoints" using that(1) by (induction endpoints) auto
    then have "failed + ended = length endpoints" using i that by (simp add: key_counts_def)
    then show ?thesis using parts none some one that(3,4) by (auto split: if_splits)
  qed
qed

lemma helper_grows: "\<exists>more. pk_finished (ExecutionResultCheckingHelper r s) = pk_finished s @ more"
  by (simp add: ExecutionResultCheckingHelper_def Let_def)

lemma callback_grows:
  assumes "OnPerformRequestCallback L answer s = Inr s'"
  shows "\<exists>more. pk_finished s' = pk_finished s @ more"
proof (cases "Successful (ha_result answer)")
  case True
  then obtain response headers where h: "deref (ha_response answer) = Inr response" "deref (hr_headers response) = Inr headers"
    using assms by (auto simp: OnPerformRequestCallback_def bindE_Inr_iff)
  obtain r time where time: "ParseExpiredTimeFromHeaders L headers = (r, time)" by fastforce
  show ?thesis
  proof (cases time)
    case None
    then show ?thesis using assms True h time helper_grows by (auto simp: OnPerformRequestCallback_def)
  next
    case (Some t)
    obtain body r1 keys where "deref (hr_body response) = Inr body" "ParsePublicKeysFromBody L body = Inr (r1, keys)"
      using assms True h time Some by (auto simp: OnPerformRequestCallback_def bindE_Inr_iff)
    then show ?thesis using assms True h time Some helper_grows by (auto simp: OnPerformRequestCallback_def split: if_splits)
  qed
qed (use assms helper_grows in \<open>auto simp: OnPerformRequestCallback_def\<close>)

lemma step_finished_grows: "key_step L s e = Inr s' \<Longrightarrow> \<exists>more. pk_finished s' = pk_finished s @ more"
proof (cases e)
  case (Proceeds i)
  assume "key_step L s e = Inr s'"
  then show ?thesis using Proceeds callback_grows by (fastforce split: if_splits)
qed (auto simp: ListPublicKeys_perform_def ListPublicKeys_return_def OnPerformRequestCallback_enter_def Let_def split: list.splits if_splits)

lemma run_finished_grows: "key_run L s es = Inr s' \<Longrightarrow> \<exists>more. pk_finished s' = pk_finished s @ more"
proof (induction es arbitrary: s)
  case (Cons e es)
  then obtain s1 where "key_step L s e = Inr s1" "key_run L s1 es = Inr s'" by (auto simp: bindE_Inr_iff)
  then show ?case using Cons.IH [of s1] step_finished_grows [of L s e s1] by auto
qed simp

lemma key_run_append: "key_run L s (es @ es') = bindE (key_run L s es) (\<lambda>s1. key_run L s1 es')"
  by (induction es arbitrary: s) (simp_all add: bindE_assoc)

section \<open>Properties\<close>

text \<open>
  C19: However the answers of the endpoints and their callbacks interleave, a listing of public keys never faults on answers that
  have a response that can be parsed, and its context is finished at most once. When a good answer goes on that found no
  other success, the listing has been finished with success, by it and with its keys if it had not been finished before. Once every endpoint has been asked and
  nothing is under way, the context has been finished exactly once if every request was called back. The HTTP client calls back at most once for a request,
  and not at all if it refuses all of them.
\<close>

theorem public_keys_finish_once:
  assumes "endpoints \<noteq> []" "length endpoints < 2 ^ 64" "http_fits endpoints" "list_all (key_fits L) (before @ Proceeds i # after)"
  shows "\<exists>s1 s. key_run L (ListPublicKeys endpoints) before = Inr s1 \<and>
    key_run L (ListPublicKeys endpoints) (before @ Proceeds i # after) = Inr s \<and> length (pk_finished s) \<le> 1 \<and>
    (\<forall>x. i < length (pk_entered s1) \<and> answer_worth L (pk_entered s1 ! i) = Inr (Some x) \<longrightarrow>
      (\<exists>y. pk_finished s = [(SuccessExecutionResult, Some y)] \<and> (pk_finished s1 = [] \<longrightarrow> y = x))) \<and>
    (list_all (\<lambda>(r, callbacks). callbacks = 1) endpoints \<and> pk_left s = [] \<and> pk_waiting s = 0 \<and> pk_entered s = [] \<longrightarrow>
      length (pk_finished s) = 1)"
proof -
  note start = start_key_inv [OF assms(1), of L]
  obtain s1 where s1: "key_run L (ListPublicKeys endpoints) before = Inr s1" "key_inv L endpoints s1"
    using run_key_inv [OF start _ assms(3,2), of before] assms(4) by auto
  obtain s2 where s2: "key_step L s1 (Proceeds i) = Inr s2" "key_inv L endpoints s2" using proceed_inv [OF s1(2) assms(3,2)] by blast
  obtain s where s: "key_run L s2 after = Inr s" "key_inv L endpoints s" using run_key_inv [OF s2(2) _ assms(3,2), of after] assms(4) by auto
  have run: "key_run L (ListPublicKeys endpoints) (before @ Proceeds i # after) = Inr s" using s1(1) s2(1) s(1) by (simp add: key_run_append)
  obtain more where more: "pk_finished s = pk_finished s2 @ more" using run_finished_grows [OF s(1)] by blast
  have "\<exists>y. pk_finished s = [(SuccessExecutionResult, Some y)] \<and> (pk_finished s1 = [] \<longrightarrow> y = x)"
    if "i < length (pk_entered s1)" "answer_worth L (pk_entered s1 ! i) = Inr (Some x)" for x
  proof -
    let ?s = "s1\<lparr>pk_entered := take i (pk_entered s1) @ drop (Suc i) (pk_entered s1)\<rparr>"
    have "pk_got_success_result s2" "pk_finished s1 = [] \<longrightarrow> (SuccessExecutionResult, Some x) \<in> set (pk_finished s2)"
      using callback_worth [OF that(2), of ?s] s2(1) that(1) key_inv_once(2) [OF s1(2) assms(3,1)] by (auto split: if_splits)
    then show ?thesis using key_inv_once(2) [OF s2(2) assms(3,1)] key_inv_once(1) [OF s(2) assms(3,1)] more by auto
  qed
  then show ?thesis using s1(1) run key_inv_once(1,4) [OF s(2) assms(3,1)] by (intro exI [of _ s1] exI [of _ s]) simp
qed

text \<open>A library for one body and dates of their length.\<close>

definition key_lib_example :: key_lib where
  "key_lib_example = \<lparr>kl_parse = \<lambda>body. if body = ''b'' then Some (JObject [(''keys'', JArray [JObject [(''id'', JString ''i''), (''key'', JString ''k'')]])]) else None,
     kl_mktime = \<lambda>date. int (length date)\<rparr>"

definition good_answer :: http_answer where
  "good_answer = \<lparr>ha_result = SuccessExecutionResult,
     ha_response = Some \<lparr>hr_headers = Some [(''date'', ''d''), (''cache-control'', ''max-age=60'')], hr_body = Some ''b''\<rparr>\<rparr>"

definition bad_answer :: http_answer where
  "bad_answer = \<lparr>ha_result = SuccessExecutionResult, ha_response = Some \<lparr>hr_headers = Some [], hr_body = Some ''b''\<rparr>\<rparr>"

text \<open>The second endpoint refuses the request and calls back.\<close>

theorem public_keys_finish_once_witness:
  "\<exists>s. key_run key_lib_example (ListPublicKeys [(SuccessExecutionResult, 1), (FailureExecutionResult SC_UNKNOWN, 1)])
      ([Performs, Enters good_answer, Performs, Returns, Enters bad_answer, Proceeds 1] @ Proceeds 0 # []) = Inr s \<and>
    pk_finished s = [(SuccessExecutionResult, Some (61, [(''i'', ''k'')]))]"
proof -
  let ?endpoints = "[(SuccessExecutionResult, 1), (FailureExecutionResult SC_UNKNOWN, 1)] :: (ExecutionResult \<times> nat) list"
  let ?before = "[Performs, Enters good_answer, Performs, Returns, Enters bad_answer, Proceeds 1]"
  have n: "?endpoints \<noteq> []" "length ?endpoints < 2 ^ 64" "http_fits ?endpoints" by (simp_all add: http_fits_def)
  have fits: "list_all (key_fits key_lib_example) (?before @ Proceeds 0 # [])" by code_simp
  define entered where "entered = key_run key_lib_example (ListPublicKeys ?endpoints) ?before"
  have "map_sum id (\<lambda>s. (length (pk_entered s), pk_finished s, answer_worth key_lib_example (pk_entered s ! 0))) entered =
      Inr (1, [], Inr (Some (61, [(''i'', ''k'')])))" unfolding entered_def by code_simp
  moreover obtain s1 s where "entered = Inr s1" "key_run key_lib_example (ListPublicKeys ?endpoints) (?before @ Proceeds 0 # []) = Inr s"
    "\<forall>x. 0 < length (pk_entered s1) \<and> answer_worth key_lib_example (pk_entered s1 ! 0) = Inr (Some x) \<longrightarrow>
      (\<exists>y. pk_finished s = [(SuccessExecutionResult, Some y)] \<and> (pk_finished s1 = [] \<longrightarrow> y = x))"
    using public_keys_finish_once [OF n fits] unfolding entered_def by (elim exE conjE)
  ultimately show ?thesis by (intro exI [of _ s]) (simp del: key_run.simps)
qed

text \<open>
  A request that was refused without a callback is never counted: when the other endpoint fails, the context is not finished although the operation
  succeeded. If all requests are refused and called back, the context is finished twice.
\<close>

lemma public_keys_unfinished:
  "map_sum id (\<lambda>s. (pk_left s, pk_waiting s, length (pk_entered s), map_option Successful (pk_returned s), length (pk_finished s)))
     (key_run key_lib_example (ListPublicKeys [(SuccessExecutionResult, 1), (FailureExecutionResult SC_UNKNOWN, 0)])
       [Performs, Performs, Returns, Enters bad_answer, Proceeds 0]) =
   Inr ([], 0, 0, Some True, 0)"
  by code_simp

lemma public_keys_finish_twice:
  assumes "\<not> Successful r" "\<not> Successful (ha_result answer)"
  shows "map_sum id (\<lambda>s. length (pk_finished s))
    (key_run L (ListPublicKeys [(r, 1)]) [Performs, Enters answer, Proceeds 0, Returns]) = Inr 2"
  using assms
  by (simp add: ListPublicKeys_def ListPublicKeys_perform_def ListPublicKeys_return_def OnPerformRequestCallback_enter_def
      OnPerformRequestCallback_def ExecutionResultCheckingHelper_def Let_def)

end
