(* ===== verification/Spec2Isabelle.thy ===== *)
theory Spec2Isabelle
  imports Lru_Cache Proxy_Bridge_Session Auto_Expiry_Map Async_Executor Serialization Wasm_Serdes Operation_Dispatcher
    Private_Key_Assembly Roma_Dispatcher_Correct Job_Correct Metric_Client_Correct Public_Key_Client
begin

text \<open>
  Verification of the C++ libraries of the repository (src/cc), which run privacy-preserving
  services in trusted execution environments: containers and executors shared by all services,
  a SOCKS5 proxy between an enclave and the network, the sandbox that runs customer code, and the
  clients for cloud services.

  \<^bold>\<open>How the code is modelled.\<close> Every operation of the source is a definition with the source's name,
  prefixed by its class where the name alone is ambiguous. A struct or class is a record, an
  enumeration a datatype, an integer a word of its width wherever it can wrap around. What the C++
  standard gives no meaning to, a failed assertion and an exception that leaves a function are
  values: an operation that can end so has the type \<open>cpp_fault + 'a\<close> (theory Prelude), and the
  properties say when it cannot. Threads and callbacks interleave as sequences of events: an event is
  the part of a thread between two points where another can get in, and the properties hold for every
  sequence of events their hypotheses allow; where an event stands for several steps of a thread that is not interrupted, the text of the
  property says so. Third-party code is an argument of the definitions, and a locale states what its
  documentation promises; each locale is interpreted on a concrete instance, on which the
  examples are evaluated. Logging is left out, except where a log statement reads what may be null.
  What the language leaves undefined but platforms may allow, taking a shared lock twice and writing into the reserved
  memory of a string, is a flag of the model.

  \<^bold>\<open>Foundations.\<close>
  \<^item> Prelude: machine types, faults and their sequencing, facts on words, lists and maps.
  \<^item> Execution_Result (public/core/interface/execution_result.h, public/core/src/execution_result.cc):
    the result every operation returns; conversion to and from protobuf loses nothing.
  \<^item> Error_Codes (core/interface/errors.h): packing and registry of error codes, found again with
    their message and HTTP status.
  \<^item> Containers: the promises of oneTBB's hash map and bounded queue and of Abseil's hash map.
    Concurrent_Containers (core/common/concurrent_queue, concurrent_map): the two classes around them
    refine a bounded first-in first-out list and a finite map; the locales result_queue and
    result_map are what the other components use.
  \<^item> Byte_Memory and Byte_Buffer: contracts on bytes in memory and on a byte buffer.

  \<^bold>\<open>Core.\<close>
  \<^item> Lru_Cache (core/common/lru_cache): refines the list of pairs, freshest first; a lookup of a missing key is a fault.
  \<^item> Uuid (core/common/uuid): the text form is read back. Serialization (core/common/serialization,
    core/interface/type_def.h): what is written into a buffer that has room is read back, nothing else
    changes, and an offset that wraps defeats the bounds check.
  \<^item> Single_Executor, Priority_Executor, Async_Executor (core/async_executor): one worker with two queues, one with
    a queue ordered by time, and the pools of both. Accepted tasks are executed in order and once or are still queued, none runs early
    or after its cancellation, no worker oversleeps, Stop drains unless a call overtakes it, round robin is fair, affinity is kept. The
    deadline of a worker is counted from the time its turn reads; the second look of \<open>wait_for\<close> at the clock is left out.
  \<^item> Auto_Expiry_Map (core/common/auto_expiry_concurrent_map): the garbage collector is never scheduled twice
    and waits for exactly the callbacks it counts, and is lost when the executor refuses it; entries whose eviction is disabled survive unless
    a late callback is about an entry that was erased.
  \<^item> Async_Context (core/interface/async_context.h, streaming_context.h): contexts and streams; pushes are split into
    their check and the enqueueing, and a consumer gets every accepted message in order. Operation_Dispatcher (core/common/operation_dispatcher): a dispatched operation
    ends exactly once after a bounded number of calls and before it expires, with exact back-off, if the target finishes what it accepts.
  \<^item> Base64 (core/utils/src/base64.cc): coding, decoding and padding invert each other.

  \<^bold>\<open>Proxy (aws/proxy/src).\<close> Proxy_Buffer models buffer.h and freelist.h at the level of blocks and
  pointers; Proxy_Buffer_Inv, Proxy_Vectors, Proxy_Buffer_Correct and Proxy_Buffer_Ops prove it against two lists of
  memory cells, and Byte_Buffer against a byte queue. Socks5 models socks5_state.cc and protocol.cc over that contract;
  Socks5_Correct shows that it parses the request grammar however the bytes are cut. Proxy_Bridge models
  proxy_bridge.cc; Proxy_Bridge_Correct and Proxy_Bridge_Session show for a whole session that no handler faults if there is an acceptor pool, that
  every byte is forwarded in order, that nothing stalls, and that memory is bounded.

  \<^bold>\<open>Sandbox (roma).\<close> Wasm_Serdes models the passing of strings and lists through the memory of a WASM
  module (roma/wasm/src): what is written is read back, with the exceptions named there. Roma_Dispatcher models the dispatcher and its pool of workers
  (roma/sandbox/dispatcher/src, worker_pool/src) over a worker that is what its RunCode does; Roma_Dispatcher_Correct shows that
  every state that is reached without interruptions of a dispatch or a task is well typed and counted, that accepted requests, batches and broadcasts are answered exactly
  once, and where threads that get in between break this.

  \<^bold>\<open>Cloud clients (cpio/client_providers).\<close> Private_Key_Client models the listing of private keys
  (private_key_client_provider/src) with its callbacks as events; Private_Key_Client_Correct shows that the context
  is finished exactly once unless a callback is interrupted or a provider finishes a call and refuses it, which finish it twice;
  Private_Key_Assembly shows that honest endpoints give back every secret in any order of their answers.
  Job_Items models the conversions between jobs, database items and queue messages of the job client
  (job_client_provider/src/job_client_utils.cc), Job_Client its seven operations with their callbacks, whose calls of the
  queue and the database wait for their answers in the state, so that operations interleave
  (job_client_provider.cc). Job_Client_Correct shows that contexts are finished once. Job_Table states what the database
  service promises (locale nosql_database) and specifies the operations on a plain table of jobs; Job_Refinement shows that
  operations that are not interrupted refine it; Job_Correct has the properties of runs and the faults of interrupted ones.
  Metric_Client models the client that records metrics in batches and pushes them to CloudWatch
  (metric_client_provider/src); Metric_Client_Correct shows what a push sends, that contexts are finished once in every
  interleaving of calls, timer, answers and stop, and how the client loses a call, blocks and fails. Public_Key_Client models the listing of public
  keys from several endpoints (public_key_client_provider/src) and shows that it is finished once, with success if an answer is good.

  \<^bold>\<open>Bounds and termination.\<close> Loops are structural recursions or have a termination proof. Fuel is
  used only where a loop of the source walks a linked list or parses input that shrinks (Proxy_Buffer, Socks5), and
  the properties show that it is never exhausted. Counters are words; where a property needs that one does
  not wrap, its hypothesis says so: the retry count of a job, for one, needs fewer than \<open>2 ^ 31\<close> operations.

  \<^bold>\<open>Not modelled.\<close> The clients of AWS and Google Cloud services other than the push of metrics to CloudWatch, the V8 engine and its worker,
  the sandboxed process, the HTTP clients, the acceptors, the session pool and the preload library of the proxy, the private key fetcher, the logger and the
  configuration providers consist of calls into libraries and the operating system whose behaviour is not in the repository; the
  wrappers that unpack \<open>Any\<close> messages and the message router only pass requests on; the Java code is a system of its own;
  deployment files, examples, benchmarks and mocks run nothing of the libraries.
\<close>


end
